(* ===== verification/Sct_Prelude.thy ===== *)
theory Sct_Prelude
  imports
    Main
    "HOL-Library.AList"
    "HOL-Library.Sublist"
    "HOL-Library.Char_ord"
    "HOL-Library.List_Lexorder"
    "HOL-Library.Product_Lexorder"
begin

text \<open>
  Shared vocabulary of the development: the parts of Python's \<^verbatim>\<open>str\<close>, \<^verbatim>\<open>list\<close> and \<^verbatim>\<open>dict\<close>
  that the modelled modules use, and the lemmas on lists and association lists that the
  component theories share.

  A Python string is a HOL \<^typ>\<open>string\<close>, a character standing for one code point below 256.
  A Python \<^verbatim>\<open>dict\<close> whose iteration order matters is an association list: \<open>AList.update\<close> keeps
  the position of an existing key and appends a new one, as Python does.  A Python set whose
  iteration order leaks into a result is enumerated by \<open>set_enum\<close>, in the order of an arbitrary
  ranking of its elements.
\<close>

named_theorems py_simps \<open>characteristic equations of the Python string and list operations\<close>

type_synonym 'v dict = "(string \<times> 'v) list"

section \<open>Lists\<close>

text \<open>\<^verbatim>\<open>list(set(xs))\<close>: no duplicates, in an order fixed only by the ranking \<open>rk\<close> of the elements.\<close>

definition set_enum :: "('a \<Rightarrow> nat) \<Rightarrow> 'a list \<Rightarrow> 'a list" where
  "set_enum rk xs = sort_key rk (remdups xs)"

lemma set_set_enum [simp]: "set (set_enum rk xs) = set xs"
  by (simp add: set_enum_def)

lemma distinct_set_enum [simp]: "distinct (set_enum rk xs)"
  by (simp add: set_enum_def)

lemma set_enum_Nil [simp]: "set_enum rk xs = [] \<longleftrightarrow> xs = []"
  by (metis set_empty set_set_enum)

text \<open>Appending an element that is not there yet: \<^verbatim>\<open>if x not in xs: xs.append(x)\<close>.\<close>

definition append_new :: "'a \<Rightarrow> 'a list \<Rightarrow> 'a list" where
  "append_new x xs = (if x \<in> set xs then xs else xs @ [x])"

lemma set_append_new [simp]: "set (append_new x xs) = insert x (set xs)"
  by (auto simp: append_new_def)

lemma distinct_append_new [simp]: "distinct xs \<Longrightarrow> distinct (append_new x xs)"
  by (auto simp: append_new_def)

lemma set_foldl_append_new [simp]: "set (foldl (\<lambda>a x. append_new x a) xs ys) = set xs \<union> set ys"
  by (induction ys arbitrary: xs) auto

lemma distinct_foldl_append_new [simp]: "distinct xs \<Longrightarrow> distinct (foldl (\<lambda>a x. append_new x a) xs ys)"
  by (induction ys arbitrary: xs) auto

lemma prefix_foldl_append_new: "prefix xs (foldl (\<lambda>a x. append_new x a) xs ys)"
proof (induction ys arbitrary: xs)
  case (Cons y ys)
  have "prefix xs (append_new y xs)" by (simp add: append_new_def)
  with Cons[of "append_new y xs"] show ?case by (simp add: prefix_order.order_trans)
qed simp

section \<open>Association lists\<close>

lemma map_of_AList_update [simp]: "map_of (AList.update k v al) = (map_of al)(k \<mapsto> v)"
  by (rule AList.update_conv')

lemma map_of_AList_delete [simp]: "map_of (AList.delete k al) = (map_of al)(k := None)"
  by (rule AList.delete_conv')

lemma map_of_filter_snd:
  assumes "distinct (map fst al)"
  shows "map_of (filter (\<lambda>p. P (snd p)) al) k =
    (case map_of al k of Some v \<Rightarrow> if P v then Some v else None | None \<Rightarrow> None)"
  using assms
proof (induction al)
  case Nil
  then show ?case by simp
next
  case (Cons p al)
  obtain k' v where p: "p = (k', v)" by (cases p)
  from Cons.prems p have "k' \<notin> fst ` set al" by auto
  then have "map_of al k' = None" by (simp add: map_of_eq_None_iff)
  with Cons p show ?case by auto
qed

lemma distinct_keys_update [simp]:
  "distinct (map fst al) \<Longrightarrow> distinct (map fst (AList.update k v al))"
  by (rule AList.distinct_update)

lemma distinct_keys_delete [simp]:
  "distinct (map fst al) \<Longrightarrow> distinct (map fst (AList.delete k al))"
  by (simp add: AList.delete_eq distinct_map_filter)

lemma distinct_keys_filter [simp]:
  "distinct (map fst al) \<Longrightarrow> distinct (map fst (filter P al))"
  by (rule distinct_map_filter)

text \<open>\<^verbatim>\<open>d.update(e)\<close>\<close>

definition dict_update :: "'v dict \<Rightarrow> 'v dict \<Rightarrow> 'v dict" where
  "dict_update d e = foldl (\<lambda>d (k, v). AList.update k v d) d e"

lemma map_of_dict_update: "map_of (dict_update d e) k = (case map_of (rev e) k of Some v \<Rightarrow> Some v | None \<Rightarrow> map_of d k)"
proof (induction e arbitrary: d)
  case (Cons p e)
  obtain a v where p: "p = (a, v)" by fastforce
  have "dict_update d (p # e) = dict_update (AList.update a v d) e" by (simp add: dict_update_def p)
  with Cons[of "AList.update a v d"] show ?case by (auto simp: p map_of_append split: option.splits)
qed (simp add: dict_update_def)

lemma distinct_dict_update: "distinct (map fst d) \<Longrightarrow> distinct (map fst (dict_update d e))"
  unfolding dict_update_def by (induction e arbitrary: d) auto

lemma dict_update_keys: "fst ` set (dict_update d e) = fst ` set d \<union> fst ` set e"
proof -
  have "dom (map_of (dict_update d e)) = dom (map_of d) \<union> dom (map_of (rev e))"
    by (auto simp: map_of_dict_update dom_def split: option.splits)
  then show ?thesis by (simp add: dom_map_of_conv_image_fst)
qed

lemma map_of_rev_distinct: "distinct (map fst e) \<Longrightarrow> map_of (rev e) = map_of e"
  by (rule map_of_inject_set[THEN iffD2]) (auto simp flip: rev_map)

lemma map_of_dict_update_distinct:
  "distinct (map fst e) \<Longrightarrow> map_of (dict_update d e) = map_of d ++ map_of e"
  by (rule ext) (simp add: map_of_dict_update map_of_rev_distinct map_add_def)

section \<open>Strings\<close>

definition startswith :: "string \<Rightarrow> string \<Rightarrow> bool" where
  "startswith s p = (take (length p) s = p)"

lemma startswith_prefix: "startswith s p \<longleftrightarrow> prefix p s"
  unfolding startswith_def prefix_def
  by (metis append_eq_conv_conj append_take_drop_id)

lemma startswith_refl [simp]: "startswith s s"
  by (simp add: startswith_def)

lemma startswith_Nil [simp]: "startswith s []"
  by (simp add: startswith_def)

lemma startswith_append [simp]: "startswith (p @ s) p"
  by (simp add: startswith_def)

lemma startswith_trans: "startswith s p \<Longrightarrow> startswith p q \<Longrightarrow> startswith s q"
  by (auto simp: startswith_prefix)

lemma startswith_linear:
  "startswith s p \<Longrightarrow> startswith s q \<Longrightarrow> startswith p q \<or> startswith q p"
  by (auto simp: startswith_prefix dest: prefix_same_cases)

definition endswith :: "string \<Rightarrow> string \<Rightarrow> bool" where
  "endswith s p = startswith (rev s) (rev p)"

text \<open>\<^verbatim>\<open>p in s\<close>\<close>

fun contains :: "string \<Rightarrow> string \<Rightarrow> bool" where
  "contains p [] = (p = [])"
| "contains p (c # s) = (startswith (c # s) p \<or> contains p s)"

text \<open>White space as \<^verbatim>\<open>str.strip\<close> and \<^verbatim>\<open>str.split\<close> see it.\<close>

definition is_space :: "char \<Rightarrow> bool" where
  "is_space c = (let n = (of_char c :: nat) in
     (9 \<le> n \<and> n \<le> 13) \<or> (28 \<le> n \<and> n \<le> 32) \<or> n = 133 \<or> n = 160)"

definition is_dec_digit :: "char \<Rightarrow> bool" where
  "is_dec_digit c = (let n = (of_char c :: nat) in 48 \<le> n \<and> n \<le> 57)"

definition lstrip :: "string \<Rightarrow> string" where
  "lstrip s = dropWhile is_space s"

definition strip :: "string \<Rightarrow> string" where
  "strip s = rev (dropWhile is_space (rev (lstrip s)))"

text \<open>\<^verbatim>\<open>s.split(c)\<close> for a one-character separator: never empty.\<close>

fun split_on :: "char \<Rightarrow> string \<Rightarrow> string list" where
  "split_on c [] = [[]]"
| "split_on c (x # xs) =
     (if x = c then [] # split_on c xs
      else case split_on c xs of w # ws \<Rightarrow> (x # w) # ws | [] \<Rightarrow> [[x]])"

lemma split_on_not_Nil [simp]: "split_on c s \<noteq> []"
  by (induction s) (auto split: list.splits)

text \<open>\<^verbatim>\<open>s.split()\<close>: the maximal runs of characters that are not white space.\<close>

fun split_ws_acc :: "string \<Rightarrow> string \<Rightarrow> string list" where
  "split_ws_acc w [] = (if w = [] then [] else [w])"
| "split_ws_acc w (c # s) =
     (if is_space c then (if w = [] then split_ws_acc [] s else w # split_ws_acc [] s)
      else split_ws_acc (w @ [c]) s)"

definition split_ws :: "string \<Rightarrow> string list" where
  "split_ws s = split_ws_acc [] s"

lemma split_ws_acc_run:
  "\<forall>c\<in>set x. \<not> is_space c \<Longrightarrow> split_ws_acc w (x @ s) = split_ws_acc (w @ x) s"
  by (induction x arbitrary: w) auto

text \<open>A blank-separated list of words survives joining and splitting.\<close>

definition is_word :: "string \<Rightarrow> bool" where
  "is_word x \<longleftrightarrow> x \<noteq> [] \<and> (\<forall>c\<in>set x. \<not> is_space c)"

lemma is_space_blank [simp]: "is_space CHR '' ''"
  by (simp add: is_space_def)

lemma split_ws_acc_words:
  "\<forall>c\<in>set w. \<not> is_space c \<Longrightarrow> x \<in> set (split_ws_acc w s) \<Longrightarrow> is_word x"
proof (induction s arbitrary: w)
  case Nil
  then show ?case by (simp add: is_word_def split: if_splits)
next
  case (Cons c s)
  show ?case
  proof (cases "is_space c")
    case True
    with Cons.prems have "x = w \<and> w \<noteq> [] \<or> x \<in> set (split_ws_acc [] s)" by (simp split: if_splits)
    with Cons.IH[of "[]"] Cons.prems(1) show ?thesis by (auto simp: is_word_def)
  next
    case False
    with Cons.prems Cons.IH[of "w @ [c]"] show ?thesis by simp
  qed
qed

lemma split_ws_words: "x \<in> set (split_ws s) \<Longrightarrow> is_word x"
  unfolding split_ws_def by (rule split_ws_acc_words[of "[]"]) simp_all

text \<open>\<^verbatim>\<open>s.replace(old, new)\<close> for a non-empty \<open>old\<close>: left to right, without overlaps.\<close>

function replace_str :: "string \<Rightarrow> string \<Rightarrow> string \<Rightarrow> string" where
  "replace_str old new [] = []"
| "replace_str old new (c # s) =
     (if old \<noteq> [] \<and> startswith (c # s) old then new @ replace_str old new (drop (length old - 1) s)
      else c # replace_str old new s)"
  by pat_completeness auto
termination by (relation "measure (\<lambda>(_, _, s). length s)") auto

text \<open>Letter case, for ASCII letters.\<close>

definition to_upper :: "char \<Rightarrow> char" where
  "to_upper c = (let n = (of_char c :: nat) in if 97 \<le> n \<and> n \<le> 122 then char_of (n - 32) else c)"

definition to_lower :: "char \<Rightarrow> char" where
  "to_lower c = (let n = (of_char c :: nat) in if 65 \<le> n \<and> n \<le> 90 then char_of (n + 32) else c)"

definition lower :: "string \<Rightarrow> string" where
  "lower s = map to_lower s"

definition capitalize :: "string \<Rightarrow> string" where
  "capitalize s = (case s of [] \<Rightarrow> [] | c # cs \<Rightarrow> to_upper c # lower cs)"

text \<open>\<^verbatim>\<open>sep.join(xs)\<close>\<close>

fun join :: "string \<Rightarrow> string list \<Rightarrow> string" where
  "join sep [] = []"
| "join sep [x] = x"
| "join sep (x # y # xs) = x @ sep @ join sep (y # xs)"

lemma join_split_on: "join [c] (split_on c s) = s"
proof (induction s)
  case Nil
  then show ?case by simp
next
  case (Cons x s)
  obtain w ws where "split_on c s = w # ws" by (cases "split_on c s") auto
  with Cons show ?case by (cases ws) auto
qed

lemma split_on_notin: "c \<notin> set s \<Longrightarrow> split_on c s = [s]"
  by (induction s) auto

lemma split_on_append: "c \<notin> set s \<Longrightarrow> split_on c (s @ c # t) = s # split_on c t"
  by (induction s) auto

lemma split_on_join:
  "\<lbrakk>xs \<noteq> []; \<forall>x\<in>set xs. c \<notin> set x\<rbrakk> \<Longrightarrow> split_on c (join [c] xs) = xs"
  by (induction "[c]" xs rule: join.induct) (auto simp: split_on_notin split_on_append)

lemma split_ws_join: "\<forall>x\<in>set xs. is_word x \<Longrightarrow> split_ws (join '' '' xs) = xs"
proof (induction "'' ''" xs rule: join.induct)
  case (2 x)
  then show ?case
    using split_ws_acc_run[of x "[]" "[]"] by (simp add: split_ws_def is_word_def)
next
  case (3 x y xs)
  then show ?case
    using split_ws_acc_run[of x "[]" "'' '' @ join '' '' (y # xs)"] by (simp add: split_ws_def is_word_def)
qed (simp add: split_ws_def)

text \<open>\<^verbatim>\<open>str(n)\<close> of a number.\<close>

fun show_nat :: "nat \<Rightarrow> string" where
  "show_nat n = (if n < 10 then [char_of (48 + n)] else show_nat (n div 10) @ [char_of (48 + n mod 10)])"

declare show_nat.simps [simp del]

lemma read_show_nat: "foldl (\<lambda>a c. 10 * a + (of_char c - 48)) 0 (show_nat n) = (n :: nat)"
proof (induction n rule: show_nat.induct)
  case (1 n)
  show ?case
  proof (cases "n < 10")
    case True
    then show ?thesis by (subst show_nat.simps) simp
  next
    case False
    with 1 show ?thesis by (subst show_nat.simps) simp
  qed
qed

lemma show_nat_inject [simp]: "show_nat m = show_nat n \<longleftrightarrow> m = n"
  by (metis read_show_nat)

definition show_int :: "int \<Rightarrow> string" where
  "show_int i = (if i < 0 then ''-'' @ show_nat (nat (- i)) else show_nat (nat i))"

text \<open>The non-empty items of a separated list, each stripped: \<^verbatim>\<open>[x.strip() for x in s.split(c) if x.strip()]\<close>.\<close>

definition split_items :: "char \<Rightarrow> string \<Rightarrow> string list" where
  "split_items c s = filter (\<lambda>x. x \<noteq> []) (map strip (split_on c s))"

lemma split_items_nonempty [simp]: "[] \<notin> set (split_items c s)"
  by (simp add: split_items_def)

end
