(* ===== verification/Node_Allocator.thy ===== *)
theory Node_Allocator
  imports Sct_Prelude
begin

text \<open>
  The allocator that hands out database nodes to concurrently running nemeses
  (\<^verbatim>\<open>sdcm/nemesis/utils/node_allocator.py\<close>).

  Nodes are objects compared by identity, so a node is an address into a store of node objects.
  Every method that touches the reservation table runs under the allocator's lock and is one
  function on the allocator's state; the two context managers and the \<^verbatim>\<open>add_nodes\<close> decorator are
  composed of them.  \<^verbatim>\<open>random.choice\<close> is an index drawn by the environment, the iteration order
  of a set a ranking of the nodes.  Messages are kept as the values they are formatted from.
\<close>

section \<open>Data\<close>

type_synonym node = nat

datatype NEMESIS_TARGET_POOLS = data_nodes | zero_nodes | all_nodes

text \<open>The argument is typed \<^verbatim>\<open>Enum\<close>, so a member of another enumeration reaches the default case.\<close>

datatype pool_arg = TargetPool NEMESIS_TARGET_POOLS | OtherEnum string

text \<open>The \<^verbatim>\<open>is_seed\<close> argument: the class \<^verbatim>\<open>DefaultValue\<close>, or \<^verbatim>\<open>None\<close> or a Boolean.\<close>

datatype seed_arg = DefaultValue | IsSeed "bool option"

record node_obj =
  node_name :: string
  node_is_seed :: bool
  node_dc_idx :: int
  node_rack :: int
  node_is_zero_token :: bool
  node_running_nemesis :: "string option"

datatype alloc_event =
    SetFailed string string string
  | UnsetOther string string string
  | UnsetIdle string string
  | SwitchOther string string string

datatype alloc_error =
    UnsupportedPool pool_arg
  | AllNodesRunNemesis string pool_arg "(string \<times> string) list"
  | NoNodeMatchesCriteria string pool_arg seed_arg "int option" "int option" "string list"
  | SwitchRefused string string
  | MarkRefused string string

record allocator =
  heap :: "node \<Rightarrow> node_obj"
  all_db_nodes :: "node list"
  active_nemesis_on_nodes :: "(node \<times> string) list"
  alloc_events :: "alloc_event list"

text \<open>\<^verbatim>\<open>NemesisNodeAllocator.__init__\<close>: nothing is reserved.\<close>

definition init_allocator :: "(node \<Rightarrow> node_obj) \<Rightarrow> node list \<Rightarrow> allocator" where
  "init_allocator h ns =
     \<lparr>heap = h, all_db_nodes = ns, active_nemesis_on_nodes = [], alloc_events = []\<rparr>"

text \<open>The owner of a node according to the reservation table.\<close>

definition owner :: "allocator \<Rightarrow> node \<Rightarrow> string option" where
  "owner s = map_of (active_nemesis_on_nodes s)"

section \<open>Operations\<close>

definition get_pool_type_nodes :: "pool_arg \<Rightarrow> allocator \<Rightarrow> alloc_error + node list" where
  "get_pool_type_nodes pool s = (case pool of
       TargetPool all_nodes \<Rightarrow> Inr (all_db_nodes s)
     | TargetPool zero_nodes \<Rightarrow> Inr (filter (\<lambda>n. node_is_zero_token (heap s n)) (all_db_nodes s))
     | TargetPool data_nodes \<Rightarrow> Inr (filter (\<lambda>n. \<not> node_is_zero_token (heap s n)) (all_db_nodes s))
     | OtherEnum _ \<Rightarrow> Inl (UnsupportedPool pool))"

text \<open>The seed criterion in force: an explicit one, else "no seeds" when \<^verbatim>\<open>filter_seed\<close> is set.\<close>

definition effective_seed :: "seed_arg \<Rightarrow> bool \<Rightarrow> bool option" where
  "effective_seed is_seed filter_seed = (case is_seed of
       DefaultValue \<Rightarrow> (if filter_seed then Some False else None)
     | IsSeed b \<Rightarrow> b)"

definition filter_nodes ::
    "(node \<Rightarrow> node_obj) \<Rightarrow> node list \<Rightarrow> seed_arg \<Rightarrow> int option \<Rightarrow> int option \<Rightarrow> bool \<Rightarrow> node list" where
  "filter_nodes h nodes is_seed dc_idx rack filter_seed =
     (let filtered = nodes;
          filtered = (case effective_seed is_seed filter_seed of
              None \<Rightarrow> filtered | Some b \<Rightarrow> filter (\<lambda>n. node_is_seed (h n) = b) filtered);
          filtered = (case dc_idx of
              None \<Rightarrow> filtered | Some d \<Rightarrow> filter (\<lambda>n. node_dc_idx (h n) = d) filtered)
      in (case rack of
              None \<Rightarrow> filtered | Some r \<Rightarrow> filter (\<lambda>n. node_rack (h n) = r) filtered))"

text \<open>The two statements that reserve and release a node: the table entry and the node's attribute.\<close>

definition mark_node :: "node \<Rightarrow> string \<Rightarrow> allocator \<Rightarrow> allocator" where
  "mark_node n nm s = s\<lparr>
     active_nemesis_on_nodes := AList.update n nm (active_nemesis_on_nodes s),
     heap := (heap s)(n := (heap s n)\<lparr>node_running_nemesis := Some nm\<rparr>)\<rparr>"

definition unmark_node :: "node \<Rightarrow> allocator \<Rightarrow> allocator" where
  "unmark_node n s = s\<lparr>
     active_nemesis_on_nodes := AList.delete n (active_nemesis_on_nodes s),
     heap := (heap s)(n := (heap s n)\<lparr>node_running_nemesis := None\<rparr>)\<rparr>"

definition publish_alloc :: "alloc_event \<Rightarrow> allocator \<Rightarrow> allocator" where
  "publish_alloc e s = s\<lparr>alloc_events := alloc_events s @ [e]\<rparr>"

text \<open>The nodes of the pool that no nemesis holds, cut down to \<^verbatim>\<open>node_list\<close> when one is given.\<close>

definition available_for_selection ::
    "(node \<Rightarrow> nat) \<Rightarrow> node list \<Rightarrow> node list \<Rightarrow> allocator \<Rightarrow> node list" where
  "available_for_selection rk node_list nodes s =
     (let free = filter (\<lambda>n. owner s n = None) nodes in
      if node_list \<noteq> [] then set_enum rk (filter (\<lambda>n. n \<in> set node_list) free) else free)"

text \<open>The request of \<^verbatim>\<open>select_target_node\<close>; an absent \<^verbatim>\<open>node_list\<close> is the empty list (both are falsy).\<close>

record select_request =
  sr_nemesis_name :: string
  sr_pool_type :: pool_arg
  sr_filter_seed :: bool
  sr_is_seed :: seed_arg
  sr_dc_idx :: "int option"
  sr_rack :: "int option"
  sr_only_last :: bool
  sr_node_list :: "node list"

definition request_candidates :: "(node \<Rightarrow> nat) \<Rightarrow> select_request \<Rightarrow> node list \<Rightarrow> allocator \<Rightarrow> node list" where
  "request_candidates rk r nodes s =
     filter_nodes (heap s) (available_for_selection rk (sr_node_list r) nodes s)
       (sr_is_seed r) (sr_dc_idx r) (sr_rack r) (sr_filter_seed r)"

definition select_target_node ::
    "nat \<Rightarrow> (node \<Rightarrow> nat) \<Rightarrow> select_request \<Rightarrow> allocator \<Rightarrow> (alloc_error + node) \<times> allocator" where
  "select_target_node draw rk r s = (case get_pool_type_nodes (sr_pool_type r) s of
       Inl e \<Rightarrow> (Inl e, s)
     | Inr nodes \<Rightarrow>
         (let available = available_for_selection rk (sr_node_list r) nodes s;
              candidates = request_candidates rk r nodes s
          in if available = [] then
               (Inl (AllNodesRunNemesis (sr_nemesis_name r) (sr_pool_type r)
                  (map (\<lambda>(n, nem). (node_name (heap s n), nem)) (active_nemesis_on_nodes s))), s)
             else if candidates = [] then
               (Inl (NoNodeMatchesCriteria (sr_nemesis_name r) (sr_pool_type r) (sr_is_seed r)
                  (sr_dc_idx r) (sr_rack r) (map (\<lambda>n. node_name (heap s n)) available)), s)
             else
               (let selected = (if sr_only_last r \<and> sr_rack r \<noteq> None then last candidates
                                else candidates ! (draw mod length candidates))
                in (Inr selected, mark_node selected (sr_nemesis_name r) s))))"

definition set_running_nemesis :: "node \<Rightarrow> string \<Rightarrow> allocator \<Rightarrow> bool \<times> allocator" where
  "set_running_nemesis n nm s = (case owner s n of
       Some other \<Rightarrow> (False, publish_alloc (SetFailed nm (node_name (heap s n)) other) s)
     | None \<Rightarrow> (True, mark_node n nm s))"

definition unset_running_nemesis :: "node \<Rightarrow> string \<Rightarrow> allocator \<Rightarrow> allocator" where
  "unset_running_nemesis n nm s = (case owner s n of
       Some other \<Rightarrow>
         (if other = nm then unmark_node n s
          else publish_alloc (UnsetOther nm (node_name (heap s n)) other) s)
     | None \<Rightarrow> publish_alloc (UnsetIdle nm (node_name (heap s n))) s)"

definition unset_running_nemesis_from_all_nodes :: "string \<Rightarrow> allocator \<Rightarrow> allocator" where
  "unset_running_nemesis_from_all_nodes nm s =
     (let nodes_to_release = map fst (filter (\<lambda>(n, own). own = nm) (active_nemesis_on_nodes s))
      in fold unmark_node nodes_to_release s)"

definition switch_target_node ::
    "node option \<Rightarrow> node \<Rightarrow> string \<Rightarrow> allocator \<Rightarrow> (alloc_error + bool) \<times> allocator" where
  "switch_target_node old_node new_node nm s =
     (if old_node = Some new_node then (Inr True, s)
      else case owner s new_node of
        Some other \<Rightarrow> (Inl (SwitchRefused nm other), s)
      | None \<Rightarrow>
          (let s1 = (case old_node of
               None \<Rightarrow> s
             | Some old \<Rightarrow> (case owner s old of
                   None \<Rightarrow> s
                 | Some own \<Rightarrow>
                     (if own = nm then unmark_node old s
                      else publish_alloc (SwitchOther nm (node_name (heap s old)) own) s)))
           in (Inr True, mark_node new_node nm s1)))"

text \<open>
  The loop of \<^verbatim>\<open>nodes_running_nemesis\<close>, over the two operations it calls: either every node is
  marked (the marked nodes are returned in order) or the marks set so far are undone and the
  refused node is reported.
\<close>

fun mark_loop :: "('n \<Rightarrow> 's \<Rightarrow> bool \<times> 's) \<Rightarrow> ('n \<Rightarrow> 's \<Rightarrow> 's) \<Rightarrow> 'n list \<Rightarrow> 'n list \<Rightarrow> 's \<Rightarrow> ('n + 'n list) \<times> 's" where
  "mark_loop reserve release marked [] s = (Inr marked, s)"
| "mark_loop reserve release marked (n # ns) s =
     (case reserve n s of
        (False, s') \<Rightarrow> (Inl n, fold release marked s')
      | (True, s') \<Rightarrow> mark_loop reserve release (marked @ [n]) ns s')"

definition nodes_running_nemesis ::
    "node list \<Rightarrow> string \<Rightarrow> (allocator \<Rightarrow> ('e + 'r) \<times> allocator) \<Rightarrow> allocator
      \<Rightarrow> ((alloc_error + 'e) + 'r) \<times> allocator" where
  "nodes_running_nemesis nodes nm body s =
     (case mark_loop (\<lambda>n. set_running_nemesis n nm) (\<lambda>n. unset_running_nemesis n nm) [] nodes s of
        (Inl n, s') \<Rightarrow> (Inl (Inl (MarkRefused nm (node_name (heap s' n)))), s')
      | (Inr marked, s') \<Rightarrow>
          (case body s' of (res, s'') \<Rightarrow>
             (map_sum Inr id res, fold (\<lambda>n. unset_running_nemesis n nm) marked s'')))"

text \<open>\<^verbatim>\<open>unique_disruption_name\<close>; \<open>uid\<close> is the eight hexadecimal digits drawn from \<^verbatim>\<open>uuid4\<close>.\<close>

definition unique_disruption_name :: "string \<Rightarrow> string \<Rightarrow> string" where
  "unique_disruption_name uid disruption =
     (if CHR ''_'' \<in> set disruption
      then concat (map capitalize (split_on CHR ''_'' (replace_str ''disrupt_'' [] disruption)))
      else disruption) @ ''-'' @ uid"

text \<open>\<^verbatim>\<open>run_nemesis\<close>: the label made unique, a node selected, the body run with it, the node released.\<close>

definition run_nemesis_request :: "string \<Rightarrow> node list \<Rightarrow> NEMESIS_TARGET_POOLS \<Rightarrow> bool \<Rightarrow> select_request" where
  "run_nemesis_request label node_list pool filter_seed =
     \<lparr>sr_nemesis_name = label, sr_pool_type = TargetPool pool, sr_filter_seed = filter_seed,
      sr_is_seed = DefaultValue, sr_dc_idx = None, sr_rack = None, sr_only_last = False,
      sr_node_list = node_list\<rparr>"

definition run_nemesis ::
    "string \<Rightarrow> nat \<Rightarrow> (node \<Rightarrow> nat) \<Rightarrow> string \<Rightarrow> node list \<Rightarrow> NEMESIS_TARGET_POOLS \<Rightarrow> bool
      \<Rightarrow> (node \<Rightarrow> allocator \<Rightarrow> ('e + 'r) \<times> allocator) \<Rightarrow> allocator
      \<Rightarrow> ((alloc_error + 'e) + 'r) \<times> allocator" where
  "run_nemesis uid draw rk label node_list pool filter_seed body s =
     (let nm = unique_disruption_name uid label in
      case select_target_node draw rk (run_nemesis_request nm node_list pool filter_seed) s of
        (Inl e, s') \<Rightarrow> (Inl (Inl e), s')
      | (Inr n, s') \<Rightarrow>
          (case body n s' of (res, s'') \<Rightarrow> (map_sum Inr id res, unset_running_nemesis n nm s'')))"

text \<open>
  The decorator of \<^verbatim>\<open>add_nodes\<close>: \<open>new_nodes\<close> is what the decorated method returned in state \<open>s\<close>;
  without an allocator or a disruption name nothing is marked.  An empty name is falsy.
\<close>

definition mark_new_nodes_as_running_nemesis ::
    "bool \<Rightarrow> string option \<Rightarrow> node list \<Rightarrow> allocator \<Rightarrow> node list \<times> allocator" where
  "mark_new_nodes_as_running_nemesis has_allocator disruption_name new_nodes s =
     (new_nodes,
      case disruption_name of
        Some nm \<Rightarrow>
          (if new_nodes \<noteq> [] \<and> has_allocator \<and> nm \<noteq> []
           then fold (\<lambda>n s. snd (set_running_nemesis n nm s)) new_nodes s else s)
      | None \<Rightarrow> s)"

section \<open>The reservation table after each operation\<close>

lemma owner_mark_node [simp]: "owner (mark_node n nm s) = (owner s)(n \<mapsto> nm)"
  by (simp add: owner_def mark_node_def)

lemma owner_unmark_node [simp]: "owner (unmark_node n s) = (owner s)(n := None)"
  by (simp add: owner_def unmark_node_def)

lemma owner_publish_alloc [simp]: "owner (publish_alloc e s) = owner s"
  by (simp add: owner_def publish_alloc_def)

lemma owner_fold_unmark [simp]:
  "owner (fold unmark_node ns s) = (\<lambda>n. if n \<in> set ns then None else owner s n)"
  by (induction ns arbitrary: s) auto

lemma owner_set_running:
  "owner (snd (set_running_nemesis n nm s)) =
     (if owner s n = None then (owner s)(n \<mapsto> nm) else owner s)"
  by (auto simp: set_running_nemesis_def split: option.splits)

lemma fst_set_running: "fst (set_running_nemesis n nm s) \<longleftrightarrow> owner s n = None"
  by (auto simp: set_running_nemesis_def split: option.splits)

lemma owner_unset_running:
  "owner (unset_running_nemesis n nm s) =
     (if owner s n = Some nm then (owner s)(n := None) else owner s)"
  by (auto simp: unset_running_nemesis_def split: option.splits)

text \<open>
  The invariant of the allocator: the table has one entry per node, and a node's
  \<^verbatim>\<open>running_nemesis\<close> attribute is always its entry.
\<close>

definition alloc_inv :: "allocator \<Rightarrow> bool" where
  "alloc_inv s \<longleftrightarrow> distinct (map fst (active_nemesis_on_nodes s)) \<and>
     (\<forall>n. node_running_nemesis (heap s n) = owner s n)"

lemma owner_unset_all:
  assumes "alloc_inv s"
  shows "owner (unset_running_nemesis_from_all_nodes nm s) =
     (\<lambda>n. if owner s n = Some nm then None else owner s n)"
proof -
  from assms have d: "distinct (map fst (active_nemesis_on_nodes s))" by (simp add: alloc_inv_def)
  have "n \<in> fst ` set (filter (\<lambda>(n, own). own = nm) (active_nemesis_on_nodes s)) \<longleftrightarrow>
      owner s n = Some nm" for n
    using d by (force simp: owner_def)
  then show ?thesis by (simp add: unset_running_nemesis_from_all_nodes_def)
qed

lemma alloc_inv_mark [simp, intro]: "alloc_inv s \<Longrightarrow> alloc_inv (mark_node n nm s)"
  by (auto simp: alloc_inv_def) (auto simp: mark_node_def)

lemma alloc_inv_unmark [simp, intro]: "alloc_inv s \<Longrightarrow> alloc_inv (unmark_node n s)"
  by (auto simp: alloc_inv_def) (auto simp: unmark_node_def)

lemma alloc_inv_publish [simp]: "alloc_inv (publish_alloc e s) = alloc_inv s"
  by (simp add: alloc_inv_def) (simp add: publish_alloc_def)

lemma alloc_inv_fold_unmark: "alloc_inv s \<Longrightarrow> alloc_inv (fold unmark_node ns s)"
  by (induction ns arbitrary: s) auto

lemma alloc_inv_init: "(\<And>n. node_running_nemesis (h n) = None) \<Longrightarrow> alloc_inv (init_allocator h ns)"
  by (simp add: alloc_inv_def init_allocator_def owner_def)

lemma alloc_inv_select: "alloc_inv s \<Longrightarrow> alloc_inv (snd (select_target_node draw rk r s))"
  by (auto simp: select_target_node_def Let_def split: sum.splits)

lemma alloc_inv_set: "alloc_inv s \<Longrightarrow> alloc_inv (snd (set_running_nemesis n nm s))"
  by (auto simp: set_running_nemesis_def split: option.splits)

lemma alloc_inv_unset: "alloc_inv s \<Longrightarrow> alloc_inv (unset_running_nemesis n nm s)"
  by (auto simp: unset_running_nemesis_def split: option.splits)

lemma alloc_inv_unset_all: "alloc_inv s \<Longrightarrow> alloc_inv (unset_running_nemesis_from_all_nodes nm s)"
  by (simp add: unset_running_nemesis_from_all_nodes_def alloc_inv_fold_unmark)

lemma alloc_inv_switch: "alloc_inv s \<Longrightarrow> alloc_inv (snd (switch_target_node old new nm s))"
  by (auto simp: switch_target_node_def Let_def split: option.splits)

lemmas alloc_inv_ops = alloc_inv_select alloc_inv_set alloc_inv_unset alloc_inv_unset_all alloc_inv_switch

section \<open>The contract of a reservation table\<close>

text \<open>
  What the clients of the allocator rely on: reserving succeeds exactly on a free node, a release
  takes a node away only from the owner that asks for it.
\<close>

locale reservation_table =
  fixes own :: "'s \<Rightarrow> 'n \<Rightarrow> 'w option"
    and reserve :: "'n \<Rightarrow> 'w \<Rightarrow> 's \<Rightarrow> bool \<times> 's"
    and release :: "'n \<Rightarrow> 'w \<Rightarrow> 's \<Rightarrow> 's"
  assumes reserve_ok: "fst (reserve n w s) \<longleftrightarrow> own s n = None"
    and reserve_own: "own (snd (reserve n w s)) = (if own s n = None then (own s)(n \<mapsto> w) else own s)"
    and release_own: "own (release n w s) = (if own s n = Some w then (own s)(n := None) else own s)"
begin

lemma own_fold_release:
  "own (fold (\<lambda>n. release n w) ns s) =
     (\<lambda>n. if n \<in> set ns \<and> own s n = Some w then None else own s n)"
  by (induction ns arbitrary: s) (auto simp: release_own fun_eq_iff)

lemma mark_loop_all_free:
  assumes "distinct ns" "\<forall>n\<in>set ns. own s n = None"
  shows "\<exists>s'. mark_loop (\<lambda>n. reserve n w) (\<lambda>n. release n w) marked ns s = (Inr (marked @ ns), s') \<and>
     own s' = (\<lambda>n. if n \<in> set ns then Some w else own s n)"
  using assms
proof (induction ns arbitrary: marked s)
  case Nil
  then show ?case by simp
next
  case (Cons n ns)
  obtain b s1 where r: "reserve n w s = (b, s1)" by fastforce
  from Cons.prems reserve_ok[of n w s] reserve_own[of n w s] r
  have b: "b" and o: "own s1 = (own s)(n \<mapsto> w)" by auto
  from Cons.prems o have "distinct ns" "\<forall>m\<in>set ns. own s1 m = None" by auto
  from Cons.IH[OF this, of "marked @ [n]"] r b o Cons.prems show ?case
    by (auto simp: fun_eq_iff)
qed

lemma mark_loop_blocked:
  assumes "\<not> (distinct ns \<and> (\<forall>n\<in>set ns. own s n = None))"
  shows "\<exists>n s'. n \<in> set ns \<and>
     mark_loop (\<lambda>n. reserve n w) (\<lambda>n. release n w) marked ns s = (Inl n, s') \<and>
     own s' = (\<lambda>n. if n \<in> set marked \<and> own s n = Some w then None else own s n)"
  using assms
proof (induction ns arbitrary: marked s)
  case Nil
  then show ?case by simp
next
  case (Cons n ns)
  obtain b s1 where r: "reserve n w s = (b, s1)" by fastforce
  show ?case
  proof (cases "own s n")
    case (Some x)
    with r reserve_ok[of n w s] reserve_own[of n w s] have "\<not> b" "own s1 = own s" by auto
    with r show ?thesis by (auto simp: own_fold_release)
  next
    case None
    with r reserve_ok[of n w s] reserve_own[of n w s]
    have b: "b" and o: "own s1 = (own s)(n \<mapsto> w)" by auto
    from Cons.prems None o have "\<not> (distinct ns \<and> (\<forall>m\<in>set ns. own s1 m = None))" by auto
    from Cons.IH[OF this, of "marked @ [n]"] r b o None show ?thesis
      by (auto simp: fun_eq_iff)
  qed
qed

end

interpretation alloc: reservation_table owner set_running_nemesis unset_running_nemesis
  by unfold_locales (simp_all add: fst_set_running owner_set_running owner_unset_running)

section \<open>Interleavings of the locked operations\<close>

datatype alloc_op =
    OpSelect nat "node \<Rightarrow> nat" select_request
  | OpSet node string
  | OpUnset node string
  | OpUnsetAll string
  | OpSwitch "node option" node string
  | OpTopology

fun op_actor :: "alloc_op \<Rightarrow> string option" where
  "op_actor (OpSelect _ _ r) = Some (sr_nemesis_name r)"
| "op_actor (OpSet _ nm) = Some nm"
| "op_actor (OpUnset _ nm) = Some nm"
| "op_actor (OpUnsetAll nm) = Some nm"
| "op_actor (OpSwitch _ _ nm) = Some nm"
| "op_actor OpTopology = None"

text \<open>
  One step of the system: a locked operation of some nemesis thread, or a change of the cluster
  (nodes added, removed or given other attributes; never their \<^verbatim>\<open>running_nemesis\<close>).
\<close>

inductive alloc_step :: "allocator \<Rightarrow> alloc_op \<Rightarrow> allocator \<Rightarrow> bool" where
  st_select: "alloc_step s (OpSelect draw rk r) (snd (select_target_node draw rk r s))"
| st_set: "alloc_step s (OpSet n nm) (snd (set_running_nemesis n nm s))"
| st_unset: "alloc_step s (OpUnset n nm) (unset_running_nemesis n nm s)"
| st_unset_all: "alloc_step s (OpUnsetAll nm) (unset_running_nemesis_from_all_nodes nm s)"
| st_switch: "alloc_step s (OpSwitch old new nm) (snd (switch_target_node old new nm s))"
| st_topology: "(\<And>n. node_running_nemesis (h n) = node_running_nemesis (heap s n)) \<Longrightarrow>
    alloc_step s OpTopology (s\<lparr>heap := h, all_db_nodes := ns\<rparr>)"

inductive alloc_run :: "allocator \<Rightarrow> alloc_op list \<Rightarrow> allocator \<Rightarrow> bool" where
  run_done: "alloc_run s [] s"
| run_step: "alloc_step s op s1 \<Longrightarrow> alloc_run s1 ops s2 \<Longrightarrow> alloc_run s (op # ops) s2"

lemma alloc_step_inv: "alloc_step s op s' \<Longrightarrow> alloc_inv s \<Longrightarrow> alloc_inv s'"
proof (induction rule: alloc_step.induct)
  case (st_topology h s ns)
  then show ?case by (simp add: alloc_inv_def owner_def)
qed (simp_all add: alloc_inv_ops)

lemma alloc_run_inv: "alloc_run s ops s' \<Longrightarrow> alloc_inv s \<Longrightarrow> alloc_inv s'"
  by (induction rule: alloc_run.induct) (auto dest: alloc_step_inv)

section \<open>What a selection may return\<close>

text \<open>The nodes a request may be given, by the criteria of the request alone.\<close>

definition pool_nodes :: "NEMESIS_TARGET_POOLS \<Rightarrow> allocator \<Rightarrow> node set" where
  "pool_nodes p s = {n \<in> set (all_db_nodes s).
     (p = zero_nodes \<longrightarrow> node_is_zero_token (heap s n)) \<and>
     (p = data_nodes \<longrightarrow> \<not> node_is_zero_token (heap s n))}"

definition selectable :: "NEMESIS_TARGET_POOLS \<Rightarrow> select_request \<Rightarrow> allocator \<Rightarrow> node \<Rightarrow> bool" where
  "selectable p r s n \<longleftrightarrow> n \<in> pool_nodes p s \<and> owner s n = None \<and>
     (sr_node_list r \<noteq> [] \<longrightarrow> n \<in> set (sr_node_list r)) \<and>
     (\<forall>b. effective_seed (sr_is_seed r) (sr_filter_seed r) = Some b \<longrightarrow> node_is_seed (heap s n) = b) \<and>
     (\<forall>d. sr_dc_idx r = Some d \<longrightarrow> node_dc_idx (heap s n) = d) \<and>
     (\<forall>k. sr_rack r = Some k \<longrightarrow> node_rack (heap s n) = k)"

lemma get_pool_nodes:
  "\<exists>nodes. get_pool_type_nodes (TargetPool p) s = Inr nodes \<and> set nodes = pool_nodes p s"
  by (cases p) (auto simp: get_pool_type_nodes_def pool_nodes_def)

lemma set_filter_nodes:
  "set (filter_nodes h nodes is_seed dc_idx rack filter_seed) =
     {n \<in> set nodes. (\<forall>b. effective_seed is_seed filter_seed = Some b \<longrightarrow> node_is_seed (h n) = b) \<and>
        (\<forall>d. dc_idx = Some d \<longrightarrow> node_dc_idx (h n) = d) \<and> (\<forall>k. rack = Some k \<longrightarrow> node_rack (h n) = k)}"
  by (auto simp: filter_nodes_def Let_def split: option.splits)

lemma set_available:
  "set (available_for_selection rk node_list nodes s) =
     {n \<in> set nodes. owner s n = None \<and> (node_list \<noteq> [] \<longrightarrow> n \<in> set node_list)}"
  by (auto simp: available_for_selection_def Let_def)

lemma set_request_candidates:
  "set nodes = pool_nodes p s \<Longrightarrow> set (request_candidates rk r nodes s) = {n. selectable p r s n}"
  by (auto simp: request_candidates_def set_filter_nodes set_available selectable_def)

lemma request_candidates_available:
  "request_candidates rk r nodes s \<noteq> [] \<Longrightarrow> available_for_selection rk (sr_node_list r) nodes s \<noteq> []"
  by (auto simp: request_candidates_def filter_nodes_def Let_def split: option.splits)

lemma select_unfold:
  assumes "get_pool_type_nodes (TargetPool p) s = Inr nodes" "sr_pool_type r = TargetPool p"
    "request_candidates rk r nodes s \<noteq> []"
  shows "select_target_node draw rk r s =
    (let c = request_candidates rk r nodes s;
         n = (if sr_only_last r \<and> sr_rack r \<noteq> None then last c else c ! (draw mod length c))
     in (Inr n, mark_node n (sr_nemesis_name r) s))"
  using assms request_candidates_available[OF assms(3)]
  by (simp add: select_target_node_def Let_def)

lemma select_ok:
  assumes "select_target_node draw rk r s = (Inr n, s')" "sr_pool_type r = TargetPool p"
  shows "selectable p r s n \<and> s' = mark_node n (sr_nemesis_name r) s"
proof -
  obtain nodes where g: "get_pool_type_nodes (TargetPool p) s = Inr nodes" and
    ns: "set nodes = pool_nodes p s" using get_pool_nodes by blast
  let ?c = "request_candidates rk r nodes s"
  from assms g have ne: "?c \<noteq> []" by (auto simp: select_target_node_def Let_def split: if_splits)
  then have "draw mod length ?c < length ?c" by simp
  with ne have "last ?c \<in> set ?c" "?c ! (draw mod length ?c) \<in> set ?c" by auto
  with select_unfold[OF g assms(2) ne, of draw] assms(1) show ?thesis
    by (auto simp: Let_def set_request_candidates[OF ns] split: if_splits)
qed

lemma select_error:
  assumes "select_target_node draw rk r s = (Inl e, s')" "sr_pool_type r = TargetPool p"
  shows "s' = s \<and> (\<forall>n. \<not> selectable p r s n)"
proof -
  obtain nodes where g: "get_pool_type_nodes (TargetPool p) s = Inr nodes" and
    ns: "set nodes = pool_nodes p s" using get_pool_nodes by blast
  have "request_candidates rk r nodes s = []"
  proof (rule ccontr)
    assume "request_candidates rk r nodes s \<noteq> []"
    from select_unfold[OF g assms(2) this] assms(1) show False by (simp add: Let_def)
  qed
  with set_request_candidates[OF ns, of rk r] have "\<forall>n. \<not> selectable p r s n" by auto
  with assms g show ?thesis
    by (auto simp: select_target_node_def Let_def split: if_splits)
qed

lemma select_any:
  assumes "selectable p r s n" "sr_pool_type r = TargetPool p" "\<not> sr_only_last r"
  shows "\<exists>draw. fst (select_target_node draw rk r s) = Inr n"
proof -
  obtain nodes where g: "get_pool_type_nodes (TargetPool p) s = Inr nodes" and
    ns: "set nodes = pool_nodes p s" using get_pool_nodes by blast
  let ?c = "request_candidates rk r nodes s"
  from assms(1) set_request_candidates[OF ns, of rk r] have "n \<in> set ?c" by auto
  then obtain i where i: "i < length ?c" "?c ! i = n" by (auto simp: in_set_conv_nth)
  then have "?c \<noteq> []" by auto
  from select_unfold[OF g assms(2) this, of i] i assms(3)
  have "fst (select_target_node i rk r s) = Inr n" by (simp add: Let_def)
  then show ?thesis ..
qed

lemma select_owner:
  "owner (snd (select_target_node draw rk r s)) n = owner s n \<or>
   owner s n = None \<and> owner (snd (select_target_node draw rk r s)) n = Some (sr_nemesis_name r)"
proof (cases "sr_pool_type r")
  case (TargetPool p)
  obtain res s' where sel: "select_target_node draw rk r s = (res, s')" by fastforce
  show ?thesis
  proof (cases res)
    case (Inl e)
    with select_error[of draw rk r s e s' p] sel TargetPool show ?thesis by simp
  next
    case (Inr m)
    with select_ok[of draw rk r s m s' p] sel TargetPool show ?thesis by (auto simp: selectable_def)
  qed
next
  case (OtherEnum x)
  then show ?thesis by (simp add: select_target_node_def get_pool_type_nodes_def)
qed

lemma owner_switch:
  "owner (snd (switch_target_node old new nm s)) =
     (if old = Some new \<or> owner s new \<noteq> None then owner s
      else (case old of None \<Rightarrow> owner s
            | Some m \<Rightarrow> if owner s m = Some nm then (owner s)(m := None) else owner s)(new \<mapsto> nm))"
  by (auto simp: switch_target_node_def Let_def split: option.splits)

text \<open>An operation of another nemesis leaves the nodes a nemesis holds alone.\<close>

lemma alloc_step_keeps_owner:
  assumes "alloc_step s op s'" "alloc_inv s" "owner s n = Some nm" "op_actor op \<noteq> Some nm"
  shows "owner s' n = Some nm"
  using assms
proof (induction rule: alloc_step.induct)
  case (st_select s draw rk r)
  then show ?case using select_owner[of draw rk r s n] by auto
next
  case (st_switch s old new m)
  then show ?case by (auto simp: owner_switch split: option.splits)
next
  case (st_topology h s ns)
  then show ?case by (simp add: owner_def)
qed (auto simp: owner_set_running owner_unset_running owner_unset_all)

lemma alloc_run_keeps_owner:
  assumes "alloc_run s ops s'" "alloc_inv s" "owner s n = Some nm" "\<forall>op\<in>set ops. op_actor op \<noteq> Some nm"
  shows "owner s' n = Some nm"
  using assms
proof (induction rule: alloc_run.induct)
  case (run_step s op s1 ops s2)
  have "alloc_inv s1" by (rule alloc_step_inv[OF run_step.hyps(1) run_step.prems(1)])
  moreover have "owner s1 n = Some nm"
    using run_step.prems by (intro alloc_step_keeps_owner[OF run_step.hyps(1)]) simp_all
  ultimately show ?case using run_step.IH run_step.prems by simp
qed

section \<open>Properties\<close>

text \<open>C1: Exclusive ownership under every interleaving of the allocator's locked operations.  From
  an allocator whose nodes start idle, once a nemesis holds a node, no sequence of operations of
  other nemeses and of topology changes takes the node away, and throughout the node's
  \<^verbatim>\<open>running_nemesis\<close> attribute names the holder.\<close>

theorem allocator_exclusive:
  assumes "\<forall>m. node_running_nemesis (h m) = None"
    and "alloc_run (init_allocator h ns) ops1 s" and "owner s n = Some nm"
    and "alloc_run s ops2 s'" and "\<forall>op\<in>set ops2. op_actor op \<noteq> Some nm"
  shows "owner s' n = Some nm \<and> node_running_nemesis (heap s' n) = Some nm"
proof -
  from assms(1) have "alloc_inv (init_allocator h ns)" by (simp add: alloc_inv_init)
  with assms(2) have inv: "alloc_inv s" by (rule alloc_run_inv)
  have "owner s' n = Some nm" by (rule alloc_run_keeps_owner[OF assms(4) inv assms(3,5)])
  moreover have "alloc_inv s'" by (rule alloc_run_inv[OF assms(4) inv])
  ultimately show ?thesis by (simp add: alloc_inv_def)
qed

definition example_node :: node_obj where
  "example_node = \<lparr>node_name = ''n'', node_is_seed = False, node_dc_idx = 0, node_rack = 0,
     node_is_zero_token = False, node_running_nemesis = None\<rparr>"

theorem allocator_exclusive_witness:
  "owner (unset_running_nemesis 1 ''B'' (snd (set_running_nemesis 1 ''A''
     (init_allocator (\<lambda>_. example_node) [1, 2])))) 1 = Some ''A''"
proof -
  let ?i = "init_allocator (\<lambda>_. example_node) [1, 2]"
  let ?s = "snd (set_running_nemesis 1 ''A'' ?i)"
  have i: "\<forall>m. node_running_nemesis ((\<lambda>_. example_node) (m :: nat)) = None"
    by (simp add: example_node_def)
  have r1: "alloc_run ?i [OpSet 1 ''A''] ?s"
    by (rule run_step[OF st_set run_done])
  have o: "owner ?s 1 = Some ''A''"
    by (simp add: owner_set_running) (simp add: owner_def init_allocator_def)
  have r2: "alloc_run ?s [OpUnset 1 ''B''] (unset_running_nemesis 1 ''B'' ?s)"
    by (rule run_step[OF st_unset run_done])
  show ?thesis using allocator_exclusive[OF i r1 o r2] by simp
qed

text \<open>C6: Selection is sound, complete and fair.  A selected node is in the requested pool, free,
  in \<^verbatim>\<open>node_list\<close> if one is given, and satisfies the seed, datacenter and rack criteria, and the
  only change is that it is now held by the requester; selection fails, changing nothing, only when
  no node qualifies, with \<^verbatim>\<open>AllNodesRunNemesisError\<close> exactly when no admissible node is free at all;
  and unless only the last node of a rack is allowed, every qualifying node can be drawn.\<close>

theorem select_target_node_correct:
  assumes p: "sr_pool_type r = TargetPool p"
  shows "(case select_target_node draw rk r s of
      (Inr n, s') \<Rightarrow> selectable p r s n \<and> s' = mark_node n (sr_nemesis_name r) s
    | (Inl e, s') \<Rightarrow> s' = s \<and> (\<forall>n. \<not> selectable p r s n) \<and>
        ((\<exists>m. e = AllNodesRunNemesis (sr_nemesis_name r) (sr_pool_type r) m) \<longleftrightarrow>
         (\<forall>n\<in>pool_nodes p s. owner s n = None \<longrightarrow>
            sr_node_list r \<noteq> [] \<and> n \<notin> set (sr_node_list r)))) \<and>
    (\<not> sr_only_last r \<longrightarrow> (\<forall>n. selectable p r s n \<longrightarrow>
      (\<exists>draw. fst (select_target_node draw rk r s) = Inr n)))"
    (is "?sound \<and> ?fair")
proof
  obtain nodes where g: "get_pool_type_nodes (TargetPool p) s = Inr nodes" and
    ns: "set nodes = pool_nodes p s" using get_pool_nodes by blast
  have av: "available_for_selection rk (sr_node_list r) nodes s = [] \<longleftrightarrow>
      (\<forall>n\<in>pool_nodes p s. owner s n = None \<longrightarrow> sr_node_list r \<noteq> [] \<and> n \<notin> set (sr_node_list r))"
    unfolding set_empty[symmetric] set_available ns by blast
  obtain res s' where sel: "select_target_node draw rk r s = (res, s')" by fastforce
  show ?sound
  proof (cases res)
    case (Inr n)
    with sel select_ok[of draw rk r s n s' p] p show ?thesis by simp
  next
    case (Inl e)
    with sel have sel': "select_target_node draw rk r s = (Inl e, s')" by simp
    then have "(\<exists>m. e = AllNodesRunNemesis (sr_nemesis_name r) (sr_pool_type r) m) \<longleftrightarrow>
        available_for_selection rk (sr_node_list r) nodes s = []"
      using p g by (auto simp: select_target_node_def Let_def split: if_splits)
    with sel' select_error[OF sel' p] av show ?thesis by simp
  qed
  show ?fair using select_any[OF _ p] by simp
qed

lemmas select_eval = run_nemesis_request_def init_allocator_def owner_def
  example_node_def select_target_node_def get_pool_type_nodes_def effective_seed_def
  available_for_selection_def request_candidates_def filter_nodes_def Let_def

theorem select_target_node_correct_witness:
  "let r = run_nemesis_request ''A'' [] data_nodes False;
       s = init_allocator (\<lambda>_. example_node) [7, 8]
   in (\<exists>draw. fst (select_target_node draw id r s) = Inr 8) \<and>
      (case select_target_node 0 id r s of (Inr n, s') \<Rightarrow> selectable data_nodes r s n | _ \<Rightarrow> False)"
proof -
  let ?r = "run_nemesis_request ''A'' [] data_nodes False"
  let ?s = "init_allocator (\<lambda>_. example_node) [7, 8]"
  have p: "sr_pool_type ?r = TargetPool data_nodes" by (simp add: run_nemesis_request_def)
  have l: "\<not> sr_only_last ?r" by (simp add: run_nemesis_request_def)
  have q: "selectable data_nodes ?r ?s 8"
    by (simp add: selectable_def pool_nodes_def select_eval)
  have sel: "select_target_node 0 id ?r ?s = (Inr 7, mark_node 7 ''A'' ?s)"
    by (simp add: select_eval)
  note ok = select_target_node_correct[OF p, where draw = 0 and rk = id and s = ?s]
  from ok l q have "\<exists>draw. fst (select_target_node draw id ?r ?s) = Inr 8" by blast
  moreover from ok have "selectable data_nodes ?r ?s 7" by (simp add: sel)
  ultimately show ?thesis by (simp add: Let_def sel)
qed

text \<open>C11: \<^verbatim>\<open>nodes_running_nemesis\<close> is all or nothing and leaves no trace.  When the nodes are distinct
  and free, the body runs with all of them held by the nemesis and on leaving, whether the body
  returned or raised, those of them the nemesis still holds are free again; otherwise the body does
  not run, the error names one of the requested nodes, and the ownership is what it was before.\<close>

theorem nodes_running_nemesis_all_or_nothing:
  "if distinct nodes \<and> (\<forall>n\<in>set nodes. owner s n = None)
   then \<exists>s1. owner s1 = (\<lambda>n. if n \<in> set nodes then Some nm else owner s n) \<and>
     (case body s1 of (res, s2) \<Rightarrow>
        fst (nodes_running_nemesis nodes nm body s) = map_sum Inr id res \<and>
        owner (snd (nodes_running_nemesis nodes nm body s)) =
          (\<lambda>n. if n \<in> set nodes \<and> owner s2 n = Some nm then None else owner s2 n))
   else (\<exists>n s'. n \<in> set nodes \<and> nodes_running_nemesis nodes nm body s =
           (Inl (Inl (MarkRefused nm (node_name (heap s' n)))), s') \<and> owner s' = owner s)"
proof (cases "distinct nodes \<and> (\<forall>n\<in>set nodes. owner s n = None)")
  case True
  with alloc.mark_loop_all_free[of nodes s nm "[]"] show ?thesis
    by (auto simp: nodes_running_nemesis_def alloc.own_fold_release split: prod.splits)
next
  case False
  from alloc.mark_loop_blocked[OF False, of nm "[]"] obtain n s' where
    "n \<in> set nodes" "owner s' = owner s"
    "mark_loop (\<lambda>n. set_running_nemesis n nm) (\<lambda>n. unset_running_nemesis n nm) [] nodes s = (Inl n, s')"
    by auto
  then have "n \<in> set nodes \<and> nodes_running_nemesis nodes nm body s =
      (Inl (Inl (MarkRefused nm (node_name (heap s' n)))), s') \<and> owner s' = owner s"
    by (simp add: nodes_running_nemesis_def)
  then show ?thesis unfolding if_not_P[OF False] by blast
qed

theorem nodes_running_nemesis_all_or_nothing_witness:
  "fst (nodes_running_nemesis [7, 7] ''A'' (\<lambda>s. (Inr () :: string + unit, s))
      (init_allocator (\<lambda>_. example_node) [7, 8])) = Inl (Inl (MarkRefused ''A'' ''n''))"
  using nodes_running_nemesis_all_or_nothing[of "[7, 7]" "init_allocator (\<lambda>_. example_node) [7, 8]"
      "''A''" "\<lambda>s. (Inr () :: string + unit, s)"]
  by (simp add: nodes_running_nemesis_def set_running_nemesis_def unset_running_nemesis_def
      mark_node_def unmark_node_def publish_alloc_def select_eval)

text \<open>C15: \<^verbatim>\<open>run_nemesis\<close> brackets its body with a reservation.  Either no node qualifies, the error of
  the selection is raised, the body does not run and nothing changes; or the body runs with a
  qualifying node reserved under the unique label, its outcome (result or exception) is the outcome,
  and the node is free afterwards if the label still held it, other reservations being the body's.\<close>

theorem run_nemesis_brackets:
  "let nm = unique_disruption_name uid label; r = run_nemesis_request nm node_list pool filter_seed in
   (\<exists>e. run_nemesis uid draw rk label node_list pool filter_seed body s = (Inl (Inl e), s) \<and>
      (\<forall>n. \<not> selectable pool r s n)) \<or>
   (\<exists>n res s2. selectable pool r s n \<and> body n (mark_node n nm s) = (res, s2) \<and>
      fst (run_nemesis uid draw rk label node_list pool filter_seed body s) = map_sum Inr id res \<and>
      owner (snd (run_nemesis uid draw rk label node_list pool filter_seed body s)) =
        (if owner s2 n = Some nm then (owner s2)(n := None) else owner s2))"
proof -
  let ?nm = "unique_disruption_name uid label"
  let ?r = "run_nemesis_request ?nm node_list pool filter_seed"
  have p: "sr_pool_type ?r = TargetPool pool" and n: "sr_nemesis_name ?r = ?nm"
    by (simp_all add: run_nemesis_request_def)
  obtain sel s1 where sel: "select_target_node draw rk ?r s = (sel, s1)" by fastforce
  show ?thesis
  proof (cases sel)
    case (Inl e)
    with sel select_error[of draw rk ?r s e s1 pool] p show ?thesis
      by (simp add: run_nemesis_def Let_def)
  next
    case (Inr m)
    obtain res s2 where b: "body m (mark_node m ?nm s) = (res, s2)" by fastforce
    from Inr sel select_ok[of draw rk ?r s m s1 pool] p n
    have "selectable pool ?r s m" "s1 = mark_node m ?nm s" by auto
    with sel Inr b show ?thesis
      by (auto simp: run_nemesis_def Let_def owner_unset_running)
  qed
qed

end
