(* ===== verification/Retrying.thy ===== *)
theory Retrying
  imports Sct_Prelude
begin

text \<open>
  The retry decorator (\<^verbatim>\<open>sdcm/utils/decorators.py\<close>, class \<^verbatim>\<open>retrying\<close>) and the waiting functions
  (\<^verbatim>\<open>sdcm/wait.py\<close>).

  The decorated function acts on a world \<^typ>\<open>'w\<close> and returns a value or raises.  The clock and
  \<^verbatim>\<open>time.sleep\<close> are operations on the world; times are in ticks of the clock.  The retry engine of
  the \<^verbatim>\<open>tenacity\<close> package is a parameter of \<^verbatim>\<open>wait_for\<close>.
\<close>

section \<open>The retry decorator\<close>

record 'e retrying =
  rt_n :: nat
  rt_sleep_time :: int
  rt_allowed_exceptions :: "'e \<Rightarrow> bool"
  rt_timeout :: int
  rt_raise_on_exceeded :: bool

text \<open>\<^verbatim>\<open>__init__\<close>: zero retries stand for \<^verbatim>\<open>sys.maxsize * 2 + 1\<close> of them.\<close>

definition make_retrying :: "nat \<Rightarrow> int \<Rightarrow> ('e \<Rightarrow> bool) \<Rightarrow> int \<Rightarrow> bool \<Rightarrow> 'e retrying" where
  "make_retrying n sleep_time allowed timeout raise_on_exceeded =
     \<lparr>rt_n = (if n \<noteq> 0 then n else (2 ^ 63 - 1) * 2 + 1), rt_sleep_time = sleep_time,
      rt_allowed_exceptions = allowed, rt_timeout = timeout, rt_raise_on_exceeded = raise_on_exceeded\<rparr>"

text \<open>\<^verbatim>\<open>timeout = partial(retrying, n=0)\<close>\<close>

definition timeout_decorator :: "int \<Rightarrow> ('e \<Rightarrow> bool) \<Rightarrow> int \<Rightarrow> bool \<Rightarrow> 'e retrying" where
  "timeout_decorator = make_retrying 0"

text \<open>The loop with \<open>k\<close> iterations left; the last one has \<open>k = 1\<close>.  \<^term>\<open>end_time = 0\<close>: no timeout.\<close>

fun retry_loop ::
    "'e retrying \<Rightarrow> ('w \<Rightarrow> int) \<Rightarrow> (int \<Rightarrow> 'w \<Rightarrow> 'w) \<Rightarrow> ('w \<Rightarrow> ('e + 'a) \<times> 'w) \<Rightarrow> int \<Rightarrow> nat \<Rightarrow> 'w
      \<Rightarrow> ('e + 'a option) \<times> 'w" where
  "retry_loop c now sleep func end_time 0 w = (Inr None, w)"
| "retry_loop c now sleep func end_time (Suc k) w =
     (case func w of
        (Inr v, w1) \<Rightarrow> (Inr (Some v), w1)
      | (Inl ex, w1) \<Rightarrow>
          (if \<not> rt_allowed_exceptions c ex then (Inl ex, w1)
           else (let w2 = sleep (rt_sleep_time c) w1 in
             if (k = 0 \<or> (end_time \<noteq> 0 \<and> now w2 > end_time)) \<and> rt_raise_on_exceeded c
             then (Inl ex, w2)
             else retry_loop c now sleep func end_time k w2)))"

definition retrying_call ::
    "'e retrying \<Rightarrow> ('w \<Rightarrow> int) \<Rightarrow> (int \<Rightarrow> 'w \<Rightarrow> 'w) \<Rightarrow> ('w \<Rightarrow> ('e + 'a) \<times> 'w) \<Rightarrow> 'w
      \<Rightarrow> ('e + 'a option) \<times> 'w" where
  "retrying_call c now sleep func w =
     (let end_time = (if rt_timeout c \<noteq> 0 then now w + rt_timeout c else 0) in
      if rt_n c = 1 then (case func w of (res, w1) \<Rightarrow> (map_sum id Some res, w1))
      else retry_loop c now sleep func end_time (rt_n c) w)"

section \<open>Waiting\<close>

text \<open>\<^verbatim>\<open>forever_wait_for\<close>: \<^const>\<open>None\<close> when the loop never ends; an exception of \<open>func\<close> leaves it.\<close>

partial_function (option) forever_wait_for ::
    "('a \<Rightarrow> bool) \<Rightarrow> (int \<Rightarrow> 'w \<Rightarrow> 'w) \<Rightarrow> ('w \<Rightarrow> ('e + 'a) \<times> 'w) \<Rightarrow> int \<Rightarrow> 'w
      \<Rightarrow> (('e + 'a) \<times> 'w) option" where
  "forever_wait_for truthy sleep func step w =
     (case func w of
        (Inl ex, w1) \<Rightarrow> Some (Inl ex, w1)
      | (Inr ok, w1) \<Rightarrow>
          (let w2 = sleep step w1 in
           if truthy ok then Some (Inr ok, w2) else forever_wait_for truthy sleep func step w2))"

text \<open>
  How a call of a \<^verbatim>\<open>tenacity.Retrying\<close> object ends: with a value, with \<^verbatim>\<open>RetryError\<close> carrying the
  last attempt, or with the exception of the last attempt itself (\<^verbatim>\<open>reraise=True\<close>).
\<close>

datatype ('e, 'a) tenacity_outcome =
    Returned 'a
  | RetryError "'e + 'a"
  | Reraised 'e

datatype 'e wait_error = WaitForTimeoutError | ExitByEventError | RetryErrorRaised | FuncError 'e

text \<open>
  \<^verbatim>\<open>wait_for\<close>: \<open>engine\<close> is the call of the \<^verbatim>\<open>tenacity.Retrying\<close> object built with the given
  \<^verbatim>\<open>reraise\<close> flag; \<open>event_set\<close> is \<^verbatim>\<open>stop_event and stop_event.is_set()\<close> afterwards.  A missing
  timeout is \<open>0\<close>.  The value is \<^verbatim>\<open>None\<close> after a swallowed timeout.
\<close>

definition wait_for ::
    "('a \<Rightarrow> bool) \<Rightarrow> (int \<Rightarrow> 'w \<Rightarrow> 'w) \<Rightarrow> (bool \<Rightarrow> 'w \<Rightarrow> ('e, 'a) tenacity_outcome \<times> 'w) \<Rightarrow> ('w \<Rightarrow> bool)
      \<Rightarrow> ('w \<Rightarrow> ('e + 'a) \<times> 'w) \<Rightarrow> int \<Rightarrow> int \<Rightarrow> bool \<Rightarrow> 'w \<Rightarrow> (('e wait_error + 'a option) \<times> 'w) option" where
  "wait_for truthy sleep engine event_set func step timeout throw_exc w =
     (if timeout = 0 then
        map_option (\<lambda>(res, w1). (map_sum FuncError Some res, w1)) (forever_wait_for truthy sleep func step w)
      else (case engine throw_exc w of
        (Returned v, w1) \<Rightarrow> Some (Inr (Some v), w1)
      | (RetryError att, w1) \<Rightarrow>
          (let raising = (if event_set w1 then ExitByEventError else WaitForTimeoutError) in
           if throw_exc then
             (case att of
                Inl ex \<Rightarrow> Some (Inl raising, w1)
              | Inr v \<Rightarrow> if \<not> truthy v then Some (Inl raising, w1) else Some (Inl RetryErrorRaised, w1))
           else Some (Inr None, w1))
      | (Reraised ex, w1) \<Rightarrow>
          (if throw_exc then Some (Inl (FuncError ex), w1) else Some (Inr None, w1))))"

section \<open>Which attempt decides\<close>

text \<open>The world in which attempt \<open>i\<close> starts, when all the attempts before it are repeated.\<close>

fun attempt_world :: "(int \<Rightarrow> 'w \<Rightarrow> 'w) \<Rightarrow> ('w \<Rightarrow> 'r \<times> 'w) \<Rightarrow> int \<Rightarrow> 'w \<Rightarrow> nat \<Rightarrow> 'w" where
  "attempt_world sleep func t w 0 = w"
| "attempt_world sleep func t w (Suc i) = attempt_world sleep func t (sleep t (snd (func w))) i"

text \<open>Attempt \<open>i\<close> of \<open>n\<close> ends a raising retry: it returns, raises what is not allowed, is the last, or is late.\<close>

definition decisive ::
    "'e retrying \<Rightarrow> ('w \<Rightarrow> int) \<Rightarrow> (int \<Rightarrow> 'w \<Rightarrow> 'w) \<Rightarrow> ('w \<Rightarrow> ('e + 'a) \<times> 'w) \<Rightarrow> int \<Rightarrow> nat \<Rightarrow> 'w \<Rightarrow> nat \<Rightarrow> bool" where
  "decisive c now sleep func end_time n w i =
     (let aw = attempt_world sleep func (rt_sleep_time c) w in
      case fst (func (aw i)) of
        Inr v \<Rightarrow> True
      | Inl ex \<Rightarrow> \<not> rt_allowed_exceptions c ex \<or> Suc i = n \<or> (end_time \<noteq> 0 \<and> now (aw (Suc i)) > end_time))"

lemma decisive_Suc:
  "decisive c now sleep func end_time (Suc n) w (Suc i) =
   decisive c now sleep func end_time n (sleep (rt_sleep_time c) (snd (func w))) i"
  by (simp add: decisive_def Let_def split: sum.splits)

lemma retry_loop_decisive:
  assumes "rt_raise_on_exceeded c" "j < n"
    and "decisive c now sleep func end_time n w j" "\<forall>i<j. \<not> decisive c now sleep func end_time n w i"
  shows "fst (retry_loop c now sleep func end_time n w) =
     map_sum id Some (fst (func (attempt_world sleep func (rt_sleep_time c) w j)))"
  using assms
proof (induction n arbitrary: w j)
  case 0
  then show ?case by simp
next
  case (Suc n)
  obtain res w1 where f: "func w = (res, w1)" by fastforce
  show ?case
  proof (cases j)
    case 0
    with Suc.prems f show ?thesis
      by (auto simp: decisive_def Let_def split: sum.splits)
  next
    case (Suc j')
    with Suc.prems(4) have "\<not> decisive c now sleep func end_time (Suc n) w 0" by blast
    then obtain ex where ex: "res = Inl ex" "rt_allowed_exceptions c ex" "n \<noteq> 0"
        "\<not> (end_time \<noteq> 0 \<and> now (sleep (rt_sleep_time c) w1) > end_time)"
      using f by (auto simp: decisive_def Let_def split: sum.splits)
    let ?w = "sleep (rt_sleep_time c) w1"
    have "fst (retry_loop c now sleep func end_time n ?w) =
        map_sum id Some (fst (func (attempt_world sleep func (rt_sleep_time c) ?w j')))"
    proof (rule Suc.IH)
      show "decisive c now sleep func end_time n ?w j'" "j' < n"
        using Suc Suc.prems f by (simp_all add: decisive_Suc)
      show "\<forall>i<j'. \<not> decisive c now sleep func end_time n ?w i"
      proof (intro allI impI)
        fix i assume "i < j'"
        with Suc Suc.prems(4) have "\<not> decisive c now sleep func end_time (Suc n) w (Suc i)" by blast
        then show "\<not> decisive c now sleep func end_time n ?w i" using f by (simp add: decisive_Suc)
      qed
    qed (rule Suc.prems(1))
    with ex f Suc show ?thesis by (auto simp: Let_def id_def)
  qed
qed

lemma decisive_last: "decisive c now sleep func end_time (Suc n) w n"
  by (simp add: decisive_def Let_def split: sum.splits)

lemma retry_loop_timeout_irrelevant:
  "\<not> rt_raise_on_exceeded c \<Longrightarrow>
   retry_loop c now sleep func end_time n w = retry_loop (c\<lparr>rt_timeout := t\<rparr>) now sleep func 0 n w"
  by (induction n arbitrary: w) (simp_all add: Let_def split: sum.splits prod.splits)

text \<open>Evaluation \<open>i\<close> ends an endless wait.\<close>

definition wait_ends :: "('a \<Rightarrow> bool) \<Rightarrow> (int \<Rightarrow> 'w \<Rightarrow> 'w) \<Rightarrow> ('w \<Rightarrow> ('e + 'a) \<times> 'w) \<Rightarrow> int \<Rightarrow> 'w \<Rightarrow> nat \<Rightarrow> bool" where
  "wait_ends truthy sleep func step w i =
     (case fst (func (attempt_world sleep func step w i)) of Inl _ \<Rightarrow> True | Inr v \<Rightarrow> truthy v)"

lemma wait_ends_Suc:
  "wait_ends truthy sleep func step w (Suc i) =
   wait_ends truthy sleep func step (sleep step (snd (func w))) i"
  by (simp add: wait_ends_def)

lemma forever_wait_for_ends:
  assumes "wait_ends truthy sleep func step w j" "\<forall>i<j. \<not> wait_ends truthy sleep func step w i"
  shows "\<exists>w'. forever_wait_for truthy sleep func step w =
     Some (fst (func (attempt_world sleep func step w j)), w')"
  using assms
proof (induction j arbitrary: w)
  case 0
  then show ?case
    by (subst forever_wait_for.simps) (auto simp: wait_ends_def Let_def split: sum.splits prod.splits)
next
  case (Suc j)
  let ?w = "sleep step (snd (func w))"
  have "\<forall>i<j. \<not> wait_ends truthy sleep func step ?w i"
    using Suc.prems(2) by (metis Suc_less_eq wait_ends_Suc)
  with Suc.IH[of ?w] Suc.prems(1) obtain w' where IH:
    "forever_wait_for truthy sleep func step ?w = Some (fst (func (attempt_world sleep func step ?w j)), w')"
    by (auto simp: wait_ends_Suc)
  from Suc.prems(2) have "\<not> wait_ends truthy sleep func step w 0" by blast
  then obtain v where "fst (func w) = Inr v" "\<not> truthy v"
    by (auto simp: wait_ends_def split: sum.splits)
  with IH show ?case
    by (subst forever_wait_for.simps) (auto simp: Let_def split: prod.splits)
qed

lemma forever_wait_for_SomeD:
  assumes "forever_wait_for truthy sleep func step w = Some r"
  shows "\<exists>i. wait_ends truthy sleep func step w i"
  using assms
proof (rule forever_wait_for.raw_induct[rotated, where
    P = "\<lambda>truthy sleep func step w r. \<exists>i. wait_ends truthy sleep func step w i"])
  fix fwf truthy sleep func step w r
  assume 1: "\<And>truthy sleep func step w r. fwf truthy sleep func step w = Some r \<Longrightarrow>
      \<exists>i. wait_ends truthy sleep func step w i"
    "(case func w of (Inl ex, w1) \<Rightarrow> Some (Inl ex, w1)
      | (Inr ok, w1) \<Rightarrow> let w2 = sleep step w1 in
          if truthy ok then Some (Inr ok, w2) else fwf truthy sleep func step w2) = Some r"
  obtain res w1 where f: "func w = (res, w1)" by fastforce
  show "\<exists>i. wait_ends truthy sleep func step w i"
  proof (cases "wait_ends truthy sleep func step w 0")
    case False
    with f obtain v where "res = Inr v" "\<not> truthy v" by (auto simp: wait_ends_def split: sum.splits)
    with 1(2) f have "fwf truthy sleep func step (sleep step w1) = Some r" by (simp add: Let_def)
    from 1(1)[OF this] obtain i where "wait_ends truthy sleep func step (sleep step w1) i" ..
    with f have "wait_ends truthy sleep func step w (Suc i)" by (simp add: wait_ends_Suc)
    then show ?thesis ..
  qed blast
qed

section \<open>Properties\<close>


text \<open>The concrete world of the witnesses: a clock that advances by one tick per call and per slept second.\<close>

definition ticking_func :: "nat \<Rightarrow> int \<Rightarrow> (string + int) \<times> int" where
  "ticking_func ok_at w = (if w \<ge> int ok_at then Inr w else Inl ''down'', w + 1)"


text \<open>With \<^verbatim>\<open>raise_on_exceeded=False\<close> the timeout has no effect at all: the call behaves, in its
  result and in its effects on the world, exactly as if no timeout had been given, however late.\<close>

theorem retrying_timeout_ignored:
  assumes "\<not> rt_raise_on_exceeded c"
  shows "retrying_call c now sleep func w = retrying_call (c\<lparr>rt_timeout := 0\<rparr>) now sleep func w"
  by (auto simp: retrying_call_def Let_def intro: retry_loop_timeout_irrelevant[OF assms])

theorem retrying_timeout_ignored_witness:
  "retrying_call (make_retrying 3 5 (\<lambda>_. True) 1 False) id (+) (ticking_func 9) 0 = (Inr (Some 12), 13)"
proof -
  let ?c = "make_retrying 3 5 (\<lambda>_. True) 1 False :: string retrying"
  have "\<not> rt_raise_on_exceeded ?c" by (simp add: make_retrying_def)
  from retrying_timeout_ignored[OF this, of id "(+)" "ticking_func 9" 0] show ?thesis
    by (simp add: retrying_call_def make_retrying_def ticking_func_def eval_nat_numeral)
qed

text \<open>\<^verbatim>\<open>forever_wait_for\<close> returns exactly when some evaluation of the function is truthy or raises,
  and then with the value or exception of the first such evaluation; otherwise it waits forever.\<close>

theorem forever_wait_for_first:
  "case forever_wait_for truthy sleep func step w of
     None \<Rightarrow> \<forall>i. \<not> wait_ends truthy sleep func step w i
   | Some (res, w') \<Rightarrow> \<exists>j. wait_ends truthy sleep func step w j \<and>
       (\<forall>i<j. \<not> wait_ends truthy sleep func step w i) \<and>
       res = fst (func (attempt_world sleep func step w j))"
proof (cases "\<exists>i. wait_ends truthy sleep func step w i")
  case True
  define j where "j = (LEAST i. wait_ends truthy sleep func step w i)"
  from True have "wait_ends truthy sleep func step w j" unfolding j_def by (rule LeastI_ex)
  moreover have "\<forall>i<j. \<not> wait_ends truthy sleep func step w i"
    unfolding j_def by (blast dest: not_less_Least)
  ultimately show ?thesis using forever_wait_for_ends[of truthy sleep func step w j] by auto
next
  case False
  then have "forever_wait_for truthy sleep func step w = None"
    using forever_wait_for_SomeD by (metis not_None_eq)
  with False show ?thesis by simp
qed

theorem forever_wait_for_first_witness:
  "\<exists>w'. forever_wait_for (\<lambda>v. v > 3) (+) (\<lambda>w. (Inr w :: string + int, w + 1)) 1 0 = Some (Inr 4, w')"
proof -
  let ?f = "\<lambda>w. (Inr w :: string + int, w + 1)"
  have aw: "attempt_world (+) ?f 1 w i = w + 2 * int i" for w i
    by (induction i arbitrary: w) auto
  from forever_wait_for_first[of "\<lambda>v. v > 3" "(+)" ?f 1 0] obtain res w' j where
    "forever_wait_for (\<lambda>v. v > 3) (+) ?f 1 0 = Some (res, w')" "2 * int j > 3"
    "\<forall>i<j. \<not> 2 * int i > 3" "res = Inr (2 * int j)"
    by (auto simp: wait_ends_def aw split: option.splits dest: spec[of _ 2])
  moreover from this have "\<not> 2 < j" by auto
  ultimately have "j = 2" by simp
  with \<open>forever_wait_for _ _ _ _ _ = _\<close> \<open>res = _\<close> show ?thesis by simp
qed

text \<open>The behaviour of the retry engine that \<^verbatim>\<open>wait_for\<close> relies on: it returns truthy values only; it ends
  with \<^verbatim>\<open>RetryError\<close> for a falsy last value, or for an exception unless asked to re-raise it.\<close>

definition tenacity_contract ::
    "('a \<Rightarrow> bool) \<Rightarrow> (bool \<Rightarrow> 'w \<Rightarrow> ('e, 'a) tenacity_outcome \<times> 'w) \<Rightarrow> bool" where
  "tenacity_contract truthy engine \<longleftrightarrow> (\<forall>reraise w. case fst (engine reraise w) of
       Returned v \<Rightarrow> truthy v
     | RetryError (Inl ex) \<Rightarrow> \<not> reraise
     | RetryError (Inr v) \<Rightarrow> \<not> truthy v
     | Reraised ex \<Rightarrow> reraise)"

text \<open>How a bounded wait ends.  It returns a truthy value, or, when \<^verbatim>\<open>throw_exc\<close> is off, \<^verbatim>\<open>None\<close> and
  never an exception; when \<^verbatim>\<open>throw_exc\<close> is on it raises the exception of the last attempt if that
  attempt raised, and otherwise \<^verbatim>\<open>ExitByEventError\<close> or \<^verbatim>\<open>WaitForTimeoutError\<close> according to the stop
  event; it always ends.\<close>

theorem wait_for_outcome:
  assumes "tenacity_contract truthy engine" "timeout \<noteq> 0"
  shows "\<exists>res w1. wait_for truthy sleep engine event_set func step timeout throw_exc w = Some (res, w1) \<and>
    (case res of
       Inr (Some v) \<Rightarrow> truthy v \<and> fst (engine throw_exc w) = Returned v
     | Inr None \<Rightarrow> \<not> throw_exc
     | Inl (FuncError ex) \<Rightarrow> throw_exc \<and> fst (engine throw_exc w) = Reraised ex
     | Inl ExitByEventError \<Rightarrow> throw_exc \<and> event_set w1
     | Inl WaitForTimeoutError \<Rightarrow> throw_exc \<and> \<not> event_set w1
     | Inl RetryErrorRaised \<Rightarrow> False)"
proof -
  obtain out w1 where e: "engine throw_exc w = (out, w1)" by fastforce
  from assms(1) have c: "case out of
       Returned v \<Rightarrow> truthy v | RetryError (Inl ex) \<Rightarrow> \<not> throw_exc
     | RetryError (Inr v) \<Rightarrow> \<not> truthy v | Reraised ex \<Rightarrow> throw_exc"
    unfolding tenacity_contract_def by (metis e fst_conv)
  with e assms(2) show ?thesis
    by (cases out) (auto simp: wait_for_def Let_def split: sum.splits)
qed

theorem wait_for_outcome_witness:
  "wait_for (\<lambda>v. v) (\<lambda>_ w. w) (\<lambda>r w. (RetryError (Inr False) :: (string, bool) tenacity_outcome, w)) (\<lambda>_. False)
     (\<lambda>w. (Inr False, w)) 1 5 True (0 :: nat) = Some (Inl WaitForTimeoutError, 0)"
proof -
  let ?g = "\<lambda>(r :: bool) (w :: nat). (RetryError (Inr False) :: (string, bool) tenacity_outcome, w)"
  have "tenacity_contract (\<lambda>v. v) ?g" "(5 :: int) \<noteq> 0" by (simp_all add: tenacity_contract_def)
  from wait_for_outcome[OF this, of "\<lambda>_ w. w" "\<lambda>_. False" "\<lambda>w. (Inr False, w)" 1 True 0]
  show ?thesis by (simp add: wait_for_def)
qed

end
