(* ===== verification/Replication.thy ===== *)
theory Replication
  imports Retrying
begin

text \<open>
  Replication strategies and their temporary changes
  (\<^verbatim>\<open>sdcm/utils/replication_strategy_utils.py\<close>, with the identifier helpers of
  \<^verbatim>\<open>sdcm/utils/cql_utils.py\<close>).

  The database behind the CQL session is a parameter: a state \<^typ>\<open>'s\<close>, reading the strategy of a
  keyspace (\<^verbatim>\<open>describe\<close>) and altering it.  A replication factor given as a decimal string or as a
  number is the number; the other form is a list of racks.
\<close>

section \<open>Strategies\<close>

datatype rf = RfNum int | RfRacks "string list"

datatype replication_strategy =
    SimpleReplicationStrategy rf
  | NetworkTopologyReplicationStrategy "rf dict"
  | LocalReplicationStrategy

datatype cql_error = InvalidRequest | ValueError | TypeError | AttributeError
  | DatacenterNotResolvedError | SessionError string

definition int_of_rf :: "rf \<Rightarrow> cql_error + int" where
  "int_of_rf r = (case r of RfNum i \<Rightarrow> Inr i | RfRacks _ \<Rightarrow> Inl TypeError)"

text \<open>\<^verbatim>\<open>NetworkTopologyReplicationStrategy.__init__\<close>\<close>

definition make_network_topology :: "int option \<Rightarrow> rf dict \<Rightarrow> cql_error + replication_strategy" where
  "make_network_topology default_rf factors =
     (let base = (case default_rf of Some d \<Rightarrow> [(''replication_factor'', RfNum d)] | None \<Rightarrow> []);
          per_dc = foldl (\<lambda>m (k, v). AList.update k v m) base factors
      in if per_dc = [] then Inl ValueError else Inr (NetworkTopologyReplicationStrategy per_dc))"

definition replication_factors :: "replication_strategy \<Rightarrow> cql_error + int list" where
  "replication_factors st = (case st of
       SimpleReplicationStrategy r \<Rightarrow> map_sum id (\<lambda>i. [i]) (int_of_rf r)
     | NetworkTopologyReplicationStrategy m \<Rightarrow>
         Inr (map (\<lambda>(k, r). case r of RfNum i \<Rightarrow> i | RfRacks rs \<Rightarrow> int (length rs)) m)
     | LocalReplicationStrategy \<Rightarrow> Inr [0])"

text \<open>\<^verbatim>\<open>from_string\<close> after the literal is parsed: the class is chosen by the end of its name.\<close>

definition strategy_of_params :: "string \<Rightarrow> rf dict \<Rightarrow> cql_error + replication_strategy" where
  "strategy_of_params strategy_class params =
     (if endswith strategy_class ''SimpleStrategy'' then
        (case params of
           [(k, r)] \<Rightarrow> if k = ''replication_factor'' then Inr (SimpleReplicationStrategy r) else Inl TypeError
         | _ \<Rightarrow> Inl TypeError)
      else if endswith strategy_class ''NetworkTopologyStrategy'' then
        (case map_of params ''default_rf'' of
           Some (RfNum d) \<Rightarrow> make_network_topology (Some d) (AList.delete ''default_rf'' params)
         | Some (RfRacks rs) \<Rightarrow>
             Inr (NetworkTopologyReplicationStrategy
               (foldl (\<lambda>m (k, v). AList.update k v m) [(''replication_factor'', RfRacks rs)]
                  (AList.delete ''default_rf'' params)))
         | None \<Rightarrow> make_network_topology None params)
      else if endswith strategy_class ''LocalStrategy'' then
        (if params = [] then Inr LocalReplicationStrategy else Inl TypeError)
      else Inl ValueError)"

section \<open>Identifiers\<close>

text \<open>The pattern \<^verbatim>\<open>^[a-z][a-z0-9_]*$\<close>; \<^verbatim>\<open>$\<close> also matches before a final newline.\<close>

definition ident_start :: "char \<Rightarrow> bool" where
  "ident_start c = (let n = (of_char c :: nat) in 97 \<le> n \<and> n \<le> 122)"

definition plain_identifier :: "string \<Rightarrow> bool" where
  "plain_identifier s = (case s of
       [] \<Rightarrow> False
     | c # cs \<Rightarrow> ident_start c \<and>
         (let body = (if cs \<noteq> [] \<and> last cs = CHR 0x0A then butlast cs else cs)
          in list_all (\<lambda>c. ident_start c \<or> is_dec_digit c \<or> c = CHR ''_'') body))"

definition cql_quote_if_needed :: "string \<Rightarrow> string" where
  "cql_quote_if_needed identifier =
     (if plain_identifier identifier then identifier else CHR 0x22 # identifier @ [CHR 0x22])"

definition cql_unquote_if_needed :: "string \<Rightarrow> string" where
  "cql_unquote_if_needed identifier =
     (if length identifier \<ge> 2 \<and> startswith identifier [CHR 0x22] \<and> endswith identifier [CHR 0x22]
      then butlast (tl identifier) else identifier)"

definition is_system_keyspace :: "string \<Rightarrow> bool" where
  "is_system_keyspace keyspace =
     (startswith keyspace ''system'' \<or> startswith keyspace ''alternator_usertable'' \<or> startswith keyspace ''audit'')"

section \<open>The temporary setter\<close>

text \<open>\<open>describe\<close> is \<^verbatim>\<open>ReplicationStrategy.get\<close>, \<open>alter\<close> is \<^verbatim>\<open>strategy.apply\<close> (with the schema agreement).\<close>

type_synonym 's describe_op = "string \<Rightarrow> 's \<Rightarrow> cql_error + replication_strategy"
type_synonym 's alter_op = "string \<Rightarrow> replication_strategy \<Rightarrow> 's \<Rightarrow> (cql_error + unit) \<times> 's"

definition preserve_replication_strategy ::
    "'s describe_op \<Rightarrow> string \<Rightarrow> replication_strategy dict \<Rightarrow> 's \<Rightarrow> cql_error + replication_strategy dict" where
  "preserve_replication_strategy describe keyspace preserved s =
     (if map_of preserved keyspace \<noteq> None then Inr preserved
      else map_sum id (\<lambda>st. AList.update keyspace st preserved) (describe keyspace s))"

text \<open>One call of the setter: each keyspace is preserved and altered; only \<^verbatim>\<open>InvalidRequest\<close> is skipped.\<close>

fun setter_call ::
    "'s describe_op \<Rightarrow> 's alter_op \<Rightarrow> replication_strategy dict \<Rightarrow> replication_strategy dict \<Rightarrow> 's
      \<Rightarrow> (cql_error + unit) \<times> replication_strategy dict \<times> 's" where
  "setter_call describe alter [] preserved s = (Inr (), preserved, s)"
| "setter_call describe alter ((keyspace, strategy) # rest) preserved s =
     (case preserve_replication_strategy describe keyspace preserved s of
        Inl e \<Rightarrow> (if e = InvalidRequest then setter_call describe alter rest preserved s
                  else (Inl e, preserved, s))
      | Inr preserved' \<Rightarrow>
          (case alter keyspace strategy s of
             (Inl e, s') \<Rightarrow> (if e = InvalidRequest then setter_call describe alter rest preserved' s'
                            else (Inl e, preserved', s'))
           | (Inr _, s') \<Rightarrow> setter_call describe alter rest preserved' s'))"

text \<open>The body of the \<^verbatim>\<open>with\<close> statement: calls of the setter, up to the first that raises.\<close>

fun setter_calls ::
    "'s describe_op \<Rightarrow> 's alter_op \<Rightarrow> replication_strategy dict list \<Rightarrow> replication_strategy dict \<Rightarrow> 's
      \<Rightarrow> (cql_error + unit) \<times> replication_strategy dict \<times> 's" where
  "setter_calls describe alter [] preserved s = (Inr (), preserved, s)"
| "setter_calls describe alter (c # cs) preserved s =
     (case setter_call describe alter c preserved s of
        (Inl e, preserved', s') \<Rightarrow> (Inl e, preserved', s')
      | (Inr _, preserved', s') \<Rightarrow> setter_calls describe alter cs preserved' s')"

text \<open>The whole \<^verbatim>\<open>with\<close> statement: \<^verbatim>\<open>__exit__\<close> calls the setter on what was preserved.\<close>

definition with_temporary_replication ::
    "'s describe_op \<Rightarrow> 's alter_op \<Rightarrow> replication_strategy dict list \<Rightarrow> 's \<Rightarrow> (cql_error + unit) \<times> 's" where
  "with_temporary_replication describe alter calls s =
     (case setter_calls describe alter calls [] s of
        (res, preserved, s1) \<Rightarrow>
          (case setter_call describe alter preserved preserved s1 of
             (Inl e, _, s2) \<Rightarrow> (Inl e, s2)
           | (Inr _, _, s2) \<Rightarrow> (res, s2)))"

section \<open>Replication factor control\<close>

record rf_control =
  rc_datacenter :: "string option"
  rc_decreased_rf_keyspaces :: "string list"
  rc_original_nodes_number :: nat

datatype retry_or = Retry | OtherExc cql_error

text \<open>\<^verbatim>\<open>_resolve_datacenter\<close>: the sentinel \<^verbatim>\<open>Retry\<close> is raised on a falsy value and is all that is retried.\<close>

definition resolve_datacenter ::
    "(int \<Rightarrow> 'w \<Rightarrow> 'w) \<Rightarrow> ('w \<Rightarrow> int) \<Rightarrow> ('w \<Rightarrow> (cql_error + string option) \<times> 'w) \<Rightarrow> 'w
      \<Rightarrow> (retry_or + string option) \<times> 'w" where
  "resolve_datacenter sleep now node_datacenter w =
     (let read_datacenter = (\<lambda>w. case node_datacenter w of
            (Inl e, w1) \<Rightarrow> (Inl (OtherExc e), w1)
          | (Inr None, w1) \<Rightarrow> (Inl Retry, w1)
          | (Inr (Some d), w1) \<Rightarrow> if d = [] then (Inl Retry, w1) else (Inr d, w1));
          n = max (10 div 2) 2
      in retrying_call (make_retrying n 2 (\<lambda>e. e = Retry) 0 False) now sleep read_datacenter w)"

text \<open>A row of \<^verbatim>\<open>system_schema.keyspaces\<close>: the keyspace, the class and the factors.\<close>

type_synonym keyspace_row = "string \<times> string \<times> rf dict"

fun keyspaces_to_decrease :: "string \<Rightarrow> nat \<Rightarrow> keyspace_row list \<Rightarrow> cql_error + string list" where
  "keyspaces_to_decrease dc n [] = Inr []"
| "keyspaces_to_decrease dc n ((ks, cls, factors) # rows) =
     (if is_system_keyspace ks then keyspaces_to_decrease dc n rows
      else if contains ''SimpleStrategy'' cls then keyspaces_to_decrease dc n rows
      else if contains ''NetworkTopologyStrategy'' cls then
        (case map_of factors dc of
           None \<Rightarrow> keyspaces_to_decrease dc n rows
         | Some r \<Rightarrow> (case r of
               RfRacks _ \<Rightarrow> Inl ValueError
             | RfNum i \<Rightarrow> (if i = int n then map_sum id ((#) ks) (keyspaces_to_decrease dc n rows)
                        else keyspaces_to_decrease dc n rows)))
      else keyspaces_to_decrease dc n rows)"

definition get_keyspaces_to_decrease_rf :: "rf_control \<Rightarrow> keyspace_row list \<Rightarrow> cql_error + string list" where
  "get_keyspaces_to_decrease_rf rc rows = (case rc_datacenter rc of
       None \<Rightarrow> Inl DatacenterNotResolvedError
     | Some dc \<Rightarrow> if dc = [] then Inl DatacenterNotResolvedError
                 else keyspaces_to_decrease dc (rc_original_nodes_number rc) rows)"

definition alter_keyspace_rf ::
    "'s describe_op \<Rightarrow> 's alter_op \<Rightarrow> rf_control \<Rightarrow> string \<Rightarrow> int \<Rightarrow> 's \<Rightarrow> (cql_error + unit) \<times> 's" where
  "alter_keyspace_rf describe alter rc keyspace rf s = (case describe keyspace s of
       Inl e \<Rightarrow> (Inl e, s)
     | Inr (NetworkTopologyReplicationStrategy m) \<Rightarrow>
         (let dc = (case rc_datacenter rc of Some dc \<Rightarrow> dc | None \<Rightarrow> ''None'')
          in alter keyspace (NetworkTopologyReplicationStrategy (AList.update dc (RfNum rf) m)) s)
     | Inr _ \<Rightarrow> (Inl AttributeError, s))"

fun revert_loop ::
    "'s describe_op \<Rightarrow> 's alter_op \<Rightarrow> rf_control \<Rightarrow> string list \<Rightarrow> 's \<Rightarrow> (cql_error + unit) \<times> 's" where
  "revert_loop describe alter rc [] s = (Inr (), s)"
| "revert_loop describe alter rc (ks # kss) s =
     (case alter_keyspace_rf describe alter rc ks (int (rc_original_nodes_number rc)) s of
        (Inl e, s') \<Rightarrow> (Inl e, s')
      | (Inr _, s') \<Rightarrow> revert_loop describe alter rc kss s')"

definition revert_to_original_keyspaces_rf ::
    "'s describe_op \<Rightarrow> 's alter_op \<Rightarrow> rf_control \<Rightarrow> 's \<Rightarrow> (cql_error + unit) \<times> 's" where
  "revert_to_original_keyspaces_rf describe alter rc s =
     revert_loop describe alter rc (rc_decreased_rf_keyspaces rc) s"

fun decrease_loop ::
    "'s describe_op \<Rightarrow> 's alter_op \<Rightarrow> string list \<Rightarrow> rf_control \<Rightarrow> 's \<Rightarrow> (cql_error + unit) \<times> rf_control \<times> 's" where
  "decrease_loop describe alter [] rc s = (Inr (), rc, s)"
| "decrease_loop describe alter (ks # kss) rc s =
     (case alter_keyspace_rf describe alter rc ks (int (rc_original_nodes_number rc) - 1) s of
        (Inl e, s') \<Rightarrow> (Inl e, rc, s')
      | (Inr _, s') \<Rightarrow> decrease_loop describe alter kss
          (rc\<lparr>rc_decreased_rf_keyspaces := rc_decreased_rf_keyspaces rc @ [ks]\<rparr>) s')"

definition decrease_keyspaces_rf ::
    "'s describe_op \<Rightarrow> 's alter_op \<Rightarrow> ('s \<Rightarrow> keyspace_row list) \<Rightarrow> rf_control \<Rightarrow> 's
      \<Rightarrow> (cql_error + unit) \<times> rf_control \<times> 's" where
  "decrease_keyspaces_rf describe alter rows rc s =
     (if rc_original_nodes_number rc > 1 then
        (case get_keyspaces_to_decrease_rf rc (rows s) of
           Inl e \<Rightarrow> (Inl e, rc, s)
         | Inr kss \<Rightarrow>
             (case decrease_loop describe alter kss rc s of
                (Inl e, rc', s') \<Rightarrow>
                  (case revert_to_original_keyspaces_rf describe alter rc' s' of
                     (Inl e', s'') \<Rightarrow> (Inl e', rc', s'')
                   | (Inr _, s'') \<Rightarrow> (Inl e, rc', s''))
              | (Inr _, rc', s') \<Rightarrow> (Inr (), rc', s')))
      else (Inr (), rc, s))"

section \<open>What the database promises\<close>

text \<open>
  \<open>view s\<close> is the strategy of every existing keyspace.  Describing reads it; an alteration that
  succeeds changes that one entry of an existing keyspace, one that fails changes none.
\<close>

definition cql_contract ::
    "('s \<Rightarrow> string \<Rightarrow> replication_strategy option) \<Rightarrow> 's describe_op \<Rightarrow> 's alter_op \<Rightarrow> bool" where
  "cql_contract view describe alter \<longleftrightarrow>
     (\<forall>ks s. case view s ks of Some st \<Rightarrow> describe ks s = Inr st | None \<Rightarrow> \<exists>e. describe ks s = Inl e) \<and>
     (\<forall>ks st s s'. alter ks st s = (Inr (), s') \<longrightarrow> view s ks \<noteq> None \<and> view s' = (view s)(ks \<mapsto> st)) \<and>
     (\<forall>ks st s e s'. alter ks st s = (Inl e, s') \<longrightarrow> view s' = view s)"

text \<open>Giving an existing keyspace the strategy it had in \<open>s0\<close> does not fail.\<close>

definition restorable ::
    "('s \<Rightarrow> string \<Rightarrow> replication_strategy option) \<Rightarrow> 's alter_op \<Rightarrow> 's \<Rightarrow> bool" where
  "restorable view alter s0 \<longleftrightarrow>
     (\<forall>ks st s. view s0 ks = Some st \<longrightarrow> view s ks \<noteq> None \<longrightarrow> fst (alter ks st s) = Inr ())"

lemma cql_describe:
  assumes "cql_contract view describe alter"
  shows "describe ks s = Inr st \<longleftrightarrow> view s ks = Some st"
proof -
  from assms have "case view s ks of Some st \<Rightarrow> describe ks s = Inr st | None \<Rightarrow> \<exists>e. describe ks s = Inl e"
    by (simp add: cql_contract_def)
  then show ?thesis by (auto split: option.splits)
qed

lemma cql_alter_ok:
  "\<lbrakk>cql_contract view describe alter; alter ks st s = (Inr u, s')\<rbrakk> \<Longrightarrow>
   view s ks \<noteq> None \<and> view s' = (view s)(ks \<mapsto> st)"
  unfolding cql_contract_def by (cases u) blast

lemma cql_alter_error:
  "\<lbrakk>cql_contract view describe alter; alter ks st s = (Inl e, s')\<rbrakk> \<Longrightarrow> view s' = view s"
  unfolding cql_contract_def by blast

text \<open>What the setter maintains: what is preserved is the original, what is not is untouched.\<close>

definition setter_inv ::
    "('s \<Rightarrow> string \<Rightarrow> replication_strategy option) \<Rightarrow> 's \<Rightarrow> replication_strategy dict \<Rightarrow> 's \<Rightarrow> bool" where
  "setter_inv view s0 preserved s \<longleftrightarrow> distinct (map fst preserved) \<and>
     (\<forall>ks st. map_of preserved ks = Some st \<longrightarrow> view s0 ks = Some st) \<and>
     (\<forall>ks. map_of preserved ks = None \<longrightarrow> view s ks = view s0 ks) \<and>
     (\<forall>ks. view s ks = None \<longleftrightarrow> view s0 ks = None)"

lemma setter_invI:
  assumes "distinct (map fst preserved)" "\<And>ks st. map_of preserved ks = Some st \<Longrightarrow> view s0 ks = Some st"
    "\<And>ks. map_of preserved ks = None \<Longrightarrow> view s ks = view s0 ks" "\<And>ks. view s ks = None \<longleftrightarrow> view s0 ks = None"
  shows "setter_inv view s0 preserved s"
  unfolding setter_inv_def using assms by blast

lemma setter_invD:
  assumes "setter_inv view s0 preserved s"
  shows "distinct (map fst preserved)" "map_of preserved ks = Some st \<Longrightarrow> view s0 ks = Some st"
    "map_of preserved ks = None \<Longrightarrow> view s ks = view s0 ks" "view s ks = None \<longleftrightarrow> view s0 ks = None"
  using assms unfolding setter_inv_def by blast+

lemma setter_inv_preserve:
  assumes c: "cql_contract view describe alter" and i: "setter_inv view s0 preserved s"
    and p: "preserve_replication_strategy describe ks preserved s = Inr preserved'"
  shows "setter_inv view s0 preserved' s \<and> map_of preserved' ks \<noteq> None"
proof (cases "map_of preserved ks")
  case None
  with p obtain st where d: "describe ks s = Inr st" "preserved' = AList.update ks st preserved"
    by (cases "describe ks s") (simp_all add: preserve_replication_strategy_def)
  with cql_describe[OF c, of ks s st] setter_invD(3)[OF i None] have "view s0 ks = Some st" by simp
  then have "setter_inv view s0 preserved' s"
    using d setter_invD[OF i] by (intro setter_invI) (simp_all split: if_splits)
  with d show ?thesis by simp
next
  case (Some st)
  with i p show ?thesis by (simp add: preserve_replication_strategy_def)
qed

lemma setter_inv_alter:
  assumes c: "cql_contract view describe alter" and i: "setter_inv view s0 preserved s"
    and k: "map_of preserved ks \<noteq> None" and a: "alter ks st s = (res, s')"
  shows "setter_inv view s0 preserved s'"
proof (cases res)
  case (Inl e)
  with cql_alter_error[OF c] a i show ?thesis by (simp add: setter_inv_def)
next
  case (Inr u)
  with cql_alter_ok[OF c] a have v: "view s ks \<noteq> None" "view s' = (view s)(ks \<mapsto> st)" by auto
  show ?thesis
    using v k setter_invD[OF i] by (intro setter_invI) (auto simp del: not_None_eq)
qed

lemma setter_inv_call:
  assumes c: "cql_contract view describe alter"
  shows "\<lbrakk>setter_inv view s0 preserved s; setter_call describe alter kss preserved s = (res, preserved', s')\<rbrakk>
    \<Longrightarrow> setter_inv view s0 preserved' s'"
proof (induction kss arbitrary: preserved s)
  case (Cons p kss)
  obtain ks st where p: "p = (ks, st)" by fastforce
  show ?case
  proof (cases "preserve_replication_strategy describe ks preserved s")
    case (Inl e)
    with Cons p show ?thesis by (auto split: if_splits)
  next
    case (Inr pres)
    note i = setter_inv_preserve[OF c Cons.prems(1) Inr]
    obtain r s1 where a: "alter ks st s = (r, s1)" by fastforce
    note i1 = setter_inv_alter[OF c conjunct1[OF i] conjunct2[OF i] a]
    from Cons.IH[OF i1] i1 Cons.prems(2) p Inr a show ?thesis by (auto split: sum.splits if_splits)
  qed
qed simp

lemma setter_inv_calls:
  assumes c: "cql_contract view describe alter"
  shows "\<lbrakk>setter_inv view s0 preserved s; setter_calls describe alter cs preserved s = (res, preserved', s')\<rbrakk>
    \<Longrightarrow> setter_inv view s0 preserved' s'"
proof (induction cs arbitrary: preserved s)
  case (Cons d cs)
  obtain r pr s1 where "setter_call describe alter d preserved s = (r, pr, s1)" by (metis prod_cases3)
  with setter_inv_call[OF c Cons.prems(1) this] Cons show ?case by (auto split: sum.splits)
qed simp

text \<open>Replaying preserved strategies succeeds and makes them the strategies in force.\<close>

lemma setter_restore:
  assumes c: "cql_contract view describe alter" and r: "restorable view alter s0"
  shows "\<lbrakk>setter_inv view s0 preserved s; \<forall>(ks, st)\<in>set kss. map_of preserved ks = Some st\<rbrakk> \<Longrightarrow>
    \<exists>s'. setter_call describe alter kss preserved s = (Inr (), preserved, s') \<and>
      view s' = (\<lambda>ks. if ks \<in> fst ` set kss then view s0 ks else view s ks)"
proof (induction kss arbitrary: s)
  case (Cons p kss)
  obtain ks st where p: "p = (ks, st)" by fastforce
  with Cons.prems(2) have m: "map_of preserved ks = Some st" by simp
  then have v0: "view s0 ks = Some st" by (rule setter_invD(2)[OF Cons.prems(1)])
  with setter_invD(4)[OF Cons.prems(1), of ks] have "view s ks \<noteq> None" by simp
  with r v0 have "fst (alter ks st s) = Inr ()" by (auto simp: restorable_def)
  then obtain s1 where a: "alter ks st s = (Inr (), s1)" by (metis prod.collapse)
  with cql_alter_ok[OF c] v0 have v1: "view s1 = (view s)(ks := view s0 ks)" by auto
  from m have "setter_inv view s0 preserved s1" by (intro setter_inv_alter[OF c Cons.prems(1) _ a]) simp
  from Cons.IH[OF this] Cons.prems(2) obtain s' where
    "setter_call describe alter kss preserved s1 = (Inr (), preserved, s')"
    "view s' = (\<lambda>ks. if ks \<in> fst ` set kss then view s0 ks else view s1 ks)" by auto
  with a m p v1 show ?case by (auto simp: preserve_replication_strategy_def fun_eq_iff)
qed simp

section \<open>Lowering and reverting replication factors\<close>

fun set_rf :: "string \<Rightarrow> int \<Rightarrow> replication_strategy \<Rightarrow> replication_strategy" where
  "set_rf dc k (NetworkTopologyReplicationStrategy m) = NetworkTopologyReplicationStrategy (AList.update dc (RfNum k) m)"
| "set_rf dc k st = st"

text \<open>The keyspaces a node removal would leave without enough nodes.\<close>

definition full_rf :: "string \<Rightarrow> nat \<Rightarrow> replication_strategy \<Rightarrow> bool" where
  "full_rf dc n st = (case st of
       NetworkTopologyReplicationStrategy m \<Rightarrow> map_of m dc = Some (RfNum (int n))
     | _ \<Rightarrow> False)"

definition lowered ::
    "string \<Rightarrow> nat \<Rightarrow> (string \<Rightarrow> replication_strategy option) \<Rightarrow> string set \<Rightarrow> string \<Rightarrow> replication_strategy option" where
  "lowered dc n v S ks = (if ks \<in> S then map_option (set_rf dc (int n - 1)) (v ks) else v ks)"

lemma update_same: "map_of al k = Some v \<Longrightarrow> AList.update k v al = al"
  by (induction al) (auto split: if_splits)

lemma set_rf_back: "full_rf dc n st \<Longrightarrow> set_rf dc (int n) (set_rf dc k st) = st"
  by (cases st) (simp_all add: full_rf_def update_same AList.update_last)

lemma alter_rf_step:
  assumes c: "cql_contract view describe alter" and dc: "rc_datacenter rc = Some dc"
    and v: "view s ks = Some st" and nt: "st = NetworkTopologyReplicationStrategy m"
    and a: "alter_keyspace_rf describe alter rc ks k s = (res, s')"
  shows "alter ks (set_rf dc k st) s = (res, s')"
    and "view s' = (case res of Inl _ \<Rightarrow> view s | Inr _ \<Rightarrow> (view s)(ks \<mapsto> set_rf dc k st))"
proof -
  from cql_describe[OF c] v have "describe ks s = Inr st" by simp
  with a dc nt show al: "alter ks (set_rf dc k st) s = (res, s')" by (simp add: alter_keyspace_rf_def)
  then show "view s' = (case res of Inl _ \<Rightarrow> view s | Inr _ \<Rightarrow> (view s)(ks \<mapsto> set_rf dc k st))"
    using cql_alter_ok[OF c] cql_alter_error[OF c] by (cases res) auto
qed

definition all_full :: "string \<Rightarrow> nat \<Rightarrow> (string \<Rightarrow> replication_strategy option) \<Rightarrow> string set \<Rightarrow> bool" where
  "all_full dc n v S \<longleftrightarrow> (\<forall>ks\<in>S. \<exists>st. v ks = Some st \<and> full_rf dc n st)"

lemma all_fullD:
  assumes "all_full dc n v S" "ks \<in> S"
  obtains m where "v ks = Some (NetworkTopologyReplicationStrategy m)" "map_of m dc = Some (RfNum (int n))"
proof -
  from assms obtain st where "v ks = Some st" "full_rf dc n st" by (auto simp: all_full_def)
  with that show thesis by (cases st) (simp_all add: full_rf_def)
qed

lemma lowered_insert:
  "v ks = Some st \<Longrightarrow> (lowered dc n v S)(ks \<mapsto> set_rf dc (int n - 1) st) = lowered dc n v (insert ks S)"
  by (auto simp: lowered_def fun_eq_iff)

lemma lowered_remove:
  "v ks = Some st \<Longrightarrow> ks \<notin> S \<Longrightarrow> (lowered dc n v (insert ks S))(ks \<mapsto> st) = lowered dc n v S"
  by (auto simp: lowered_def fun_eq_iff)

lemma decrease_loop_view:
  assumes c: "cql_contract view describe alter"
  shows "\<lbrakk>decrease_loop describe alter kss rc s = (res, rc', s'); rc_datacenter rc = Some dc;
     rc_original_nodes_number rc = n; view s = lowered dc n v0 (set (rc_decreased_rf_keyspaces rc));
     distinct (rc_decreased_rf_keyspaces rc @ kss); all_full dc n v0 (set kss)\<rbrakk> \<Longrightarrow>
   \<exists>kss'. rc' = rc\<lparr>rc_decreased_rf_keyspaces := rc_decreased_rf_keyspaces rc @ kss'\<rparr> \<and> prefix kss' kss \<and>
     view s' = lowered dc n v0 (set (rc_decreased_rf_keyspaces rc @ kss')) \<and> (res = Inr () \<longrightarrow> kss' = kss)"
proof (induction kss arbitrary: rc s)
  case (Cons ks kss)
  note dc = Cons.prems(2)
  obtain m where m: "v0 ks = Some (NetworkTopologyReplicationStrategy m)"
    using Cons.prems(6) by (auto elim: all_fullD[of dc n v0 _ ks])
  with Cons.prems(4,5) have vs: "view s ks = Some (NetworkTopologyReplicationStrategy m)"
    by (simp add: lowered_def)
  obtain r s1 where a: "alter_keyspace_rf describe alter rc ks (int n - 1) s = (r, s1)" by fastforce
  note v1 = alter_rf_step(2)[OF c dc vs refl a]
  show ?case
  proof (cases r)
    case (Inl e)
    with a v1 Cons.prems show ?thesis by (intro exI[of _ "[]"]) auto
  next
    case (Inr u)
    let ?rc = "rc\<lparr>rc_decreased_rf_keyspaces := rc_decreased_rf_keyspaces rc @ [ks]\<rparr>"
    have v2: "view s1 = lowered dc n v0 (set (rc_decreased_rf_keyspaces ?rc))"
      using v1 Inr Cons.prems(4) lowered_insert[of v0 ks, OF m] by (simp add: insert_commute)
    from Inr a Cons.prems(1,3) have "decrease_loop describe alter kss ?rc s1 = (res, rc', s')" by simp
    from Cons.IH[OF this _ _ v2] Cons.prems(2,3,5,6) obtain kss' where
      "rc' = ?rc\<lparr>rc_decreased_rf_keyspaces := rc_decreased_rf_keyspaces ?rc @ kss'\<rparr>" "prefix kss' kss"
      "view s' = lowered dc n v0 (set (rc_decreased_rf_keyspaces ?rc @ kss'))" "res = Inr () \<longrightarrow> kss' = kss"
      by (auto simp: all_full_def)
    then show ?thesis by (intro exI[of _ "ks # kss'"]) simp
  qed
qed (auto intro: exI[of _ "[]"])

lemma revert_loop_view:
  assumes c: "cql_contract view describe alter" and r: "restorable view alter s0"
  shows "\<lbrakk>rc_datacenter rc = Some dc; rc_original_nodes_number rc = n; distinct kss;
     all_full dc n (view s0) (set kss); view s = lowered dc n (view s0) (set kss)\<rbrakk> \<Longrightarrow>
   \<exists>s'. revert_loop describe alter rc kss s = (Inr (), s') \<and> view s' = view s0"
proof (induction kss arbitrary: s)
  case Nil
  then show ?case by (simp add: lowered_def)
next
  case (Cons ks kss)
  obtain m where m: "view s0 ks = Some (NetworkTopologyReplicationStrategy m)"
      and f: "map_of m dc = Some (RfNum (int n))"
    using Cons.prems(4) by (auto elim: all_fullD[of dc n "view s0" _ ks])
  let ?st = "NetworkTopologyReplicationStrategy m"
  have undo: "set_rf dc (int n) (set_rf dc (int n - 1) ?st) = ?st"
    by (rule set_rf_back) (simp add: full_rf_def f)
  from Cons.prems(5) m have vs: "view s ks = Some (set_rf dc (int n - 1) ?st)" by (simp add: lowered_def)
  obtain res s1 where a: "alter_keyspace_rf describe alter rc ks (int n) s = (res, s1)" by fastforce
  note step = alter_rf_step[OF c Cons.prems(1) vs set_rf.simps(1) a, unfolded undo]
  from r m vs step(1) have "res = Inr ()" unfolding restorable_def
    by (metis fst_conv option.distinct(1))
  with step(2) Cons.prems(5) lowered_remove[of "view s0" ks ?st "set kss"] m Cons.prems(3)
  have "view s1 = lowered dc n (view s0) (set kss)" by simp
  from Cons.IH[OF Cons.prems(1,2) _ _ this] Cons.prems(3,4) obtain s' where
    "revert_loop describe alter rc kss s1 = (Inr (), s')" "view s' = view s0" by (auto simp: all_full_def)
  with a \<open>res = Inr ()\<close> Cons.prems(2) show ?case by simp
qed

text \<open>The rows of the schema table describe the existing keyspaces.\<close>

definition rows_contract ::
    "('s \<Rightarrow> string \<Rightarrow> replication_strategy option) \<Rightarrow> ('s \<Rightarrow> keyspace_row list) \<Rightarrow> bool" where
  "rows_contract view rows \<longleftrightarrow> (\<forall>s. distinct (map fst (rows s)) \<and>
     (\<forall>(ks, cls, factors)\<in>set (rows s). case view s ks of
        Some (NetworkTopologyReplicationStrategy m) \<Rightarrow>
          contains ''NetworkTopologyStrategy'' cls \<and> \<not> contains ''SimpleStrategy'' cls \<and> factors = m
      | Some _ \<Rightarrow> \<not> contains ''NetworkTopologyStrategy'' cls
      | None \<Rightarrow> False) \<and>
     (\<forall>ks. view s ks \<noteq> None \<longrightarrow> ks \<in> fst ` set (rows s)))"

fun row_needs_decrease :: "string \<Rightarrow> nat \<Rightarrow> keyspace_row \<Rightarrow> bool" where
  "row_needs_decrease dc n (ks, cls, f) \<longleftrightarrow> \<not> is_system_keyspace ks \<and> \<not> contains ''SimpleStrategy'' cls \<and>
     contains ''NetworkTopologyStrategy'' cls \<and> map_of f dc = Some (RfNum (int n))"

lemma keyspaces_to_decrease_filter:
  "keyspaces_to_decrease dc n rows = Inr kss \<Longrightarrow> kss = map fst (filter (row_needs_decrease dc n) rows)"
proof (induction rows arbitrary: kss)
  case (Cons row rows)
  obtain ks cls f where row: "row = (ks, cls, f)" by (rule prod_cases3)
  from Cons.prems show ?case unfolding row
    by (auto dest!: Cons.IH split: if_splits option.splits rf.splits
        simp: map_sum_def split: sum.splits)
qed simp

definition needs_decrease :: "string \<Rightarrow> nat \<Rightarrow> (string \<Rightarrow> replication_strategy option) \<Rightarrow> string set" where
  "needs_decrease dc n v = {ks. \<not> is_system_keyspace ks \<and> (\<exists>st. v ks = Some st \<and> full_rf dc n st)}"

lemma needs_decrease_rows:
  assumes r: "rows_contract view rows" and k: "keyspaces_to_decrease dc n (rows s) = Inr kss"
  shows "distinct kss" "set kss = needs_decrease dc n (view s)" "all_full dc n (view s) (set kss)"
proof -
  from r have d: "distinct (map fst (rows s))" and
    row: "\<And>ks cls f. (ks, cls, f) \<in> set (rows s) \<Longrightarrow> case view s ks of
        Some (NetworkTopologyReplicationStrategy m) \<Rightarrow>
          contains ''NetworkTopologyStrategy'' cls \<and> \<not> contains ''SimpleStrategy'' cls \<and> f = m
      | Some _ \<Rightarrow> \<not> contains ''NetworkTopologyStrategy'' cls
      | None \<Rightarrow> False" and
    ex: "\<And>ks. view s ks \<noteq> None \<Longrightarrow> ks \<in> fst ` set (rows s)"
    unfolding rows_contract_def by (blast, fast, blast)
  from d show "distinct kss" unfolding keyspaces_to_decrease_filter[OF k] by (rule distinct_map_filter)
  have need: "row_needs_decrease dc n (ks, cls, f) \<longleftrightarrow> ks \<in> needs_decrease dc n (view s)"
    if "(ks, cls, f) \<in> set (rows s)" for ks cls f
    using row[OF that] by (auto simp: needs_decrease_def full_rf_def split: option.splits replication_strategy.splits)
  show "set kss = needs_decrease dc n (view s)"
  proof (intro set_eqI iffI)
    fix ks assume "ks \<in> set kss"
    then show "ks \<in> needs_decrease dc n (view s)"
      unfolding keyspaces_to_decrease_filter[OF k] using need by auto
  next
    fix ks assume n: "ks \<in> needs_decrease dc n (view s)"
    with ex[of ks] obtain cls f where "(ks, cls, f) \<in> set (rows s)" by (auto simp: needs_decrease_def)
    with need n show "ks \<in> set kss" unfolding keyspaces_to_decrease_filter[OF k] by force
  qed
  then show "all_full dc n (view s) (set kss)" by (auto simp: all_full_def needs_decrease_def)
qed

section \<open>Properties\<close>

text \<open>A database of one keyspace, on which the properties are evaluated.\<close>

definition one_view :: "replication_strategy option \<Rightarrow> string \<Rightarrow> replication_strategy option" where
  "one_view s ks = (if ks = ''ks'' then s else None)"

definition one_describe :: "replication_strategy option describe_op" where
  "one_describe ks s = (case one_view s ks of Some st \<Rightarrow> Inr st | None \<Rightarrow> Inl (SessionError ''describe''))"

definition one_alter :: "replication_strategy option alter_op" where
  "one_alter ks st s = (case one_view s ks of Some _ \<Rightarrow> (Inr (), Some st) | None \<Rightarrow> (Inl InvalidRequest, s))"

definition one_rows :: "replication_strategy option \<Rightarrow> keyspace_row list" where
  "one_rows s = (case s of
       Some (NetworkTopologyReplicationStrategy m) \<Rightarrow> [(''ks'', ''NetworkTopologyStrategy'', m)]
     | Some (SimpleReplicationStrategy r) \<Rightarrow> [(''ks'', ''SimpleStrategy'', [(''replication_factor'', r)])]
     | Some LocalReplicationStrategy \<Rightarrow> [(''ks'', ''LocalStrategy'', [])]
     | None \<Rightarrow> [])"

lemma one_contract: "cql_contract one_view one_describe one_alter"
  by (auto simp: cql_contract_def one_view_def one_describe_def one_alter_def split: option.splits if_splits)

lemma one_restorable: "restorable one_view one_alter s0"
  by (auto simp: restorable_def one_alter_def split: option.splits)

lemma one_rows_contract: "rows_contract one_view one_rows"
  by (auto simp: rows_contract_def one_view_def one_rows_def startswith_def
      split: option.splits replication_strategy.splits)

text \<open>The temporary setter restores every replication strategy.  Whatever sequence of setter calls
  the body makes, and whether or not one of them raises, after the \<^verbatim>\<open>with\<close> statement every keyspace
  has the strategy it had before and the outcome is that of the body, provided the database accepts
  the original strategies back.\<close>

theorem temporary_replication_restores:
  assumes c: "cql_contract view describe alter" and r: "restorable view alter s"
  shows "view (snd (with_temporary_replication describe alter calls s)) = view s \<and>
     fst (with_temporary_replication describe alter calls s) = fst (setter_calls describe alter calls [] s)"
proof -
  obtain res pr s1 where b: "setter_calls describe alter calls [] s = (res, pr, s1)" by (metis prod_cases3)
  have "setter_inv view s [] s" by (simp add: setter_inv_def)
  then have i: "setter_inv view s pr s1" by (rule setter_inv_calls[OF c _ b])
  have "\<forall>(ks, st)\<in>set pr. map_of pr ks = Some st" using setter_invD(1)[OF i] by auto
  from setter_restore[OF c r i this] obtain s2 where
    e: "setter_call describe alter pr pr s1 = (Inr (), pr, s2)" and
    v: "view s2 = (\<lambda>ks. if ks \<in> fst ` set pr then view s ks else view s1 ks)" by blast
  have "view s2 = view s"
  proof
    fix ks
    show "view s2 ks = view s ks"
      using v setter_invD(3)[OF i, of ks] by (simp add: map_of_eq_None_iff)
  qed
  with b e show ?thesis by (simp add: with_temporary_replication_def)
qed

theorem temporary_replication_restores_witness:
  "let s = Some (NetworkTopologyReplicationStrategy [(''dc1'', RfNum 3)]) in
   one_view (snd (with_temporary_replication one_describe one_alter
     [[(''ks'', LocalReplicationStrategy), (''gone'', LocalReplicationStrategy)], [(''ks'', LocalReplicationStrategy)]] s)) = one_view s"
  using temporary_replication_restores[OF one_contract one_restorable] by (simp add: Let_def)



text \<open>Quoting an identifier for CQL and unquoting it again gives the identifier back, whatever it is.\<close>

theorem cql_quote_roundtrip: "cql_unquote_if_needed (cql_quote_if_needed x) = x"
proof (cases "plain_identifier x")
  case True
  then have "\<not> startswith x [CHR 0x22]"
    by (cases x) (auto simp: plain_identifier_def startswith_def ident_start_def)
  with True show ?thesis by (simp add: cql_quote_if_needed_def cql_unquote_if_needed_def)
next
  case False
  then show ?thesis
    by (simp add: cql_quote_if_needed_def cql_unquote_if_needed_def startswith_def endswith_def)
qed

end
