(* ===== verification/Sct_Params.thy ===== *)
theory Sct_Params
  imports Complex_Main Sct_Prelude
begin

text \<open>
  The SCT configuration as the placement code sees it, and the gates of
  \<^verbatim>\<open>sdcm/provision/common/fallback.py\<close>.

  A parameter is \<^verbatim>\<open>None\<close>, a Boolean, an integer, a float (a rational), a string or a list of node counts.  An element of
  such a list is the number it denotes, or \<^const>\<open>None\<close> when its text is not a number.
\<close>

datatype param = PNone | PBool bool | PInt int | PFloat rat | PStr string | PCounts "int option list"

type_synonym params = "string \<Rightarrow> param"

text \<open>Python truth of a parameter.\<close>

definition truthy :: "param \<Rightarrow> bool" where
  "truthy v = (case v of PNone \<Rightarrow> False | PBool b \<Rightarrow> b | PInt i \<Rightarrow> i \<noteq> 0 | PFloat r \<Rightarrow> r \<noteq> 0 | PStr s \<Rightarrow> s \<noteq> [] | PCounts l \<Rightarrow> l \<noteq> [])"

text \<open>\<^verbatim>\<open>params.get(key) or ""\<close> of a string parameter, and \<^verbatim>\<open>int(params.get(key) or 0)\<close> of a number.\<close>

definition get_str :: "params \<Rightarrow> string \<Rightarrow> string" where
  "get_str p key = (case p key of PStr s \<Rightarrow> s | _ \<Rightarrow> [])"

definition int_of_float :: "rat \<Rightarrow> int" where
  "int_of_float r = (if r \<ge> 0 then \<lfloor>r\<rfloor> else \<lceil>r\<rceil>)"

definition get_int :: "params \<Rightarrow> string \<Rightarrow> int" where
  "get_int p key = (case p key of PInt i \<Rightarrow> i | PFloat r \<Rightarrow> int_of_float r | PBool b \<Rightarrow> of_bool b | _ \<Rightarrow> 0)"

text \<open>\<^verbatim>\<open>float(params.get(key) or 0.0)\<close> of a number.\<close>

definition get_float :: "params \<Rightarrow> string \<Rightarrow> rat" where
  "get_float p key = (case p key of PInt i \<Rightarrow> of_int i | PFloat r \<Rightarrow> r | PBool b \<Rightarrow> of_bool b | _ \<Rightarrow> 0)"

definition is_az_fallback_enabled :: "params \<Rightarrow> bool" where
  "is_az_fallback_enabled p =
     (if p ''fallback_to_next_availability_zone'' \<noteq> PNone then truthy (p ''fallback_to_next_availability_zone'')
      else truthy (p ''aws_fallback_to_next_availability_zone''))"

definition fallback_supported_backends :: "string list" where
  "fallback_supported_backends = [''aws'', ''gce'']"

definition is_region_fallback_enabled :: "params \<Rightarrow> bool" where
  "is_region_fallback_enabled p = (truthy (p ''fallback_to_next_region'') \<and>
     (\<exists>b\<in>set fallback_supported_backends. p ''cluster_backend'' = PStr b))"

definition is_spot_capacity_scoring_enabled :: "params \<Rightarrow> string \<Rightarrow> bool" where
  "is_spot_capacity_scoring_enabled p backend =
     (if \<not> truthy (p ''use_spot_placement_scores'') then False
      else if p ''cluster_backend'' \<noteq> PStr backend \<or> backend \<notin> set [''aws'', ''gce''] then False
      else p ''instance_provision'' \<noteq> PStr ''on_demand'')"

end
