(* ===== verification/Region_Fallback.thy ===== *)
theory Region_Fallback
  imports Sct_Params
begin

text \<open>
  The backend-neutral relocation loops (\<^verbatim>\<open>sdcm/provision/common/region_fallback.py\<close>).

  A computation takes a state and either raises or returns, in a new state; the callables each
  backend injects are such computations.  A lazily produced sequence of candidates is a list of
  probes: a probe examines one region when it is reached and yields a candidate, passes the region
  over, or raises.
\<close>

section \<open>Computations that may raise\<close>

type_synonym ('s, 'e, 'a) comp = "'s \<Rightarrow> ('e + 'a) \<times> 's"

definition return :: "'a \<Rightarrow> ('s, 'e, 'a) comp" where
  "return a s = (Inr a, s)"

definition raise :: "'e \<Rightarrow> ('s, 'e, 'a) comp" where
  "raise e s = (Inl e, s)"

definition andthen :: "('s, 'e, 'a) comp \<Rightarrow> ('a \<Rightarrow> ('s, 'e, 'b) comp) \<Rightarrow> ('s, 'e, 'b) comp" where
  "andthen m f s = (case m s of (Inl e, s1) \<Rightarrow> (Inl e, s1) | (Inr a, s1) \<Rightarrow> f a s1)"

lemmas comp_defs = return_def raise_def andthen_def

type_synonym candidate = "string \<times> string list"
type_synonym ('s, 'e) probes = "('s, 'e, candidate option) comp list"

section \<open>Whole-cluster relocation\<close>

record ('s, 'e) fallback_ops =
  fo_provision_once :: "('s, 'e, unit) comp"
  fo_switch_region :: "string \<Rightarrow> string list \<Rightarrow> ('s, 'e, unit) comp"
  fo_restore_region :: "('s, 'e, unit) comp"
  fo_cleanup_region :: "string option \<Rightarrow> ('s, 'e, unit) comp"
  fo_is_capacity_error :: "'e \<Rightarrow> bool"
  fo_error_factory :: "string option \<Rightarrow> string list \<Rightarrow> 'e \<Rightarrow> 'e"

text \<open>\<^verbatim>\<open>attempt\<close>: \<^const>\<open>None\<close> is success, \<^term>\<open>Some ex\<close> capacity exhaustion with that error.\<close>

definition attempt :: "('s, 'e) fallback_ops \<Rightarrow> string option \<Rightarrow> ('s, 'e, 'e option) comp" where
  "attempt ops region s = (case fo_provision_once ops s of
       (Inr _, s1) \<Rightarrow> return None s1
     | (Inl ex, s1) \<Rightarrow>
         (if \<not> fo_is_capacity_error ops ex then andthen (fo_restore_region ops) (\<lambda>_. raise ex) s1
          else andthen (fo_cleanup_region ops region) (\<lambda>_. return (Some ex)) s1))"

text \<open>The \<^verbatim>\<open>for\<close> loop over \<^verbatim>\<open>_restoring_on_error(region_candidates, restore_region)\<close>.\<close>

fun region_loop ::
    "('s, 'e) fallback_ops \<Rightarrow> string option \<Rightarrow> ('s, 'e) probes \<Rightarrow> string list \<Rightarrow> 'e \<Rightarrow> ('s, 'e, unit) comp" where
  "region_loop ops original [] tried last_error s =
     andthen (fo_restore_region ops) (\<lambda>_. raise (fo_error_factory ops original tried last_error)) s"
| "region_loop ops original (p # ps) tried last_error s =
     (case p s of
        (Inl e, s1) \<Rightarrow> andthen (fo_restore_region ops) (\<lambda>_. raise e) s1
      | (Inr None, s1) \<Rightarrow> region_loop ops original ps tried last_error s1
      | (Inr (Some (region, letters)), s1) \<Rightarrow>
          (case fo_switch_region ops region letters s1 of
             (Inl e, s2) \<Rightarrow> (Inl e, s2)
           | (Inr _, s2) \<Rightarrow>
               (case attempt ops (Some region) s2 of
                  (Inl e, s3) \<Rightarrow> (Inl e, s3)
                | (Inr None, s3) \<Rightarrow> (Inr (), s3)
                | (Inr (Some ex), s3) \<Rightarrow> region_loop ops original ps (tried @ [region]) ex s3)))"

definition provision_with_region_fallback ::
    "('s, 'e) fallback_ops \<Rightarrow> string option \<Rightarrow> ('s \<Rightarrow> ('s, 'e) probes) \<Rightarrow> ('s, 'e, unit) comp" where
  "provision_with_region_fallback ops original candidates =
     andthen (attempt ops original) (\<lambda>outcome. case outcome of
        None \<Rightarrow> return ()
      | Some ex \<Rightarrow> (\<lambda>s. region_loop ops original (candidates s) [] ex s))"

section \<open>Relocation of one datacenter at a time\<close>

record ('s, 'e) dc_fallback_ops =
  do_dc_candidates :: "nat \<Rightarrow> 's \<Rightarrow> ('s, 'e) probes"
  do_provision_once :: "('s, 'e, unit) comp"
  do_failed_dc_index :: "'e \<Rightarrow> 's \<Rightarrow> nat option"
  do_switch_dc_region :: "nat \<Rightarrow> string \<Rightarrow> string list \<Rightarrow> ('s, 'e, unit) comp"
  do_restore :: "('s, 'e, unit) comp"
  do_cleanup :: "('s, 'e, unit) comp"
  do_is_capacity_error :: "'e \<Rightarrow> bool"
  do_error_factory :: "nat option \<Rightarrow> 'e \<Rightarrow> 'e"

text \<open>\<^verbatim>\<open>next(iterator, None)\<close>: the next candidate and the rest of the iterator.\<close>

fun pull :: "('s, 'e) probes \<Rightarrow> ('s, 'e, (candidate \<times> ('s, 'e) probes) option) comp" where
  "pull [] s = (Inr None, s)"
| "pull (p # ps) s = (case p s of
       (Inl e, s1) \<Rightarrow> (Inl e, s1)
     | (Inr None, s1) \<Rightarrow> pull ps s1
     | (Inr (Some c), s1) \<Rightarrow> (Inr (Some (c, ps)), s1))"

text \<open>The iterators resolved so far.\<close>

type_synonym ('s, 'e) iterators = "nat \<Rightarrow> ('s, 'e) probes option"

definition next_candidate ::
    "('s, 'e) dc_fallback_ops \<Rightarrow> ('s, 'e) iterators \<Rightarrow> nat
      \<Rightarrow> ('s, 'e, (candidate \<times> ('s, 'e) iterators) option) comp" where
  "next_candidate ops its i s =
     (case pull (case its i of Some ps \<Rightarrow> ps | None \<Rightarrow> do_dc_candidates ops i s) s of
        (Inl e, s1) \<Rightarrow> andthen (do_restore ops) (\<lambda>_. raise e) s1
      | (Inr None, s1) \<Rightarrow> (Inr None, s1)
      | (Inr (Some (c, ps)), s1) \<Rightarrow> (Inr (Some (c, its(i \<mapsto> ps))), s1))"

text \<open>One round of \<^verbatim>\<open>while True\<close>: the function ends (\<^const>\<open>Inl\<close>) or goes round again (\<^const>\<open>Inr\<close>).\<close>

definition dc_round ::
    "('s, 'e) dc_fallback_ops \<Rightarrow> ('s, 'e) iterators \<Rightarrow> 's
      \<Rightarrow> (('e + unit) \<times> 's) + (('s, 'e) iterators \<times> 's)" where
  "dc_round ops its s = (case do_provision_once ops s of
       (Inr _, s1) \<Rightarrow> Inl (Inr (), s1)
     | (Inl ex, s1) \<Rightarrow>
         (if \<not> do_is_capacity_error ops ex then Inl (andthen (do_restore ops) (\<lambda>_. raise ex) s1)
          else (let dc_index = do_failed_dc_index ops ex s1 in
            case do_cleanup ops s1 of
            (Inl e, s2) \<Rightarrow> Inl (Inl e, s2)
          | (Inr _, s2) \<Rightarrow>
              (case dc_index of
                 None \<Rightarrow> Inl (andthen (do_restore ops) (\<lambda>_. raise (do_error_factory ops dc_index ex)) s2)
               | Some i \<Rightarrow>
                   (case next_candidate ops its i s2 of
                      (Inl e, s3) \<Rightarrow> Inl (Inl e, s3)
                    | (Inr None, s3) \<Rightarrow>
                        Inl (andthen (do_restore ops) (\<lambda>_. raise (do_error_factory ops dc_index ex)) s3)
                    | (Inr (Some ((region, letters), its')), s3) \<Rightarrow>
                        (case do_switch_dc_region ops i region letters s3 of
                           (Inl e, s4) \<Rightarrow> Inl (Inl e, s4)
                         | (Inr _, s4) \<Rightarrow> Inr (its', s4)))))))"

partial_function (option) dc_loop ::
    "('s, 'e) dc_fallback_ops \<Rightarrow> ('s, 'e) iterators \<Rightarrow> 's \<Rightarrow> (('e + unit) \<times> 's) option" where
  "dc_loop ops its s = (case dc_round ops its s of
       Inl result \<Rightarrow> Some result
     | Inr (its', s') \<Rightarrow> dc_loop ops its' s')"

definition provision_with_dc_fallback :: "('s, 'e) dc_fallback_ops \<Rightarrow> 's \<Rightarrow> (('e + unit) \<times> 's) option" where
  "provision_with_dc_fallback ops s = dc_loop ops Map.empty s"

section \<open>What the loops guarantee\<close>

text \<open>A candidate some probe yields.\<close>

definition yields :: "('s, 'e) probes \<Rightarrow> candidate \<Rightarrow> bool" where
  "yields ps c \<longleftrightarrow> (\<exists>p\<in>set ps. \<exists>s s'. p s = (Inr (Some c), s'))"

lemma yields_Cons: "yields (p # ps) c \<longleftrightarrow> (\<exists>s s'. p s = (Inr (Some c), s')) \<or> yields ps c"
  by (auto simp: yields_def)

text \<open>
  The contract of a backend for whole-cluster relocation.  \<open>placement\<close> is what relocation changes
  and restoring brings back; \<open>region_of\<close> is the region part of it, which provisioning, probing and
  cleaning up leave alone.
\<close>

locale region_backend =
  fixes ops :: "('s, 'e) fallback_ops"
    and placement :: "'s \<Rightarrow> 'p" and home :: 'p
    and region_of :: "'s \<Rightarrow> 'r" and at_region :: "string \<Rightarrow> 'r"
  assumes restore_ok: "\<exists>s'. fo_restore_region ops s = (Inr (), s') \<and> placement s' = home"
    and provision_region: "fo_provision_once ops s = (r, s') \<Longrightarrow> region_of s' = region_of s"
    and cleanup_ok: "\<exists>s'. fo_cleanup_region ops oreg s = (Inr (), s') \<and> region_of s' = region_of s"
    and switch_ok: "\<exists>s'. fo_switch_region ops reg letters s = (Inr (), s') \<and> region_of s' = at_region reg"
begin

lemma restore_raise:
  "andthen (fo_restore_region ops) (\<lambda>_. raise e) s = (r, s') \<Longrightarrow> r = Inl e \<and> placement s' = home"
  using restore_ok[of s] by (auto simp: comp_defs)

lemma attempt_outcome:
  assumes "attempt ops region s = (r, s')"
  shows "case r of Inl _ \<Rightarrow> placement s' = home | Inr _ \<Rightarrow> region_of s' = region_of s"
proof -
  obtain res s1 where p: "fo_provision_once ops s = (res, s1)" by fastforce
  note r1 = provision_region[OF p]
  obtain s2 where c: "fo_cleanup_region ops region s1 = (Inr (), s2)" "region_of s2 = region_of s1"
    using cleanup_ok by blast
  show ?thesis
  proof (cases res)
    case (Inr u)
    with assms p r1 show ?thesis by (auto simp: attempt_def return_def)
  next
    case (Inl ex)
    show ?thesis
    proof (cases "fo_is_capacity_error ops ex")
      case True
      with assms p Inl c r1 show ?thesis by (auto simp: attempt_def comp_defs)
    next
      case False
      with assms p Inl restore_raise[of ex s1 r s'] show ?thesis by (auto simp: attempt_def)
    qed
  qed
qed

lemma region_loop_facts:
  "region_loop ops original ps tried lerr s = (r, s') \<Longrightarrow>
   (case r of Inl _ \<Rightarrow> placement s' = home | Inr _ \<Rightarrow> \<exists>reg letters. yields ps (reg, letters) \<and> region_of s' = at_region reg)"
proof (induction ps arbitrary: tried lerr s)
  case Nil
  then show ?case using restore_raise[of "fo_error_factory ops original tried lerr" s r s'] by auto
next
  case (Cons p ps)
  obtain res s1 where p: "p s = (res, s1)" by fastforce
  show ?case
  proof (cases res)
    case (Inl e)
    with Cons.prems p restore_raise[of e s1 r s'] show ?thesis by auto
  next
    case (Inr c)
    show ?thesis
    proof (cases c)
      case None
      with Cons.prems p Inr have "region_loop ops original ps tried lerr s1 = (r, s')" by simp
      from Cons.IH[OF this] show ?thesis by (auto simp: yields_Cons split: sum.splits)
    next
      case (Some cand)
      obtain reg letters where cand: "cand = (reg, letters)" by fastforce
      obtain s2 where sw: "fo_switch_region ops reg letters s1 = (Inr (), s2)" "region_of s2 = at_region reg"
        using switch_ok by blast
      obtain out s3 where at: "attempt ops (Some reg) s2 = (out, s3)" by fastforce
      have y: "yields (p # ps) (reg, letters)" using p Inr Some cand by (auto simp: yields_Cons)
      show ?thesis
      proof (cases out)
        case (Inl e)
        with attempt_outcome[OF at] at Cons.prems p \<open>res = Inr c\<close> Some cand sw show ?thesis by auto
      next
        case (Inr o1)
        with attempt_outcome[OF at] sw have r3: "region_of s3 = at_region reg" by simp
        from Inr at Cons.prems p \<open>res = Inr c\<close> Some cand sw have
          "(case o1 of None \<Rightarrow> (Inr (), s3) | Some ex \<Rightarrow> region_loop ops original ps (tried @ [reg]) ex s3) = (r, s')"
          by (simp split: option.splits)
        then show ?thesis
        proof (cases o1)
          case None
          with \<open>(case o1 of None \<Rightarrow> _ | Some ex \<Rightarrow> _) = _\<close> have "r = Inr ()" "s' = s3" by auto
          with y r3 show ?thesis by fastforce
        next
          case (Some ex)
          with \<open>(case o1 of None \<Rightarrow> _ | Some ex \<Rightarrow> _) = _\<close>
          have "region_loop ops original ps (tried @ [reg]) ex s3 = (r, s')" by simp
          from Cons.IH[OF this] show ?thesis by (auto simp: yields_Cons split: sum.splits)
        qed
      qed
    qed
  qed
qed

lemma region_fallback_facts:
  assumes "provision_with_region_fallback ops original cands s = (r, s')"
  shows "case r of Inl _ \<Rightarrow> placement s' = home
    | Inr _ \<Rightarrow> region_of s' = region_of s \<or> (\<exists>s1 reg letters. region_of s1 = region_of s \<and>
        yields (cands s1) (reg, letters) \<and> region_of s' = at_region reg)"
proof -
  obtain out s1 where a: "attempt ops original s = (out, s1)" by fastforce
  show ?thesis
  proof (cases out)
    case (Inl e)
    with assms a attempt_outcome[OF a] show ?thesis by (auto simp: provision_with_region_fallback_def andthen_def)
  next
    case (Inr o1)
    with attempt_outcome[OF a] have r1: "region_of s1 = region_of s" by simp
    show ?thesis
    proof (cases o1)
      case None
      with assms a Inr r1 show ?thesis by (auto simp: provision_with_region_fallback_def comp_defs)
    next
      case (Some ex)
      with assms a Inr have "region_loop ops original (cands s1) [] ex s1 = (r, s')"
        by (simp add: provision_with_region_fallback_def andthen_def)
      from region_loop_facts[OF this] r1 show ?thesis by (fastforce split: sum.splits)
    qed
  qed
qed

end

section \<open>The datacenter loop\<close>

lemma pull_facts:
  "pull ps s = (Inr (Some (c, ps')), s') \<Longrightarrow>
   length ps' < length ps \<and> set ps' \<subseteq> set ps \<and> (\<exists>p\<in>set ps. \<exists>s1. p s1 = (Inr (Some c), s'))"
proof (induction ps arbitrary: s)
  case (Cons p ps)
  obtain res s1 where p: "p s = (res, s1)" by fastforce
  show ?case
  proof (cases res)
    case (Inl e)
    with Cons.prems p show ?thesis by simp
  next
    case (Inr oc)
    show ?thesis
    proof (cases oc)
      case None
      with Cons.prems p Inr have "pull ps s1 = (Inr (Some (c, ps')), s')" by simp
      from Cons.IH[OF this] show ?thesis by auto
    next
      case (Some c1)
      with Cons.prems p Inr have "c1 = c" "ps' = ps" "s1 = s'" by auto
      with p Inr Some show ?thesis by auto
    qed
  qed
qed simp

text \<open>How many candidates the first \<open>n\<close> datacenters can still consume, when none has more than \<open>b\<close>.\<close>

definition remaining :: "nat \<Rightarrow> nat \<Rightarrow> ('s, 'e) iterators \<Rightarrow> nat" where
  "remaining n b its = (\<Sum>i<n. case its i of None \<Rightarrow> Suc b | Some ps \<Rightarrow> length ps)"

lemma remaining_decreases:
  assumes "i < n" "length ps < (case its i of None \<Rightarrow> Suc b | Some ps \<Rightarrow> length ps)"
  shows "remaining n b (its(i \<mapsto> ps)) < remaining n b its"
  unfolding remaining_def using assms by (intro sum_strict_mono_ex1) (auto split: option.splits)

lemma next_candidate_consumes:
  assumes "next_candidate ops its i s = (Inr (Some (c, its')), s')" "i < n"
    and "\<And>s. length (do_dc_candidates ops i s) \<le> b"
  shows "remaining n b its' < remaining n b its"
proof -
  let ?ps = "case its i of Some ps \<Rightarrow> ps | None \<Rightarrow> do_dc_candidates ops i s"
  from assms(1) obtain ps s1 where p: "pull ?ps s = (Inr (Some (c, ps)), s1)" "its' = its(i \<mapsto> ps)"
    by (auto simp: next_candidate_def comp_defs split: prod.splits sum.splits option.splits)
  from pull_facts[OF p(1)] assms(3)[of s] have "length ps < (case its i of None \<Rightarrow> Suc b | Some ps \<Rightarrow> length ps)"
    by (auto split: option.splits)
  with remaining_decreases[OF assms(2)] p(2) show ?thesis by blast
qed

text \<open>
  The contract of a backend for datacenter relocation: as for whole clusters, and an invariant
  \<open>inv\<close> of the placement that relocation keeps when it follows the backend's own candidates.
\<close>

locale dc_backend =
  fixes ops :: "('s, 'e) dc_fallback_ops"
    and placement :: "'s \<Rightarrow> 'p" and home :: 'p
    and inv :: "'s \<Rightarrow> bool" and n b :: nat
  assumes restore_ok: "\<exists>s'. do_restore ops s = (Inr (), s') \<and> placement s' = home"
    and provision_inv: "inv s \<Longrightarrow> do_provision_once ops s = (r, s') \<Longrightarrow> inv s'"
    and cleanup_ok: "inv s \<Longrightarrow> \<exists>s'. do_cleanup ops s = (Inr (), s') \<and> inv s'"
    and index_bound: "inv s \<Longrightarrow> do_failed_dc_index ops ex s = Some i \<Longrightarrow> i < n"
    and candidates_bound: "length (do_dc_candidates ops i s) \<le> b"
    and probe_skips: "\<lbrakk>inv s; p \<in> set (do_dc_candidates ops i s0); p s = (Inr None, s')\<rbrakk> \<Longrightarrow> inv s'"
    and probe_yields: "\<lbrakk>inv s; i < n; p \<in> set (do_dc_candidates ops i s0); p s = (Inr (Some (reg, letters)), s')\<rbrakk> \<Longrightarrow>
      \<exists>s''. do_switch_dc_region ops i reg letters s' = (Inr (), s'') \<and> inv s''"
begin

lemma restore_raise:
  "andthen (do_restore ops) (\<lambda>_. raise e) s = (r, s') \<Longrightarrow> r = Inl e \<and> placement s' = home"
  using restore_ok[of s] by (auto simp: comp_defs)

text \<open>The iterators only hold candidates of their datacenter.\<close>

definition its_ok :: "('s, 'e) iterators \<Rightarrow> bool" where
  "its_ok its \<longleftrightarrow> (\<forall>i ps. its i = Some ps \<longrightarrow> (\<exists>s0. set ps \<subseteq> set (do_dc_candidates ops i s0)))"

lemma pull_switches:
  "\<lbrakk>set ps \<subseteq> set (do_dc_candidates ops i s0); inv s; i < n; pull ps s = (Inr (Some ((reg, letters), ps')), s')\<rbrakk> \<Longrightarrow>
   \<exists>s''. do_switch_dc_region ops i reg letters s' = (Inr (), s'') \<and> inv s''"
proof (induction ps arbitrary: s)
  case (Cons p ps)
  obtain res s1 where p: "p s = (res, s1)" by fastforce
  from Cons.prems p obtain oc where oc: "res = Inr oc" by (cases res) auto
  show ?case
  proof (cases oc)
    case None
    with Cons.prems p oc probe_skips[of s p i s0 s1] have "inv s1" "pull ps s1 = (Inr (Some ((reg, letters), ps')), s')"
      by auto
    with Cons show ?thesis by simp
  next
    case (Some c)
    with Cons.prems p oc have "p s = (Inr (Some (reg, letters)), s')" by auto
    with Cons.prems probe_yields[of s i p s0] show ?thesis by simp
  qed
qed simp

lemma dc_round_facts:
  assumes i: "inv s" and o: "its_ok its"
  shows "case dc_round ops its s of
      Inl (r, s') \<Rightarrow> (case r of Inl _ \<Rightarrow> placement s' = home | Inr _ \<Rightarrow> inv s')
    | Inr (its', s') \<Rightarrow> inv s' \<and> its_ok its' \<and> remaining n b its' < remaining n b its"
proof -
  obtain res s1 where p: "do_provision_once ops s = (res, s1)" by fastforce
  note i1 = provision_inv[OF i p]
  obtain s2 where c: "do_cleanup ops s1 = (Inr (), s2)" "inv s2" using cleanup_ok[OF i1] by blast
  show ?thesis
  proof (cases res)
    case (Inr u)
    with p i1 show ?thesis by (simp add: dc_round_def)
  next
    case (Inl ex)
    show ?thesis
    proof (cases "do_is_capacity_error ops ex \<and> do_failed_dc_index ops ex s1 \<noteq> None")
      case False
      with p Inl c show ?thesis
        by (auto simp: dc_round_def Let_def dest: restore_raise split: prod.splits)
    next
      case True
      then obtain k where k: "do_is_capacity_error ops ex" "do_failed_dc_index ops ex s1 = Some k" by blast
      from index_bound[OF i1 k(2)] have kn: "k < n" .
      let ?ps = "case its k of Some ps \<Rightarrow> ps | None \<Rightarrow> do_dc_candidates ops k s2"
      have "\<exists>s0. set ?ps \<subseteq> set (do_dc_candidates ops k s0)"
        using o unfolding its_ok_def by (cases "its k") (simp_all, blast)
      then obtain s0 where s0: "set ?ps \<subseteq> set (do_dc_candidates ops k s0)" ..
      obtain pr s3 where pl: "pull ?ps s2 = (pr, s3)" by fastforce
      consider (err) e where "pr = Inl e" | (none) "pr = Inr None" |
        (some) reg letters ps where "pr = Inr (Some ((reg, letters), ps))"
        by (metis option.exhaust sum.exhaust surj_pair)
      then show ?thesis
      proof cases
        case err
        with p Inl c k pl show ?thesis
          by (auto simp: dc_round_def Let_def next_candidate_def dest: restore_raise split: prod.splits sum.splits)
      next
        case none
        with p Inl c k pl show ?thesis
          by (auto simp: dc_round_def Let_def next_candidate_def dest: restore_raise split: prod.splits)
      next
        case some
        from pull_switches[OF s0 c(2) kn pl[unfolded some]] obtain s4 where
          s4: "do_switch_dc_region ops k reg letters s3 = (Inr (), s4)" "inv s4" by blast
        have nc: "next_candidate ops its k s2 = (Inr (Some ((reg, letters), its(k \<mapsto> ps))), s3)"
          using pl some by (simp add: next_candidate_def)
        have "set ps \<subseteq> set (do_dc_candidates ops k s0)"
          using s0 pull_facts[OF pl[unfolded some]] by (meson order_trans)
        then have "its_ok (its(k \<mapsto> ps))" using o unfolding its_ok_def by (metis fun_upd_apply option.inject)
        with p Inl c k nc s4 next_candidate_consumes[OF nc kn candidates_bound] show ?thesis
          by (simp add: dc_round_def)
      qed
    qed
  qed
qed

lemma dc_loop_facts:
  "\<lbrakk>inv s; its_ok its\<rbrakk> \<Longrightarrow> \<exists>r s'. dc_loop ops its s = Some (r, s') \<and>
     (case r of Inl _ \<Rightarrow> placement s' = home | Inr _ \<Rightarrow> inv s')"
proof (induction "remaining n b its" arbitrary: its s rule: less_induct)
  case less
  note f = dc_round_facts[OF less.prems]
  show ?case
  proof (cases "dc_round ops its s")
    case (Inl result)
    with f show ?thesis by (subst dc_loop.simps) (auto split: prod.splits)
  next
    case (Inr cont)
    obtain its' s' where cont: "cont = (its', s')" by fastforce
    with f Inr less.hyps[of its' s'] show ?thesis by (subst dc_loop.simps) simp
  qed
qed

lemma dc_fallback_facts:
  "inv s \<Longrightarrow> \<exists>r s'. provision_with_dc_fallback ops s = Some (r, s') \<and>
     (case r of Inl _ \<Rightarrow> placement s' = home | Inr _ \<Rightarrow> inv s')"
  unfolding provision_with_dc_fallback_def by (rule dc_loop_facts) (simp_all add: its_ok_def)

end

end
