(* ===== verification/Spot_Score.thy ===== *)
theory Spot_Score
  imports Sct_Prelude "HOL-Library.Multiset"
begin

text \<open>
  Ranking of AWS regions and availability zones by spot placement score
  (\<^verbatim>\<open>sdcm/provision/aws/spot_placement_score.py\<close>).

  The two EC2 calls are parameters: one page of \<^verbatim>\<open>GetSpotPlacementScores\<close> (a failure is any
  exception) and \<^verbatim>\<open>DescribeAvailabilityZones\<close>.  A missing key of a response is \<^const>\<open>None\<close>.
\<close>

section \<open>Data\<close>

record placement_score =
  ps_region :: string
  ps_score :: int
  ps_az_letter :: "string option"

definition location :: "placement_score \<Rightarrow> string" where
  "location p = (case ps_az_letter p of
       Some l \<Rightarrow> if l \<noteq> [] then ps_region p @ l else ps_region p
     | None \<Rightarrow> ps_region p)"

text \<open>An entry of the response: region, score and zone id, each of which may be missing.\<close>

record raw_score =
  raw_region :: "string option"
  raw_score_value :: "int option"
  raw_zone_id :: "string option"

type_synonym page_api =
  "string list \<Rightarrow> int \<Rightarrow> bool \<Rightarrow> string list \<Rightarrow> string option \<Rightarrow> string + (raw_score list \<times> string option)"
type_synonym zones_api = "string \<Rightarrow> string + (string \<times> string) list"

section \<open>Querying\<close>

definition max_regions :: nat where
  "max_regions = 10"

function chunk_regions :: "string list \<Rightarrow> string list list" where
  "chunk_regions regions =
     (if regions = [] then [] else take max_regions regions # chunk_regions (drop max_regions regions))"
  by pat_completeness auto
termination by (relation "measure length") (auto simp: max_regions_def)

declare chunk_regions.simps [simp del]

text \<open>\<^verbatim>\<open>_zone_id_to_letter\<close>: the dictionary of zone ids, empty when the call fails.\<close>

definition zone_id_to_letter :: "zones_api \<Rightarrow> string \<Rightarrow> string dict" where
  "zone_id_to_letter zones region = (case zones region of
       Inl _ \<Rightarrow> []
     | Inr azs \<Rightarrow> foldl (\<lambda>m (zid, zname). AList.update zid (drop (length region) zname) m) [] azs)"

text \<open>The pages of one region chunk, following \<^verbatim>\<open>NextToken\<close>; \<^const>\<open>None\<close> when the pages never end.\<close>

partial_function (option) query_pages ::
    "(string option \<Rightarrow> string + (raw_score list \<times> string option)) \<Rightarrow> string option \<Rightarrow> raw_score list
      \<Rightarrow> (string + raw_score list) option" where
  "query_pages page next_token raw =
     (case page next_token of
        Inl e \<Rightarrow> Some (Inl e)
      | Inr (entries, token) \<Rightarrow>
          (case token of
             None \<Rightarrow> Some (Inr (raw @ entries))
           | Some t \<Rightarrow> if t = [] then Some (Inr (raw @ entries))
                      else query_pages page (Some t) (raw @ entries)))"

fun query_chunks ::
    "(string list \<Rightarrow> string option \<Rightarrow> string + (raw_score list \<times> string option)) \<Rightarrow> string list list \<Rightarrow> raw_score list
      \<Rightarrow> (string + raw_score list) option" where
  "query_chunks api [] raw = Some (Inr raw)"
| "query_chunks api (c # cs) raw = (case query_pages (api c) None raw of
       None \<Rightarrow> None
     | Some (Inl e) \<Rightarrow> Some (Inl e)
     | Some (Inr raw') \<Rightarrow> query_chunks api cs raw')"

definition query_scores ::
    "page_api \<Rightarrow> string list \<Rightarrow> int \<Rightarrow> string list \<Rightarrow> bool \<Rightarrow> (string + raw_score list) option" where
  "query_scores api types capacity regions single_az =
     query_chunks (api types capacity single_az) (chunk_regions regions) []"

text \<open>One iteration of the loop over the raw entries; the memo of zone letters caches a pure call.\<close>

definition score_of_raw :: "zones_api \<Rightarrow> bool \<Rightarrow> raw_score \<Rightarrow> placement_score option" where
  "score_of_raw zones single_az entry =
     (case (raw_region entry, raw_score_value entry) of
        (Some region, Some score) \<Rightarrow>
          (if region = [] then None
           else if single_az then
             (case raw_zone_id entry of
                None \<Rightarrow> None
              | Some zid \<Rightarrow> (case map_of (zone_id_to_letter zones region) zid of
                    None \<Rightarrow> None
                  | Some l \<Rightarrow> Some \<lparr>ps_region = region, ps_score = score, ps_az_letter = Some l\<rparr>))
           else Some \<lparr>ps_region = region, ps_score = score, ps_az_letter = None\<rparr>)
      | _ \<Rightarrow> None)"

definition best_first :: "placement_score \<Rightarrow> int \<times> string" where
  "best_first p = (- ps_score p, location p)"

text \<open>\<^verbatim>\<open>_get_scores\<close>\<close>

definition get_scores_uncached ::
    "page_api \<Rightarrow> zones_api \<Rightarrow> string list \<Rightarrow> int \<Rightarrow> string list \<Rightarrow> bool \<Rightarrow> (string + placement_score list) option" where
  "get_scores_uncached api zones types capacity regions single_az =
     (if types = [] \<or> regions = [] \<or> capacity < 1 then Some (Inr [])
      else map_option (map_sum id (\<lambda>raw. sort_key best_first (List.map_filter (score_of_raw zones single_az) raw)))
             (query_scores api types capacity regions single_az))"

text \<open>
  \<^verbatim>\<open>get_scores\<close> with its cache.  The key forgets the order of types and regions.  Expiry and
  eviction remove entries of the cache between calls and are not part of a call.
\<close>

type_synonym score_key = "string list \<times> int \<times> string list \<times> bool"

definition score_key :: "string list \<Rightarrow> int \<Rightarrow> string list \<Rightarrow> bool \<Rightarrow> score_key" where
  "score_key types capacity regions single_az = (sort types, capacity, sort regions, single_az)"

definition get_scores ::
    "page_api \<Rightarrow> zones_api \<Rightarrow> string list \<Rightarrow> int \<Rightarrow> string list \<Rightarrow> bool \<Rightarrow> (score_key \<rightharpoonup> placement_score list)
      \<Rightarrow> (placement_score list \<times> (score_key \<rightharpoonup> placement_score list)) option" where
  "get_scores api zones types capacity regions single_az cache =
     (let key = score_key types capacity regions single_az in
      case cache key of
        Some scores \<Rightarrow> Some (scores, cache)
      | None \<Rightarrow> (case get_scores_uncached api zones types capacity regions single_az of
            None \<Rightarrow> None
          | Some (Inl _) \<Rightarrow> Some ([], cache)
          | Some (Inr scores) \<Rightarrow> Some (scores, if scores \<noteq> [] then cache(key \<mapsto> scores) else cache)))"

section \<open>Ranking\<close>

text \<open>
  The rankings take the scores from a provider: \<open>gs types capacity regions single_az\<close> is the
  answer of \<^verbatim>\<open>get_scores\<close>.
\<close>

type_synonym score_provider = "string list \<Rightarrow> int \<Rightarrow> string list \<Rightarrow> bool \<Rightarrow> placement_score list"

definition by_letter :: "placement_score list \<Rightarrow> int dict" where
  "by_letter scores = foldl (\<lambda>m p. case ps_az_letter p of
       Some l \<Rightarrow> if l \<noteq> [] then AList.update l (ps_score p) m else m
     | None \<Rightarrow> m) [] scores"

definition merge_worst :: "int dict \<Rightarrow> int dict \<Rightarrow> int dict" where
  "merge_worst worst letters = foldl (\<lambda>w (l, sc).
       AList.update l (case map_of w l of Some x \<Rightarrow> min x sc | None \<Rightarrow> sc) w) worst letters"

type_synonym role_request = "string \<times> string list \<times> int"

fun worst_scores :: "score_provider \<Rightarrow> string \<Rightarrow> role_request list \<Rightarrow> int dict \<Rightarrow> int dict option" where
  "worst_scores gs region [] worst = Some worst"
| "worst_scores gs region ((role, types, cnt) # reqs) worst =
     (if types = [] \<or> cnt < 1 then worst_scores gs region reqs worst
      else (let scores = gs types cnt [region] True in
        if scores = [] then None
        else worst_scores gs region reqs (merge_worst worst (by_letter scores))))"

definition rank_az_letters_for_roles ::
    "score_provider \<Rightarrow> role_request list \<Rightarrow> string \<Rightarrow> string list \<Rightarrow> int \<Rightarrow> string list option" where
  "rank_az_letters_for_roles gs reqs region az_letters min_score =
     (if az_letters = [] then Some []
      else case worst_scores gs region reqs [] of
        None \<Rightarrow> None
      | Some worst \<Rightarrow>
          (if worst = [] then None
           else (let w = (\<lambda>l. the (map_of worst l));
                     scored = filter (\<lambda>l. map_of worst l \<noteq> None \<and> w l \<ge> min_score) az_letters;
                     unscored = filter (\<lambda>l. map_of worst l = None) az_letters
                 in Some (sort_key (\<lambda>l. (- w l, l)) scored @ unscored))))"

definition by_region :: "placement_score list \<Rightarrow> int dict" where
  "by_region scores = foldl (\<lambda>m p. AList.update (ps_region p) (ps_score p) m) [] scores"

definition rank_regions :: "score_provider \<Rightarrow> string list \<Rightarrow> int \<Rightarrow> string list \<Rightarrow> string list" where
  "rank_regions gs types capacity regions =
     (if regions = [] then []
      else (let scores = gs types capacity regions False in
        if scores = [] then regions
        else (let br = map_of (by_region scores)
              in sort_key (\<lambda>r. (- the (br r), r)) (filter (\<lambda>r. br r \<noteq> None) regions) @
                 filter (\<lambda>r. br r = None) regions)))"

section \<open>Chunks and pages\<close>

lemma concat_chunk_regions: "concat (chunk_regions regions) = regions"
  by (induction regions rule: chunk_regions.induct) (subst chunk_regions.simps, simp)

lemma chunk_regions_size: "c \<in> set (chunk_regions regions) \<Longrightarrow> c \<noteq> [] \<and> length c \<le> max_regions"
proof (induction regions rule: chunk_regions.induct)
  case (1 regions)
  then show ?case
    by (subst (asm) (2) chunk_regions.simps) (auto split: if_splits simp: max_regions_def)
qed

text \<open>The pages of a chunk end when every token leads to one of smaller rank.\<close>

definition ranked_pages :: "(string option \<Rightarrow> string + (raw_score list \<times> string option)) \<Rightarrow> (string option \<Rightarrow> nat) \<Rightarrow> bool" where
  "ranked_pages page rank \<longleftrightarrow>
     (\<forall>tok entries t. page tok = Inr (entries, Some t) \<longrightarrow> t \<noteq> [] \<longrightarrow> rank (Some t) < rank tok)"

lemma query_pages_ends:
  assumes "ranked_pages page rank"
  shows "\<exists>res. query_pages page tok raw = Some res"
proof (induction "rank tok" arbitrary: tok raw rule: less_induct)
  case less
  show ?case
  proof (cases "\<exists>entries t. page tok = Inr (entries, Some t) \<and> t \<noteq> []")
    case True
    then obtain entries t where p: "page tok = Inr (entries, Some t)" "t \<noteq> []" by blast
    with assms have "rank (Some t) < rank tok" by (auto simp: ranked_pages_def)
    from less[OF this, of "raw @ entries"] p show ?thesis by (subst query_pages.simps) simp
  next
    case False
    then show ?thesis by (subst query_pages.simps) (auto split: sum.splits option.splits)
  qed
qed

lemma query_chunks_ends:
  assumes "\<And>c. \<exists>rank. ranked_pages (api c) rank"
  shows "\<exists>res. query_chunks api cs raw = Some res"
proof (induction cs arbitrary: raw)
  case (Cons c cs)
  obtain rank where "ranked_pages (api c) rank" using assms by blast
  from query_pages_ends[OF this, of None raw] obtain res where "query_pages (api c) None raw = Some res" ..
  with Cons show ?case by (cases res) auto
qed simp

section \<open>The worst score over the roles\<close>

fun omin :: "int option \<Rightarrow> int option \<Rightarrow> int option" where
  "omin None b = b"
| "omin a None = a"
| "omin (Some a) (Some b) = Some (min a b)"

lemma distinct_by_letter [simp]: "distinct (map fst (by_letter scores))"
proof -
  have "distinct (map fst m) \<Longrightarrow> distinct (map fst (foldl (\<lambda>m p. case ps_az_letter p of
       Some l \<Rightarrow> if l \<noteq> [] then AList.update l (ps_score p) m else m | None \<Rightarrow> m) m scores))" for m
    by (induction scores arbitrary: m) (auto split: option.splits)
  then show ?thesis by (simp add: by_letter_def)
qed

lemma map_of_merge_worst:
  "distinct (map fst ls) \<Longrightarrow> map_of (merge_worst w ls) l = omin (map_of w l) (map_of ls l)"
proof (induction ls arbitrary: w)
  case Nil
  then show ?case by (cases "map_of w l") (simp_all add: merge_worst_def)
next
  case (Cons p ls)
  obtain k sc where p: "p = (k, sc)" by fastforce
  let ?w = "AList.update k (case map_of w k of Some x \<Rightarrow> min x sc | None \<Rightarrow> sc) w"
  have m: "merge_worst w (p # ls) = merge_worst ?w ls" by (simp add: merge_worst_def p)
  from Cons.prems p have "map_of ls k = None" by (auto simp: map_of_eq_None_iff)
  with Cons.IH[of ?w] Cons.prems show ?case unfolding m
    by (cases "l = k"; cases "map_of w l") (simp_all add: p)
qed

text \<open>The scores the roles of the cluster got for a letter.\<close>

definition role_scores :: "score_provider \<Rightarrow> string \<Rightarrow> role_request list \<Rightarrow> string \<Rightarrow> int set" where
  "role_scores gs region reqs l = {sc. \<exists>role types cnt. (role, types, cnt) \<in> set reqs \<and> types \<noteq> [] \<and>
     cnt \<ge> 1 \<and> map_of (by_letter (gs types cnt [region] True)) l = Some sc}"

definition worst_of :: "int set \<Rightarrow> int option" where
  "worst_of S = (if S = {} then None else Some (Min S))"

lemma finite_role_scores: "finite (role_scores gs region reqs l)"
proof -
  have "role_scores gs region reqs l \<subseteq>
      (\<lambda>(role, types, cnt). the (map_of (by_letter (gs types cnt [region] True)) l)) ` set reqs"
    by (force simp: role_scores_def)
  then show ?thesis by (rule finite_subset) simp
qed

lemma role_scores_Cons:
  "role_scores gs region ((role, types, cnt) # reqs) l =
     (if types \<noteq> [] \<and> cnt \<ge> 1 then set_option (map_of (by_letter (gs types cnt [region] True)) l) else {}) \<union>
     role_scores gs region reqs l"
  unfolding role_scores_def by (rule set_eqI) (simp, blast)

lemma worst_of_insert: "finite S \<Longrightarrow> worst_of (insert a S) = omin (Some a) (worst_of S)"
  by (simp add: worst_of_def)

lemma omin_assoc: "omin (omin a b) c = omin a (omin b c)"
  by (cases a; cases b; cases c) (simp_all add: min.assoc)

lemma omin_None [simp]: "omin a None = a"
  by (cases a) simp_all

lemma worst_scores_min:
  "worst_scores gs region reqs w = Some w' \<Longrightarrow>
   map_of w' l = omin (map_of w l) (worst_of (role_scores gs region reqs l))"
proof (induction gs region reqs w arbitrary: w' rule: worst_scores.induct)
  case (1 gs region w)
  then show ?case by (simp add: role_scores_def worst_of_def)
next
  case (2 gs region role types cnt reqs w)
  show ?case
  proof (cases "types = [] \<or> cnt < 1")
    case True
    with 2 show ?thesis by (auto simp: role_scores_Cons)
  next
    case False
    let ?b = "by_letter (gs types cnt [region] True)"
    from False 2(3) have "worst_scores gs region reqs (merge_worst w ?b) = Some w'"
      by (auto simp: Let_def split: if_splits)
    with 2(2)[OF False refl] 2(3) False
    have "map_of w' l = omin (omin (map_of w l) (map_of ?b l)) (worst_of (role_scores gs region reqs l))"
      by (auto simp: Let_def map_of_merge_worst split: if_splits)
    with False show ?thesis
      by (cases "map_of ?b l") (auto simp: role_scores_Cons omin_assoc worst_of_insert finite_role_scores)
  qed
qed

section \<open>Orders\<close>

text \<open>\<open>a\<close> may stand before \<open>b\<close>: better scores first, equal scores by name, unscored last.\<close>

definition ranked_before :: "(string \<Rightarrow> int option) \<Rightarrow> string \<Rightarrow> string \<Rightarrow> bool" where
  "ranked_before W a b \<longleftrightarrow> (case (W a, W b) of
       (_, None) \<Rightarrow> True
     | (None, Some _) \<Rightarrow> False
     | (Some x, Some y) \<Rightarrow> x > y \<or> x = y \<and> a \<le> b)"

lemma ranked_sort:
  assumes "\<And>l. l \<in> set xs \<Longrightarrow> W l \<noteq> None" "\<And>l. l \<in> set ys \<Longrightarrow> W l = None"
  shows "sorted_wrt (ranked_before W) (sort_key (\<lambda>l. (- the (W l), l)) xs @ ys)"
proof -
  let ?f = "\<lambda>l. (- the (W l), l)"
  have "sorted_wrt (\<lambda>a b. ?f a \<le> ?f b) (sort_key ?f xs)"
    using sorted_sort_key[of ?f xs] by (simp add: sorted_map)
  then have "sorted_wrt (ranked_before W) (sort_key ?f xs)"
  proof (rule sorted_wrt_mono_rel[rotated])
    fix a b assume "a \<in> set (sort_key ?f xs)" "b \<in> set (sort_key ?f xs)" "?f a \<le> ?f b"
    with assms(1)[of a] assms(1)[of b] show "ranked_before W a b" by (auto simp: ranked_before_def)
  qed
  moreover have "sorted_wrt (ranked_before W) ys"
    using assms(2) by (induction ys) (auto simp: ranked_before_def)
  moreover have "\<forall>a\<in>set xs. \<forall>b\<in>set ys. ranked_before W a b"
    using assms(2) by (simp add: ranked_before_def split: option.splits)
  ultimately show ?thesis by (simp add: sorted_wrt_append)
qed

lemma mset_filter_split:
  "\<forall>x\<in>set xs. \<not> (P x \<and> Q x) \<Longrightarrow> mset (filter P xs) + mset (filter Q xs) = mset (filter (\<lambda>x. P x \<or> Q x) xs)"
  by (induction xs) auto

lemma rank_az_spec:
  assumes "rank_az_letters_for_roles gs reqs region az_letters min_score = Some ranked"
  shows "let W = (\<lambda>l. worst_of (role_scores gs region reqs l)) in
     mset ranked = mset (filter (\<lambda>l. \<forall>sc. W l = Some sc \<longrightarrow> sc \<ge> min_score) az_letters) \<and>
     sorted_wrt (ranked_before W) ranked"
proof (cases "az_letters = []")
  case True
  with assms show ?thesis by (simp add: rank_az_letters_for_roles_def)
next
  case False
  with assms obtain worst where w: "worst_scores gs region reqs [] = Some worst"
    by (auto simp: rank_az_letters_for_roles_def split: option.splits)
  define W where "W = (\<lambda>l. worst_of (role_scores gs region reqs l))"
  have W: "map_of worst = W" unfolding W_def using worst_scores_min[OF w] by (simp add: fun_eq_iff)
  let ?s = "filter (\<lambda>l. W l \<noteq> None \<and> the (W l) \<ge> min_score) az_letters"
  let ?u = "filter (\<lambda>l. W l = None) az_letters"
  have r: "ranked = sort_key (\<lambda>l. (- the (W l), l)) ?s @ ?u"
    using assms False w by (simp add: rank_az_letters_for_roles_def Let_def W split: if_splits)
  have "mset ranked = mset ?s + mset ?u" unfolding r by (simp only: mset_append mset_sort)
  also have "\<dots> = mset (filter (\<lambda>l. (W l \<noteq> None \<and> the (W l) \<ge> min_score) \<or> W l = None) az_letters)"
    by (rule mset_filter_split) auto
  also have "filter (\<lambda>l. (W l \<noteq> None \<and> the (W l) \<ge> min_score) \<or> W l = None) az_letters =
      filter (\<lambda>l. \<forall>sc. W l = Some sc \<longrightarrow> sc \<ge> min_score) az_letters"
    by (rule filter_cong) auto
  finally show ?thesis unfolding Let_def W_def[symmetric] r by (intro conjI ranked_sort) auto
qed

lemma rank_regions_spec:
  "mset (rank_regions gs types capacity regions) = mset regions \<and>
   (if gs types capacity regions False = [] then rank_regions gs types capacity regions = regions
    else sorted_wrt (ranked_before (map_of (by_region (gs types capacity regions False))))
           (rank_regions gs types capacity regions) \<and>
         filter (\<lambda>r. map_of (by_region (gs types capacity regions False)) r = None) (rank_regions gs types capacity regions) =
         filter (\<lambda>r. map_of (by_region (gs types capacity regions False)) r = None) regions)"
proof -
  let ?W = "map_of (by_region (gs types capacity regions False))"
  let ?s = "filter (\<lambda>r. ?W r \<noteq> None) regions" and ?u = "filter (\<lambda>r. ?W r = None) regions"
  show ?thesis
  proof (cases "regions = [] \<or> gs types capacity regions False = []")
    case True
    then show ?thesis by (auto simp: rank_regions_def)
  next
    case False
    then have r: "rank_regions gs types capacity regions = sort_key (\<lambda>r. (- the (?W r), r)) ?s @ ?u"
      by (simp add: rank_regions_def Let_def)
    have "mset (rank_regions gs types capacity regions) = mset ?s + mset ?u"
      unfolding r by (simp only: mset_append mset_sort)
    also have "\<dots> = mset (filter (\<lambda>r. ?W r \<noteq> None \<or> ?W r = None) regions)"
      by (rule mset_filter_split) auto
    also have "filter (\<lambda>r. ?W r \<noteq> None \<or> ?W r = None) regions = regions" by (rule filter_True) auto
    finally have m: "mset (rank_regions gs types capacity regions) = mset regions" .
    have "sorted_wrt (ranked_before ?W) (rank_regions gs types capacity regions)"
      unfolding r by (rule ranked_sort) auto
    moreover have "filter (\<lambda>r. ?W r = None) (rank_regions gs types capacity regions) = ?u"
      unfolding r by (simp add: filter_empty_conv)
    ultimately show ?thesis using m False by simp
  qed
qed

section \<open>Properties\<close>

text \<open>Availability zones are ranked by their worst role.  Whenever the zones are ranked at all, the
  result consists of the given letters without those scored below the minimum (with their
  multiplicities); a better worst score, taken over all roles that scored the letter, comes first,
  ties are alphabetical, and the letters no role scored come last.\<close>

theorem rank_az_by_worst_role:
  assumes "rank_az_letters_for_roles gs reqs region az_letters min_score = Some ranked"
  shows "let W = (\<lambda>l. worst_of (role_scores gs region reqs l)) in
     mset ranked = mset (filter (\<lambda>l. \<forall>sc. W l = Some sc \<longrightarrow> sc \<ge> min_score) az_letters) \<and>
     sorted_wrt (ranked_before W) ranked"
  by (rule rank_az_spec[OF assms])

definition example_scores :: score_provider where
  "example_scores types capacity regions single_az =
     (if types = [''db''] then [\<lparr>ps_region = ''r'', ps_score = 3, ps_az_letter = Some ''a''\<rparr>,
                               \<lparr>ps_region = ''r'', ps_score = 3, ps_az_letter = Some ''c''\<rparr>]
      else [\<lparr>ps_region = ''r'', ps_score = 9, ps_az_letter = Some ''c''\<rparr>,
            \<lparr>ps_region = ''r'', ps_score = 1, ps_az_letter = Some ''a''\<rparr>])"

theorem rank_az_by_worst_role_witness:
  "mset [''c'', ''a'', ''b''] = mset (filter (\<lambda>l. \<forall>sc. worst_of (role_scores example_scores ''r''
      [(''db'', [''db''], 3), (''loaders'', [''l''], 1)] l) = Some sc \<longrightarrow> sc \<ge> 0) [''a'', ''b'', ''c''])"
proof -
  have "rank_az_letters_for_roles example_scores [(''db'', [''db''], 3), (''loaders'', [''l''], 1)] ''r''
      [''a'', ''b'', ''c''] 0 = Some [''c'', ''a'', ''b'']"
    by (simp add: rank_az_letters_for_roles_def example_scores_def by_letter_def merge_worst_def Let_def)
  from rank_az_by_worst_role[OF this] show ?thesis by (simp add: Let_def)
qed

text \<open>Ranking regions permutes them, best score first and the unscored last in their own order, and
  leaves them alone when no scores could be obtained.\<close>

theorem rank_regions_permutes:
  "mset (rank_regions gs types capacity regions) = mset regions \<and>
   (if gs types capacity regions False = [] then rank_regions gs types capacity regions = regions
    else sorted_wrt (ranked_before (map_of (by_region (gs types capacity regions False))))
           (rank_regions gs types capacity regions) \<and>
         filter (\<lambda>r. map_of (by_region (gs types capacity regions False)) r = None) (rank_regions gs types capacity regions) =
         filter (\<lambda>r. map_of (by_region (gs types capacity regions False)) r = None) regions)"
  by (rule rank_regions_spec)

text \<open>\<^verbatim>\<open>get_scores\<close> always answers and only remembers answers.  When the pages of every chunk end, it
  returns; the scores it computes are ordered best first, any failure of the service gives the empty
  answer, and the cache changes only by remembering a non-empty answer that the service gave.\<close>

theorem get_scores_answers:
  assumes "\<And>c. \<exists>rank. ranked_pages (api types capacity single_az c) rank"
    and "cache (score_key types capacity regions single_az) = None"
  shows "\<exists>scores cache'. get_scores api zones types capacity regions single_az cache = Some (scores, cache') \<and>
     sorted (map best_first scores) \<and>
     (case get_scores_uncached api zones types capacity regions single_az of
        Some (Inr answer) \<Rightarrow> scores = answer \<and>
          cache' = (if answer = [] then cache else cache(score_key types capacity regions single_az \<mapsto> answer))
      | _ \<Rightarrow> scores = [] \<and> cache' = cache)"
proof -
  let ?u = "get_scores_uncached api zones types capacity regions single_az"
  obtain res where q: "query_scores api types capacity regions single_az = Some res"
    unfolding query_scores_def using query_chunks_ends[of "api types capacity single_az"] assms(1) by blast
  then have u: "?u \<noteq> None" by (simp add: get_scores_uncached_def)
  have s: "?u = Some (Inr answer) \<Longrightarrow> sorted (map best_first answer)" for answer
    using q by (cases res) (auto simp: get_scores_uncached_def split: if_splits)
  from u obtain r where r: "?u = Some r" by blast
  with s assms(2) show ?thesis by (cases r) (auto simp: get_scores_def)
qed

theorem get_scores_answers_witness:
  "\<exists>scores cache'. get_scores (\<lambda>_ _ _ _ _. Inl ''AccessDenied'') (\<lambda>_. Inr []) [''m5.large''] 3 [''eu-west-1''] True Map.empty =
     Some (scores, cache') \<and> scores = []"
proof -
  let ?api = "(\<lambda>_ _ _ _ _. Inl ''AccessDenied'') :: page_api"
  have 1: "\<exists>rank. ranked_pages (?api [''m5.large''] 3 True c) rank" for c by (simp add: ranked_pages_def)
  have 2: "Map.empty (score_key [''m5.large''] 3 [''eu-west-1''] True) = None" by simp
  have u: "get_scores_uncached ?api (\<lambda>_. Inr []) [''m5.large''] 3 [''eu-west-1''] True = Some (Inl ''AccessDenied'')"
    by (simp add: get_scores_uncached_def query_scores_def chunk_regions.simps query_pages.simps)
  show ?thesis
    using get_scores_answers[where api = ?api and types = "[''m5.large'']" and capacity = 3 and
        regions = "[''eu-west-1'']" and single_az = True and zones = "\<lambda>_. Inr []" and cache = Map.empty, OF 1 2]
    unfolding u by auto
qed

end
