(* ===== verification/Az_Resolver.thy ===== *)
theory Az_Resolver
  imports Sct_Params Spot_Score
begin

text \<open>
  Resolution of \<^verbatim>\<open>availability_zone\<close> on AWS and the candidates for capacity fallback
  (\<^verbatim>\<open>sdcm/provision/aws/az_resolver.py\<close>, with \<^verbatim>\<open>get_common_availability_zones\<close> of
  \<^verbatim>\<open>sdcm/utils/aws_region.py\<close>).

  The cloud is a parameter: the instance type offerings of a region, the state of a VPC peering and
  the spot scores.  A failing offerings call raises; a failing peering check counts as "not peered".
\<close>

section \<open>Parameters of the resolver\<close>

text \<open>The configuration object: its values, its \<^verbatim>\<open>region_names\<close> and its provenance query, if it has them.\<close>

record az_params =
  ap_params :: params
  ap_region_names :: "string list option"
  ap_is_explicitly_set :: "(string \<Rightarrow> bool) option"

datatype az_error = NoValidAvailabilityZoneError "string list" | AwsError string | RuntimeError string
  | ProvisioningCapacityExhausted "(string \<times> string) list"

text \<open>What the cloud offers: \<^verbatim>\<open>(zone name, instance type)\<close> pairs per region.\<close>

type_synonym offerings = "string \<Rightarrow> string + (string \<times> string) list"

record cloud =
  cl_offerings :: offerings
  cl_peering :: "string \<Rightarrow> string \<Rightarrow> string + string option"
  cl_scores :: score_provider

section \<open>Node counts and gates\<close>

definition node_count_positive :: "param \<Rightarrow> bool" where
  "node_count_positive v = (case v of
       PNone \<Rightarrow> False
     | PBool b \<Rightarrow> b
     | PInt i \<Rightarrow> i > 0
     | PFloat r \<Rightarrow> r > 0
     | PCounts l \<Rightarrow> list_ex (\<lambda>n. case n of Some i \<Rightarrow> i > 0 | None \<Rightarrow> False) l
     | PStr _ \<Rightarrow> False)"

definition has_loaders :: "params \<Rightarrow> bool" where
  "has_loaders p = node_count_positive (p ''n_loaders'')"

definition has_monitor :: "params \<Rightarrow> bool" where
  "has_monitor p = node_count_positive (p ''n_monitor_nodes'')"

definition has_oracle :: "params \<Rightarrow> bool" where
  "has_oracle p = ((p ''db_type'' = PStr ''mixed_scylla'' \<or> p ''db_type'' = PStr ''mixed_cassandra'') \<and>
     node_count_positive (p ''n_test_oracle_db_nodes''))"

definition has_zero_token :: "params \<Rightarrow> bool" where
  "has_zero_token p = (truthy (p ''use_zero_nodes'') \<and> node_count_positive (p ''n_db_zero_token_nodes''))"

definition has_vector_store :: "params \<Rightarrow> bool" where
  "has_vector_store p = node_count_positive (p ''n_vector_store_nodes'')"

definition always :: "params \<Rightarrow> bool" where
  "always p = True"

definition node_count_total :: "param \<Rightarrow> int" where
  "node_count_total v = (case v of
       PInt i \<Rightarrow> max i 0
     | PFloat r \<Rightarrow> max (int_of_float r) 0
     | PCounts l \<Rightarrow> sum_list (map (\<lambda>n. case n of Some i \<Rightarrow> (if i > 0 then i else 0) | None \<Rightarrow> 0) l)
     | _ \<Rightarrow> 0)"

definition is_spot_placement_scoring_enabled :: "params \<Rightarrow> bool" where
  "is_spot_placement_scoring_enabled p = is_spot_capacity_scoring_enabled p ''aws''"

definition instance_type_param_gates :: "(string \<times> (params \<Rightarrow> bool)) list" where
  "instance_type_param_gates =
     [(''instance_type_db'', always),
      (''instance_type_loader'', has_loaders),
      (''instance_type_monitor'', has_monitor),
      (''zero_token_instance_type_db'', has_zero_token),
      (''instance_type_db_oracle'', has_oracle),
      (''instance_type_db_target'', always),
      (''nemesis_grow_shrink_instance_type'', always),
      (''instance_type_vector_store'', has_vector_store)]"

section \<open>The resolver's inputs\<close>

definition required_instance_types :: "params \<Rightarrow> string list" where
  "required_instance_types p = foldl (\<lambda>selected (key, gate).
       if get_str p key \<noteq> [] \<and> gate p \<and> get_str p key \<notin> set selected then selected @ [get_str p key] else selected)
     [] instance_type_param_gates"

definition region_names :: "az_params \<Rightarrow> string list" where
  "region_names ap = (case ap_region_names ap of
       Some rs \<Rightarrow> if rs \<noteq> [] then rs else split_ws (get_str (ap_params ap) ''region_name'')
     | None \<Rightarrow> split_ws (get_str (ap_params ap) ''region_name''))"

definition configured_az_letters :: "az_params \<Rightarrow> string list" where
  "configured_az_letters ap = split_items CHR '','' (get_str (ap_params ap) ''availability_zone'')"

text \<open>\<^verbatim>\<open>AwsRegion.get_common_availability_zones\<close>\<close>

definition get_common_availability_zones ::
    "offerings \<Rightarrow> string \<Rightarrow> string list \<Rightarrow> string list \<Rightarrow> az_error + string list" where
  "get_common_availability_zones offer region types preferred =
     (if types = [] then Inr []
      else case offer region of
        Inl e \<Rightarrow> Inl (AwsError e)
      | Inr os \<Rightarrow>
          (let common = filter (\<lambda>az. \<forall>t\<in>set types. (az, t) \<in> set os) (map fst os);
               ordered = filter (\<lambda>az. az \<in> set common) preferred
           in Inr (ordered @ filter (\<lambda>az. az \<notin> set ordered) (sort (remdups common)))))"

fun common_letters_loop ::
    "offerings \<Rightarrow> string list \<Rightarrow> string list \<Rightarrow> string list \<Rightarrow> string list option \<Rightarrow> az_error + string list option" where
  "common_letters_loop offer configured types [] common = Inr common"
| "common_letters_loop offer configured types (region # regions) common =
     (case get_common_availability_zones offer region types (map (\<lambda>l. region @ l) configured) of
        Inl e \<Rightarrow> Inl e
      | Inr azs \<Rightarrow>
          (let letters = map (drop (length region)) azs in
           common_letters_loop offer configured types regions
             (Some (case common of None \<Rightarrow> letters | Some c \<Rightarrow> filter (\<lambda>l. l \<in> set letters) c))))"

definition common_supported_letters ::
    "offerings \<Rightarrow> string list \<Rightarrow> string list \<Rightarrow> string list \<Rightarrow> az_error + string list" where
  "common_supported_letters offer regions configured types =
     (case common_letters_loop offer configured types regions None of
        Inl e \<Rightarrow> Inl e
      | Inr None \<Rightarrow> Inr []
      | Inr (Some common) \<Rightarrow>
          (let configured_first = filter (\<lambda>l. l \<in> set common) configured;
               additional = sort (remdups (filter (\<lambda>l. l \<notin> set configured_first) common))
           in Inr (configured_first @ additional)))"

definition supported_az_letters :: "offerings \<Rightarrow> az_params \<Rightarrow> az_error + string list" where
  "supported_az_letters offer ap =
     (let types = required_instance_types (ap_params ap); regions = region_names ap in
      if types = [] \<or> regions = [] then Inr (configured_az_letters ap)
      else common_supported_letters offer regions (configured_az_letters ap) types)"

section \<open>Scores\<close>

definition scored_instance_types :: "params \<Rightarrow> string list" where
  "scored_instance_types p = foldl (\<lambda>selected key.
       if get_str p key \<noteq> [] \<and> get_str p key \<notin> set selected then selected @ [get_str p key] else selected)
     [] [''instance_type_db'', ''zero_token_instance_type_db'', ''instance_type_db_target'']"

definition spot_target_capacity :: "params \<Rightarrow> int" where
  "spot_target_capacity p =
     max (node_count_total (p ''n_db_nodes'') +
          (if has_zero_token p then node_count_total (p ''n_db_zero_token_nodes'') else 0)) 1"

definition scored_role_requests :: "params \<Rightarrow> role_request list" where
  "scored_role_requests p =
     (''db'', scored_instance_types p, spot_target_capacity p) #
     List.map_filter (\<lambda>(role, type_key, count_key).
        let t = get_str p type_key; n = node_count_total (p count_key)
        in if t \<noteq> [] \<and> n > 0 then Some (role, [t], n) else None)
      [(''loaders'', ''instance_type_loader'', ''n_loaders''),
       (''monitor'', ''instance_type_monitor'', ''n_monitor_nodes'')]"

definition score_may_choose_az :: "az_params \<Rightarrow> bool" where
  "score_may_choose_az ap =
     (if \<not> is_spot_placement_scoring_enabled (ap_params ap) then False
      else if truthy (ap_params ap ''spot_score_overrides_configured_az'') then True
      else case ap_is_explicitly_set ap of None \<Rightarrow> False | Some f \<Rightarrow> \<not> f ''availability_zone'')"

definition rank_letters_by_spot_score ::
    "score_provider \<Rightarrow> az_params \<Rightarrow> string list \<Rightarrow> string list \<Rightarrow> az_error + string list" where
  "rank_letters_by_spot_score gs ap regions letters =
     (if length letters < 2 \<or> \<not> is_spot_placement_scoring_enabled (ap_params ap) then Inr letters
      else if length regions \<noteq> 1 then Inr letters
      else case rank_az_letters_for_roles gs (scored_role_requests (ap_params ap)) (hd regions) letters
                  (get_int (ap_params ap) ''spot_placement_score_min'') of
        None \<Rightarrow> Inr letters
      | Some ranked \<Rightarrow>
          (if length ranked < min (length (configured_az_letters ap)) (length letters)
           then Inl (NoValidAvailabilityZoneError ranked) else Inr ranked))"

section \<open>Resolving\<close>

text \<open>The loop that fills the remaining slots from a pool.\<close>

fun backfill :: "nat \<Rightarrow> string list \<Rightarrow> string list \<Rightarrow> string list" where
  "backfill n chosen [] = chosen"
| "backfill n chosen (l # pool) =
     (if length chosen \<ge> n then chosen else backfill n (append_new l chosen) pool)"

definition choose_letters :: "az_params \<Rightarrow> string list \<Rightarrow> string list \<Rightarrow> string list" where
  "choose_letters ap supported ranked =
     (let configured = configured_az_letters ap in
      if score_may_choose_az ap then take (length configured) ranked
      else backfill (length configured) (filter (\<lambda>l. l \<in> set supported) configured) ranked)"

definition resolve :: "cloud \<Rightarrow> az_params \<Rightarrow> az_error + az_params" where
  "resolve cl ap =
     (if \<not> truthy (ap_params ap ''pre_filter_unavailable_availability_zones'') then Inr ap
      else (let types = required_instance_types (ap_params ap) in
      if types = [] then Inr ap
      else (let regions = region_names ap in
      if regions = [] then Inr ap
      else case common_supported_letters (cl_offerings cl) regions (configured_az_letters ap) types of
        Inl e \<Rightarrow> Inl e
      | Inr supported \<Rightarrow>
          (if supported = [] then Inl (NoValidAvailabilityZoneError types)
           else case rank_letters_by_spot_score (cl_scores cl) ap regions supported of
             Inl e \<Rightarrow> Inl e
           | Inr ranked \<Rightarrow>
               (let new_value = PStr (join '','' (choose_letters ap supported ranked)) in
                if new_value \<noteq> ap_params ap ''availability_zone''
                then Inr (ap\<lparr>ap_params := (ap_params ap)(''availability_zone'' := new_value)\<rparr>)
                else Inr ap)))))"

text \<open>The nested loops over slots and letters; \<open>seen\<close> is the set of candidates so far.\<close>

definition slot_candidates :: "string list \<Rightarrow> string list \<Rightarrow> string list list" where
  "slot_candidates primary supported =
     concat (map (\<lambda>i. map (\<lambda>l. primary[i := l]) (filter (\<lambda>l. l \<notin> set primary) supported)) [0..<length primary])"

definition get_fallback_candidates :: "cloud \<Rightarrow> az_params \<Rightarrow> az_error + string list list" where
  "get_fallback_candidates cl ap =
     (let configured = configured_az_letters ap in
      if configured = [] then Inr []
      else case supported_az_letters (cl_offerings cl) ap of
        Inl e \<Rightarrow> Inl e
      | Inr supported0 \<Rightarrow>
          (if supported0 = [] then Inr [configured]
           else case rank_letters_by_spot_score (cl_scores cl) ap (region_names ap) supported0 of
             Inl e \<Rightarrow> Inl e
           | Inr supported \<Rightarrow>
               (let primary = choose_letters ap supported supported in
                if primary = [] then Inr [configured]
                else Inr (foldl (\<lambda>cands c. append_new c cands) [primary] (slot_candidates primary supported)))))"

section \<open>Relocation candidates\<close>

definition aws_supported_regions :: "string list" where
  "aws_supported_regions = [''eu-west-1'', ''eu-west-2'', ''eu-west-3'', ''us-west-2'', ''us-east-1'',
     ''us-east-2'', ''eu-north-1'', ''eu-central-1'', ''ca-central-1'']"

definition blocked_by_dns_names :: "az_params \<Rightarrow> bool" where
  "blocked_by_dns_names ap = truthy (ap_params ap ''use_dns_names'')"

definition is_region_peered :: "cloud \<Rightarrow> string \<Rightarrow> string \<Rightarrow> bool" where
  "is_region_peered cl current candidate = (case cl_peering cl current candidate of
       Inl _ \<Rightarrow> False
     | Inr status \<Rightarrow> status = Some ''active'')"

definition ordered_fallback_regions :: "cloud \<Rightarrow> az_params \<Rightarrow> string list \<Rightarrow> string list" where
  "ordered_fallback_regions cl ap exclude =
     (let regions = filter (\<lambda>r. r \<notin> set exclude) aws_supported_regions in
      if \<not> is_spot_placement_scoring_enabled (ap_params ap) \<or> length regions < 2 then regions
      else (let ranked = rank_regions (cl_scores cl) (scored_instance_types (ap_params ap))
                            (spot_target_capacity (ap_params ap)) regions
            in if ranked \<noteq> [] then ranked else regions))"

text \<open>The loop shared by the two kinds of relocation: \<open>peered\<close> is the peering gate.\<close>

fun relocation_loop ::
    "offerings \<Rightarrow> (string \<Rightarrow> bool) \<Rightarrow> string list \<Rightarrow> nat \<Rightarrow> string list \<Rightarrow> string list
      \<Rightarrow> az_error + (string \<times> string list) list" where
  "relocation_loop offer peered configured n types [] = Inr []"
| "relocation_loop offer peered configured n types (region # regions) =
     (if \<not> peered region then relocation_loop offer peered configured n types regions
      else case common_supported_letters offer [region] configured types of
        Inl e \<Rightarrow> Inl e
      | Inr letters \<Rightarrow>
          (if length letters < n then relocation_loop offer peered configured n types regions
           else map_sum id ((#) (region, take n letters)) (relocation_loop offer peered configured n types regions)))"

definition az_cardinality :: "az_params \<Rightarrow> nat" where
  "az_cardinality ap = (if configured_az_letters ap = [] then 1 else length (configured_az_letters ap))"

definition get_region_fallback_candidates :: "cloud \<Rightarrow> az_params \<Rightarrow> az_error + (string \<times> string list) list" where
  "get_region_fallback_candidates cl ap =
     (if blocked_by_dns_names ap then Inr []
      else case region_names ap of
        [] \<Rightarrow> Inr []
      | current # _ \<Rightarrow>
          relocation_loop (cl_offerings cl) (is_region_peered cl current) (configured_az_letters ap)
            (az_cardinality ap) (required_instance_types (ap_params ap)) (ordered_fallback_regions cl ap [current]))"

definition get_dc_fallback_candidates :: "cloud \<Rightarrow> az_params \<Rightarrow> nat \<Rightarrow> az_error + (string \<times> string list) list" where
  "get_dc_fallback_candidates cl ap dc_index =
     (if blocked_by_dns_names ap then Inr []
      else (let regions = region_names ap in
      if dc_index \<ge> length regions then Inr []
      else (let staying = take dc_index regions @ drop (Suc dc_index) regions;
                db = get_str (ap_params ap) ''instance_type_db''
            in relocation_loop (cl_offerings cl) (\<lambda>r. \<forall>s\<in>set staying. is_region_peered cl s r)
                 (configured_az_letters ap) (az_cardinality ap) (if db \<noteq> [] then [db] else [])
                 (ordered_fallback_regions cl ap regions))))"

definition get_preferred_spot_region :: "cloud \<Rightarrow> az_params \<Rightarrow> az_error + (string \<times> string list) option" where
  "get_preferred_spot_region cl ap =
     (let p = ap_params ap; margin = get_int p ''spot_score_region_relocation_margin'';
          regions = region_names ap; types = scored_instance_types p
      in if margin \<le> 0 \<or> \<not> is_spot_placement_scoring_enabled p \<or> length regions \<noteq> 1 \<or> types = [] then Inr None
      else (let current = hd regions;
                br = map_of (by_region (cl_scores cl types (spot_target_capacity p)
                       (current # filter (\<lambda>r. r \<noteq> current) aws_supported_regions) False))
            in case br current of
                 None \<Rightarrow> Inr None
               | Some current_score \<Rightarrow>
                   map_sum id (find (\<lambda>(region, letters).
                       case br region of None \<Rightarrow> False | Some sc \<Rightarrow> \<not> sc - current_score < margin))
                     (get_region_fallback_candidates cl ap)))"

section \<open>The capacity probe\<close>

text \<open>
  Launching one instance: the ids of the instances, or the \<^verbatim>\<open>ClientError\<close> with whether it is a
  capacity error.  \<open>pb_running\<close> collects what was launched and not terminated, \<open>pb_terminate_ok\<close> says
  whether the termination request goes through.
\<close>

record prober =
  pb_run :: "string \<Rightarrow> string \<Rightarrow> bool + string list"
  pb_subnet :: "string \<Rightarrow> bool"
  pb_security_group :: bool
  pb_terminate_ok :: bool

definition probe_region_az :: "string \<Rightarrow> string \<Rightarrow> string" where
  "probe_region_az region az = (if startswith az region then az else region @ [last az])"

fun probe_loop :: "prober \<Rightarrow> string \<Rightarrow> string list \<Rightarrow> bool dict \<Rightarrow> string list \<Rightarrow> bool dict \<times> string list" where
  "probe_loop pb region_az [] results running = (results, running)"
| "probe_loop pb region_az (t # ts) results running =
     (case pb_run pb t region_az of
        Inr ids \<Rightarrow> probe_loop pb region_az ts (AList.update t True results)
                    (if ids \<noteq> [] \<and> pb_terminate_ok pb then running else running @ ids)
      | Inl capacity \<Rightarrow> probe_loop pb region_az ts (AList.update t (\<not> capacity) results) running)"

definition probe_capacity_for_types ::
    "prober \<Rightarrow> az_params \<Rightarrow> string list \<Rightarrow> string \<Rightarrow> string list \<Rightarrow> az_error + (bool dict \<times> string list)" where
  "probe_capacity_for_types pb ap types az running =
     (if types = [] then Inr ([], running)
      else case region_names ap of
        [] \<Rightarrow> Inl (RuntimeError ''no region configured'')
      | region # _ \<Rightarrow>
          (if \<not> pb_subnet pb (probe_region_az region az) then Inl (RuntimeError ''no SCT subnet'')
           else if \<not> pb_security_group pb then Inl (RuntimeError ''no SCT security group'')
           else Inr (probe_loop pb (probe_region_az region az) types [] running)))"

fun probe_letters ::
    "prober \<Rightarrow> az_params \<Rightarrow> string list \<Rightarrow> string list \<Rightarrow> (string \<times> string) list \<Rightarrow> string list
      \<Rightarrow> az_error + ((string \<times> string) list \<times> string list)" where
  "probe_letters pb ap types [] failures running = Inr (failures, running)"
| "probe_letters pb ap types (l # ls) failures running =
     (case probe_capacity_for_types pb ap types l running of
        Inl e \<Rightarrow> Inl e
      | Inr (results, running') \<Rightarrow>
          probe_letters pb ap types ls (failures @ map (\<lambda>(t, ok). (t, l)) (filter (\<lambda>(t, ok). \<not> ok) results)) running')"

definition run_pre_flight_capacity_probe :: "prober \<Rightarrow> az_params \<Rightarrow> string list \<Rightarrow> az_error + string list" where
  "run_pre_flight_capacity_probe pb ap running =
     (let p = ap_params ap;
          types = filter (\<lambda>t. t \<noteq> []) (map (get_str p) [''instance_type_db_target'', ''nemesis_grow_shrink_instance_type'']);
          letters = configured_az_letters ap
      in if \<not> truthy (p ''pre_flight_capacity_probe'') \<or> types = [] \<or> letters = [] then Inr running
         else case probe_letters pb ap types letters [] running of
           Inl e \<Rightarrow> Inl e
         | Inr (failures, running') \<Rightarrow>
             (if failures \<noteq> [] then Inl (ProvisioningCapacityExhausted failures) else Inr running'))"

section \<open>Supported letters\<close>

text \<open>AWS names a zone by its region followed by a letter.\<close>

definition zone_names :: "offerings \<Rightarrow> bool" where
  "zone_names offer \<longleftrightarrow> (\<forall>region os az t. offer region = Inr os \<longrightarrow> (az, t) \<in> set os \<longrightarrow> startswith az region)"

text \<open>The zone of a region with the given letter offers every type.\<close>

definition supports :: "offerings \<Rightarrow> string list \<Rightarrow> string \<Rightarrow> string \<Rightarrow> bool" where
  "supports offer types region l \<longleftrightarrow>
     (\<exists>os. offer region = Inr os \<and> (\<forall>t\<in>set types. (region @ l, t) \<in> set os))"

lemma common_zones_set:
  assumes "get_common_availability_zones offer region types preferred = Inr azs" "types \<noteq> []"
  shows "\<exists>os. offer region = Inr os \<and> set azs = {az. \<forall>t\<in>set types. (az, t) \<in> set os}"
proof -
  from assms obtain os where os: "offer region = Inr os"
    by (auto simp: get_common_availability_zones_def split: sum.splits)
  obtain t where t: "t \<in> set types" using assms(2) by (cases types) auto
  have "(\<forall>t\<in>set types. (az, t) \<in> set os) \<Longrightarrow> az \<in> fst ` set os" for az
    using t by force
  with assms os show ?thesis
    by (auto simp: get_common_availability_zones_def Let_def)
qed

lemma common_zones_letters:
  assumes z: "zone_names offer" and t: "types \<noteq> []"
    and g: "get_common_availability_zones offer region types preferred = Inr azs"
  shows "set (map (drop (length region)) azs) = {l. supports offer types region l}"
proof -
  from common_zones_set[OF g t] obtain os where
    os: "offer region = Inr os" "set azs = {az. \<forall>t\<in>set types. (az, t) \<in> set os}" by blast
  obtain t0 where t0: "t0 \<in> set types" using t by (cases types) auto
  have name: "az = region @ drop (length region) az" if "az \<in> set azs" for az
  proof -
    from that os t0 have "(az, t0) \<in> set os" by auto
    with z os(1) have "take (length region) az = region" by (auto simp: zone_names_def startswith_def)
    then show ?thesis by (metis append_take_drop_id)
  qed
  show ?thesis
  proof (intro set_eqI iffI)
    fix l assume "l \<in> set (map (drop (length region)) azs)"
    then obtain az where az: "az \<in> set azs" "l = drop (length region) az" by auto
    with name[OF az(1)] have "region @ l \<in> set azs" by simp
    with os show "l \<in> {l. supports offer types region l}" by (simp add: supports_def)
  next
    fix l assume "l \<in> {l. supports offer types region l}"
    with os have "region @ l \<in> set azs" by (simp add: supports_def)
    then have "drop (length region) (region @ l) \<in> set (map (drop (length region)) azs)" by (metis image_eqI set_map)
    then show "l \<in> set (map (drop (length region)) azs)" by simp
  qed
qed

lemma common_letters_loop_set:
  assumes z: "zone_names offer" and t: "types \<noteq> []"
  shows "common_letters_loop offer configured types regions common = Inr (Some c) \<Longrightarrow>
    set c = {l. (\<forall>c0. common = Some c0 \<longrightarrow> l \<in> set c0) \<and> (\<forall>r\<in>set regions. supports offer types r l)}"
proof (induction regions arbitrary: common)
  case Nil
  then show ?case by simp
next
  case (Cons region regions)
  from Cons.prems obtain azs where
    azs: "get_common_availability_zones offer region types (map (\<lambda>l. region @ l) configured) = Inr azs"
    by (auto split: sum.splits)
  note ls = common_zones_letters[OF z t azs]
  let ?ls = "map (drop (length region)) azs"
  from Cons.prems azs have "common_letters_loop offer configured types regions
      (Some (case common of None \<Rightarrow> ?ls | Some c \<Rightarrow> filter (\<lambda>l. l \<in> set ?ls) c)) = Inr (Some c)"
    by (simp add: Let_def)
  from Cons.IH[OF this] show ?case
    by (cases common) (auto simp: ls[simplified])
qed

lemma common_letters_loop_None:
  "common_letters_loop offer configured types regions common = Inr None \<Longrightarrow> regions = []"
proof (induction regions arbitrary: common)
  case (Cons r rs)
  have "common_letters_loop offer configured types rs (Some c) \<noteq> Inr None" for c
    by (induction rs arbitrary: c) (auto simp: Let_def split: sum.splits)
  with Cons.prems show ?case by (auto simp: Let_def split: sum.splits)
qed simp

lemma common_supported_set:
  assumes z: "zone_names offer" and t: "types \<noteq> []" and r: "regions \<noteq> []"
    and c: "common_supported_letters offer regions configured types = Inr ls"
  shows "set ls = {l. \<forall>r\<in>set regions. supports offer types r l}"
    and "distinct configured \<Longrightarrow> distinct ls"
    and "prefix (filter (\<lambda>l. l \<in> set ls) configured) ls"
proof -
  from c r obtain common where l: "common_letters_loop offer configured types regions None = Inr (Some common)"
    by (auto simp: common_supported_letters_def split: sum.splits option.splits dest: common_letters_loop_None)
  note cs = common_letters_loop_set[OF z t l]
  let ?first = "filter (\<lambda>l. l \<in> set common) configured"
  have ls: "ls = ?first @ sort (remdups (filter (\<lambda>l. l \<notin> set ?first) common))"
    using c l by (simp add: common_supported_letters_def Let_def)
  then have set: "set ls = set common" by auto
  with cs show "set ls = {l. \<forall>r\<in>set regions. supports offer types r l}" by simp
  show "distinct configured \<Longrightarrow> distinct ls" unfolding ls by auto
  show "prefix (filter (\<lambda>l. l \<in> set ls) configured) ls" unfolding set by (simp add: ls)
qed

section \<open>Ranking and filling\<close>

lemma rank_letters_facts:
  assumes "rank_letters_by_spot_score gs ap regions letters = Inr ranked"
  shows "set ranked \<subseteq> set letters" "distinct letters \<Longrightarrow> distinct ranked"
    "min (length (configured_az_letters ap)) (length letters) \<le> length ranked"
proof -
  have "set ranked \<subseteq> set letters \<and> (distinct letters \<longrightarrow> distinct ranked) \<and>
      min (length (configured_az_letters ap)) (length letters) \<le> length ranked"
  proof (cases "ranked = letters")
    case False
    with assms obtain reqs region m where
      r: "rank_az_letters_for_roles gs reqs region letters m = Some ranked" and
      len: "min (length (configured_az_letters ap)) (length letters) \<le> length ranked"
      by (auto simp: rank_letters_by_spot_score_def split: if_splits option.splits)
    from rank_az_spec[OF r] have m: "mset ranked = mset (filter (\<lambda>l. \<forall>sc. worst_of (role_scores gs region reqs l) = Some sc \<longrightarrow> sc \<ge> m) letters)"
      by (simp add: Let_def)
    from mset_eq_setD[OF m] mset_eq_imp_distinct_iff[OF m] len show ?thesis by auto
  qed simp
  then show "set ranked \<subseteq> set letters" "distinct letters \<Longrightarrow> distinct ranked"
    "min (length (configured_az_letters ap)) (length letters) \<le> length ranked" by auto
qed

lemma backfill_prefix: "prefix chosen (backfill n chosen pool)"
proof (induction pool arbitrary: chosen)
  case (Cons l pool)
  have "prefix chosen (append_new l chosen)" by (simp add: append_new_def)
  with Cons[of "append_new l chosen"] show ?case by (auto intro: prefix_order.order_trans)
qed simp

lemma backfill_set: "set (backfill n chosen pool) \<subseteq> set chosen \<union> set pool"
proof (induction pool arbitrary: chosen)
  case (Cons l pool)
  from Cons[of "append_new l chosen"] show ?case by auto
qed simp

lemma backfill_distinct: "distinct chosen \<Longrightarrow> distinct (backfill n chosen pool)"
  by (induction pool arbitrary: chosen) auto

lemma backfill_length:
  "\<lbrakk>distinct chosen; length chosen \<le> n\<rbrakk> \<Longrightarrow>
   length (backfill n chosen pool) = min n (card (set chosen \<union> set pool))"
proof (induction pool arbitrary: chosen)
  case Nil
  then show ?case by (simp add: distinct_card)
next
  case (Cons l pool)
  show ?case
  proof (cases "length chosen \<ge> n")
    case True
    have "card (set chosen) \<le> card (set chosen \<union> set (l # pool))" by (rule card_mono) auto
    with True Cons.prems show ?thesis by (simp add: distinct_card)
  next
    case False
    then have "length (append_new l chosen) \<le> n" by (simp add: append_new_def)
    with Cons.IH[of "append_new l chosen"] Cons.prems False show ?thesis by simp
  qed
qed

lemma min_between: "min a s \<le> r \<Longrightarrow> r \<le> s \<Longrightarrow> min a r = min a (s :: nat)"
  by (auto simp: min_def split: if_splits)

lemma choose_letters_facts:
  assumes r: "rank_letters_by_spot_score gs ap regions supported = Inr ranked" and d: "distinct supported"
    and dc: "distinct (configured_az_letters ap)"
  shows "distinct (choose_letters ap supported ranked)"
    and "set (choose_letters ap supported ranked) \<subseteq> set supported"
    and "length (choose_letters ap supported ranked) = min (length (configured_az_letters ap)) (length supported)"
proof -
  note f = rank_letters_facts[OF r]
  let ?c = "configured_az_letters ap"
  let ?k = "filter (\<lambda>l. l \<in> set supported) ?c"
  have dr: "distinct ranked" by (rule f(2)[OF d])
  then have lr: "length ranked \<le> length supported"
    using f(1) d by (metis List.finite_set card_mono distinct_card)
  have u: "set ?k \<union> set ranked \<subseteq> set supported" using f(1) by auto
  have up: "card (set ?k \<union> set ranked) \<le> length supported"
    using card_mono[OF _ u] by (simp add: distinct_card[OF d])
  have lo: "length ranked \<le> card (set ?k \<union> set ranked)"
    using card_mono[of "set ?k \<union> set ranked" "set ranked"] by (simp add: distinct_card[OF dr])
  have bl: "length (backfill (length ?c) ?k ranked) = min (length ?c) (card (set ?k \<union> set ranked))"
    using dc by (intro backfill_length) simp_all
  show "distinct (choose_letters ap supported ranked)"
    using dc dr by (simp add: choose_letters_def Let_def backfill_distinct)
  show "set (choose_letters ap supported ranked) \<subseteq> set supported"
    using u backfill_set[of "length ?c" ?k ranked] f(1) set_take_subset[of "length ?c" ranked]
    by (auto simp: choose_letters_def Let_def)
  show "length (choose_letters ap supported ranked) = min (length ?c) (length supported)"
    using bl min_between[OF f(3) lr] min_between[OF order_trans[OF f(3) lo] up]
    by (simp add: choose_letters_def Let_def min.commute)
qed

section \<open>Relocation\<close>

lemma ordered_regions_facts:
  "distinct (ordered_fallback_regions cl ap exclude)"
  "set (ordered_fallback_regions cl ap exclude) = set aws_supported_regions - set exclude"
proof -
  let ?rs = "filter (\<lambda>r. r \<notin> set exclude) aws_supported_regions"
  have "distinct aws_supported_regions" by (simp add: aws_supported_regions_def)
  then have d: "distinct ?rs" by (rule distinct_filter)
  have m: "mset (rank_regions gs types cap ?rs) = mset ?rs" for gs types cap
    using rank_regions_spec by blast
  have "distinct (ordered_fallback_regions cl ap exclude) \<and> set (ordered_fallback_regions cl ap exclude) = set ?rs"
    using d mset_eq_imp_distinct_iff[OF m] mset_eq_setD[OF m] by (simp add: ordered_fallback_regions_def Let_def)
  then show "distinct (ordered_fallback_regions cl ap exclude)"
    "set (ordered_fallback_regions cl ap exclude) = set aws_supported_regions - set exclude" by auto
qed

text \<open>A region can take the cluster: it passes the peering gate and has enough suitable zones.\<close>

definition eligible :: "offerings \<Rightarrow> (string \<Rightarrow> bool) \<Rightarrow> nat \<Rightarrow> string list \<Rightarrow> string \<Rightarrow> bool" where
  "eligible offer peered n types r \<longleftrightarrow> peered r \<and> n \<le> card {l. supports offer types r l}"

lemma relocation_loop_spec:
  assumes z: "zone_names offer" and t: "types \<noteq> []" and d: "distinct configured"
  shows "relocation_loop offer peered configured n types regions = Inr cands \<Longrightarrow>
    map fst cands = filter (eligible offer peered n types) regions \<and>
    (\<forall>(r, ls)\<in>set cands. length ls = n \<and> distinct ls \<and> (\<forall>l\<in>set ls. supports offer types r l))"
proof (induction regions arbitrary: cands)
  case (Cons r regions)
  show ?case
  proof (cases "peered r")
    case False
    with Cons show ?thesis by (simp add: eligible_def)
  next
    case True
    with Cons.prems obtain ls where ls: "common_supported_letters offer [r] configured types = Inr ls"
      by (auto split: sum.splits)
    note f = common_supported_set[OF z t _ ls, simplified]
    have card: "card {l. supports offer types r l} = length ls"
      using distinct_card[OF f(2)[OF d]] f(1) by simp
    show ?thesis
    proof (cases "length ls < n")
      case True
      with Cons \<open>peered r\<close> ls card show ?thesis by (simp add: eligible_def)
    next
      case False
      with Cons.prems \<open>peered r\<close> ls obtain cands' where
        c: "relocation_loop offer peered configured n types regions = Inr cands'" "cands = (r, take n ls) # cands'"
        by (cases "relocation_loop offer peered configured n types regions") auto
      have "\<forall>l\<in>set (take n ls). supports offer types r l"
        using f(1) set_take_subset[of n ls] by auto
      with Cons.IH[OF c(1)] c(2) False \<open>peered r\<close> card f(2)[OF d] show ?thesis
        by (simp add: eligible_def)
    qed
  qed
qed simp

section \<open>Properties\<close>

text \<open>C28: A resolved \<^verbatim>\<open>availability_zone\<close> is valid and keeps its shape.  When the upfront filter applies and
  succeeds, only \<^verbatim>\<open>availability_zone\<close> changes; its letters are distinct, each is a zone offering every
  required instance type in every configured region, there are as many of them as were configured or
  as exist, whichever is less, and unless the score may choose, the configured letters that are
  supported come first, in their order.\<close>

theorem resolve_valid:
  assumes z: "zone_names (cl_offerings cl)"
    and pre: "truthy (ap_params ap ''pre_filter_unavailable_availability_zones'')"
    and t: "required_instance_types (ap_params ap) \<noteq> []" and r: "region_names ap \<noteq> []"
    and dc: "distinct (configured_az_letters ap)"
    and res: "resolve cl ap = Inr ap'"
  shows "let types = required_instance_types (ap_params ap);
             valid = {l. \<forall>r\<in>set (region_names ap). supports (cl_offerings cl) types r l}
         in \<exists>chosen. ap' = ap\<lparr>ap_params := (ap_params ap)(''availability_zone'' := PStr (join '','' chosen))\<rparr> \<and>
           distinct chosen \<and> set chosen \<subseteq> valid \<and>
           length chosen = min (length (configured_az_letters ap)) (card valid) \<and>
           (\<not> score_may_choose_az ap \<longrightarrow> prefix (filter (\<lambda>l. l \<in> valid) (configured_az_letters ap)) chosen)"
proof -
  let ?types = "required_instance_types (ap_params ap)"
  define valid where "valid = {l. \<forall>r\<in>set (region_names ap). supports (cl_offerings cl) ?types r l}"
  let ?css = "common_supported_letters (cl_offerings cl) (region_names ap) (configured_az_letters ap) ?types"
  obtain supported where s: "?css = Inr supported" and ne: "supported \<noteq> []"
    using res pre t r by (cases ?css) (auto simp: resolve_def Let_def split: if_splits)
  obtain ranked where k: "rank_letters_by_spot_score (cl_scores cl) ap (region_names ap) supported = Inr ranked"
    using res pre t r s ne
    by (cases "rank_letters_by_spot_score (cl_scores cl) ap (region_names ap) supported") (simp_all add: resolve_def)
  have ap': "ap' = (if PStr (join '','' (choose_letters ap supported ranked)) \<noteq> ap_params ap ''availability_zone''
      then ap\<lparr>ap_params := (ap_params ap)(''availability_zone'' := PStr (join '','' (choose_letters ap supported ranked)))\<rparr>
      else ap)"
    using res pre t r s ne k by (simp add: resolve_def Let_def split: if_splits)
  note f = common_supported_set[OF z t r s]
  have v: "set supported = valid" unfolding valid_def by (rule f(1))
  have d: "distinct supported" by (rule f(2)[OF dc])
  let ?ch = "choose_letters ap supported ranked"
  note c = choose_letters_facts[OF k d dc]
  have "ap' = ap\<lparr>ap_params := (ap_params ap)(''availability_zone'' := PStr (join '','' ?ch))\<rparr>"
    unfolding ap' by (cases ap) (auto simp: fun_upd_idem)
  moreover have "length ?ch = min (length (configured_az_letters ap)) (card valid)"
    using c(3) distinct_card[OF d] v by simp
  moreover have "\<not> score_may_choose_az ap \<longrightarrow> prefix (filter (\<lambda>l. l \<in> valid) (configured_az_letters ap)) ?ch"
    using backfill_prefix by (simp add: choose_letters_def Let_def v)
  ultimately have "\<exists>chosen. ap' = ap\<lparr>ap_params := (ap_params ap)(''availability_zone'' := PStr (join '','' chosen))\<rparr> \<and>
      distinct chosen \<and> set chosen \<subseteq> valid \<and> length chosen = min (length (configured_az_letters ap)) (card valid) \<and>
      (\<not> score_may_choose_az ap \<longrightarrow> prefix (filter (\<lambda>l. l \<in> valid) (configured_az_letters ap)) chosen)"
    using c(1,2) v by blast
  then show ?thesis unfolding Let_def valid_def .
qed

text \<open>A configuration and a cloud on which the properties are evaluated: zone \<^verbatim>\<open>c\<close> is configured, \<^verbatim>\<open>a\<close>
  and \<^verbatim>\<open>b\<close> offer the type.\<close>

definition example_params :: params where
  "example_params k = (if k = ''instance_type_db'' then PStr ''i4i'' else if k = ''availability_zone'' then PStr ''c,b''
     else if k = ''pre_filter_unavailable_availability_zones'' then PBool True
     else if k = ''region_name'' then PStr ''eu-west-1'' else PNone)"

definition example_ap :: az_params where
  "example_ap = \<lparr>ap_params = example_params, ap_region_names = None, ap_is_explicitly_set = None\<rparr>"

definition example_cloud :: cloud where
  "example_cloud = \<lparr>cl_offerings = (\<lambda>r. Inr [(r @ ''a'', ''i4i''), (r @ ''b'', ''i4i'')]),
     cl_peering = (\<lambda>_ _. Inr (Some ''active'')), cl_scores = (\<lambda>_ _ _ _. [])\<rparr>"

lemmas az_eval = example_params_def example_ap_def example_cloud_def truthy_def get_str_def get_int_def
  region_names_def configured_az_letters_def required_instance_types_def instance_type_param_gates_def
  always_def has_loaders_def has_monitor_def has_zero_token_def has_oracle_def has_vector_store_def
  node_count_positive_def split_ws_def is_space_def split_items_def strip_def lstrip_def
  common_supported_letters_def get_common_availability_zones_def supported_az_letters_def
  rank_letters_by_spot_score_def choose_letters_def score_may_choose_az_def append_new_def
  is_spot_placement_scoring_enabled_def is_spot_capacity_scoring_enabled_def
  is_region_peered_def blocked_by_dns_names_def az_cardinality_def ordered_fallback_regions_def aws_supported_regions_def

lemma example_zone_names: "zone_names (cl_offerings example_cloud)"
  by (auto simp: zone_names_def example_cloud_def)

lemma example_inputs:
  "required_instance_types (ap_params example_ap) = [''i4i'']"
  "region_names example_ap = [''eu-west-1'']"
  "configured_az_letters example_ap = [''c'', ''b'']"
  "\<not> blocked_by_dns_names example_ap"
  by (simp_all add: az_eval)

lemma example_regions:
  "ordered_fallback_regions example_cloud example_ap [''eu-west-1''] = tl aws_supported_regions"
  by (simp add: az_eval)

lemma example_relocation:
  "\<exists>cands. relocation_loop (cl_offerings example_cloud) peered configured n types rs = Inr cands"
proof (induction rs)
  case (Cons r rs)
  have "\<exists>ls. common_supported_letters (cl_offerings example_cloud) [r] configured types = Inr ls"
    by (simp add: common_supported_letters_def get_common_availability_zones_def example_cloud_def Let_def)
  with Cons show ?case by auto
qed simp

lemma example_eligible:
  "eligible (cl_offerings example_cloud) peered (Suc (Suc 0)) [''i4i''] r \<longleftrightarrow> peered r"
proof -
  have "{l. supports (cl_offerings example_cloud) [''i4i''] r l} = {''a'', ''b''}"
    by (auto simp: supports_def example_cloud_def)
  then show ?thesis by (simp add: eligible_def)
qed

lemma example_peered: "is_region_peered example_cloud a b"
  by (simp add: is_region_peered_def example_cloud_def)

theorem resolve_valid_witness:
  "\<exists>chosen. ap_params (example_ap\<lparr>ap_params := (ap_params example_ap)(''availability_zone'' := PStr ''b,a'')\<rparr>)
       ''availability_zone'' = PStr (join '','' chosen) \<and> distinct chosen \<and>
     (\<forall>l\<in>set chosen. supports (cl_offerings example_cloud) [''i4i''] ''eu-west-1'' l)"
proof -
  let ?ap' = "example_ap\<lparr>ap_params := (ap_params example_ap)(''availability_zone'' := PStr ''b,a'')\<rparr>"
  have t: "required_instance_types (ap_params example_ap) = [''i4i'']" by (simp add: az_eval)
  have r: "region_names example_ap = [''eu-west-1'']" by (simp add: az_eval)
  have c: "configured_az_letters example_ap = [''c'', ''b'']" by (simp add: az_eval)
  have pre: "truthy (ap_params example_ap ''pre_filter_unavailable_availability_zones'')" by (simp add: az_eval)
  have "common_supported_letters (cl_offerings example_cloud) [''eu-west-1''] [''c'', ''b''] [''i4i''] = Inr [''b'', ''a'']"
    by (simp add: az_eval)
  then have res: "resolve example_cloud example_ap = Inr ?ap'"
    using pre by (simp add: resolve_def t r c Let_def) (simp add: az_eval)
  have "required_instance_types (ap_params example_ap) \<noteq> []" "region_names example_ap \<noteq> []"
    "distinct (configured_az_letters example_ap)" by (simp_all add: t r c)
  from resolve_valid[OF example_zone_names pre this res, unfolded t r c Let_def] obtain chosen where
    eq: "?ap' = example_ap\<lparr>ap_params := (ap_params example_ap)(''availability_zone'' := PStr (join '','' chosen))\<rparr>" and
    ch: "distinct chosen" "set chosen \<subseteq> {l. \<forall>r\<in>set [''eu-west-1'']. supports (cl_offerings example_cloud) [''i4i''] r l}"
    by blast
  have "ap_params ?ap' ''availability_zone'' = PStr (join '','' chosen)" by (subst eq) simp
  with ch show ?thesis by (intro exI[of _ chosen]) auto
qed

text \<open>The candidates for zone fallback.  They are distinct, start with the primary choice, all have its
  length and consist of letters that are supported everywhere; a candidate differs from the primary in
  at most one slot, and every replacement of one slot by an unused supported letter is a candidate.\<close>

theorem fallback_candidates_shape:
  assumes c: "configured_az_letters ap \<noteq> []"
    and s: "supported_az_letters (cl_offerings cl) ap = Inr supported0"
    and k: "rank_letters_by_spot_score (cl_scores cl) ap (region_names ap) supported0 = Inr supported"
    and p: "primary = choose_letters ap supported supported" "primary \<noteq> []"
  shows "\<exists>cands. get_fallback_candidates cl ap = Inr cands \<and> distinct cands \<and> hd cands = primary \<and>
     set cands = insert primary {primary[i := l] | i l. i < length primary \<and> l \<in> set supported - set primary} \<and>
     (\<forall>cand\<in>set cands. length cand = length primary \<and> set cand \<subseteq> set supported0)"
proof -
  have ss: "set supported \<subseteq> set supported0" by (rule rank_letters_facts(1)[OF k])
  have ps: "set primary \<subseteq> set supported"
    using backfill_set[of "length (configured_az_letters ap)" "filter (\<lambda>l. l \<in> set supported) (configured_az_letters ap)" supported]
      set_take_subset[of "length (configured_az_letters ap)" supported]
    unfolding p(1) choose_letters_def Let_def by (auto split: if_splits)
  with p(2) ss have ne: "supported0 \<noteq> []" by auto
  let ?cands = "foldl (\<lambda>cands c. append_new c cands) [primary] (slot_candidates primary supported)"
  have g: "get_fallback_candidates cl ap = Inr ?cands"
    using c s k ne p by (simp add: get_fallback_candidates_def Let_def)
  have h: "hd ?cands = primary"
    using prefix_foldl_append_new[of "[primary]" "slot_candidates primary supported"] by (auto simp: prefix_def)
  have sl: "set (slot_candidates primary supported) =
      {primary[i := l] | i l. i < length primary \<and> l \<in> set supported - set primary}"
    by (fastforce simp: slot_candidates_def)
  have ok: "length cand = length primary \<and> set cand \<subseteq> set supported0" if "cand \<in> set ?cands" for cand
  proof -
    from that sl consider "cand = primary" |
      i l where "cand = primary[i := l]" "l \<in> set supported" by auto
    then show ?thesis
    proof cases
      case 1
      with ps ss show ?thesis by simp
    next
      case (2 i l)
      with set_update_subset_insert[of primary i l] ps ss show ?thesis by auto
    qed
  qed
  have "distinct ?cands" by (rule distinct_foldl_append_new) simp
  moreover have "set ?cands = insert primary
      {primary[i := l] | i l. i < length primary \<and> l \<in> set supported - set primary}"
    by (simp only: set_foldl_append_new sl) simp
  ultimately show ?thesis using g h ok by blast
qed

theorem fallback_candidates_shape_witness:
  "get_fallback_candidates example_cloud example_ap = Inr [[''b'', ''a'']]"
proof -
  have 1: "configured_az_letters example_ap \<noteq> []" by (simp add: az_eval)
  have 2: "supported_az_letters (cl_offerings example_cloud) example_ap = Inr [''b'', ''a'']" by (simp add: az_eval)
  have 3: "rank_letters_by_spot_score (cl_scores example_cloud) example_ap (region_names example_ap) [''b'', ''a''] =
      Inr [''b'', ''a'']" by (simp add: az_eval)
  have 4: "[''b'', ''a''] = choose_letters example_ap [''b'', ''a''] [''b'', ''a'']" by (simp add: az_eval)
  from fallback_candidates_shape[OF 1 2 3 4] obtain cands where
    "get_fallback_candidates example_cloud example_ap = Inr cands" "distinct cands" "set cands = {[''b'', ''a'']}"
    by auto
  moreover from this have "length cands = 1" by (metis card.empty card.insert distinct_card empty_iff finite.emptyI One_nat_def)
  ultimately show ?thesis by (cases cands) auto
qed

text \<open>The candidates for relocating the cluster are exactly the supported regions other than the
  current one that have an active peering with it and enough zones offering every required type, in
  spot-score order, each with as many distinct such zones as are configured; with \<^verbatim>\<open>use_dns_names\<close>
  there are none.\<close>

theorem region_fallback_candidates_exact:
  assumes "zone_names (cl_offerings cl)" "required_instance_types (ap_params ap) \<noteq> []"
    and "distinct (configured_az_letters ap)" "region_names ap = current # rest"
    and "get_region_fallback_candidates cl ap = Inr cands"
  shows "let types = required_instance_types (ap_params ap); order = ordered_fallback_regions cl ap [current];
             ok = eligible (cl_offerings cl) (is_region_peered cl current) (az_cardinality ap) types
         in map fst cands = (if blocked_by_dns_names ap then [] else filter ok order) \<and>
            distinct order \<and> set order = set aws_supported_regions - {current} \<and>
            (\<forall>(r, ls)\<in>set cands. length ls = az_cardinality ap \<and> distinct ls \<and>
               (\<forall>l\<in>set ls. supports (cl_offerings cl) types r l))"
proof (cases "blocked_by_dns_names ap")
  case True
  with assms(4,5) ordered_regions_facts[of cl ap "[current]"] show ?thesis
    by (simp add: get_region_fallback_candidates_def Let_def)
next
  case False
  with assms(4,5) have "relocation_loop (cl_offerings cl) (is_region_peered cl current) (configured_az_letters ap)
      (az_cardinality ap) (required_instance_types (ap_params ap)) (ordered_fallback_regions cl ap [current]) = Inr cands"
    by (simp add: get_region_fallback_candidates_def)
  from relocation_loop_spec[OF assms(1-3) this] ordered_regions_facts[of cl ap "[current]"] False show ?thesis
    by (simp add: Let_def)
qed

theorem region_fallback_candidates_exact_witness:
  "\<exists>cands. get_region_fallback_candidates example_cloud example_ap = Inr cands \<and>
     map fst cands = [''eu-west-2'', ''eu-west-3'', ''us-west-2'', ''us-east-1'',
       ''us-east-2'', ''eu-north-1'', ''eu-central-1'', ''ca-central-1'']"
proof -
  have "\<exists>cands. get_region_fallback_candidates example_cloud example_ap = Inr cands"
    using example_relocation by (simp add: get_region_fallback_candidates_def example_inputs)
  then obtain cands where g: "get_region_fallback_candidates example_cloud example_ap = Inr cands" ..
  have "required_instance_types (ap_params example_ap) \<noteq> []" "distinct (configured_az_letters example_ap)"
    by (simp_all add: example_inputs)
  from region_fallback_candidates_exact[OF example_zone_names this example_inputs(2) g] g show ?thesis
    by (simp add: Let_def example_inputs example_regions example_eligible example_peered az_cardinality_def
        aws_supported_regions_def)
qed

text \<open>A datacenter is relocated only to a supported region that no datacenter uses, that has an active
  peering with every datacenter that stays, and that has enough zones offering the database type; every
  such region is a candidate, in spot-score order.\<close>

theorem dc_fallback_candidates_exact:
  assumes "zone_names (cl_offerings cl)" "get_str (ap_params ap) ''instance_type_db'' = db" "db \<noteq> []"
    and "distinct (configured_az_letters ap)" "\<not> blocked_by_dns_names ap" "dc_index < length (region_names ap)"
    and "get_dc_fallback_candidates cl ap dc_index = Inr cands"
  shows "let regions = region_names ap;
             peered = (\<lambda>r. \<forall>i<length regions. i \<noteq> dc_index \<longrightarrow> is_region_peered cl (regions ! i) r)
         in map fst cands = filter (eligible (cl_offerings cl) peered (az_cardinality ap) [db])
              (ordered_fallback_regions cl ap regions) \<and>
            (\<forall>(r, ls)\<in>set cands. r \<in> set aws_supported_regions - set regions \<and> length ls = az_cardinality ap \<and>
               distinct ls \<and> (\<forall>l\<in>set ls. supports (cl_offerings cl) [db] r l))"
proof -
  let ?rs = "region_names ap"
  let ?st = "take dc_index ?rs @ drop (Suc dc_index) ?rs"
  have st: "set ?st = {?rs ! i | i. i < length ?rs \<and> i \<noteq> dc_index}"
  proof (intro set_eqI iffI)
    fix x assume "x \<in> set ?st"
    then show "x \<in> {?rs ! i | i. i < length ?rs \<and> i \<noteq> dc_index}"
      using assms(6) by (fastforce simp: in_set_conv_nth)
  next
    fix x assume "x \<in> {?rs ! i | i. i < length ?rs \<and> i \<noteq> dc_index}"
    then obtain i where i: "x = ?rs ! i" "i < length ?rs" "i \<noteq> dc_index" by blast
    show "x \<in> set ?st"
    proof (cases "i < dc_index")
      case True
      with i assms(6) have "x \<in> set (take dc_index ?rs)" by (auto simp: in_set_conv_nth)
      then show ?thesis by simp
    next
      case False
      with i have "drop (Suc dc_index) ?rs ! (i - Suc dc_index) = x" "i - Suc dc_index < length (drop (Suc dc_index) ?rs)"
        by auto
      then show ?thesis by (metis Un_iff nth_mem set_append)
    qed
  qed
  then have pe: "(\<lambda>r. \<forall>s\<in>set ?st. is_region_peered cl s r) =
      (\<lambda>r. \<forall>i<length ?rs. i \<noteq> dc_index \<longrightarrow> is_region_peered cl (?rs ! i) r)" by (auto simp: fun_eq_iff)
  from assms(2,3,5,6,7) have "relocation_loop (cl_offerings cl) (\<lambda>r. \<forall>s\<in>set ?st. is_region_peered cl s r)
      (configured_az_letters ap) (az_cardinality ap) [db] (ordered_fallback_regions cl ap ?rs) = Inr cands"
    by (simp add: get_dc_fallback_candidates_def Let_def)
  note sp = relocation_loop_spec[OF assms(1) _ assms(4) this[unfolded pe], simplified]
  moreover have "r \<in> set aws_supported_regions - set ?rs" if "(r, ls) \<in> set cands" for r ls
  proof -
    from that have "r \<in> set (map fst cands)" by force
    then have "r \<in> set (ordered_fallback_regions cl ap ?rs)" using sp by auto
    then show ?thesis using ordered_regions_facts(2) by blast
  qed
  ultimately show ?thesis unfolding Let_def by fastforce
qed

theorem dc_fallback_candidates_exact_witness:
  "\<exists>cands. get_dc_fallback_candidates example_cloud example_ap 0 = Inr cands \<and>
     map fst cands = [''eu-west-2'', ''eu-west-3'', ''us-west-2'', ''us-east-1'',
       ''us-east-2'', ''eu-north-1'', ''eu-central-1'', ''ca-central-1'']"
proof -
  have db: "get_str (ap_params example_ap) ''instance_type_db'' = ''i4i''" by (simp add: az_eval)
  have "\<exists>cands. get_dc_fallback_candidates example_cloud example_ap 0 = Inr cands"
    using example_relocation by (simp add: get_dc_fallback_candidates_def example_inputs Let_def)
  then obtain cands where g: "get_dc_fallback_candidates example_cloud example_ap 0 = Inr cands" ..
  have "distinct (configured_az_letters example_ap)" "0 < length (region_names example_ap)" "''i4i'' \<noteq> []"
    by (simp_all add: example_inputs)
  from dc_fallback_candidates_exact[OF example_zone_names db this(3,1) example_inputs(4) this(2) g] g show ?thesis
    by (simp add: Let_def example_inputs example_regions example_eligible example_peered az_cardinality_def
        aws_supported_regions_def)
qed

text \<open>The upfront spot relocation happens only towards an eligible candidate whose region score beats
  the score of the configured region by at least the configured, positive margin, and to the first such
  candidate.\<close>

theorem preferred_spot_region_margin:
  assumes "get_preferred_spot_region cl ap = Inr (Some (region, letters))"
  shows "\<exists>current before after.
     let p = ap_params ap; margin = get_int p ''spot_score_region_relocation_margin'';
         br = map_of (by_region (cl_scores cl (scored_instance_types p) (spot_target_capacity p)
                (current # filter (\<lambda>r. r \<noteq> current) aws_supported_regions) False))
     in margin > 0 \<and> region_names ap = [current] \<and>
        get_region_fallback_candidates cl ap = Inr (before @ (region, letters) # after) \<and>
        (\<exists>s0 s1. br current = Some s0 \<and> br region = Some s1 \<and> s1 \<ge> s0 + margin \<and>
           (\<forall>(r, ls)\<in>set before. \<forall>s. br r = Some s \<longrightarrow> s < s0 + margin))"
proof -
  let ?p = "ap_params ap" and ?m = "get_int (ap_params ap) ''spot_score_region_relocation_margin''"
  from assms have m: "?m > 0" and one: "length (region_names ap) = 1"
    by (auto simp: get_preferred_spot_region_def Let_def split: if_splits)
  then obtain current where r: "region_names ap = [current]" by (cases "region_names ap") auto
  let ?br = "map_of (by_region (cl_scores cl (scored_instance_types ?p) (spot_target_capacity ?p)
      (current # filter (\<lambda>r. r \<noteq> current) aws_supported_regions) False))"
  from assms m r obtain s0 cands where s0: "?br current = Some s0" and
    c: "get_region_fallback_candidates cl ap = Inr cands" and
    f: "find (\<lambda>(region, letters). case ?br region of None \<Rightarrow> False | Some sc \<Rightarrow> \<not> sc - s0 < ?m) cands = Some (region, letters)"
    by (cases "get_region_fallback_candidates cl ap")
      (auto simp: get_preferred_spot_region_def Let_def split: if_splits option.splits)
  from f obtain i where i: "i < length cands" "cands ! i = (region, letters)"
      "case ?br region of None \<Rightarrow> False | Some sc \<Rightarrow> \<not> sc - s0 < ?m"
      "\<forall>j<i. \<not> (case cands ! j of (r, ls) \<Rightarrow> case ?br r of None \<Rightarrow> False | Some sc \<Rightarrow> \<not> sc - s0 < ?m)"
    by (auto simp: find_Some_iff)
  then obtain s1 where s1: "?br region = Some s1" "s1 \<ge> s0 + ?m" by (auto split: option.splits)
  have split: "cands = take i cands @ (region, letters) # drop (Suc i) cands"
    using i(1,2) by (metis id_take_nth_drop)
  have "\<forall>(r, ls)\<in>set (take i cands). \<forall>s. ?br r = Some s \<longrightarrow> s < s0 + ?m"
  proof clarify
    fix r ls s assume "(r, ls) \<in> set (take i cands)" "?br r = Some s"
    then obtain j where "j < i" "cands ! j = (r, ls)" by (auto simp: in_set_conv_nth)
    with i(4) \<open>?br r = Some s\<close> show "s < s0 + ?m" by fastforce
  qed
  moreover have "get_region_fallback_candidates cl ap = Inr (take i cands @ (region, letters) # drop (Suc i) cands)"
    using c split by simp
  ultimately show ?thesis unfolding Let_def using m r s0 s1
    by (intro exI[of _ current] exI[of _ "take i cands"] exI[of _ "drop (Suc i) cands"] conjI
        exI[of _ s0] exI[of _ s1]) assumption+
qed

definition spot_ap :: az_params where
  "spot_ap = example_ap\<lparr>ap_params := example_params(''use_spot_placement_scores'' := PBool True,
     ''cluster_backend'' := PStr ''aws'', ''spot_score_region_relocation_margin'' := PInt 3)\<rparr>"

definition spot_cloud :: cloud where
  "spot_cloud = example_cloud\<lparr>cl_peering := (\<lambda>_ r. Inr (if r = ''eu-west-2'' then Some ''active'' else None)),
     cl_scores := (\<lambda>_ _ _ _. [\<lparr>ps_region = ''eu-west-2'', ps_score = 9, ps_az_letter = None\<rparr>,
                              \<lparr>ps_region = ''eu-west-1'', ps_score = 1, ps_az_letter = None\<rparr>])\<rparr>"

lemma spot_candidates: "get_region_fallback_candidates spot_cloud spot_ap = Inr [(''eu-west-2'', [''b'', ''a''])]"
  by (simp add: get_region_fallback_candidates_def spot_ap_def spot_cloud_def az_eval rank_regions_def by_region_def Let_def)

lemma spot_inputs:
  "get_int (ap_params spot_ap) ''spot_score_region_relocation_margin'' = 3"
  "is_spot_placement_scoring_enabled (ap_params spot_ap)"
  "region_names spot_ap = [''eu-west-1'']"
  "scored_instance_types (ap_params spot_ap) = [''i4i'']"
  "by_region (cl_scores spot_cloud types capacity regions single_az) = [(''eu-west-2'', 9), (''eu-west-1'', 1)]"
  by (simp_all add: spot_ap_def spot_cloud_def az_eval scored_instance_types_def by_region_def)

theorem preferred_spot_region_margin_witness:
  "get_preferred_spot_region spot_cloud spot_ap = Inr (Some (''eu-west-2'', [''b'', ''a''])) \<and>
   region_names spot_ap = [''eu-west-1'']"
proof -
  have p: "get_preferred_spot_region spot_cloud spot_ap = Inr (Some (''eu-west-2'', [''b'', ''a'']))"
    by (simp add: get_preferred_spot_region_def spot_candidates spot_inputs Let_def)
  with preferred_spot_region_margin[OF p] spot_inputs(3) show ?thesis by simp
qed

text \<open>The capacity probe reports a type as unavailable exactly when its launch failed with a capacity
  error, reports any other launch error as available, and leaves no instance running when terminations
  go through.\<close>

theorem probe_capacity_results:
  assumes "types \<noteq> []" "distinct types" "region_names ap = region # rest" "pb_security_group pb"
    and "pb_subnet pb (probe_region_az region az)"
  shows "\<exists>results running'. probe_capacity_for_types pb ap types az running = Inr (results, running') \<and>
     (\<forall>t. map_of results t = (if t \<in> set types then Some (pb_run pb t (probe_region_az region az) \<noteq> Inl True) else None)) \<and>
     (pb_terminate_ok pb \<longrightarrow> running' = running)"
proof -
  let ?az = "probe_region_az region az"
  have "\<exists>results running'. probe_loop pb ?az ts res0 running = (results, running') \<and>
     (\<forall>t. map_of results t = (if t \<in> set ts then Some (pb_run pb t ?az \<noteq> Inl True) else map_of res0 t)) \<and>
     (pb_terminate_ok pb \<longrightarrow> running' = running)" if "distinct ts" for ts res0 running
    using that
  proof (induction ts arbitrary: res0 running)
    case (Cons t ts)
    show ?case
    proof (cases "pb_run pb t ?az")
      case (Inl capacity)
      from Cons.IH[of "AList.update t (\<not> capacity) res0" running] Cons.prems Inl show ?thesis by auto
    next
      case (Inr ids)
      from Cons.IH[of "AList.update t True res0" "if ids \<noteq> [] \<and> pb_terminate_ok pb then running else running @ ids"]
        Cons.prems Inr show ?thesis by auto
    qed
  qed simp
  from this[OF assms(2), of "[]" running] assms show ?thesis
    by (auto simp: probe_capacity_for_types_def)
qed

theorem probe_capacity_results_witness:
  "let pb = \<lparr>pb_run = (\<lambda>t az. if t = ''i4i'' then Inl True else if t = ''t3'' then Inl False else Inr [''i-1'']),
       pb_subnet = (\<lambda>_. True), pb_security_group = True, pb_terminate_ok = True\<rparr>
   in \<exists>results. probe_capacity_for_types pb example_ap [''i4i'', ''t3''] ''a'' [] = Inr (results, []) \<and>
        map_of results ''i4i'' = Some False \<and> map_of results ''t3'' = Some True"
proof -
  let ?pb = "\<lparr>pb_run = (\<lambda>t az. if t = ''i4i'' then Inl True else if t = ''t3'' then Inl False else Inr [''i-1'']),
       pb_subnet = (\<lambda>_. True), pb_security_group = True, pb_terminate_ok = True\<rparr>"
  have "[''i4i'', ''t3''] \<noteq> []" "distinct [''i4i'', ''t3'']" "pb_security_group ?pb"
    "pb_subnet ?pb (probe_region_az ''eu-west-1'' ''a'')" by simp_all
  from probe_capacity_results[OF this(1,2) example_inputs(2) this(3,4), of "[]"] show ?thesis
    by (auto simp: Let_def)
qed

end
