(* ===== verification/Gce_Zones.thy ===== *)
theory Gce_Zones
  imports Complex_Main Region_Fallback Az_Resolver
begin

text \<open>
  Placement on GCE: error classification (\<^verbatim>\<open>sdcm/provision/gce/capacity_errors.py\<close>), the zones that
  hold a machine type (\<^verbatim>\<open>GceZoneResolver\<close> of \<^verbatim>\<open>sdcm/utils/gce_utils.py\<close>), capacity advice
  (\<^verbatim>\<open>sdcm/provision/gce/capacity_advisor.py\<close>) and the resolver with its relocation candidates
  (\<^verbatim>\<open>sdcm/provision/gce/zone_resolver.py\<close>).

  The state is the process environment, the configuration and the rest of the world, which
  provisioning and cleaning up change.  The cloud is a parameter.
\<close>

section \<open>Errors\<close>

datatype gce_error =
    ZoneResourcesExhaustedError string
  | ProvisionError string
  | GceError string
  | NoZone "string list" "string list"
  | NoValidZones "string list" nat
  | TooFewZones "string list" "string list"
  | MultipleDatacenters "string list"
  | AllRegionsExhausted "string option" "string list" gce_error
  | DcExhausted "nat option" gce_error

text \<open>\<^verbatim>\<open>str(exc)\<close> of an error of provisioning; the other errors are raised by the fallback itself.\<close>

fun error_text :: "gce_error \<Rightarrow> string" where
  "error_text (ZoneResourcesExhaustedError m) = m"
| "error_text (ProvisionError m) = m"
| "error_text (GceError m) = m"
| "error_text e = []"

definition capacity_error_markers :: "string list" where
  "capacity_error_markers = [''ZONE_RESOURCE_POOL_EXHAUSTED'', ''RESOURCE_POOL_EXHAUSTED'', ''stockout'']"

definition config_error_markers :: "string list" where
  "config_error_markers = [''not compatible for creating instance'', ''not compatible with machine type architecture'']"

definition is_config_error :: "string \<Rightarrow> bool" where
  "is_config_error text = list_ex (\<lambda>m. contains m (lower text)) config_error_markers"

definition is_zone_capacity_error :: "string \<Rightarrow> bool" where
  "is_zone_capacity_error text =
     (if is_config_error text then False else list_ex (\<lambda>m. contains m text) capacity_error_markers)"

definition quota_error_markers :: "string list" where
  "quota_error_markers = [''QUOTA_EXCEEDED'', ''quotaExceeded'']"

definition type_not_available_markers :: "string list" where
  "type_not_available_markers = [''RESOURCE_NOT_FOUND'', ''machineTypeNotFound'']"

definition preemption_error_markers :: "string list" where
  "preemption_error_markers = [''Instance failed to start due to preemption'', ''PREEMPTED'']"

definition is_quota_error :: "string \<Rightarrow> bool" where
  "is_quota_error text = list_ex (\<lambda>m. contains m text) quota_error_markers"

definition is_type_unavailable_error :: "string \<Rightarrow> bool" where
  "is_type_unavailable_error text = list_ex (\<lambda>m. contains m text) type_not_available_markers"

definition is_preemption_error :: "string \<Rightarrow> bool" where
  "is_preemption_error text = list_ex (\<lambda>m. contains m text) preemption_error_markers"

definition classify_provisioning_error :: "string \<Rightarrow> string" where
  "classify_provisioning_error text =
     (if is_config_error text then ''config''
      else if is_preemption_error text then ''preemption''
      else if is_zone_capacity_error text then ''capacity''
      else if is_quota_error text then ''quota''
      else if is_type_unavailable_error text then ''type_unavailable''
      else ''unknown'')"

definition is_capacity_error :: "gce_error \<Rightarrow> bool" where
  "is_capacity_error e = (case e of
       ZoneResourcesExhaustedError _ \<Rightarrow> True
     | ProvisionError m \<Rightarrow> is_zone_capacity_error m
     | _ \<Rightarrow> False)"

section \<open>State\<close>

record 'w gce_state =
  gs_env :: "string \<Rightarrow> string option"
  gs_params :: params
  gs_world :: 'w

abbreviation datacenter_var :: string where
  "datacenter_var \<equiv> ''SCT_GCE_DATACENTER''"

text \<open>\<^verbatim>\<open>SCTConfiguration.gce_datacenters\<close> is environment-first; \<^verbatim>\<open>current_datacenters\<close> reads the parameter.\<close>

definition gce_datacenters :: "'w gce_state \<Rightarrow> string list" where
  "gce_datacenters s = (case gs_env s datacenter_var of
       Some v \<Rightarrow> split_ws v
     | None \<Rightarrow> split_ws (get_str (gs_params s) ''gce_datacenter''))"

definition current_datacenters :: "'w gce_state \<Rightarrow> string list" where
  "current_datacenters s = split_ws (get_str (gs_params s) ''gce_datacenter'')"

definition set_datacenter :: "string \<Rightarrow> 'w gce_state \<Rightarrow> 'w gce_state" where
  "set_datacenter v s = s\<lparr>gs_env := (gs_env s)(datacenter_var \<mapsto> v),
     gs_params := (gs_params s)(''gce_datacenter'' := PStr v)\<rparr>"

definition set_az :: "param \<Rightarrow> 'w gce_state \<Rightarrow> 'w gce_state" where
  "set_az v s = s\<lparr>gs_params := (gs_params s)(''availability_zone'' := v)\<rparr>"

type_synonym ('w, 'a) gce_comp = "('w gce_state, gce_error, 'a) comp"

section \<open>Machine types\<close>

definition machine_type_param_gates :: "(string \<times> (params \<Rightarrow> bool)) list" where
  "machine_type_param_gates =
     [(''gce_instance_type_db'', always),
      (''gce_instance_type_loader'', has_loaders),
      (''gce_instance_type_monitor'', has_monitor),
      (''zero_token_instance_type_db'', has_zero_token),
      (''gce_instance_type_db_oracle'', has_oracle),
      (''instance_type_db_target'', always),
      (''nemesis_grow_shrink_instance_type'', always),
      (''instance_type_vector_store'', has_vector_store)]"

definition required_machine_types :: "params \<Rightarrow> string list" where
  "required_machine_types p = foldl (\<lambda>selected (key, gate).
       if get_str p key \<noteq> [] \<and> gate p \<and> get_str p key \<notin> set selected then selected @ [get_str p key] else selected)
     [] machine_type_param_gates"

definition advised_machine_types :: "params \<Rightarrow> string list" where
  "advised_machine_types p = foldl (\<lambda>selected key.
       if get_str p key \<noteq> [] \<and> get_str p key \<notin> set selected then selected @ [get_str p key] else selected)
     [] [''gce_instance_type_db'', ''zero_token_instance_type_db'', ''instance_type_db_target'']"

definition is_capacity_advice_enabled :: "params \<Rightarrow> bool" where
  "is_capacity_advice_enabled p = is_spot_capacity_scoring_enabled p ''gce''"

text \<open>Unlike its AWS namesake this total keeps negative counts.\<close>

definition gce_node_count_total :: "param \<Rightarrow> int" where
  "gce_node_count_total v = (case v of
       PInt i \<Rightarrow> i
     | PFloat r \<Rightarrow> int_of_float r
     | PCounts l \<Rightarrow> sum_list (List.map_filter (\<lambda>n. n) l)
     | _ \<Rightarrow> 0)"

definition advised_size :: "params \<Rightarrow> int" where
  "advised_size p =
     max (gce_node_count_total (p ''n_db_nodes'') +
          (if has_zero_token p then gce_node_count_total (p ''n_db_zero_token_nodes'') else 0)) 1"

definition advised_role_requests :: "params \<Rightarrow> role_request list" where
  "advised_role_requests p =
     (''db'', advised_machine_types p, advised_size p) #
     List.map_filter (\<lambda>(role, type_key, count_key).
        let t = get_str p type_key; n = gce_node_count_total (p count_key)
        in if t \<noteq> [] \<and> n > 0 then Some (role, [t], n) else None)
      [(''loaders'', ''gce_instance_type_loader'', ''n_loaders''),
       (''monitor'', ''gce_instance_type_monitor'', ''n_monitor_nodes'')]"

section \<open>Zones\<close>

text \<open>
  The cloud: the zone URLs of a region or an error, whether a machine type can be looked up in a
  zone, and the answer to an advice request for machine types, size, region and zone: an error, or
  the obtainability, if any, of each recommendation.
\<close>

record gce_cloud =
  gz_region_zones :: "string \<Rightarrow> string + string list"
  gz_has_type :: "string \<Rightarrow> string \<Rightarrow> bool"
  gz_capacity :: "string list \<Rightarrow> int \<Rightarrow> string \<Rightarrow> string \<Rightarrow> string + rat option list"

definition get_zones_for_region :: "gce_cloud \<Rightarrow> string \<Rightarrow> string list" where
  "get_zones_for_region cl region = (case gz_region_zones cl region of
       Inl _ \<Rightarrow> []
     | Inr urls \<Rightarrow> map (\<lambda>z. last (split_on CHR ''/'' z)) urls)"

definition zone_letter :: "string \<Rightarrow> string" where
  "zone_letter zone = last (split_on CHR ''-'' zone)"

definition get_zones_for_machine_type :: "gce_cloud \<Rightarrow> string \<Rightarrow> string \<Rightarrow> string list" where
  "get_zones_for_machine_type cl region mt = filter (\<lambda>z. gz_has_type cl z mt) (get_zones_for_region cl region)"

definition get_common_zones :: "gce_cloud \<Rightarrow> string \<Rightarrow> string list \<Rightarrow> string list \<Rightarrow> string list" where
  "get_common_zones cl region types preferred =
     (if types = [] then []
      else (let common = filter (\<lambda>z. \<forall>t\<in>set types. z \<in> set (get_zones_for_machine_type cl region t)) (get_zones_for_region cl region);
                ordered = filter (\<lambda>z. z \<in> set common) preferred
            in ordered @ filter (\<lambda>z. z \<notin> set ordered) (sort (remdups common))))"

fun gce_letters_loop :: "gce_cloud \<Rightarrow> string list \<Rightarrow> string list \<Rightarrow> string list \<Rightarrow> string list option \<Rightarrow> string list option" where
  "gce_letters_loop cl configured types [] common = common"
| "gce_letters_loop cl configured types (region # regions) common =
     (let supported = get_common_zones cl region types (map (\<lambda>l. region @ ''-'' @ l) configured);
          letters = map zone_letter supported
      in gce_letters_loop cl configured types regions
           (Some (case common of None \<Rightarrow> letters | Some c \<Rightarrow> filter (\<lambda>l. l \<in> set letters) c)))"

definition gce_common_supported_letters ::
    "gce_cloud \<Rightarrow> string list \<Rightarrow> string list \<Rightarrow> string list \<Rightarrow> string list" where
  "gce_common_supported_letters cl regions configured types =
     (case gce_letters_loop cl configured types regions None of
        None \<Rightarrow> []
      | Some common \<Rightarrow>
          (let configured_first = filter (\<lambda>l. l \<in> set common) configured
           in configured_first @ sort (remdups (filter (\<lambda>l. l \<notin> set configured_first) common))))"

section \<open>Capacity advice\<close>

text \<open>An advice is a zone with its obtainability; the estimated uptime is only logged.\<close>

type_synonym zone_advice = "string \<times> rat"

definition query_zone :: "gce_cloud \<Rightarrow> string list \<Rightarrow> int \<Rightarrow> string \<Rightarrow> string \<Rightarrow> string + zone_advice option" where
  "query_zone cl types cnt region zone = (case gz_capacity cl types cnt region zone of
       Inl e \<Rightarrow> Inl e
     | Inr [] \<Rightarrow> Inr None
     | Inr (score # _) \<Rightarrow> Inr (map_option (\<lambda>ob. (zone, ob)) score))"

definition collect_zone_advice :: "gce_cloud \<Rightarrow> string list \<Rightarrow> int \<Rightarrow> string \<Rightarrow> string list \<Rightarrow> string + zone_advice list" where
  "collect_zone_advice cl types cnt region zones =
     (let answers = map (query_zone cl types cnt region) zones;
          results = List.map_filter (\<lambda>a. case a of Inr r \<Rightarrow> r | Inl _ \<Rightarrow> None) answers;
          failures = List.map_filter (\<lambda>a. case a of Inl e \<Rightarrow> Some e | Inr _ \<Rightarrow> None) answers
      in if results = [] \<and> failures \<noteq> [] then Inl (hd failures)
         else Inr (sort_key (\<lambda>(zone, ob). (- ob, zone)) results))"

text \<open>\<^verbatim>\<open>get_zone_advice\<close> without its cache, which replays an earlier answer of the same request.\<close>

definition get_zone_advice :: "gce_cloud \<Rightarrow> string list \<Rightarrow> int \<Rightarrow> string \<Rightarrow> string list \<Rightarrow> zone_advice list" where
  "get_zone_advice cl types cnt region zones =
     (if types = [] \<or> zones = [] \<or> cnt < 1 then []
      else case collect_zone_advice cl types cnt region zones of Inl _ \<Rightarrow> [] | Inr advice \<Rightarrow> advice)"

definition advice_by_letter :: "zone_advice list \<Rightarrow> rat dict" where
  "advice_by_letter advice = foldl (\<lambda>m (zone, ob). AList.update (zone_letter zone) ob m) [] advice"

definition merge_worst_advice :: "rat dict \<Rightarrow> rat dict \<Rightarrow> rat dict" where
  "merge_worst_advice worst letters = foldl (\<lambda>w (l, ob).
       AList.update l (case map_of w l of Some x \<Rightarrow> min x ob | None \<Rightarrow> ob) w) worst letters"

fun worst_advice :: "gce_cloud \<Rightarrow> string \<Rightarrow> string list \<Rightarrow> role_request list \<Rightarrow> rat dict \<Rightarrow> rat dict option" where
  "worst_advice cl region letters [] worst = Some worst"
| "worst_advice cl region letters ((role, types, cnt) # reqs) worst =
     (if types = [] \<or> cnt < 1 then worst_advice cl region letters reqs worst
      else (let advice = get_zone_advice cl types cnt region (map (\<lambda>l. region @ ''-'' @ l) letters) in
        if advice = [] then None
        else worst_advice cl region letters reqs (merge_worst_advice worst (advice_by_letter advice))))"

definition rank_zone_letters_for_roles ::
    "gce_cloud \<Rightarrow> role_request list \<Rightarrow> string \<Rightarrow> string list \<Rightarrow> rat \<Rightarrow> string list option" where
  "rank_zone_letters_for_roles cl reqs region letters min_obtainability =
     (if letters = [] then Some []
      else case worst_advice cl region letters reqs [] of
        None \<Rightarrow> None
      | Some worst \<Rightarrow>
          (if worst = [] then None
           else (let w = (\<lambda>l. the (map_of worst l));
                     scored = filter (\<lambda>l. map_of worst l \<noteq> None \<and> w l \<ge> min_obtainability) letters;
                     unscored = filter (\<lambda>l. map_of worst l = None) letters
                 in Some (sort_key (\<lambda>l. (- w l, l)) scored @ unscored))))"

section \<open>Candidates\<close>

definition gce_configured_letters :: "'w gce_state \<Rightarrow> string list" where
  "gce_configured_letters s = split_items CHR '','' (get_str (gs_params s) ''availability_zone'')"

definition gce_region_names :: "'w gce_state \<Rightarrow> string list" where
  "gce_region_names s = (if gce_datacenters s \<noteq> [] then gce_datacenters s else current_datacenters s)"

definition supported_gce_regions :: "string list" where
  "supported_gce_regions = [''us-east1'', ''us-east4'', ''us-west1'', ''us-central1'']"

definition gce_rank_regions ::
    "gce_cloud \<Rightarrow> string list \<Rightarrow> int \<Rightarrow> string list \<Rightarrow> (string \<Rightarrow> string list) \<Rightarrow> string list option" where
  "gce_rank_regions cl types cnt regions zones_per_region =
     (let best = (\<lambda>region. case get_zone_advice cl types cnt region (zones_per_region region) of
            [] \<Rightarrow> None
          | a # as \<Rightarrow> Some (foldl max (snd a) (map snd as)))
      in if regions = [] then Some []
         else if \<not> list_ex (\<lambda>r. best r \<noteq> None) regions then None
         else Some (sort_key (\<lambda>r. (- the (best r), r)) (filter (\<lambda>r. best r \<noteq> None) regions) @
                    filter (\<lambda>r. best r = None) regions))"

definition gce_ordered_fallback_regions :: "gce_cloud \<Rightarrow> params \<Rightarrow> string list \<Rightarrow> string list" where
  "gce_ordered_fallback_regions cl p exclude =
     (let regions = filter (\<lambda>r. r \<notin> set exclude) supported_gce_regions in
      if \<not> is_capacity_advice_enabled p \<or> length regions < 2 then regions
      else if advised_machine_types p = [] then regions
      else (case gce_rank_regions cl (advised_machine_types p) (advised_size p) regions (get_zones_for_region cl) of
              None \<Rightarrow> regions
            | Some ranked \<Rightarrow> if ranked \<noteq> [] then ranked else regions))"

text \<open>The generators compute their region list when first asked and probe one region per step.\<close>

definition region_probe :: "gce_cloud \<Rightarrow> string list \<Rightarrow> string list \<Rightarrow> nat \<Rightarrow> string \<Rightarrow> ('w, candidate option) gce_comp" where
  "region_probe cl configured types n region s =
     (let letters = gce_common_supported_letters cl [region] configured types
      in (Inr (if length letters < n then None else Some (region, take n letters)), s))"

definition gce_region_fallback_candidates :: "gce_cloud \<Rightarrow> 'w gce_state \<Rightarrow> ('w gce_state, gce_error) probes" where
  "gce_region_fallback_candidates cl s = (case gce_region_names s of
       [] \<Rightarrow> []
     | current # _ \<Rightarrow>
         (let configured = gce_configured_letters s;
              n = (if configured = [] then 1 else length configured)
          in map (region_probe cl configured (required_machine_types (gs_params s)) n)
               (gce_ordered_fallback_regions cl (gs_params s) [current])))"

definition dc_probe :: "gce_cloud \<Rightarrow> string list \<Rightarrow> string list \<Rightarrow> string \<Rightarrow> ('w, candidate option) gce_comp" where
  "dc_probe cl configured types region s =
     (if region \<in> set (gce_region_names s) then (Inr None, s)
      else (let letters = gce_common_supported_letters cl [region] configured types in
        if configured \<noteq> [] then
          (if filter (\<lambda>l. l \<notin> set letters) configured \<noteq> [] then (Inr None, s)
           else (Inr (Some (region, configured)), s))
        else if length letters < 1 then (Inr None, s)
        else (Inr (Some (region, take 1 letters)), s)))"

definition gce_dc_fallback_candidates :: "gce_cloud \<Rightarrow> nat \<Rightarrow> 'w gce_state \<Rightarrow> ('w gce_state, gce_error) probes" where
  "gce_dc_fallback_candidates cl dc_index s =
     (if dc_index \<ge> length (gce_region_names s) then []
      else map (dc_probe cl (gce_configured_letters s) (required_machine_types (gs_params s)))
             (gce_ordered_fallback_regions cl (gs_params s) []))"

definition gce_az_fallback_candidates :: "gce_cloud \<Rightarrow> 'w gce_state \<Rightarrow> string list list" where
  "gce_az_fallback_candidates cl s =
     (let configured = gce_configured_letters s in
      if length configured \<noteq> 1 \<or> gce_region_names s = [] then []
      else map (\<lambda>l. [l]) (filter (\<lambda>l. l \<notin> set configured)
             (gce_common_supported_letters cl (gce_region_names s) configured (required_machine_types (gs_params s)))))"

section \<open>Resolving\<close>

text \<open>\<open>explicit\<close> is the provenance query of the configuration, if it has one.\<close>

definition gce_score_may_choose_az :: "(string \<Rightarrow> bool) option \<Rightarrow> params \<Rightarrow> bool" where
  "gce_score_may_choose_az explicit p =
     (if \<not> is_capacity_advice_enabled p then False
      else if truthy (p ''spot_score_overrides_configured_az'') then True
      else case explicit of None \<Rightarrow> False | Some f \<Rightarrow> \<not> f ''availability_zone'')"

text \<open>
  The ranked letters and whether they are a new list; the caller compares identities to tell
  "not ranked" from "ranked".
\<close>

definition rank_letters_by_capacity_advice ::
    "gce_cloud \<Rightarrow> 'w gce_state \<Rightarrow> string list \<Rightarrow> string list \<Rightarrow> gce_error + string list \<times> bool" where
  "rank_letters_by_capacity_advice cl s regions letters =
     (let p = gs_params s in
      if length letters < 2 \<or> \<not> is_capacity_advice_enabled p then Inr (letters, False)
      else if length regions \<noteq> 1 then Inr (letters, False)
      else if advised_machine_types p = [] then Inr (letters, False)
      else case rank_zone_letters_for_roles cl (advised_role_requests p) (hd regions) letters
                  (get_float p ''gce_spot_obtainability_min'') of
        None \<Rightarrow> Inr (letters, False)
      | Some ranked \<Rightarrow>
          (let required = max 1 (min (length (gce_configured_letters s)) (length letters)) in
           if length ranked < required then Inl (NoValidZones ranked required) else Inr (ranked, True)))"

fun discover_loop :: "gce_cloud \<Rightarrow> string list \<Rightarrow> string list \<Rightarrow> string list option \<Rightarrow> string list option" where
  "discover_loop cl types [] common = common"
| "discover_loop cl types (region # regions) common =
     (let supported = get_common_zones cl region types (get_zones_for_region cl region);
          letters = map zone_letter supported
      in discover_loop cl types regions
           (Some (case common of None \<Rightarrow> letters | Some c \<Rightarrow> filter (\<lambda>l. l \<in> set letters) c)))"

definition discover_valid_zone_letters :: "gce_cloud \<Rightarrow> string list \<Rightarrow> string list \<Rightarrow> string list" where
  "discover_valid_zone_letters cl regions types =
     (case discover_loop cl types regions None of None \<Rightarrow> [] | Some common \<Rightarrow> sort (remdups common))"

text \<open>\<open>draw\<close> is the index \<^verbatim>\<open>random.choice\<close> draws.\<close>

definition pick_letter :: "string list \<Rightarrow> string list \<times> bool \<Rightarrow> nat \<Rightarrow> string" where
  "pick_letter valid ranked draw = (if snd ranked then hd (fst ranked) else valid ! (draw mod length valid))"

definition gce_choose_letters :: "(string \<Rightarrow> bool) option \<Rightarrow> 'w gce_state \<Rightarrow> string list \<Rightarrow> string list \<Rightarrow> string list" where
  "gce_choose_letters explicit s supported ranked =
     (let configured = gce_configured_letters s in
      if gce_score_may_choose_az explicit (gs_params s) then take (length configured) ranked
      else backfill (length configured) (filter (\<lambda>l. l \<in> set supported) configured) ranked)"

definition gce_resolve :: "gce_cloud \<Rightarrow> (string \<Rightarrow> bool) option \<Rightarrow> nat \<Rightarrow> ('w, unit) gce_comp" where
  "gce_resolve cl explicit draw s =
     (let types = required_machine_types (gs_params s);
          regions = gce_region_names s;
          configured = gce_configured_letters s in
      if \<not> truthy (gs_params s ''pre_filter_unavailable_availability_zones'') \<or> types = [] \<or> regions = []
      then (Inr (), s)
      else if configured = [] then
        (let valid = discover_valid_zone_letters cl regions types in
         if valid = [] then (Inl (NoZone regions types), s)
         else case rank_letters_by_capacity_advice cl s regions valid of
           Inl e \<Rightarrow> (Inl e, s)
         | Inr ranked \<Rightarrow> (Inr (), set_az (PStr (pick_letter valid ranked draw)) s))
      else
        (let supported = gce_common_supported_letters cl regions configured types in
         if supported = [] then (Inl (NoZone regions types), s)
         else case rank_letters_by_capacity_advice cl s regions supported of
           Inl e \<Rightarrow> (Inl e, s)
         | Inr ranked \<Rightarrow>
             (let resolved = gce_choose_letters explicit s supported (fst ranked) in
              if length resolved < length configured then (Inl (TooFewZones configured resolved), s)
              else (Inr (), set_az (PStr (join '','' resolved)) s))))"

section \<open>What a resolved zone supports\<close>

text \<open>The zone with that letter exists in the region and has every machine type.\<close>

definition letter_ok :: "gce_cloud \<Rightarrow> string \<Rightarrow> string list \<Rightarrow> string \<Rightarrow> bool" where
  "letter_ok cl region types l \<longleftrightarrow>
     (\<exists>zone\<in>set (get_zones_for_region cl region). zone_letter zone = l \<and> (\<forall>t\<in>set types. gz_has_type cl zone t))"

lemma common_zones_ok:
  assumes "zone \<in> set (get_common_zones cl region types preferred)"
  shows "letter_ok cl region types (zone_letter zone)"
  using assms by (auto simp: get_common_zones_def get_zones_for_machine_type_def letter_ok_def Let_def split: if_splits)

lemma letters_loop_shrinks:
  "\<lbrakk>gce_letters_loop cl configured types regions (Some c) = Some ls; l \<in> set ls\<rbrakk> \<Longrightarrow> l \<in> set c"
proof (induction regions arbitrary: c)
  case (Cons r regions)
  let ?sup = "map zone_letter (get_common_zones cl r types (map (\<lambda>l. r @ ''-'' @ l) configured))"
  from Cons.prems(1) have "gce_letters_loop cl configured types regions (Some (filter (\<lambda>l. l \<in> set ?sup) c)) = Some ls"
    by (simp add: Let_def)
  from Cons.IH[OF this Cons.prems(2)] show ?case by simp
qed simp

lemma letters_loop_ok:
  "\<lbrakk>gce_letters_loop cl configured types regions common = Some ls; l \<in> set ls; region \<in> set regions\<rbrakk> \<Longrightarrow>
   letter_ok cl region types l"
proof (induction regions arbitrary: common)
  case (Cons r regions)
  let ?sup = "map zone_letter (get_common_zones cl r types (map (\<lambda>l. r @ ''-'' @ l) configured))"
  define c where "c = (case common of None \<Rightarrow> ?sup | Some c \<Rightarrow> filter (\<lambda>l. l \<in> set ?sup) c)"
  have sub: "set c \<subseteq> set ?sup" by (cases common) (auto simp: c_def)
  from Cons.prems(1) have c: "gce_letters_loop cl configured types regions (Some c) = Some ls"
    by (simp only: gce_letters_loop.simps Let_def c_def)
  show ?case
  proof (cases "region = r")
    case True
    from letters_loop_shrinks[OF c Cons.prems(2)] sub have "l \<in> set ?sup" by blast
    with True common_zones_ok show ?thesis by auto
  next
    case False
    with Cons.IH[OF c Cons.prems(2)] Cons.prems(3) show ?thesis by simp
  qed
qed simp

lemma discover_loop_shrinks:
  "\<lbrakk>discover_loop cl types regions (Some c) = Some ls; l \<in> set ls\<rbrakk> \<Longrightarrow> l \<in> set c"
proof (induction regions arbitrary: c)
  case (Cons r regions)
  let ?sup = "map zone_letter (get_common_zones cl r types (get_zones_for_region cl r))"
  from Cons.prems(1) have "discover_loop cl types regions (Some (filter (\<lambda>l. l \<in> set ?sup) c)) = Some ls"
    by (simp add: Let_def)
  from Cons.IH[OF this Cons.prems(2)] show ?case by simp
qed simp

lemma discover_loop_ok:
  "\<lbrakk>discover_loop cl types regions common = Some ls; l \<in> set ls; region \<in> set regions\<rbrakk> \<Longrightarrow>
   letter_ok cl region types l"
proof (induction regions arbitrary: common)
  case (Cons r regions)
  let ?sup = "map zone_letter (get_common_zones cl r types (get_zones_for_region cl r))"
  define c where "c = (case common of None \<Rightarrow> ?sup | Some c \<Rightarrow> filter (\<lambda>l. l \<in> set ?sup) c)"
  have sub: "set c \<subseteq> set ?sup" by (cases common) (auto simp: c_def)
  from Cons.prems(1) have c: "discover_loop cl types regions (Some c) = Some ls"
    by (simp only: discover_loop.simps Let_def c_def)
  show ?case
  proof (cases "region = r")
    case True
    from discover_loop_shrinks[OF c Cons.prems(2)] sub have "l \<in> set ?sup" by blast
    with True common_zones_ok show ?thesis by auto
  next
    case False
    with Cons.IH[OF c Cons.prems(2)] Cons.prems(3) show ?thesis by simp
  qed
qed simp

lemma supported_letters_ok:
  assumes "l \<in> set (gce_common_supported_letters cl regions configured types)" "region \<in> set regions"
  shows "letter_ok cl region types l"
proof -
  from assms(1) obtain ls where "gce_letters_loop cl configured types regions None = Some ls" "l \<in> set ls"
    by (cases "gce_letters_loop cl configured types regions None") (auto simp: gce_common_supported_letters_def Let_def)
  with letters_loop_ok assms(2) show ?thesis by blast
qed

lemma discovered_letters_ok:
  assumes "l \<in> set (discover_valid_zone_letters cl regions types)" "region \<in> set regions"
  shows "letter_ok cl region types l"
proof -
  from assms(1) obtain ls where "discover_loop cl types regions None = Some ls" "l \<in> set ls"
    by (cases "discover_loop cl types regions None") (auto simp: discover_valid_zone_letters_def)
  with discover_loop_ok assms(2) show ?thesis by blast
qed

lemma rank_zone_letters_subset:
  assumes "rank_zone_letters_for_roles cl reqs region letters m = Some ranked"
  shows "set ranked \<subseteq> set letters"
proof (cases "letters = []")
  case False
  with assms obtain worst where w: "worst_advice cl region letters reqs [] = Some worst" "worst \<noteq> []"
    by (auto simp: rank_zone_letters_for_roles_def split: option.splits if_splits)
  with assms False have "ranked = sort_key (\<lambda>l. (- the (map_of worst l), l))
      (filter (\<lambda>l. map_of worst l \<noteq> None \<and> the (map_of worst l) \<ge> m) letters) @ filter (\<lambda>l. map_of worst l = None) letters"
    by (simp add: rank_zone_letters_for_roles_def Let_def)
  then show ?thesis by (auto simp only: set_append set_sort set_filter)
qed (use assms in \<open>simp add: rank_zone_letters_for_roles_def\<close>)

lemma rank_letters_subset:
  assumes "rank_letters_by_capacity_advice cl s regions letters = Inr (ranked, fresh)" "letters \<noteq> []"
  shows "set ranked \<subseteq> set letters" "ranked \<noteq> []"
proof -
  consider (same) "ranked = letters" | (new) m reqs region where
      "rank_zone_letters_for_roles cl reqs region letters m = Some ranked" "length ranked \<ge> 1"
    using assms(1) by (auto simp: rank_letters_by_capacity_advice_def Let_def split: if_splits option.splits)
  then have "set ranked \<subseteq> set letters \<and> ranked \<noteq> []"
    by cases (use assms(2) rank_zone_letters_subset in auto)
  then show "set ranked \<subseteq> set letters" "ranked \<noteq> []" by simp_all
qed

lemma backfill_at_most: "length chosen \<le> n \<Longrightarrow> length (backfill n chosen pool) \<le> n"
  by (induction pool arbitrary: chosen) (auto simp: append_new_def)

lemma choose_letters_shape:
  assumes "set ranked \<subseteq> set supported"
  shows "set (gce_choose_letters explicit s supported ranked) \<subseteq> set supported"
    "length (gce_choose_letters explicit s supported ranked) \<le> length (gce_configured_letters s)"
    "\<not> gce_score_may_choose_az explicit (gs_params s) \<Longrightarrow>
     prefix (filter (\<lambda>l. l \<in> set supported) (gce_configured_letters s)) (gce_choose_letters explicit s supported ranked)"
proof -
  let ?c = "gce_configured_letters s" and ?f = "filter (\<lambda>l. l \<in> set supported) (gce_configured_letters s)"
  have "set (backfill (length ?c) ?f ranked) \<subseteq> set supported"
    using backfill_set[of "length ?c" ?f ranked] assms by auto
  moreover have "length (backfill (length ?c) ?f ranked) \<le> length ?c" by (rule backfill_at_most) simp
  ultimately show "set (gce_choose_letters explicit s supported ranked) \<subseteq> set supported"
    "length (gce_choose_letters explicit s supported ranked) \<le> length ?c"
    using assms set_take_subset[of "length ?c" ranked] by (auto simp: gce_choose_letters_def Let_def)
  show "\<not> gce_score_may_choose_az explicit (gs_params s) \<Longrightarrow>
     prefix ?f (gce_choose_letters explicit s supported ranked)"
    using backfill_prefix by (simp add: gce_choose_letters_def Let_def)
qed

section \<open>Properties\<close>

text \<open>C31: a GCE zone resolution that succeeds with the upfront filter on leaves in \<^verbatim>\<open>availability_zone\<close>
  exactly as many zone letters as were configured (one if none was), each of them a zone with every
  required machine type in every configured region; the configured letters that qualify keep their
  place in front unless the score may choose.  Nothing else of the state changes.\<close>

theorem gce_resolve_keeps_rack_count:
  assumes run: "gce_resolve cl explicit draw s = (Inr (), s')"
    and on: "truthy (gs_params s ''pre_filter_unavailable_availability_zones'')"
      "required_machine_types (gs_params s) \<noteq> []" "gce_region_names s \<noteq> []"
  shows "\<exists>letters. s' = set_az (PStr (join '','' letters)) s \<and>
     length letters = max 1 (length (gce_configured_letters s)) \<and>
     (\<forall>l\<in>set letters. \<forall>region\<in>set (gce_region_names s). letter_ok cl region (required_machine_types (gs_params s)) l) \<and>
     (\<not> gce_score_may_choose_az explicit (gs_params s) \<longrightarrow>
        prefix (filter (\<lambda>l. l \<in> set (gce_common_supported_letters cl (gce_region_names s) (gce_configured_letters s)
          (required_machine_types (gs_params s)))) (gce_configured_letters s)) letters)"
proof (cases "gce_configured_letters s = []")
  case True
  let ?valid = "discover_valid_zone_letters cl (gce_region_names s) (required_machine_types (gs_params s))"
  from run on True obtain ranked fresh where r: "rank_letters_by_capacity_advice cl s (gce_region_names s) ?valid = Inr (ranked, fresh)"
    "?valid \<noteq> []" "s' = set_az (PStr (pick_letter ?valid (ranked, fresh) draw)) s"
    by (auto simp: gce_resolve_def Let_def split: if_splits sum.splits)
  let ?l = "pick_letter ?valid (ranked, fresh) draw"
  have "?l \<in> set ?valid"
    using rank_letters_subset[OF r(1,2)] r(2) by (auto simp: pick_letter_def)
  with True r(3) discovered_letters_ok show ?thesis by (intro exI[of _ "[?l]"]) auto
next
  case False
  let ?sup = "gce_common_supported_letters cl (gce_region_names s) (gce_configured_letters s) (required_machine_types (gs_params s))"
  from run on False obtain ranked fresh where r: "rank_letters_by_capacity_advice cl s (gce_region_names s) ?sup = Inr (ranked, fresh)"
    "?sup \<noteq> []" "\<not> length (gce_choose_letters explicit s ?sup ranked) < length (gce_configured_letters s)"
    "s' = set_az (PStr (join '','' (gce_choose_letters explicit s ?sup ranked))) s"
    by (auto simp: gce_resolve_def Let_def split: if_splits sum.splits)
  note shape = choose_letters_shape[OF rank_letters_subset(1)[OF r(1,2)], of explicit s]
  from shape(2) r(3) False have "length (gce_choose_letters explicit s ?sup ranked) = max 1 (length (gce_configured_letters s))"
    by (cases "gce_configured_letters s") auto
  with r(4) shape(1,3) supported_letters_ok show ?thesis by blast
qed

text \<open>Zones b and c exist in the region; zone d is asked for and does not.\<close>

definition sample_gce_cloud :: gce_cloud where
  "sample_gce_cloud = \<lparr>gz_region_zones = (\<lambda>r. Inr [''zones/us-east1-b'', ''zones/us-east1-c'']),
     gz_has_type = (\<lambda>_ t. t = ''n2''), gz_capacity = (\<lambda>_ _ _ _. Inl ''unavailable'')\<rparr>"

definition sample_resolve_state :: "unit gce_state" where
  "sample_resolve_state = \<lparr>gs_env = Map.empty,
     gs_params = (\<lambda>_. PNone)(''gce_datacenter'' := PStr ''us-east1'', ''availability_zone'' := PStr ''d,c'',
       ''gce_instance_type_db'' := PStr ''n2'', ''pre_filter_unavailable_availability_zones'' := PBool True),
     gs_world = ()\<rparr>"

theorem gce_resolve_keeps_rack_count_witness:
  "gce_resolve sample_gce_cloud None 0 sample_resolve_state = (Inr (), set_az (PStr ''c,b'') sample_resolve_state) \<and>
   (\<exists>letters. set_az (PStr ''c,b'') sample_resolve_state = set_az (PStr (join '','' letters)) sample_resolve_state \<and>
     length letters = max 1 (length (gce_configured_letters sample_resolve_state)) \<and>
     (\<forall>l\<in>set letters. \<forall>region\<in>set (gce_region_names sample_resolve_state).
        letter_ok sample_gce_cloud region (required_machine_types (gs_params sample_resolve_state)) l))"
proof -
  have names: "gce_region_names sample_resolve_state = [''us-east1'']"
    "gce_configured_letters sample_resolve_state = [''d'', ''c'']"
    "required_machine_types (gs_params sample_resolve_state) = [''n2'']" by code_simp+
  have on: "truthy (gs_params sample_resolve_state ''pre_filter_unavailable_availability_zones'')" by code_simp
  have sup: "gce_common_supported_letters sample_gce_cloud [''us-east1''] [''d'', ''c''] [''n2''] = [''c'', ''b'']"
    by code_simp
  have r: "rank_letters_by_capacity_advice sample_gce_cloud sample_resolve_state [''us-east1''] [''c'', ''b''] =
    Inr ([''c'', ''b''], False)" by code_simp
  have c: "gce_choose_letters None sample_resolve_state [''c'', ''b''] [''c'', ''b''] = [''c'', ''b'']" by code_simp
  have run: "gce_resolve sample_gce_cloud None 0 sample_resolve_state = (Inr (), set_az (PStr ''c,b'') sample_resolve_state)"
    unfolding gce_resolve_def Let_def using on by (simp add: names sup r c)
  from gce_resolve_keeps_rack_count[OF run on] run show ?thesis by (simp add: names) blast
qed

end
