(* ===== verification/Gce_Fallback.thy ===== *)
theory Gce_Fallback
  imports Gce_Zones
begin

text \<open>
  Capacity fallback on GCE: the binding of the relocation loops to the configuration and to
  provisioning (\<^verbatim>\<open>sdcm/provision/gce/region_fallback.py\<close>).  Provisioning sees the configuration and
  changes the world.
\<close>

section \<open>Relocating\<close>

definition gce_switch_region :: "string \<Rightarrow> string list \<Rightarrow> ('w, unit) gce_comp" where
  "gce_switch_region region az_letters s =
     (Inr (), set_az (PStr (join '','' az_letters)) (set_datacenter region s))"

definition gce_restore_region :: "string option \<Rightarrow> param \<Rightarrow> string option \<Rightarrow> ('w, unit) gce_comp" where
  "gce_restore_region region az env_region s =
     (let s1 = s\<lparr>gs_env := (gs_env s)(datacenter_var := env_region)\<rparr>;
          s2 = (case region of
                  Some r \<Rightarrow> s1\<lparr>gs_params := (gs_params s1)(''gce_datacenter'' := PStr r)\<rparr>
                | None \<Rightarrow> s1)
      in (Inr (), set_az az s2))"

definition gce_switch_dc_region :: "nat \<Rightarrow> string \<Rightarrow> string list \<Rightarrow> ('w, unit) gce_comp" where
  "gce_switch_dc_region dc_index region az_letters s =
     (let datacenters = current_datacenters s in
      if dc_index < length datacenters
      then (Inr (), set_datacenter (join '' '' (datacenters[dc_index := region])) s)
      else (Inl (GceError ''list assignment index out of range''), s))"

text \<open>\<^verbatim>\<open>_failed_dc_index\<close>: the first configured region that occurs in the error message.\<close>

definition failed_dc_index :: "gce_error \<Rightarrow> 'w gce_state \<Rightarrow> nat option" where
  "failed_dc_index e s = (case find (\<lambda>(i, region). region \<noteq> [] \<and> contains region (error_text e))
       (enumerate 0 (current_datacenters s)) of
       Some (i, _) \<Rightarrow> Some i | None \<Rightarrow> None)"

text \<open>
  \<^verbatim>\<open>cleanup_region\<close>: the caller's partial cleanup, then a sweep of the region whose failures are
  only logged.
\<close>

definition on_world :: "('w, gce_error, 'a) comp \<Rightarrow> ('w, 'a) gce_comp" where
  "on_world m s = (case m (gs_world s) of (r, w) \<Rightarrow> (r, s\<lparr>gs_world := w\<rparr>))"

definition gce_cleanup_region ::
    "(string \<Rightarrow> 'w \<Rightarrow> 'w) \<Rightarrow> ('w, gce_error, unit) comp option \<Rightarrow> string option \<Rightarrow> ('w, unit) gce_comp" where
  "gce_cleanup_region sweep partial_cleanup region =
     andthen (case partial_cleanup of Some c \<Rightarrow> on_world c | None \<Rightarrow> return ())
       (\<lambda>_ s. (Inr (), case region of Some r \<Rightarrow> s\<lparr>gs_world := sweep r (gs_world s)\<rparr> | None \<Rightarrow> s))"

section \<open>Zone retry\<close>

text \<open>Provisioning reads the configuration and changes the world.\<close>

type_synonym 'w provision = "(string \<Rightarrow> string option) \<Rightarrow> params \<Rightarrow> ('w, gce_error, unit) comp"

definition plain_provision :: "'w provision \<Rightarrow> ('w, unit) gce_comp" where
  "plain_provision prov s = on_world (prov (gs_env s) (gs_params s)) s"

definition zone_attempt :: "'w provision \<Rightarrow> param \<Rightarrow> ('w, gce_error option) gce_comp" where
  "zone_attempt prov original_az s = (case plain_provision prov s of
       (Inr _, s1) \<Rightarrow> (Inr None, s1)
     | (Inl e, s1) \<Rightarrow> (if \<not> is_capacity_error e then (Inl e, set_az original_az s1) else (Inr (Some e), s1)))"

definition sweep_datacenters :: "(string \<Rightarrow> 'w \<Rightarrow> 'w) \<Rightarrow> 'w gce_state \<Rightarrow> 'w gce_state" where
  "sweep_datacenters sweep s = s\<lparr>gs_world := fold sweep (rev (remdups (rev (current_datacenters s)))) (gs_world s)\<rparr>"

fun zone_retry_loop ::
    "'w provision \<Rightarrow> (string \<Rightarrow> 'w \<Rightarrow> 'w) \<Rightarrow> ('w, gce_error, unit) comp option \<Rightarrow> param \<Rightarrow> string list list \<Rightarrow> gce_error
      \<Rightarrow> ('w, unit) gce_comp" where
  "zone_retry_loop prov sweep partial_cleanup original_az [] last_error s = (Inl last_error, set_az original_az s)"
| "zone_retry_loop prov sweep partial_cleanup original_az (letters # rest) last_error s =
     (case (case partial_cleanup of Some c \<Rightarrow> on_world c | None \<Rightarrow> return ()) s of
        (Inl e, s1) \<Rightarrow> (Inl e, s1)
      | (Inr _, s1) \<Rightarrow>
          (case zone_attempt prov original_az
                  (set_az (PStr (join '','' letters)) (sweep_datacenters sweep s1)) of
             (Inl e, s2) \<Rightarrow> (Inl e, s2)
           | (Inr None, s2) \<Rightarrow> (Inr (), s2)
           | (Inr (Some e), s2) \<Rightarrow> zone_retry_loop prov sweep partial_cleanup original_az rest e s2))"

text \<open>\<open>az_candidates\<close> is \<^verbatim>\<open>get_az_fallback_candidates\<close> on the configuration of that moment.\<close>

definition provision_with_az_fallback ::
    "'w provision \<Rightarrow> (string \<Rightarrow> 'w \<Rightarrow> 'w) \<Rightarrow> ('w, gce_error, unit) comp option
      \<Rightarrow> ('w gce_state \<Rightarrow> string list list) \<Rightarrow> ('w, unit) gce_comp" where
  "provision_with_az_fallback prov sweep partial_cleanup az_candidates s =
     (if \<not> is_az_fallback_enabled (gs_params s) then plain_provision prov s
      else (let original_az = gs_params s ''availability_zone'' in
        case zone_attempt prov original_az s of
          (Inl e, s1) \<Rightarrow> (Inl e, s1)
        | (Inr None, s1) \<Rightarrow> (Inr (), s1)
        | (Inr (Some e), s1) \<Rightarrow>
            zone_retry_loop prov sweep partial_cleanup original_az (az_candidates s1) e s1))"

section \<open>The bound loops\<close>

text \<open>What every entry point is given: provisioning, the sweep of a region, the optional partial cleanup.\<close>

record 'w gce_job =
  gj_cloud :: gce_cloud
  gj_provision :: "'w provision"
  gj_sweep :: "string \<Rightarrow> 'w \<Rightarrow> 'w"
  gj_partial_cleanup :: "('w, gce_error, unit) comp option"

text \<open>\<^verbatim>\<open>provision_once\<close> of the modern path: provisioning wrapped in the zone retry.\<close>

definition gce_provision_once :: "'w gce_job \<Rightarrow> ('w, unit) gce_comp" where
  "gce_provision_once job = provision_with_az_fallback (gj_provision job) (gj_sweep job) (gj_partial_cleanup job)
     (gce_az_fallback_candidates (gj_cloud job))"

definition gce_ops :: "'w gce_job \<Rightarrow> string option \<Rightarrow> param \<Rightarrow> string option \<Rightarrow> ('w gce_state, gce_error) fallback_ops" where
  "gce_ops job region az env_region =
     \<lparr>fo_provision_once = gce_provision_once job,
      fo_switch_region = gce_switch_region,
      fo_restore_region = gce_restore_region region az env_region,
      fo_cleanup_region = gce_cleanup_region (gj_sweep job) (gj_partial_cleanup job),
      fo_is_capacity_error = is_capacity_error,
      fo_error_factory = AllRegionsExhausted\<rparr>"

definition gce_provision_with_region_fallback :: "'w gce_job \<Rightarrow> ('w, unit) gce_comp" where
  "gce_provision_with_region_fallback job s =
     (if length (gce_datacenters s) \<noteq> 1 then (Inl (MultipleDatacenters (gce_datacenters s)), s)
      else (let original = Some (hd (gce_datacenters s)) in
        provision_with_region_fallback
          (gce_ops job original (gs_params s ''availability_zone'') (gs_env s datacenter_var))
          original (gce_region_fallback_candidates (gj_cloud job)) s))"

definition gce_dc_cleanup :: "'w gce_job \<Rightarrow> ('w, unit) gce_comp" where
  "gce_dc_cleanup job =
     andthen (case gj_partial_cleanup job of Some c \<Rightarrow> on_world c | None \<Rightarrow> return ())
       (\<lambda>_ s. (Inr (), sweep_datacenters (gj_sweep job) s))"

definition gce_dc_ops :: "'w gce_job \<Rightarrow> string option \<Rightarrow> param \<Rightarrow> string option \<Rightarrow> ('w gce_state, gce_error) dc_fallback_ops" where
  "gce_dc_ops job region az env_region =
     \<lparr>do_dc_candidates = gce_dc_fallback_candidates (gj_cloud job),
      do_provision_once = gce_provision_once job,
      do_failed_dc_index = failed_dc_index,
      do_switch_dc_region = gce_switch_dc_region,
      do_restore = gce_restore_region region az env_region,
      do_cleanup = gce_dc_cleanup job,
      do_is_capacity_error = is_capacity_error,
      do_error_factory = DcExhausted\<rparr>"

definition gce_provision_with_dc_fallback :: "'w gce_job \<Rightarrow> 'w gce_state \<Rightarrow> ((gce_error + unit) \<times> 'w gce_state) option" where
  "gce_provision_with_dc_fallback job s =
     (let original = (if gce_datacenters s \<noteq> [] then Some (join '' '' (gce_datacenters s)) else None) in
      provision_with_dc_fallback
        (gce_dc_ops job original (gs_params s ''availability_zone'') (gs_env s datacenter_var)) s)"

definition gce_provision_with_fallback :: "'w gce_job \<Rightarrow> 'w gce_state \<Rightarrow> ((gce_error + unit) \<times> 'w gce_state) option" where
  "gce_provision_with_fallback job s =
     (if length (gce_datacenters s) > 1 then gce_provision_with_dc_fallback job s
      else Some (gce_provision_with_region_fallback job s))"

section \<open>What the operations leave alone\<close>

text \<open>The region part of the placement, and the whole of it.\<close>

definition gce_region :: "'w gce_state \<Rightarrow> (string \<Rightarrow> string option) \<times> param" where
  "gce_region s = (gs_env s, gs_params s ''gce_datacenter'')"

definition gce_placement :: "'w gce_state \<Rightarrow> string option \<times> param \<times> param" where
  "gce_placement s = (gs_env s datacenter_var, gs_params s ''gce_datacenter'', gs_params s ''availability_zone'')"

lemma region_set_az [simp]: "gce_region (set_az v s) = gce_region s"
  by (simp add: gce_region_def set_az_def)

lemma region_on_world: "on_world m s = (r, s') \<Longrightarrow> gce_region s' = gce_region s"
  by (auto simp: on_world_def gce_region_def split: prod.splits)

lemma region_sweep [simp]: "gce_region (sweep_datacenters sweep s) = gce_region s"
  by (simp add: sweep_datacenters_def gce_region_def)

lemma region_plain: "plain_provision prov s = (r, s') \<Longrightarrow> gce_region s' = gce_region s"
  unfolding plain_provision_def by (rule region_on_world)

lemma region_zone_attempt:
  assumes "zone_attempt prov az s = (r, s')"
  shows "gce_region s' = gce_region s"
proof -
  obtain res s1 where p: "plain_provision prov s = (res, s1)" by fastforce
  with assms region_plain[OF p] show ?thesis by (auto simp: zone_attempt_def split: sum.splits if_splits)
qed

lemma region_partial:
  "(case pc of Some c \<Rightarrow> on_world c | None \<Rightarrow> return ()) s = (r, s') \<Longrightarrow> gce_region s' = gce_region s"
  by (cases pc) (auto simp: return_def dest: region_on_world)

lemma region_zone_retry:
  "zone_retry_loop prov sweep pc az cs e s = (r, s') \<Longrightarrow> gce_region s' = gce_region s"
proof (induction cs arbitrary: e s)
  case (Cons letters cs)
  obtain res1 s1 where c: "(case pc of Some c \<Rightarrow> on_world c | None \<Rightarrow> return ()) s = (res1, s1)" by fastforce
  let ?t = "set_az (PStr (join '','' letters)) (sweep_datacenters sweep s1)"
  obtain res2 s2 where a: "zone_attempt prov az ?t = (res2, s2)" by fastforce
  have r1: "gce_region s1 = gce_region s" by (rule region_partial[OF c])
  have r2: "gce_region s2 = gce_region s" using region_zone_attempt[OF a] r1 by simp
  show ?case
  proof (cases res1)
    case (Inl e1)
    with Cons.prems c r1 show ?thesis by simp
  next
    case (Inr u)
    note res1 = this
    show ?thesis
    proof (cases "\<exists>ex. res2 = Inr (Some ex)")
      case True
      then obtain ex where "res2 = Inr (Some ex)" ..
      with Cons.prems c a res1 have "zone_retry_loop prov sweep pc az cs ex s2 = (r, s')" by simp
      from Cons.IH[OF this] r2 show ?thesis by simp
    next
      case False
      with Cons.prems c a res1 r2 show ?thesis by (auto split: sum.splits option.splits)
    qed
  qed
qed auto

lemma region_provision_once:
  assumes "gce_provision_once job s = (r, s')"
  shows "gce_region s' = gce_region s"
proof (cases "is_az_fallback_enabled (gs_params s)")
  case False
  with assms region_plain show ?thesis by (auto simp: gce_provision_once_def provision_with_az_fallback_def)
next
  case True
  let ?az = "gs_params s ''availability_zone''"
  obtain res s1 where a: "zone_attempt (gj_provision job) ?az s = (res, s1)" by fastforce
  note r1 = region_zone_attempt[OF a]
  show ?thesis
  proof (cases "\<exists>ex. res = Inr (Some ex)")
    case True
    then obtain ex where "res = Inr (Some ex)" ..
    with assms a \<open>is_az_fallback_enabled (gs_params s)\<close> have
      "zone_retry_loop (gj_provision job) (gj_sweep job) (gj_partial_cleanup job) ?az
         (gce_az_fallback_candidates (gj_cloud job) s1) ex s1 = (r, s')"
      by (simp add: gce_provision_once_def provision_with_az_fallback_def)
    from region_zone_retry[OF this] r1 show ?thesis by simp
  next
    case False
    with assms a \<open>is_az_fallback_enabled (gs_params s)\<close> r1 show ?thesis
      by (auto simp: gce_provision_once_def provision_with_az_fallback_def Let_def split: sum.splits option.splits)
  qed
qed

text \<open>A partial cleanup that does not raise, as the loops require to be able to restore.\<close>

definition quiet :: "('w \<Rightarrow> 'w) option \<Rightarrow> ('w, gce_error, unit) comp option" where
  "quiet pc = map_option (\<lambda>f. \<lambda>w. (Inr (), f w)) pc"

lemma quiet_partial:
  "\<exists>s'. (case quiet pc of Some c \<Rightarrow> on_world c | None \<Rightarrow> return ()) s = (Inr (), s') \<and> gce_region s' = gce_region s"
  by (cases pc) (auto simp: quiet_def return_def on_world_def gce_region_def)

lemma quiet_cleanup:
  "\<exists>s'. gce_cleanup_region sweep (quiet pc) reg s = (Inr (), s') \<and> gce_region s' = gce_region s"
proof -
  obtain s1 where "(case quiet pc of Some c \<Rightarrow> on_world c | None \<Rightarrow> return ()) s = (Inr (), s1)"
    "gce_region s1 = gce_region s" using quiet_partial by blast
  then show ?thesis
    by (cases reg) (simp_all add: gce_cleanup_region_def andthen_def gce_region_def)
qed

lemma quiet_dc_cleanup:
  "\<exists>s'. gce_dc_cleanup (job\<lparr>gj_partial_cleanup := quiet pc\<rparr>) s = (Inr (), s') \<and> gce_region s' = gce_region s"
proof -
  obtain s1 where "(case quiet pc of Some c \<Rightarrow> on_world c | None \<Rightarrow> return ()) s = (Inr (), s1)"
    "gce_region s1 = gce_region s" using quiet_partial by blast
  then show ?thesis by (simp add: gce_dc_cleanup_def andthen_def)
qed

lemma restore_placement:
  "\<exists>s'. gce_restore_region (Some region) az env_region s = (Inr (), s') \<and>
     gce_placement s' = (env_region, PStr region, az)"
  by (simp add: gce_restore_region_def gce_placement_def set_az_def Let_def)

text \<open>The region part determines the datacenters.\<close>

definition datacenters_of :: "(string \<Rightarrow> string option) \<times> param \<Rightarrow> string list" where
  "datacenters_of r = (case fst r datacenter_var of
       Some v \<Rightarrow> split_ws v
     | None \<Rightarrow> split_ws (case snd r of PStr v \<Rightarrow> v | _ \<Rightarrow> []))"

lemma datacenters_of_region: "gce_datacenters s = datacenters_of (gce_region s)"
  by (simp add: gce_datacenters_def datacenters_of_def gce_region_def get_str_def split: option.splits)

interpretation gce_whole: region_backend
    "gce_ops (job\<lparr>gj_partial_cleanup := quiet pc\<rparr>) (Some region) az env_region"
    gce_placement "(env_region, PStr region, az)" "\<lambda>s. datacenters_of (gce_region s)" split_ws
  for job pc region az env_region
proof unfold_locales
  fix s r s'
  assume "fo_provision_once (gce_ops (job\<lparr>gj_partial_cleanup := quiet pc\<rparr>) (Some region) az env_region) s = (r, s')"
  then show "datacenters_of (gce_region s') = datacenters_of (gce_region s)"
    using region_provision_once[of "job\<lparr>gj_partial_cleanup := quiet pc\<rparr>" s r s'] by (simp add: gce_ops_def)
next
  fix oreg s
  show "\<exists>s'. fo_cleanup_region (gce_ops (job\<lparr>gj_partial_cleanup := quiet pc\<rparr>) (Some region) az env_region) oreg s =
      (Inr (), s') \<and> datacenters_of (gce_region s') = datacenters_of (gce_region s)"
    using quiet_cleanup[of "gj_sweep job" pc oreg s] by (auto simp: gce_ops_def)
next
  fix reg letters s
  show "\<exists>s'. fo_switch_region (gce_ops (job\<lparr>gj_partial_cleanup := quiet pc\<rparr>) (Some region) az env_region) reg letters s =
      (Inr (), s') \<and> datacenters_of (gce_region s') = split_ws reg"
    by (simp add: gce_ops_def gce_switch_region_def set_datacenter_def datacenters_of_def gce_region_def set_az_def)
qed (simp add: gce_ops_def restore_placement)

section \<open>Datacenters\<close>

text \<open>The placement of a multi-datacenter cluster is in order: \<open>n\<close> different regions, in parameter and environment.\<close>

definition dc_inv :: "nat \<Rightarrow> 'w gce_state \<Rightarrow> bool" where
  "dc_inv n s \<longleftrightarrow> distinct (current_datacenters s) \<and> length (current_datacenters s) = n \<and>
     gce_datacenters s = current_datacenters s"

lemma dc_inv_region: "gce_region s' = gce_region s \<Longrightarrow> dc_inv n s' = dc_inv n s"
  by (simp add: dc_inv_def gce_region_def current_datacenters_def gce_datacenters_def get_str_def cong: option.case_cong)

lemma rank_regions_shape:
  assumes "gce_rank_regions cl types cnt rs zones = Some ranked"
  shows "set ranked = set rs \<and> length ranked = length rs"
proof (cases "rs = []")
  case False
  define best where "best = (\<lambda>region. case get_zone_advice cl types cnt region (zones region) of
      [] \<Rightarrow> None | a # as \<Rightarrow> Some (foldl max (snd a) (map snd as)))"
  from assms False have r: "ranked = sort_key (\<lambda>r. (- the (best r), r)) (filter (\<lambda>r. best r \<noteq> None) rs) @
      filter (\<lambda>r. best r = None) rs"
    unfolding gce_rank_regions_def best_def[symmetric] Let_def by (simp split: if_splits)
  have "length (filter (\<lambda>r. best r \<noteq> None) rs) + length (filter (\<lambda>r. best r = None) rs) = length rs"
    using sum_length_filter_compl[of "\<lambda>r. best r \<noteq> None" rs] by simp
  moreover have "{x \<in> set rs. best x \<noteq> None} \<union> {x \<in> set rs. best x = None} = set rs" by auto
  ultimately show ?thesis unfolding r by (simp only: length_append length_sort set_append set_sort set_filter)
qed (use assms in \<open>simp add: gce_rank_regions_def\<close>)

lemma ordered_gce_subset:
  "set (gce_ordered_fallback_regions cl p exclude) \<subseteq> set (filter (\<lambda>r. r \<notin> set exclude) supported_gce_regions) \<and>
   length (gce_ordered_fallback_regions cl p exclude) \<le> length (filter (\<lambda>r. r \<notin> set exclude) supported_gce_regions)"
proof -
  let ?rs = "filter (\<lambda>r. r \<notin> set exclude) supported_gce_regions"
  show ?thesis
  proof (cases "gce_rank_regions cl (advised_machine_types p) (advised_size p) ?rs (get_zones_for_region cl)")
    case None
    then have "gce_ordered_fallback_regions cl p exclude = ?rs"
      by (simp only: gce_ordered_fallback_regions_def Let_def option.case if_cancel)
    then show ?thesis by simp
  next
    case (Some ranked)
    then have "gce_ordered_fallback_regions cl p exclude \<in> {?rs, ranked}"
      by (simp only: gce_ordered_fallback_regions_def Let_def option.case split: if_splits) simp
    with rank_regions_shape[OF Some] show ?thesis by (metis empty_iff insert_iff order_refl)
  qed
qed

lemma ordered_gce_regions:
  "set (gce_ordered_fallback_regions cl p exclude) \<subseteq> set supported_gce_regions"
  "length (gce_ordered_fallback_regions cl p exclude) \<le> 4"
proof -
  have "length (filter (\<lambda>r. r \<notin> set exclude) supported_gce_regions) \<le> length supported_gce_regions"
    by (rule length_filter_le)
  then have "length (filter (\<lambda>r. r \<notin> set exclude) supported_gce_regions) \<le> 4" by (simp add: supported_gce_regions_def)
  with ordered_gce_subset[of cl p exclude] show "set (gce_ordered_fallback_regions cl p exclude) \<subseteq> set supported_gce_regions"
    "length (gce_ordered_fallback_regions cl p exclude) \<le> 4"
    by (meson filter_is_subset order_trans)+
qed

lemma ordered_excludes: "x \<in> set exclude \<Longrightarrow> x \<notin> set (gce_ordered_fallback_regions cl p exclude)"
  using ordered_gce_subset[of cl p exclude] by auto

lemma supported_words: "r \<in> set supported_gce_regions \<Longrightarrow> is_word r"
  by (auto simp: supported_gce_regions_def is_word_def is_space_def)

lemma switch_dc_keeps:
  assumes inv: "dc_inv n s" and i: "i < n" and r: "region \<notin> set (current_datacenters s)" "is_word region"
  shows "\<exists>s'. gce_switch_dc_region i region letters s = (Inr (), s') \<and> dc_inv n s' \<and>
     current_datacenters s' = (current_datacenters s)[i := region]"
proof -
  let ?ds = "(current_datacenters s)[i := region]"
  have len: "i < length (current_datacenters s)" using inv i by (simp add: dc_inv_def)
  have "\<forall>x\<in>set ?ds. is_word x"
    using r(2) split_ws_words set_update_subset_insert[of "current_datacenters s" i region]
    by (auto simp: current_datacenters_def)
  then have sj: "split_ws (join '' '' ?ds) = ?ds" by (rule split_ws_join)
  have "distinct ?ds" using inv r(1) by (simp add: dc_inv_def distinct_list_update)
  with inv len sj show ?thesis
    by (simp add: gce_switch_dc_region_def Let_def set_datacenter_def dc_inv_def current_datacenters_def
        gce_datacenters_def get_str_def)
qed

lemma dc_probe_facts:
  assumes "p \<in> set (gce_dc_fallback_candidates cl i s0)" "p s = (Inr oc, s')"
  shows "s' = s \<and> (\<forall>region letters. oc = Some (region, letters) \<longrightarrow>
     region \<in> set supported_gce_regions \<and> region \<notin> set (gce_region_names s))"
proof -
  from assms(1) obtain region configured types where p: "p = dc_probe cl configured types region"
    "region \<in> set (gce_ordered_fallback_regions cl (gs_params s0) [])"
    by (auto simp: gce_dc_fallback_candidates_def split: if_splits)
  with ordered_gce_regions(1) have "region \<in> set supported_gce_regions" by blast
  with assms(2) show ?thesis unfolding p(1)
    by (auto simp: dc_probe_def Let_def split: if_splits)
qed

lemma failed_index_bound: "failed_dc_index e s = Some i \<Longrightarrow> i < length (current_datacenters s)"
  by (auto simp: failed_dc_index_def find_Some_iff nth_enumerate_eq split: option.splits)

interpretation gce_dc: dc_backend
    "gce_dc_ops (job\<lparr>gj_partial_cleanup := quiet pc\<rparr>) (Some region) az env_region"
    gce_placement "(env_region, PStr region, az)" "dc_inv n" n 4
  for job :: "'w gce_job" and pc region az env_region n
proof unfold_locales
  fix s :: "'w gce_state" and r s'
  assume "dc_inv n s"
    "do_provision_once (gce_dc_ops (job\<lparr>gj_partial_cleanup := quiet pc\<rparr>) (Some region) az env_region) s = (r, s')"
  then show "dc_inv n s'"
    using region_provision_once[of "job\<lparr>gj_partial_cleanup := quiet pc\<rparr>" s r s'] dc_inv_region[of s' s n]
    by (simp add: gce_dc_ops_def)
next
  fix s :: "'w gce_state" assume "dc_inv n s"
  then show "\<exists>s'. do_cleanup (gce_dc_ops (job\<lparr>gj_partial_cleanup := quiet pc\<rparr>) (Some region) az env_region) s =
      (Inr (), s') \<and> dc_inv n s'"
    using quiet_dc_cleanup[of pc job s] dc_inv_region[of _ s n] by (auto simp: gce_dc_ops_def)
next
  fix s :: "'w gce_state" and ex i
  assume "dc_inv n s"
    "do_failed_dc_index (gce_dc_ops (job\<lparr>gj_partial_cleanup := quiet pc\<rparr>) (Some region) az env_region) ex s = Some i"
  then show "i < n" using failed_index_bound[of ex s i] by (simp add: gce_dc_ops_def dc_inv_def)
next
  fix i and s :: "'w gce_state"
  show "length (do_dc_candidates (gce_dc_ops (job\<lparr>gj_partial_cleanup := quiet pc\<rparr>) (Some region) az env_region) i s) \<le> 4"
    by (simp add: gce_dc_ops_def gce_dc_fallback_candidates_def ordered_gce_regions(2))
next
  fix s s0 s' :: "'w gce_state" and p i
  assume "dc_inv n s"
    "p \<in> set (do_dc_candidates (gce_dc_ops (job\<lparr>gj_partial_cleanup := quiet pc\<rparr>) (Some region) az env_region) i s0)"
    "p s = (Inr None, s')"
  then show "dc_inv n s'" using dc_probe_facts[of p _ i s0 s None s'] by (simp add: gce_dc_ops_def)
next
  fix s s0 s' :: "'w gce_state" and i p reg letters
  assume a: "dc_inv n s" "i < n"
    "p \<in> set (do_dc_candidates (gce_dc_ops (job\<lparr>gj_partial_cleanup := quiet pc\<rparr>) (Some region) az env_region) i s0)"
    "p s = (Inr (Some (reg, letters)), s')"
  then have f: "s' = s" "reg \<in> set supported_gce_regions" "reg \<notin> set (gce_region_names s)"
    using dc_probe_facts[of p _ i s0 s "Some (reg, letters)" s'] by (simp_all add: gce_dc_ops_def)
  from a(1,2) have "gce_region_names s = current_datacenters s" by (auto simp: gce_region_names_def dc_inv_def)
  with f switch_dc_keeps[OF a(1,2), of reg letters] supported_words show
    "\<exists>s''. do_switch_dc_region (gce_dc_ops (job\<lparr>gj_partial_cleanup := quiet pc\<rparr>) (Some region) az env_region) i reg letters s' =
      (Inr (), s'') \<and> dc_inv n s''"
    by (auto simp: gce_dc_ops_def)
qed (simp add: gce_dc_ops_def restore_placement)

lemma split_ws_single: "is_word w \<Longrightarrow> split_ws w = [w]"
  using split_ws_join[of "[w]"] by simp

lemma region_candidate:
  assumes "yields (gce_region_fallback_candidates cl s) (reg, letters)" "gce_datacenters s = [region]"
  shows "reg \<in> set supported_gce_regions \<and> reg \<noteq> region"
proof -
  from assms have "reg \<in> set (gce_ordered_fallback_regions cl (gs_params s) [region])"
    by (auto simp: yields_def gce_region_fallback_candidates_def gce_region_names_def Let_def region_probe_def
        split: if_splits)
  moreover have "region \<notin> set (gce_ordered_fallback_regions cl (gs_params s) [region])"
    using ordered_excludes by simp
  ultimately show ?thesis using ordered_gce_regions(1) by blast
qed

lemma region_fallback_outcome:
  fixes s :: "'w gce_state"
  assumes home: "gce_datacenters s = [region]"
    and run: "gce_provision_with_region_fallback (job\<lparr>gj_partial_cleanup := quiet pc\<rparr>) s = (r, s')"
  shows "case r of
      Inl _ \<Rightarrow> gce_placement s' = (gs_env s datacenter_var, PStr region, gs_params s ''availability_zone'')
    | Inr _ \<Rightarrow> gce_datacenters s' = [region] \<or>
        (\<exists>other \<in> set supported_gce_regions - {region}. gce_datacenters s' = [other])"
proof -
  let ?job = "job\<lparr>gj_partial_cleanup := quiet pc\<rparr>"
  from home run have "provision_with_region_fallback
      (gce_ops ?job (Some region) (gs_params s ''availability_zone'') (gs_env s datacenter_var))
      (Some region) (gce_region_fallback_candidates (gj_cloud job)) s = (r, s')"
    by (simp add: gce_provision_with_region_fallback_def Let_def)
  note f = gce_whole.region_fallback_facts[OF this]
  show ?thesis
  proof (cases r)
    case (Inl e)
    with f show ?thesis by simp
  next
    case (Inr u)
    show ?thesis
    proof (cases "gce_datacenters s' = [region]")
      case False
      with f Inr home have "\<exists>(s1 :: 'w gce_state) reg letters. gce_datacenters s1 = [region] \<and>
        yields (gce_region_fallback_candidates (gj_cloud job) s1) (reg, letters) \<and> gce_datacenters s' = split_ws reg"
        by (simp add: datacenters_of_region)
      then obtain s1 :: "'w gce_state" and reg letters where c: "gce_datacenters s1 = [region]"
        "yields (gce_region_fallback_candidates (gj_cloud job) s1) (reg, letters)" "gce_datacenters s' = split_ws reg"
        by blast
      from region_candidate[OF c(2,1)] c(3) split_ws_single[OF supported_words] have
        "reg \<in> set supported_gce_regions - {region}" "gce_datacenters s' = [reg]" by simp_all
      with Inr show ?thesis by auto
    qed (simp add: Inr)
  qed
qed

lemma dc_fallback_outcome:
  assumes inv: "dc_inv n s" and n: "n \<noteq> 0"
  shows "\<exists>r s'. gce_provision_with_dc_fallback (job\<lparr>gj_partial_cleanup := quiet pc\<rparr>) s = Some (r, s') \<and>
    (case r of
      Inl _ \<Rightarrow> gce_placement s' =
        (gs_env s datacenter_var, PStr (join '' '' (gce_datacenters s)), gs_params s ''availability_zone'')
    | Inr _ \<Rightarrow> dc_inv n s')"
proof -
  have ne: "gce_datacenters s \<noteq> []" using inv n by (auto simp: dc_inv_def)
  from gce_dc.dc_fallback_facts[OF inv] show ?thesis
    unfolding gce_provision_with_dc_fallback_def Let_def if_P[OF ne] .
qed

section \<open>Properties\<close>

text \<open>C34: \<^verbatim>\<open>provision_with_region_fallback\<close> on GCE, for a single-region cluster and a partial cleanup
  that does not raise: whatever provisioning does, a raised error leaves the environment variable, the
  region parameter and the availability zone as they were before the call, and a normal return
  leaves the cluster either in its own region or in one other supported region.\<close>

theorem gce_region_fallback_restores:
  assumes "gce_datacenters s = [region]"
  shows "case gce_provision_with_region_fallback (job\<lparr>gj_partial_cleanup := quiet pc\<rparr>) s of
      (Inl _, s') \<Rightarrow> gce_placement s' = (gs_env s datacenter_var, PStr region, gs_params s ''availability_zone'')
    | (Inr _, s') \<Rightarrow> gce_datacenters s' = [region] \<or>
        (\<exists>other \<in> set supported_gce_regions - {region}. gce_datacenters s' = [other])"
  using region_fallback_outcome[OF assms, of pc job] by (auto split: prod.splits sum.splits)

text \<open>C23: \<^verbatim>\<open>provision_with_fallback\<close> on GCE returns for every cluster whose configured regions are
  distinct, whatever provisioning does.  When it raises, the original placement is back; when it
  returns, the cluster still has as many distinct regions as it was configured with.\<close>

theorem gce_fallback_terminates:
  assumes "dc_inv n s" "n \<noteq> 0"
  shows "\<exists>r s'. gce_provision_with_fallback (job\<lparr>gj_partial_cleanup := quiet pc\<rparr>) s = Some (r, s') \<and>
    (case r of
      Inl _ \<Rightarrow> gce_placement s' =
        (gs_env s datacenter_var, PStr (join '' '' (gce_datacenters s)), gs_params s ''availability_zone'')
    | Inr _ \<Rightarrow> distinct (gce_datacenters s') \<and> length (gce_datacenters s') = n)"
proof (cases "length (gce_datacenters s) > 1")
  case True
  from dc_fallback_outcome[OF assms, of pc job] obtain r s' where
    "gce_provision_with_dc_fallback (job\<lparr>gj_partial_cleanup := quiet pc\<rparr>) s = Some (r, s')"
    "case r of
        Inl _ \<Rightarrow> gce_placement s' =
          (gs_env s datacenter_var, PStr (join '' '' (gce_datacenters s)), gs_params s ''availability_zone'')
      | Inr _ \<Rightarrow> dc_inv n s'" by blast
  with True show ?thesis by (cases r) (simp_all add: gce_provision_with_fallback_def dc_inv_def)
next
  case False
  with assms obtain region where h: "gce_datacenters s = [region]" "n = 1"
    by (cases "current_datacenters s") (auto simp: dc_inv_def)
  obtain r s' where run: "gce_provision_with_region_fallback (job\<lparr>gj_partial_cleanup := quiet pc\<rparr>) s = (r, s')" by fastforce
  from region_fallback_outcome[OF h(1) run] run h show ?thesis
    by (cases r) (auto simp: gce_provision_with_fallback_def)
qed

text \<open>Two regions; provisioning always runs out of capacity in the first one it was configured with.\<close>

definition sample_gce_state :: "nat gce_state" where
  "sample_gce_state = \<lparr>gs_env = Map.empty,
     gs_params = (\<lambda>_. PNone)(''gce_datacenter'' := PStr ''us-east1 us-west1'', ''availability_zone'' := PStr ''b''),
     gs_world = 0\<rparr>"

definition sample_gce_job :: "nat gce_job" where
  "sample_gce_job = \<lparr>gj_cloud = \<lparr>gz_region_zones = (\<lambda>r. Inr [r @ ''-b'', r @ ''-c'']), gz_has_type = (\<lambda>_ _. True),
       gz_capacity = (\<lambda>_ _ _ _. Inr [])\<rparr>,
     gj_provision = (\<lambda>_ p w. if contains ''us-east1'' (get_str p ''gce_datacenter'')
        then (Inl (ProvisionError ''stockout in us-east1''), Suc w) else (Inr (), Suc w)),
     gj_sweep = (\<lambda>_ w. w), gj_partial_cleanup = None\<rparr>"

theorem gce_region_fallback_restores_witness:
  "gce_datacenters (set_datacenter ''us-east1'' sample_gce_state) = [''us-east1''] \<and>
   (case gce_provision_with_region_fallback (sample_gce_job\<lparr>gj_partial_cleanup := quiet None\<rparr>)
      (set_datacenter ''us-east1'' sample_gce_state) of
      (Inl _, s') \<Rightarrow> gce_placement s' = (Some ''us-east1'', PStr ''us-east1'', PStr ''b'')
    | (Inr _, s') \<Rightarrow> gce_datacenters s' = [''us-east1''] \<or>
        (\<exists>other \<in> set supported_gce_regions - {''us-east1''}. gce_datacenters s' = [other]))"
proof -
  have h: "gce_datacenters (set_datacenter ''us-east1'' sample_gce_state) = [''us-east1'']" by code_simp
  have e: "gs_env (set_datacenter ''us-east1'' sample_gce_state) datacenter_var = Some ''us-east1''"
    "gs_params (set_datacenter ''us-east1'' sample_gce_state) ''availability_zone'' = PStr ''b''"
    by (simp_all add: set_datacenter_def sample_gce_state_def)
  from gce_region_fallback_restores[OF h, of None sample_gce_job] h show ?thesis by (simp only: e simp_thms)
qed

theorem gce_fallback_terminates_witness:
  "dc_inv 2 sample_gce_state \<and> (2::nat) \<noteq> 0 \<and>
   (\<exists>r s'. gce_provision_with_fallback (sample_gce_job\<lparr>gj_partial_cleanup := quiet None\<rparr>) sample_gce_state = Some (r, s') \<and>
    (case r of
      Inl _ \<Rightarrow> gce_placement s' = (gs_env sample_gce_state datacenter_var,
        PStr (join '' '' (gce_datacenters sample_gce_state)), gs_params sample_gce_state ''availability_zone'')
    | Inr _ \<Rightarrow> distinct (gce_datacenters s') \<and> length (gce_datacenters s') = 2))"
proof -
  have h: "dc_inv 2 sample_gce_state" by code_simp
  moreover have n: "(2::nat) \<noteq> 0" by simp
  ultimately show ?thesis using gce_fallback_terminates[OF h n, of None sample_gce_job] by blast
qed

end
