(* ===== verification/Aws_Provisioner.thy ===== *)
theory Aws_Provisioner
  imports Az_Resolver Region_Fallback
begin

text \<open>
  Launching instances on AWS: the errors capacity fallback looks at
  (\<^verbatim>\<open>sdcm/provision/aws/capacity_errors.py\<close>), on-demand and spot requests
  (\<^verbatim>\<open>sdcm/provision/aws/provisioner.py\<close> with the helpers of \<^verbatim>\<open>sdcm/provision/aws/utils.py\<close>) and the plan
  that falls back from spot to on-demand (\<^verbatim>\<open>sdcm/provision/common/provision_plan.py\<close>).

  EC2 is a parameter: a record of computations on a world.  The parameters of an instance are opaque
  except for the instance type.
\<close>

section \<open>Errors\<close>

text \<open>A \<^verbatim>\<open>ClientError\<close> has the code of its response and a text; errors of the zone resolver are kept apart.\<close>

datatype aws_kind =
    ClientError string string
  | CapacityExhausted
  | RegionAMINotFoundError
  | CapacityReservationError
  | AssertionError
  | IndexError
  | ValueError
  | ResolverError az_error
  | OtherError string

text \<open>An exception with the tag of \<^verbatim>\<open>attach_failed_region\<close>.\<close>

record aws_exn =
  ex_kind :: aws_kind
  ex_failed_region :: "string option"
  ex_failed_az :: "string option"

definition exn :: "aws_kind \<Rightarrow> aws_exn" where
  "exn k = \<lparr>ex_kind = k, ex_failed_region = None, ex_failed_az = None\<rparr>"

definition capacity_error_codes :: "string list" where
  "capacity_error_codes = [''InsufficientInstanceCapacity'', ''Unsupported'', ''InsufficientCapacity'']"

definition is_letter :: "char \<Rightarrow> bool" where
  "is_letter c = (let n = (of_char c :: nat) in (65 \<le> n \<and> n \<le> 90) \<or> (97 \<le> n \<and> n \<le> 122))"

text \<open>\<^verbatim>\<open>re.findall(r"An error occurred \(([A-Za-z]+)\)", text)\<close>\<close>

definition code_at :: "string \<Rightarrow> (string \<times> string) option" where
  "code_at s =
     (let lead = ''An error occurred (''; rest = drop (length lead) s; after = dropWhile is_letter rest
      in if startswith s lead \<and> takeWhile is_letter rest \<noteq> [] \<and> after \<noteq> [] \<and> hd after = CHR '')''
         then Some (takeWhile is_letter rest, tl after) else None)"

lemma code_at_shorter:
  assumes "code_at s = Some (code, rest)"
  shows "length rest < length s"
proof -
  have *: "\<And>t :: string. length (dropWhile is_letter (drop k t)) \<le> length t" for k
    using length_dropWhile_le le_trans length_drop diff_le_self by metis
  from assms obtain k where "rest = tl (dropWhile is_letter (drop k s))" "dropWhile is_letter (drop k s) \<noteq> []"
    unfolding code_at_def Let_def by (metis option.distinct(1) option.inject prod.inject)
  with *[of k s] show ?thesis by (cases "dropWhile is_letter (drop k s)") auto
qed

function error_codes :: "string \<Rightarrow> string list" where
  "error_codes [] = []"
| "error_codes (c # s) = (case code_at (c # s) of
       Some (code, rest) \<Rightarrow> code # error_codes rest
     | None \<Rightarrow> error_codes s)"
  by pat_completeness auto
termination by (relation "measure length") (auto dest: code_at_shorter)

declare error_codes.simps [simp del]

definition is_client_error :: "aws_exn \<Rightarrow> bool" where
  "is_client_error e = (case ex_kind e of ClientError _ _ \<Rightarrow> True | _ \<Rightarrow> False)"

definition is_aws_capacity_error :: "aws_exn \<Rightarrow> bool" where
  "is_aws_capacity_error e = (case ex_kind e of
       ClientError code text \<Rightarrow> list_ex (\<lambda>c. c \<in> set capacity_error_codes) (code # error_codes text)
     | _ \<Rightarrow> False)"

definition attach_failed_region :: "string option \<Rightarrow> string option \<Rightarrow> aws_exn \<Rightarrow> aws_exn" where
  "attach_failed_region region az e = e\<lparr>ex_failed_region := region, ex_failed_az := az\<rparr>"

definition get_failed_region :: "aws_exn \<Rightarrow> string option" where
  "get_failed_region e = ex_failed_region e"

section \<open>EC2\<close>

type_synonym tags = "string dict"

text \<open>The states of a spot request and of a fleet request as EC2 describes them.\<close>

record spot_state =
  sq_code :: string
  sq_state :: string
  sq_instance :: string

record fleet_state =
  fs_state :: string
  fs_activity :: "string option"
  fs_id :: string

text \<open>An on-demand request: the reservation and the host it targets, if any.\<close>

record 'p launch =
  la_region :: string
  la_params :: 'p
  la_count :: nat
  la_tags :: tags
  la_reservation :: "string option"
  la_host :: "string option"

type_synonym ('w, 'a) aws = "('w, aws_exn, 'a) comp"

record ('w, 'p) ec2 =
  ec_type :: "'p \<Rightarrow> string"
  ec_create_instances :: "'p launch \<Rightarrow> ('w, string list) aws"
  ec_request_spot :: "string \<Rightarrow> nat \<Rightarrow> 'p \<Rightarrow> string \<Rightarrow> tags \<Rightarrow> ('w, string list) aws"
  ec_request_fleet :: "string \<Rightarrow> nat \<Rightarrow> 'p \<Rightarrow> tags \<Rightarrow> ('w, string) aws"
  ec_describe_spot :: "string \<Rightarrow> string list \<Rightarrow> ('w, spot_state list) aws"
  ec_describe_fleet :: "string \<Rightarrow> string list \<Rightarrow> ('w, fleet_state list) aws"
  ec_fleet_history :: "string \<Rightarrow> string \<Rightarrow> ('w, string list) aws"
  ec_fleet_instances :: "string \<Rightarrow> string \<Rightarrow> ('w, string list) aws"
  ec_cancel_spot :: "string \<Rightarrow> string list \<Rightarrow> ('w, unit) aws"
  ec_cancel_fleet :: "string \<Rightarrow> string \<Rightarrow> bool \<Rightarrow> ('w, unit) aws"
  ec_create_tags :: "string \<Rightarrow> string \<Rightarrow> tags \<Rightarrow> ('w, unit) aws"
  ec_tag_rounds :: "'w \<Rightarrow> nat"
  ec_sleep :: "nat \<Rightarrow> 'w \<Rightarrow> 'w"
  ec_reservation :: "string \<Rightarrow> string \<Rightarrow> 'w \<Rightarrow> string option"
  ec_host :: "string \<Rightarrow> string \<Rightarrow> 'w \<Rightarrow> string option"
  ec_outcome :: "string \<Rightarrow> string option \<Rightarrow> string \<Rightarrow> string \<Rightarrow> string \<Rightarrow> nat \<Rightarrow> 'w \<Rightarrow> 'w"

section \<open>Tags\<close>

text \<open>
  \<^verbatim>\<open>set_tags_on_instances\<close> retries until its deadline of 20 seconds; \<open>ec_tag_rounds\<close> is the number of times
  the clock lets it go round.
\<close>

fun set_tags_rounds :: "('w, 'p) ec2 \<Rightarrow> string \<Rightarrow> string \<Rightarrow> tags \<Rightarrow> nat \<Rightarrow> ('w, bool) aws" where
  "set_tags_rounds ec region iid tags 0 w = (Inr False, w)"
| "set_tags_rounds ec region iid tags (Suc n) w =
     (case ec_create_tags ec region iid tags w of
        (Inr _, w1) \<Rightarrow> (Inr True, w1)
      | (Inl e, w1) \<Rightarrow> if is_client_error e then set_tags_rounds ec region iid tags n w1 else (Inl e, w1))"

definition set_tags_on_instances :: "('w, 'p) ec2 \<Rightarrow> string \<Rightarrow> string \<Rightarrow> tags \<Rightarrow> ('w, bool) aws" where
  "set_tags_on_instances ec region iid tags w = set_tags_rounds ec region iid tags (ec_tag_rounds ec w) w"

text \<open>The loops over new instances: each takes the last of the remaining tags; the rest is left in the list.\<close>

fun tag_instances :: "('w, 'p) ec2 \<Rightarrow> string \<Rightarrow> string \<Rightarrow> nat \<Rightarrow> string list \<Rightarrow> tags list \<Rightarrow> ('w, tags list) aws" where
  "tag_instances ec pre region ind [] tags w = (Inr tags, w)"
| "tag_instances ec pre region ind (i # is) tags w =
     (if tags = [] then (Inl (exn IndexError), w)
      else case set_tags_on_instances ec region i
             (dict_update [(''Name'', pre @ i @ ''_'' @ show_nat ind)] (last tags)) w of
        (Inl e, w1) \<Rightarrow> (Inl e, w1)
      | (Inr _, w1) \<Rightarrow> tag_instances ec pre region (Suc ind) is (butlast tags) w1)"

text \<open>\<^verbatim>\<open>for node_id, name in enumerate(names): tags[node_id]["Name"] = name\<close>\<close>

definition set_names :: "string list \<Rightarrow> tags list \<Rightarrow> tags list" where
  "set_names names tags =
     map (\<lambda>(name, tag). AList.update ''Name'' name tag) (zip names tags) @ drop (length names) tags"

section \<open>On-demand instances\<close>

definition provision_on_demand_instances ::
    "('w, 'p) ec2 \<Rightarrow> string \<Rightarrow> string \<Rightarrow> 'p \<Rightarrow> nat \<Rightarrow> tags list \<Rightarrow> ('w, string list) aws" where
  "provision_on_demand_instances ec region az ip n tags w =
     (if tags = [] then (Inl (exn IndexError), w)
      else case ec_create_instances ec
             \<lparr>la_region = region, la_params = ip, la_count = n, la_tags = hd tags,
              la_reservation = ec_reservation ec az (ec_type ec ip) w,
              la_host = ec_host ec (region @ az) (ec_type ec ip) w\<rparr> w of
        (Inl e, w1) \<Rightarrow> (Inl e, w1)
      | (Inr ids, w1) \<Rightarrow>
          (case tag_instances ec ''spot_fleet_'' region 0 ids tags w1 of
             (Inl e, w2) \<Rightarrow> (Inl e, w2)
           | (Inr _, w2) \<Rightarrow> (Inr ids, w2)))"

section \<open>Waiting for spot requests\<close>

definition status_fulfilled :: string where
  "status_fulfilled = ''fulfilled''"

definition spot_status_unexpected_error :: string where
  "spot_status_unexpected_error = ''error''"

definition fatal_spot_codes :: "string list" where
  "fatal_spot_codes = [''price-too-low'', ''capacity-not-available'']"

definition fatal_fleet_errors :: "string list" where
  "fatal_fleet_errors = [''spotInstanceCountLimitExceeded'', ''capacity-not-available'']"

text \<open>The instances so far: \<^term>\<open>Some []\<close> asks for another round, \<^const>\<open>None\<close> gives up.\<close>

fun scan_spot_requests :: "string list \<Rightarrow> spot_state list \<Rightarrow> string list option" where
  "scan_spot_requests provisioned [] = Some provisioned"
| "scan_spot_requests provisioned (r # rs) =
     (if sq_code r \<noteq> status_fulfilled \<or> sq_state r \<noteq> ''active''
      then (if sq_code r \<in> set fatal_spot_codes then None else Some [])
      else scan_spot_requests (provisioned @ [sq_instance r]) rs)"

definition get_provisioned_spot_instance_ids ::
    "('w, 'p) ec2 \<Rightarrow> string \<Rightarrow> string list \<Rightarrow> 'w \<Rightarrow> string list option \<times> 'w" where
  "get_provisioned_spot_instance_ids ec region ids w = (case ec_describe_spot ec region ids w of
       (Inl _, w1) \<Rightarrow> (Some [], w1)
     | (Inr rs, w1) \<Rightarrow> (scan_spot_requests [] rs, w1))"

fun fleet_instance_ids :: "('w, 'p) ec2 \<Rightarrow> string \<Rightarrow> string list \<Rightarrow> string list \<Rightarrow> 'w \<Rightarrow> string list option \<times> 'w" where
  "fleet_instance_ids ec region [] provisioned w = (Some provisioned, w)"
| "fleet_instance_ids ec region (i # is) provisioned w = (case ec_fleet_instances ec region i w of
       (Inl _, w1) \<Rightarrow> (None, w1)
     | (Inr ids, w1) \<Rightarrow> fleet_instance_ids ec region is (provisioned @ ids) w1)"

text \<open>The first request that is not fulfilled decides; \<open>ids\<close> are the requests asked about.\<close>

fun scan_fleet_requests ::
    "('w, 'p) ec2 \<Rightarrow> string \<Rightarrow> string list \<Rightarrow> fleet_state list \<Rightarrow> 'w \<Rightarrow> string list option \<times> 'w" where
  "scan_fleet_requests ec region ids [] w = fleet_instance_ids ec region ids [] w"
| "scan_fleet_requests ec region ids (r # rs) w =
     (if fs_state r = ''active'' \<and> fs_activity r = Some status_fulfilled then scan_fleet_requests ec region ids rs w
      else if fs_activity r = Some spot_status_unexpected_error then
        (case ec_fleet_history ec region (fs_id r) w of
           (Inl _, w1) \<Rightarrow> (Some [], w1)
         | (Inr errors, w1) \<Rightarrow> (if list_ex (\<lambda>e. e \<in> set errors) fatal_fleet_errors then None else Some [], w1))
      else (Some [], w))"

definition get_provisioned_fleet_instance_ids ::
    "('w, 'p) ec2 \<Rightarrow> string \<Rightarrow> string list \<Rightarrow> 'w \<Rightarrow> string list option \<times> 'w" where
  "get_provisioned_fleet_instance_ids ec region ids w = (case ec_describe_fleet ec region ids w of
       (Inl _, w1) \<Rightarrow> (Some [], w1)
     | (Inr rs, w1) \<Rightarrow> scan_fleet_requests ec region ids rs w1)"

definition spot_request_timeout :: nat where
  "spot_request_timeout = 300"

definition spot_request_waiting_time :: nat where
  "spot_request_waiting_time = 5"

function wait_loop :: "(nat \<Rightarrow> 'w \<Rightarrow> 'w) \<Rightarrow> ('w \<Rightarrow> string list option \<times> 'w) \<Rightarrow> nat \<Rightarrow> 'w \<Rightarrow> string list option \<times> 'w" where
  "wait_loop sleep poll waited w =
     (if waited < spot_request_timeout
      then (case poll (sleep spot_request_waiting_time w) of
              (None, w1) \<Rightarrow> (None, w1)
            | (Some ids, w1) \<Rightarrow>
                (if ids = [] then wait_loop sleep poll (waited + spot_request_waiting_time) w1 else (Some ids, w1)))
      else (Some [], w))"
  by pat_completeness auto
termination
  by (relation "measure (\<lambda>(_, _, waited, _). spot_request_timeout - waited)")
    (auto simp: spot_request_timeout_def spot_request_waiting_time_def)

declare wait_loop.simps [simp del]

text \<open>\<^verbatim>\<open>wait_for_provision_request_done\<close>; the callers only test the result for truth.\<close>

definition wait_for_provision_request_done ::
    "('w, 'p) ec2 \<Rightarrow> string \<Rightarrow> string list \<Rightarrow> bool \<Rightarrow> 'w \<Rightarrow> string list option \<times> 'w" where
  "wait_for_provision_request_done ec region ids is_fleet =
     wait_loop (ec_sleep ec)
       (if is_fleet then get_provisioned_fleet_instance_ids ec region ids
        else get_provisioned_spot_instance_ids ec region ids) 0"

section \<open>Spot requests\<close>

text \<open>Both kinds of request return the instances and the tags that are left.\<close>

definition execute_spot_fleet_instance_request ::
    "('w, 'p) ec2 \<Rightarrow> string \<Rightarrow> 'p \<Rightarrow> nat \<Rightarrow> tags list \<Rightarrow> ('w, string list \<times> tags list) aws" where
  "execute_spot_fleet_instance_request ec region ip n tags w =
     (if tags = [] then (Inl (exn IndexError), w)
      else case ec_request_fleet ec region n ip (hd tags) w of
        (Inl e, w1) \<Rightarrow> (Inl e, w1)
      | (Inr request, w1) \<Rightarrow>
          (case wait_for_provision_request_done ec region [request] True w1 of
             (Some ids, w2) \<Rightarrow>
               (if ids = [] then (Inr ([], tags), snd (ec_cancel_fleet ec region request True w2))
                else case tag_instances ec ''spot_fleet_'' region 0 ids tags w2 of
                  (Inl e, w3) \<Rightarrow> (Inl e, w3)
                | (Inr rest, w3) \<Rightarrow>
                    (case ec_cancel_fleet ec region request False w3 of
                       (Inl e, w4) \<Rightarrow> (Inl e, w4)
                     | (Inr _, w4) \<Rightarrow> (Inr (ids, rest), w4)))
           | (None, w2) \<Rightarrow> (Inr ([], tags), snd (ec_cancel_fleet ec region request True w2))))"

definition execute_spot_instance_request ::
    "('w, 'p) ec2 \<Rightarrow> string \<Rightarrow> string \<Rightarrow> 'p \<Rightarrow> nat \<Rightarrow> tags list \<Rightarrow> ('w, string list \<times> tags list) aws" where
  "execute_spot_instance_request ec region az ip n tags w =
     (if tags = [] then (Inl (exn IndexError), w)
      else case ec_request_spot ec region n ip (region @ az) (hd tags) w of
        (Inl e, w1) \<Rightarrow> (Inl e, w1)
      | (Inr requests, w1) \<Rightarrow>
          (case wait_for_provision_request_done ec region requests False w1 of
             (Some ids, w2) \<Rightarrow>
               (if ids = [] then (Inr ([], tags), snd (ec_cancel_spot ec region requests w2))
                else case tag_instances ec ''spot_'' region 0 ids tags w2 of
                  (Inl e, w3) \<Rightarrow> (Inl e, w3)
                | (Inr rest, w3) \<Rightarrow>
                    (case ec_cancel_spot ec region requests w3 of
                       (Inl e, w4) \<Rightarrow> (Inl e, w4)
                     | (Inr _, w4) \<Rightarrow> (Inr (ids, rest), w4)))
           | (None, w2) \<Rightarrow> (Inr ([], tags), snd (ec_cancel_spot ec region requests w2))))"

definition spot_cnt_limit :: nat where
  "spot_cnt_limit = 10"

definition spot_fleet_limit :: nat where
  "spot_fleet_limit = 500"

definition is_provision_type_fleet :: "nat \<Rightarrow> bool" where
  "is_provision_type_fleet n = (n > spot_cnt_limit)"

definition provision_instance_limit :: "nat \<Rightarrow> nat" where
  "provision_instance_limit n = (if is_provision_type_fleet n then spot_fleet_limit else spot_cnt_limit)"

lemma limit_pos [simp]: "provision_instance_limit n > 0"
  by (simp add: provision_instance_limit_def spot_fleet_limit_def spot_cnt_limit_def)

definition instances_to_provision :: "nat \<Rightarrow> nat \<Rightarrow> nat" where
  "instances_to_provision n rest =
     (if rest div provision_instance_limit n \<noteq> 0 then provision_instance_limit n else rest)"

lemma instances_to_provision_bounds:
  "rest > 0 \<Longrightarrow> 0 < instances_to_provision n rest \<and> instances_to_provision n rest \<le> rest \<and>
     instances_to_provision n rest \<le> provision_instance_limit n"
  by (auto simp: instances_to_provision_def div_eq_0_iff)

text \<open>One request of the loop, then the loop; \<open>n\<close> is the number of instances asked for in total.\<close>

definition spot_request ::
    "('w, 'p) ec2 \<Rightarrow> string \<Rightarrow> string \<Rightarrow> 'p \<Rightarrow> nat \<Rightarrow> nat \<Rightarrow> tags list \<Rightarrow> ('w, string list \<times> tags list) aws" where
  "spot_request ec region az ip n k tags =
     (if is_provision_type_fleet n \<and> k > 1 then execute_spot_fleet_instance_request ec region ip k tags
      else execute_spot_instance_request ec region az ip k tags)"

function spot_loop ::
    "('w, 'p) ec2 \<Rightarrow> string \<Rightarrow> string \<Rightarrow> 'p \<Rightarrow> nat \<Rightarrow> nat \<Rightarrow> tags list \<Rightarrow> string list \<Rightarrow> ('w, string list) aws" where
  "spot_loop ec region az ip n rest tags provisioned w =
     (if rest = 0 then (Inr provisioned, w)
      else case spot_request ec region az ip n (instances_to_provision n rest) tags w of
        (Inl e, w1) \<Rightarrow> (Inl e, w1)
      | (Inr (ids, tags'), w1) \<Rightarrow>
          spot_loop ec region az ip n (rest - instances_to_provision n rest) tags' (provisioned @ ids) w1)"
  by pat_completeness auto
termination
proof (relation "measure (\<lambda>(_, _, _, _, _, rest, _). rest)", goal_cases)
  case (2 ec region az ip n rest)
  then show ?case using instances_to_provision_bounds[of rest n] by simp
qed simp

declare spot_loop.simps [simp del]

definition provision_spot_instances ::
    "('w, 'p) ec2 \<Rightarrow> string \<Rightarrow> string \<Rightarrow> 'p \<Rightarrow> nat \<Rightarrow> tags list \<Rightarrow> ('w, string list) aws" where
  "provision_spot_instances ec region az ip n tags = spot_loop ec region az ip n n tags []"

section \<open>Provisioning\<close>

record provision_parameters =
  pp_name :: string
  pp_spot :: bool
  pp_region :: string
  pp_az :: string

definition provision :: "('w, 'p) ec2 \<Rightarrow> provision_parameters \<Rightarrow> 'p \<Rightarrow> nat \<Rightarrow> tags list \<Rightarrow> string list \<Rightarrow> ('w, string list) aws" where
  "provision ec pp ip n tags names w =
     (if names \<noteq> [] \<and> length names \<noteq> n then (Inl (exn AssertionError), w)
      else if length tags \<noteq> n then (Inl (exn AssertionError), w)
      else if pp_spot pp then provision_spot_instances ec (pp_region pp) (pp_az pp) ip n (set_names names tags) w
      else provision_on_demand_instances ec (pp_region pp) (pp_az pp) ip n (set_names names tags) w)"

text \<open>The plan: what is asked for first, then on-demand if the test allows it.\<close>

definition request_on_demand :: "string \<Rightarrow> string \<Rightarrow> provision_parameters" where
  "request_on_demand region az = \<lparr>pp_name = ''On Demand'', pp_spot = False, pp_region = region, pp_az = az\<rparr>"

definition request_spot :: "string \<Rightarrow> string \<Rightarrow> provision_parameters" where
  "request_spot region az = \<lparr>pp_name = ''Spot'', pp_spot = True, pp_region = region, pp_az = az\<rparr>"

text \<open>\<^verbatim>\<open>_provision_steps\<close>; a provision type that is neither of the two is refused by the model class.\<close>

definition provision_steps :: "string \<Rightarrow> bool \<Rightarrow> string \<Rightarrow> string \<Rightarrow> aws_exn + provision_parameters list" where
  "provision_steps initial on_demand_fallback region az =
     (if initial = ''on_demand'' then Inr [request_on_demand region az]
      else if initial = ''spot''
      then Inr (request_spot region az # (if on_demand_fallback then [request_on_demand region az] else []))
      else Inl (exn ValueError))"

fun provision_step_loop ::
    "('w, 'p) ec2 \<Rightarrow> 'p \<Rightarrow> nat \<Rightarrow> tags list \<Rightarrow> string list \<Rightarrow> provision_parameters list
      \<Rightarrow> ('w, (string list \<times> provision_parameters) option) aws" where
  "provision_step_loop ec ip n tags names [] w = (Inr None, w)"
| "provision_step_loop ec ip n tags names (pp # pps) w = (case provision ec pp ip n tags names w of
       (Inl e, w1) \<Rightarrow> (Inl e, w1)
     | (Inr ids, w1) \<Rightarrow>
         (if ids \<noteq> [] then (Inr (Some (ids, pp)), w1)
          else provision_step_loop ec ip n tags names pps w1))"

text \<open>\<^verbatim>\<open>_publish_outcome\<close> records what was asked for and what was got, at the place of the step that answered.\<close>

definition provision_instances ::
    "('w, 'p) ec2 \<Rightarrow> provision_parameters list \<Rightarrow> 'p \<Rightarrow> nat \<Rightarrow> tags list \<Rightarrow> string list \<Rightarrow> ('w, string list) aws" where
  "provision_instances ec steps ip n tags names w =
     (let requested = (case steps of [] \<Rightarrow> ''unknown'' | pp # _ \<Rightarrow> pp_name pp) in
      case provision_step_loop ec ip n tags names steps w of
        (Inl e, w1) \<Rightarrow> (Inl e, w1)
      | (Inr (Some (ids, pp)), w1) \<Rightarrow>
          (Inr ids, ec_outcome ec requested (Some (pp_name pp)) (pp_region pp) (pp_az pp) (ec_type ec ip) n w1)
      | (Inr None, w1) \<Rightarrow>
          (Inr [], case steps of [] \<Rightarrow> w1
             | pp # _ \<Rightarrow> ec_outcome ec requested None (pp_region pp) (pp_az pp) (ec_type ec ip) n w1))"

section \<open>What EC2 promises\<close>

text \<open>Errors of the EC2 client are its own.\<close>

definition ec2_error :: "aws_exn \<Rightarrow> bool" where
  "ec2_error e \<longleftrightarrow> (case ex_kind e of ClientError _ _ \<Rightarrow> True | OtherError _ \<Rightarrow> True | _ \<Rightarrow> False)"

definition raises_ec2_errors :: "('w, 'a) aws \<Rightarrow> bool" where
  "raises_ec2_errors m \<longleftrightarrow> (\<forall>w e w'. m w = (Inl e, w') \<longrightarrow> ec2_error e)"

definition returns_only :: "('a \<Rightarrow> bool) \<Rightarrow> ('w, 'a) aws \<Rightarrow> bool" where
  "returns_only P m \<longleftrightarrow> (\<forall>w a w'. m w = (Inr a, w') \<longrightarrow> P a)"

text \<open>
  The documented behaviour of EC2 that the provisioner relies on: with equal minimum and maximum count exactly
  that many instances are created; a spot request of \<open>n\<close> instances consists of \<open>n\<close> requests, each described at
  most once; a fleet does not exceed its target capacity (\<open>cap\<close> gives it for each fleet request).
\<close>

definition ec2_contract :: "('w, 'p) ec2 \<Rightarrow> (string \<Rightarrow> nat) \<Rightarrow> bool" where
  "ec2_contract ec cap \<longleftrightarrow>
     (\<forall>la. raises_ec2_errors (ec_create_instances ec la) \<and>
           returns_only (\<lambda>ids. length ids = la_count la) (ec_create_instances ec la)) \<and>
     (\<forall>region n ip az tags. raises_ec2_errors (ec_request_spot ec region n ip az tags) \<and>
           returns_only (\<lambda>ids. length ids = n) (ec_request_spot ec region n ip az tags)) \<and>
     (\<forall>region n ip tags. raises_ec2_errors (ec_request_fleet ec region n ip tags) \<and>
           returns_only (\<lambda>i. cap i = n) (ec_request_fleet ec region n ip tags)) \<and>
     (\<forall>region ids. returns_only (\<lambda>rs. length rs \<le> length ids) (ec_describe_spot ec region ids)) \<and>
     (\<forall>region i. returns_only (\<lambda>ids. length ids \<le> cap i) (ec_fleet_instances ec region i)) \<and>
     (\<forall>region ids. raises_ec2_errors (ec_cancel_spot ec region ids)) \<and>
     (\<forall>region i t. raises_ec2_errors (ec_cancel_fleet ec region i t)) \<and>
     (\<forall>region i tags. raises_ec2_errors (ec_create_tags ec region i tags))"

lemma ec2_contractD:
  assumes "ec2_contract ec cap"
  shows "ec_create_instances ec la w = (Inl e, w') \<Longrightarrow> ec2_error e"
    and "ec_create_instances ec la w = (Inr ids, w') \<Longrightarrow> length ids = la_count la"
    and "ec_request_spot ec region n ip az tags w = (Inl e, w') \<Longrightarrow> ec2_error e"
    and "ec_request_spot ec region n ip az tags w = (Inr ids, w') \<Longrightarrow> length ids = n"
    and "ec_request_fleet ec region n ip tags w = (Inl e, w') \<Longrightarrow> ec2_error e"
    and "ec_request_fleet ec region n ip tags w = (Inr i, w') \<Longrightarrow> cap i = n"
    and "ec_describe_spot ec region ids w = (Inr rs, w') \<Longrightarrow> length rs \<le> length ids"
    and "ec_fleet_instances ec region i w = (Inr ids, w') \<Longrightarrow> length ids \<le> cap i"
    and "ec_cancel_spot ec region ids w = (Inl e, w') \<Longrightarrow> ec2_error e"
    and "ec_cancel_fleet ec region i t w = (Inl e, w') \<Longrightarrow> ec2_error e"
    and "ec_create_tags ec region i tags w = (Inl e, w') \<Longrightarrow> ec2_error e"
  using assms unfolding ec2_contract_def raises_ec2_errors_def returns_only_def by - (metis+)

section \<open>The loops\<close>

lemma set_tags_rounds_error:
  assumes "ec2_contract ec cap"
  shows "set_tags_rounds ec region i tags n w = (Inl e, w') \<Longrightarrow> ec2_error e"
proof (induction n arbitrary: w)
  case (Suc n)
  obtain r w1 where c: "ec_create_tags ec region i tags w = (r, w1)" by fastforce
  with Suc ec2_contractD(11)[OF assms] show ?case by (cases r) (auto split: if_splits)
qed simp

text \<open>Tagging consumes one tag per instance, from the back.\<close>

lemma tag_instances_rest:
  "tag_instances ec pre region ind ids tags w = (Inr rest, w') \<Longrightarrow>
     length ids \<le> length tags \<and> rest = take (length tags - length ids) tags"
proof (induction ids arbitrary: ind tags w)
  case (Cons i ids)
  then obtain w1 where "tags \<noteq> []" "tag_instances ec pre region (Suc ind) ids (butlast tags) w1 = (Inr rest, w')"
    by (auto split: if_splits prod.splits sum.splits)
  with Cons.IH[of "Suc ind" "butlast tags" w1] show ?case
    by (cases "length tags") (auto simp: butlast_conv_take min_def)
qed simp

lemma tag_instances_error:
  assumes "ec2_contract ec cap"
  shows "\<lbrakk>tag_instances ec pre region ind ids tags w = (Inl e, w'); length ids \<le> length tags\<rbrakk> \<Longrightarrow> ec2_error e"
proof (induction ids arbitrary: ind tags w)
  case (Cons i ids)
  then have "tags \<noteq> []" by auto
  let ?t = "dict_update [(''Name'', pre @ i @ ''_'' @ show_nat ind)] (last tags)"
  obtain r w1 where s: "set_tags_on_instances ec region i ?t w = (r, w1)" by fastforce
  show ?case
  proof (cases r)
    case (Inl e1)
    with s Cons.prems \<open>tags \<noteq> []\<close> have "e1 = e" by simp
    with s Inl set_tags_rounds_error[OF assms] show ?thesis by (auto simp: set_tags_on_instances_def)
  next
    case (Inr b)
    with s Cons.prems \<open>tags \<noteq> []\<close> have "tag_instances ec pre region (Suc ind) ids (butlast tags) w1 = (Inl e, w')" by simp
    with Cons.IH Cons.prems(2) show ?thesis by simp
  qed
qed simp

lemma scan_spot_length: "scan_spot_requests acc rs = Some ids \<Longrightarrow> length ids \<le> length acc + length rs"
  by (induction rs arbitrary: acc) (auto split: if_splits, fastforce)

text \<open>Whatever holds of every answer holds of the result of waiting.\<close>

lemma spot_wait_result:
  "\<lbrakk>wait_loop sleep poll waited w = (Some ids, w'); \<And>w ids w'. poll w = (Some ids, w') \<Longrightarrow> P ids; P []\<rbrakk> \<Longrightarrow> P ids"
proof (induction sleep poll waited w rule: wait_loop.induct)
  case (1 sleep poll waited w)
  obtain r w1 where p: "poll (sleep spot_request_waiting_time w) = (r, w1)" by fastforce
  show ?case
  proof (cases "waited < spot_request_timeout \<and> r = Some []")
    case True
    with 1(2) p have "wait_loop sleep poll (waited + spot_request_waiting_time) w1 = (Some ids, w')"
      by (simp add: wait_loop.simps[of _ _ waited])
    with 1(1)[OF _ p[symmetric]] True 1(3,4) show ?thesis by simp
  next
    case False
    with 1(2) p have "ids = [] \<or> poll (sleep spot_request_waiting_time w) = (Some ids, w1)"
      by (auto simp: wait_loop.simps[of _ _ waited] split: if_splits option.splits)
    with 1(3,4) show ?thesis by blast
  qed
qed

lemma fleet_instance_ids_length:
  assumes "ec2_contract ec cap" "fleet_instance_ids ec region [i] [] w = (Some ids, w')"
  shows "length ids \<le> cap i"
  using assms(2) ec2_contractD(8)[OF assms(1), of region i w] by (auto split: prod.splits sum.splits)

lemma scan_fleet_length:
  assumes "ec2_contract ec cap"
  shows "scan_fleet_requests ec region [i] rs w = (Some ids, w') \<Longrightarrow> length ids \<le> cap i"
proof (induction rs arbitrary: w)
  case Nil
  then show ?case using fleet_instance_ids_length[OF assms, of region i w ids w'] by (simp only: scan_fleet_requests.simps)
next
  case (Cons r rs)
  then show ?case by (auto split: if_splits prod.splits sum.splits)
qed

lemma wait_spot_length:
  assumes "ec2_contract ec cap" "wait_for_provision_request_done ec region requests False w = (Some ids, w')"
  shows "length ids \<le> length requests"
proof (rule spot_wait_result[OF assms(2)[unfolded wait_for_provision_request_done_def], where P = "\<lambda>ids. length ids \<le> length requests"])
  fix w ids w'
  assume "(if False then get_provisioned_fleet_instance_ids ec region requests
      else get_provisioned_spot_instance_ids ec region requests) w = (Some ids, w')"
  then show "length ids \<le> length requests"
    using ec2_contractD(7)[OF assms(1), of region requests w]
    by (auto simp: get_provisioned_spot_instance_ids_def split: prod.splits sum.splits dest!: scan_spot_length)
qed simp

lemma wait_fleet_length:
  assumes "ec2_contract ec cap" "wait_for_provision_request_done ec region [i] True w = (Some ids, w')"
  shows "length ids \<le> cap i"
proof (rule spot_wait_result[OF assms(2)[unfolded wait_for_provision_request_done_def], where P = "\<lambda>ids. length ids \<le> cap i"])
  fix w ids w'
  assume "(if True then get_provisioned_fleet_instance_ids ec region [i]
      else get_provisioned_spot_instance_ids ec region [i]) w = (Some ids, w')"
  then show "length ids \<le> cap i"
    using scan_fleet_length[OF assms(1), of region i]
    by (auto simp: get_provisioned_fleet_instance_ids_def split: prod.splits sum.splits)
qed simp

text \<open>
  What a request of \<open>k\<close> instances gives: at most \<open>k\<close> of them, with one of the tags taken from the back for each.
\<close>

definition request_outcome :: "nat \<Rightarrow> tags list \<Rightarrow> aws_exn + (string list \<times> tags list) \<Rightarrow> bool" where
  "request_outcome k tags r \<longleftrightarrow> (case r of
       Inl e \<Rightarrow> ec2_error e
     | Inr (ids, rest) \<Rightarrow> length ids \<le> k \<and> rest = take (length tags - length ids) tags)"

lemma tagged_outcome:
  assumes c: "ec2_contract ec cap" and len: "length ids \<le> k" "k \<le> length tags"
    and cancel: "\<And>w e w'. cancel w = (Inl e, w') \<Longrightarrow> ec2_error e"
    and r: "(case tag_instances ec pre region ind ids tags w of
        (Inl e, w3) \<Rightarrow> (Inl e, w3)
      | (Inr rest, w3) \<Rightarrow> (case cancel w3 of (Inl e, w4) \<Rightarrow> (Inl e, w4) | (Inr (_ :: unit), w4) \<Rightarrow> (Inr (ids, rest), w4))) = (r, w')"
  shows "request_outcome k tags r"
proof -
  obtain t w3 where t: "tag_instances ec pre region ind ids tags w = (t, w3)" by fastforce
  obtain x w4 where x: "cancel w3 = (x, w4)" by fastforce
  show ?thesis
  proof (cases t)
    case (Inl e)
    with t r tag_instances_error[OF c, of pre region ind ids tags w e w3] len show ?thesis
      by (auto simp: request_outcome_def)
  next
    case (Inr rest)
    with t tag_instances_rest[of ec pre region ind ids tags w rest w3]
    have "rest = take (length tags - length ids) tags" by simp
    with Inr t x r cancel[of w3 _ w4] len show ?thesis
      by (cases x) (auto simp: request_outcome_def)
  qed
qed

lemma no_instances_outcome: "request_outcome k tags (Inr ([], tags))"
  by (simp add: request_outcome_def)

lemma fleet_request_outcome:
  assumes c: "ec2_contract ec cap" and k: "0 < k" "k \<le> length tags"
    and r: "execute_spot_fleet_instance_request ec region ip k tags w = (r, w')"
  shows "request_outcome k tags r"
proof -
  from k have "tags \<noteq> []" by auto
  obtain q w1 where q: "ec_request_fleet ec region k ip (hd tags) w = (q, w1)" by fastforce
  show ?thesis
  proof (cases q)
    case (Inl e)
    with ec2_contractD(5)[OF c] q r \<open>tags \<noteq> []\<close> show ?thesis
      by (auto simp: execute_spot_fleet_instance_request_def request_outcome_def)
  next
    case (Inr i)
    then have cap: "cap i = k" using ec2_contractD(6)[OF c] q by blast
    obtain o' w2 where w: "wait_for_provision_request_done ec region [i] True w1 = (o', w2)" by fastforce
    show ?thesis
    proof (cases "\<exists>ids. o' = Some ids \<and> ids \<noteq> []")
      case True
      then obtain ids where ids: "o' = Some ids" "ids \<noteq> []" by blast
      with wait_fleet_length[OF c, of region i w1 ids w2] w cap have "length ids \<le> k" by simp
      from tagged_outcome[OF c this k(2), of "ec_cancel_fleet ec region i False" "''spot_fleet_''" region 0 w2 r w']
        ids w q Inr r \<open>tags \<noteq> []\<close> ec2_contractD(10)[OF c]
      show ?thesis by (simp add: execute_spot_fleet_instance_request_def)
    next
      case False
      with w q Inr r \<open>tags \<noteq> []\<close> have "r = Inr ([], tags)"
        by (auto simp: execute_spot_fleet_instance_request_def split: option.splits)
      then show ?thesis by (simp add: no_instances_outcome)
    qed
  qed
qed

lemma spot_request_outcome1:
  assumes c: "ec2_contract ec cap" and k: "0 < k" "k \<le> length tags"
    and r: "execute_spot_instance_request ec region az ip k tags w = (r, w')"
  shows "request_outcome k tags r"
proof -
  from k have "tags \<noteq> []" by auto
  obtain q w1 where q: "ec_request_spot ec region k ip (region @ az) (hd tags) w = (q, w1)" by fastforce
  show ?thesis
  proof (cases q)
    case (Inl e)
    with ec2_contractD(3)[OF c] q r \<open>tags \<noteq> []\<close> show ?thesis
      by (auto simp: execute_spot_instance_request_def request_outcome_def)
  next
    case (Inr rq)
    then have rq: "length rq = k" using ec2_contractD(4)[OF c] q by blast
    obtain o' w2 where w: "wait_for_provision_request_done ec region rq False w1 = (o', w2)" by fastforce
    show ?thesis
    proof (cases "\<exists>ids. o' = Some ids \<and> ids \<noteq> []")
      case True
      then obtain ids where ids: "o' = Some ids" "ids \<noteq> []" by blast
      with wait_spot_length[OF c, of region rq w1 ids w2] w rq have "length ids \<le> k" by simp
      from tagged_outcome[OF c this k(2), of "ec_cancel_spot ec region rq" "''spot_''" region 0 w2 r w']
        ids w q Inr r \<open>tags \<noteq> []\<close> ec2_contractD(9)[OF c]
      show ?thesis by (simp add: execute_spot_instance_request_def)
    next
      case False
      with w q Inr r \<open>tags \<noteq> []\<close> have "r = Inr ([], tags)"
        by (auto simp: execute_spot_instance_request_def split: option.splits)
      then show ?thesis by (simp add: no_instances_outcome)
    qed
  qed
qed

lemma spot_request_outcome:
  assumes "ec2_contract ec cap" "0 < k" "k \<le> length tags" "spot_request ec region az ip n k tags w = (r, w')"
  shows "request_outcome k tags r"
  using assms fleet_request_outcome[OF assms(1-3), of region ip w r w']
    spot_request_outcome1[OF assms(1-3), of region az ip w r w']
  by (auto simp: spot_request_def split: if_splits)

lemma spot_loop_outcome:
  assumes c: "ec2_contract ec cap"
  shows "\<lbrakk>spot_loop ec region az ip n rest tags acc w = (r, w'); rest \<le> length tags\<rbrakk> \<Longrightarrow>
    (case r of Inl e \<Rightarrow> ec2_error e | Inr ids \<Rightarrow> length ids \<le> length acc + rest)"
proof (induction rest arbitrary: tags acc w rule: less_induct)
  case (less rest)
  show ?case
  proof (cases "rest = 0")
    case True
    with less.prems show ?thesis by (auto simp: spot_loop.simps)
  next
    case False
    let ?k = "instances_to_provision n rest"
    from False have k: "0 < ?k" "?k \<le> rest" using instances_to_provision_bounds[of rest n] by auto
    obtain q w1 where q: "spot_request ec region az ip n ?k tags w = (q, w1)" by fastforce
    have o: "request_outcome ?k tags q" using spot_request_outcome[OF c k(1) _ q] k(2) less.prems(2) by simp
    show ?thesis
    proof (cases q)
      case (Inl e)
      with o q less.prems(1) False show ?thesis by (auto simp: spot_loop.simps request_outcome_def)
    next
      case (Inr p)
      obtain ids tags' where p: "p = (ids, tags')" by fastforce
      from o Inr p have ids: "length ids \<le> ?k" "tags' = take (length tags - length ids) tags"
        by (auto simp: request_outcome_def)
      from q Inr p less.prems(1) False
      have "spot_loop ec region az ip n (rest - ?k) tags' (acc @ ids) w1 = (r, w')" by (simp add: spot_loop.simps[of _ _ _ _ _ rest])
      moreover from ids k less.prems(2) have "rest - ?k \<le> length tags'" by simp
      ultimately have "case r of Inl e \<Rightarrow> ec2_error e | Inr xs \<Rightarrow> length xs \<le> length (acc @ ids) + (rest - ?k)"
        using less.IH[of "rest - ?k" tags' "acc @ ids" w1] k by simp
      with ids k show ?thesis by (cases r) simp_all
    qed
  qed
qed

lemma length_set_names [simp]: "length (set_names names tags) = length tags"
  by (simp add: set_names_def)

lemma on_demand_outcome:
  assumes c: "ec2_contract ec cap" and n: "0 < length tags"
    and r: "provision_on_demand_instances ec region az ip (length tags) tags w = (r, w')"
  shows "case r of Inl e \<Rightarrow> ec2_error e | Inr ids \<Rightarrow> length ids = length tags"
proof -
  from n have tags: "tags \<noteq> []" by auto
  let ?la = "\<lparr>la_region = region, la_params = ip, la_count = length tags, la_tags = hd tags,
    la_reservation = ec_reservation ec az (ec_type ec ip) w, la_host = ec_host ec (region @ az) (ec_type ec ip) w\<rparr>"
  obtain q w1 where q: "ec_create_instances ec ?la w = (q, w1)" by fastforce
  show ?thesis
  proof (cases q)
    case (Inl e)
    with q r tags ec2_contractD(1)[OF c] show ?thesis by (auto simp: provision_on_demand_instances_def)
  next
    case (Inr ids)
    with q ec2_contractD(2)[OF c] have len: "length ids = length tags" by fastforce
    obtain t w2 where t: "tag_instances ec ''spot_fleet_'' region 0 ids tags w1 = (t, w2)" by fastforce
    with tag_instances_error[OF c, of "''spot_fleet_''" region 0 ids tags w1 _ w2] len q Inr r tags show ?thesis
      by (cases t) (auto simp: provision_on_demand_instances_def)
  qed
qed

lemma provision_outcome:
  assumes c: "ec2_contract ec cap" and n: "0 < n" "length tags = n" "names = [] \<or> length names = n"
    and r: "provision ec pp ip n tags names w = (r, w')"
  shows "case r of Inl e \<Rightarrow> ec2_error e | Inr ids \<Rightarrow> length ids \<le> n \<and> (\<not> pp_spot pp \<longrightarrow> length ids = n)"
proof -
  let ?t = "set_names names tags"
  have len: "length ?t = n" using n(2) by simp
  show ?thesis
  proof (cases "pp_spot pp")
    case True
    with r n have "spot_loop ec (pp_region pp) (pp_az pp) ip n n ?t [] w = (r, w')"
      by (auto simp: provision_def provision_spot_instances_def)
    from spot_loop_outcome[OF c this] len True show ?thesis by (auto split: sum.splits)
  next
    case False
    with r n have "provision_on_demand_instances ec (pp_region pp) (pp_az pp) ip n ?t w = (r, w')"
      by (auto simp: provision_def)
    with on_demand_outcome[OF c, of ?t "pp_region pp" "pp_az pp" ip w r w'] len n(1) False show ?thesis
      by (auto split: sum.splits)
  qed
qed

text \<open>C24: When EC2 keeps its documented promises and a batch has as many tags as instances asked for, provisioning
  never fails on an assertion or an index, gives at most as many instances as were asked for, and exactly as
  many when they are on-demand.
\<close>

theorem provision_within_count:
  assumes "ec2_contract ec cap" "0 < n" "length tags = n" "names = [] \<or> length names = n"
  shows "case fst (provision ec pp ip n tags names w) of
      Inl e \<Rightarrow> ex_kind e \<notin> {AssertionError, IndexError}
    | Inr ids \<Rightarrow> length ids \<le> n \<and> (\<not> pp_spot pp \<longrightarrow> length ids = n)"
proof -
  obtain r w' where r: "provision ec pp ip n tags names w = (r, w')" by fastforce
  from provision_outcome[OF assms r] r show ?thesis
    by (cases r) (auto simp: ec2_error_def)
qed

text \<open>An EC2 that fulfils every request at once; its world is the list of tagged instances.\<close>

definition numbered :: "nat \<Rightarrow> string list" where
  "numbered n = map (\<lambda>i. ''i-'' @ show_nat i) [0..<n]"

definition example_ec2 :: "((string \<times> tags) list, string) ec2" where
  "example_ec2 =
     \<lparr>ec_type = (\<lambda>ip. ip),
      ec_create_instances = (\<lambda>la w. (Inr (numbered (la_count la)), w)),
      ec_request_spot = (\<lambda>region n ip az tags w. (Inr (numbered n), w)),
      ec_request_fleet = (\<lambda>region n ip tags w. (Inr (replicate n CHR ''f''), w)),
      ec_describe_spot = (\<lambda>region ids w. (Inr (map (\<lambda>i. \<lparr>sq_code = ''fulfilled'', sq_state = ''active'', sq_instance = i\<rparr>) ids), w)),
      ec_describe_fleet = (\<lambda>region ids w. (Inr (map (\<lambda>i. \<lparr>fs_state = ''active'', fs_activity = Some ''fulfilled'', fs_id = i\<rparr>) ids), w)),
      ec_fleet_history = (\<lambda>region i w. (Inr [], w)),
      ec_fleet_instances = (\<lambda>region i w. (Inr (numbered (length i)), w)),
      ec_cancel_spot = (\<lambda>region ids w. (Inr (), w)),
      ec_cancel_fleet = (\<lambda>region i t w. (Inr (), w)),
      ec_create_tags = (\<lambda>region i tags w. (Inr (), w @ [(i, tags)])),
      ec_tag_rounds = (\<lambda>w. 1),
      ec_sleep = (\<lambda>t w. w),
      ec_reservation = (\<lambda>az t w. None),
      ec_host = (\<lambda>az t w. None),
      ec_outcome = (\<lambda>requested realized region az t n w. w)\<rparr>"

lemma example_contract: "ec2_contract example_ec2 length"
  by (auto simp: ec2_contract_def raises_ec2_errors_def returns_only_def example_ec2_def numbered_def)

theorem provision_within_count_witness:
  "ec2_contract example_ec2 length \<and>
   (case fst (provision example_ec2 (request_spot ''r'' ''a'') ''t'' 2 [[(''NodeIndex'', ''1'')], [(''NodeIndex'', ''2'')]]
      [''n-1'', ''n-2''] []) of
     Inl e \<Rightarrow> False | Inr ids \<Rightarrow> length ids \<le> 2 \<and> ids = [''i-0'', ''i-1''])"
proof -
  let ?r = "provision example_ec2 (request_spot ''r'' ''a'') ''t'' 2 [[(''NodeIndex'', ''1'')], [(''NodeIndex'', ''2'')]]
      [''n-1'', ''n-2''] []"
  have "fst ?r = Inr [''i-0'', ''i-1'']" by code_simp
  with provision_within_count[OF example_contract, of 2 "[[(''NodeIndex'', ''1'')], [(''NodeIndex'', ''2'')]]"
      "[''n-1'', ''n-2'']" "request_spot ''r'' ''a''" "''t''" "[]"] example_contract
  show ?thesis by simp
qed

end
