(* ===== verification/Aws_Cluster.thy ===== *)
theory Aws_Cluster
  imports Aws_Provisioner
begin

text \<open>
  The clusters of a test on AWS (\<^verbatim>\<open>sdcm/sct_provision/aws/cluster.py\<close>): how the nodes of a cluster are
  spread over regions and availability zones, which name and tags each of them gets, and provisioning them
  batch by batch.

  A batch is one request: the nodes of one region and zone, for the DB cluster separately the data nodes and
  the zero-token nodes.  The three cached properties of a cluster object are fields of its record.
\<close>

section \<open>The configuration\<close>

record aws_conf =
  cf_env :: "string \<Rightarrow> string option"
  cf_params :: params

abbreviation region_var :: string where
  "region_var \<equiv> ''SCT_REGION_NAME''"

text \<open>\<^verbatim>\<open>SCTConfiguration.region_names\<close> is environment-first.\<close>

definition conf_region_names :: "aws_conf \<Rightarrow> string list" where
  "conf_region_names c = (case cf_env c region_var of
       Some v \<Rightarrow> split_ws v
     | None \<Rightarrow> split_ws (get_str (cf_params c) ''region_name''))"

section \<open>Cluster objects\<close>

datatype cluster_kind = DBCluster | OracleDBCluster | LoaderCluster | MonitoringCluster

record cluster_class =
  cc_node_type :: string
  cc_node_prefix :: string
  cc_node_num_param :: string
  cc_user_param :: string

definition class_of :: "cluster_kind \<Rightarrow> cluster_class" where
  "class_of kind = (case kind of
     DBCluster \<Rightarrow> \<lparr>cc_node_type = ''scylla-db'', cc_node_prefix = ''db'', cc_node_num_param = ''n_db_nodes'',
        cc_user_param = ''ami_db_scylla_user''\<rparr>
   | OracleDBCluster \<Rightarrow> \<lparr>cc_node_type = ''oracle-db'', cc_node_prefix = ''oracle'',
        cc_node_num_param = ''n_test_oracle_db_nodes'', cc_user_param = ''ami_db_scylla_user''\<rparr>
   | LoaderCluster \<Rightarrow> \<lparr>cc_node_type = ''loader'', cc_node_prefix = ''loader'', cc_node_num_param = ''n_loaders'',
        cc_user_param = ''ami_loader_user''\<rparr>
   | MonitoringCluster \<Rightarrow> \<lparr>cc_node_type = ''monitor'', cc_node_prefix = ''monitor'',
        cc_node_num_param = ''n_monitor_nodes'', cc_user_param = ''ami_monitor_user''\<rparr>)"

text \<open>An EC2 instance as fallback sees it: its id and the region of its client, where they can be read.\<close>

record instance_ref =
  in_id :: "string option"
  in_region :: "string option"

record cluster_obj =
  co_kind :: cluster_kind
  co_node_nums :: "int list option"
  co_active_region_ids :: "nat list option"
  co_azs :: "string list option"
  co_instances :: "instance_ref list"

definition new_cluster :: "cluster_kind \<Rightarrow> cluster_obj" where
  "new_cluster kind = \<lparr>co_kind = kind, co_node_nums = None, co_active_region_ids = None, co_azs = None, co_instances = []\<rparr>"

section \<open>Node counts\<close>

text \<open>\<^verbatim>\<open>[int(num) for num in value]\<close> or \<^verbatim>\<open>[value]\<close>; anything else is refused.\<close>

definition count_list :: "param \<Rightarrow> aws_exn + int list" where
  "count_list v = (case v of
       PCounts l \<Rightarrow> (if None \<in> set l then Inl (exn ValueError) else Inr (map the l))
     | PInt i \<Rightarrow> Inr [i]
     | PBool b \<Rightarrow> Inr [of_bool b]
     | _ \<Rightarrow> Inl (exn ValueError))"

definition get_data_nodes :: "params \<Rightarrow> aws_exn + int list" where
  "get_data_nodes p = count_list (p ''n_db_nodes'')"

definition get_zero_token_nodes :: "params \<Rightarrow> aws_exn + int list" where
  "get_zero_token_nodes p =
     (if \<not> truthy (p ''use_zero_nodes'') \<or> \<not> truthy (p ''n_db_zero_token_nodes'') then Inr []
      else count_list (p ''n_db_zero_token_nodes''))"

definition node_nums :: "cluster_kind \<Rightarrow> params \<Rightarrow> aws_exn + int list" where
  "node_nums kind p = (if kind = DBCluster then
       (case get_data_nodes p of
          Inl e \<Rightarrow> Inl e
        | Inr total_nodes \<Rightarrow>
            (case get_zero_token_nodes p of
               Inl e \<Rightarrow> Inl e
             | Inr zero \<Rightarrow> Inr (if zero \<noteq> [] then map (\<lambda>(n1, n2). n1 + n2) (zip total_nodes zero) else total_nodes)))
     else count_list (p (cc_node_num_param (class_of kind))))"

definition active_region_ids :: "string list \<Rightarrow> int list \<Rightarrow> nat list" where
  "active_region_ids regions nums = filter (\<lambda>i. i < length nums \<and> nums ! i > 0) [0..<length regions]"

text \<open>\<^verbatim>\<open>self.params.get("availability_zone").split(",")\<close>\<close>

definition azs :: "params \<Rightarrow> aws_exn + string list" where
  "azs p = (case p ''availability_zone'' of PStr s \<Rightarrow> Inr (split_on CHR '','' s) | _ \<Rightarrow> Inl (exn (OtherError ''AttributeError'')))"

text \<open>\<^verbatim>\<open>az_nodes[node_num % len(azs)] += 1\<close> for every node number.\<close>

definition spread :: "nat \<Rightarrow> nat \<Rightarrow> nat list" where
  "spread k n = foldl (\<lambda>az_nodes m. az_nodes[m mod k := az_nodes ! (m mod k) + 1]) (replicate k 0) [0..<n]"

section \<open>Nodes\<close>

record cluster_node =
  cn_region_id :: nat
  cn_az_id :: nat
  cn_node_num :: nat

text \<open>The nested loops of \<^verbatim>\<open>nodes\<close>: numbers run through all the regions.\<close>

definition region_slots :: "nat \<Rightarrow> int list \<Rightarrow> nat \<Rightarrow> (nat \<times> nat) list" where
  "region_slots k nums region_id = map (\<lambda>idx. (region_id, idx mod k)) [0..<nat (nums ! region_id)]"

definition nodes :: "nat \<Rightarrow> int list \<Rightarrow> nat list \<Rightarrow> cluster_node list" where
  "nodes k nums active = map (\<lambda>(node_num, region_id, az_id).
       \<lparr>cn_region_id = region_id, cn_az_id = az_id, cn_node_num = node_num\<rparr>)
     (enumerate 1 (concat (map (region_slots k nums) active)))"

definition az_members :: "cluster_node list \<Rightarrow> nat \<Rightarrow> nat \<Rightarrow> cluster_node list" where
  "az_members ns region_id az_id = filter (\<lambda>n. cn_region_id n = region_id \<and> cn_az_id n = az_id) ns"

text \<open>What names and tags are made of.\<close>

record labels =
  lb_node_prefix :: string
  lb_tags :: tags

definition node_prefix :: "cluster_kind \<Rightarrow> params \<Rightarrow> string \<Rightarrow> string" where
  "node_prefix kind p test_id =
     (case p ''user_prefix'' of PStr s \<Rightarrow> s | _ \<Rightarrow> ''None'') @ ''-'' @ cc_node_prefix (class_of kind) @ ''-node'' @
     ''-'' @ take 8 test_id"

definition cluster_tags :: "cluster_kind \<Rightarrow> params \<Rightarrow> tags \<Rightarrow> tags" where
  "cluster_tags kind p common_tags = dict_update common_tags
     [(''NodeType'', cc_node_type (class_of kind)), (''UserName'', get_str p (cc_user_param (class_of kind)))]"

definition node_name :: "labels \<Rightarrow> cluster_node \<Rightarrow> string" where
  "node_name lb n = lb_node_prefix lb @ ''-'' @ show_nat (cn_node_num n)"

definition node_tag :: "labels \<Rightarrow> cluster_node \<Rightarrow> tags" where
  "node_tag lb n = dict_update (lb_tags lb) [(''NodeIndex'', show_nat (cn_node_num n))]"

definition node_tags :: "labels \<Rightarrow> cluster_node list \<Rightarrow> nat \<Rightarrow> nat \<Rightarrow> tags list" where
  "node_tags lb ns region_id az_id = map (node_tag lb) (az_members ns region_id az_id)"

definition node_names :: "labels \<Rightarrow> cluster_node list \<Rightarrow> nat \<Rightarrow> nat \<Rightarrow> string list" where
  "node_names lb ns region_id az_id = map (node_name lb) (az_members ns region_id az_id)"

section \<open>Batches\<close>

record batch =
  ba_region_id :: nat
  ba_az_id :: nat
  ba_zero :: bool
  ba_count :: nat
  ba_tags :: "tags list"
  ba_names :: "string list"

definition base_az_batches :: "labels \<Rightarrow> cluster_node list \<Rightarrow> nat list \<Rightarrow> nat \<Rightarrow> nat \<Rightarrow> batch list" where
  "base_az_batches lb ns az_nodes region_id az_id =
     (if az_nodes ! az_id = 0 then []
      else [\<lparr>ba_region_id = region_id, ba_az_id = az_id, ba_zero = False, ba_count = az_nodes ! az_id,
             ba_tags = node_tags lb ns region_id az_id, ba_names = node_names lb ns region_id az_id\<rparr>])"

definition base_batches :: "labels \<Rightarrow> nat \<Rightarrow> int list \<Rightarrow> nat list \<Rightarrow> batch list" where
  "base_batches lb k nums active = concat (map (\<lambda>r.
       concat (map (base_az_batches lb (nodes k nums active) (spread k (nat (nums ! r))) r) [0..<k])) active)"

text \<open>The DB cluster spreads data and zero-token nodes separately and cuts the nodes of a zone after the data nodes.\<close>

definition db_az_batches :: "labels \<Rightarrow> cluster_node list \<Rightarrow> nat list \<Rightarrow> nat list \<Rightarrow> nat \<Rightarrow> nat \<Rightarrow> batch list" where
  "db_az_batches lb ns az_nodes az_zero_nodes region_id az_id =
     (let n = az_nodes ! az_id; z = az_zero_nodes ! az_id;
          tags = node_tags lb ns region_id az_id; names = node_names lb ns region_id az_id
      in (if n = 0 then []
          else [\<lparr>ba_region_id = region_id, ba_az_id = az_id, ba_zero = False, ba_count = n,
                 ba_tags = take n tags, ba_names = take n names\<rparr>]) @
         (if z = 0 then []
          else [\<lparr>ba_region_id = region_id, ba_az_id = az_id, ba_zero = True, ba_count = z,
                 ba_tags = map (AList.update ''ZeroTokenNode'' ''True'') (drop n tags), ba_names = drop n names\<rparr>]))"

text \<open>\<open>zero\<close> is empty when the test has no zero-token nodes.\<close>

definition zero_count :: "int list \<Rightarrow> nat \<Rightarrow> nat" where
  "zero_count zero r = (if zero \<noteq> [] then nat (zero ! r) else 0)"

definition db_batches :: "labels \<Rightarrow> nat \<Rightarrow> int list \<Rightarrow> nat list \<Rightarrow> int list \<Rightarrow> int list \<Rightarrow> nat list \<Rightarrow> batch list" where
  "db_batches lb k nums active data zero skip = concat (map (\<lambda>r.
       concat (map (db_az_batches lb (nodes k nums active) (spread k (nat (data ! r))) (spread k (zero_count zero r)) r)
         [0..<k])) (filter (\<lambda>r. r \<notin> set skip) active))"

section \<open>Provisioning\<close>

text \<open>
  What provisioning a cluster takes: the test id, the common tags, EC2, and the builders of instance parameters,
  for data and for zero-token nodes of a region and zone.
\<close>

record ('w, 'p) launcher =
  lc_ec2 :: "('w, 'p) ec2"
  lc_test_id :: string
  lc_common_tags :: tags
  lc_build :: "cluster_kind \<Rightarrow> bool \<Rightarrow> aws_conf \<Rightarrow> nat \<Rightarrow> nat \<Rightarrow> aws_exn + 'p"

definition cluster_labels :: "('w, 'p) launcher \<Rightarrow> cluster_kind \<Rightarrow> params \<Rightarrow> labels" where
  "cluster_labels lc kind p =
     \<lparr>lb_node_prefix = node_prefix kind p (lc_test_id lc), lb_tags = cluster_tags kind p (lc_common_tags lc)\<rparr>"

definition instance_provision :: "params \<Rightarrow> string" where
  "instance_provision p =
     (let v = get_str p ''instance_provision'' in if v = ''spot_fleet'' then ''spot'' else v)"

definition provision_plan :: "aws_conf \<Rightarrow> string \<Rightarrow> string \<Rightarrow> aws_exn + provision_parameters list" where
  "provision_plan c region az = provision_steps (instance_provision (cf_params c))
     (truthy (cf_params c ''instance_provision_fallback_on_demand'')) region az"

text \<open>Capacity errors, and only those an AWS client or an empty plan raises, are tagged with region and zone.\<close>

definition tag_capacity_error :: "string \<Rightarrow> string \<Rightarrow> aws_exn \<Rightarrow> aws_exn" where
  "tag_capacity_error region az e =
     (if is_client_error e \<or> ex_kind e = CapacityExhausted then attach_failed_region (Some region) (Some az) e else e)"

definition provision_az_instances ::
    "('w, 'p) launcher \<Rightarrow> aws_conf \<Rightarrow> string \<Rightarrow> string \<Rightarrow> 'p \<Rightarrow> batch \<Rightarrow> ('w, string list) aws" where
  "provision_az_instances lc c region az ip b w =
     (case provision_plan c region az of
        Inl e \<Rightarrow> (Inl e, w)
      | Inr steps \<Rightarrow>
          (case provision_instances (lc_ec2 lc) steps ip (ba_count b) (ba_tags b) (ba_names b) w of
             (Inl e, w1) \<Rightarrow> (Inl (tag_capacity_error region az e), w1)
           | (Inr ids, w1) \<Rightarrow>
               (if ids = [] then (Inl (tag_capacity_error region az (exn CapacityExhausted)), w1) else (Inr ids, w1))))"

text \<open>The batches in order; the instances of a batch are recorded when it is complete.\<close>

fun run_batches ::
    "('w, 'p) launcher \<Rightarrow> aws_conf \<Rightarrow> cluster_kind \<Rightarrow> string list \<Rightarrow> string list \<Rightarrow> batch list
      \<Rightarrow> instance_ref list \<Rightarrow> 'w \<Rightarrow> (aws_exn + unit) \<times> instance_ref list \<times> 'w" where
  "run_batches lc c kind regions zones [] acc w = (Inr (), acc, w)"
| "run_batches lc c kind regions zones (b # bs) acc w =
     (let region = regions ! ba_region_id b; az = zones ! ba_az_id b in
      case lc_build lc kind (ba_zero b) c (ba_region_id b) (ba_az_id b) of
        Inl e \<Rightarrow> (Inl e, acc, w)
      | Inr ip \<Rightarrow>
          (if \<not> ba_region_id b < length regions then (Inl (exn IndexError), acc, w)
           else case provision_az_instances lc c region az ip b w of
             (Inl e, w1) \<Rightarrow> (Inl e, acc, w1)
           | (Inr ids, w1) \<Rightarrow>
               run_batches lc c kind regions zones bs
                 (acc @ map (\<lambda>i. \<lparr>in_id = Some i, in_region = Some region\<rparr>) ids) w1))"

text \<open>The batches of a cluster; data and zero-token counts are read again for the DB cluster.\<close>

definition cluster_batches ::
    "('w, 'p) launcher \<Rightarrow> cluster_kind \<Rightarrow> params \<Rightarrow> nat \<Rightarrow> int list \<Rightarrow> nat list \<Rightarrow> nat list \<Rightarrow> aws_exn + batch list" where
  "cluster_batches lc kind p k nums active skip =
     (if kind = DBCluster then
        (case get_data_nodes p of
           Inl e \<Rightarrow> Inl e
         | Inr data \<Rightarrow>
             (case get_zero_token_nodes p of
                Inl e \<Rightarrow> Inl e
              | Inr zero \<Rightarrow> Inr (db_batches (cluster_labels lc kind p) k nums active data zero skip)))
      else Inr (base_batches (cluster_labels lc kind p) k nums active))"

text \<open>A cached property: the cached value, or the computed one.\<close>

definition cached :: "'a option \<Rightarrow> aws_exn + 'a \<Rightarrow> aws_exn + 'a" where
  "cached cache computed = (case cache of Some v \<Rightarrow> Inr v | None \<Rightarrow> computed)"

definition provision_cluster ::
    "('w, 'p) launcher \<Rightarrow> aws_conf \<Rightarrow> nat list \<Rightarrow> cluster_obj \<Rightarrow> 'w \<Rightarrow> (aws_exn + unit) \<times> cluster_obj \<times> 'w" where
  "provision_cluster lc c skip co w =
     (case cached (co_node_nums co) (node_nums (co_kind co) (cf_params c)) of
        Inl e \<Rightarrow> (Inl e, co, w)
      | Inr nums \<Rightarrow>
          (let co1 = co\<lparr>co_node_nums := Some nums\<rparr> in
           if nums = [0] then (Inr (), co1, w)
           else (let active = (case co_active_region_ids co of Some v \<Rightarrow> v | None \<Rightarrow> active_region_ids (conf_region_names c) nums);
                     co2 = co1\<lparr>co_active_region_ids := Some active\<rparr> in
             if \<forall>r\<in>set active. r \<in> set skip then (Inr (), co2, w)
             else case cached (co_azs co) (azs (cf_params c)) of
               Inl e \<Rightarrow> (Inl e, co2, w)
             | Inr zones \<Rightarrow>
                 (let co3 = co2\<lparr>co_azs := Some zones\<rparr> in
                  case cluster_batches lc (co_kind co) (cf_params c) (length zones) nums active skip of
                    Inl e \<Rightarrow> (Inl e, co3, w)
                  | Inr bs \<Rightarrow>
                      (case run_batches lc c (co_kind co) (conf_region_names c) zones bs (co_instances co) w of
                         (r, insts, w1) \<Rightarrow> (r, co3\<lparr>co_instances := insts\<rparr>, w1))))))"

section \<open>Round robin\<close>

text \<open>How many of \<open>n\<close> nodes fall to zone \<open>i\<close> of \<open>k\<close>.\<close>

definition share :: "nat \<Rightarrow> nat \<Rightarrow> nat \<Rightarrow> nat" where
  "share k n i = n div k + (if i < n mod k then 1 else 0)"

lemma share_0 [simp]: "share k 0 i = 0"
  by (simp add: share_def)

lemma share_Suc:
  assumes "i < k"
  shows "share k (Suc n) i = share k n i + (if n mod k = i then 1 else 0)"
proof -
  have "n mod k < k" using assms by simp
  with assms show ?thesis by (auto simp: share_def div_Suc mod_Suc)
qed

lemma share_filter: "i < k \<Longrightarrow> length (filter (\<lambda>m. m mod k = i) [0..<n]) = share k n i"
  by (induction n) (auto simp: share_Suc)

lemma spread_Suc: "spread k (Suc n) = (spread k n)[n mod k := spread k n ! (n mod k) + 1]"
  by (simp add: spread_def)

lemma length_spread [simp]: "length (spread k n) = k"
proof (induction n)
  case 0
  then show ?case by (simp add: spread_def)
next
  case (Suc n)
  then show ?case by (simp add: spread_Suc)
qed

lemma spread_nth: "i < k \<Longrightarrow> spread k n ! i = share k n i"
proof (induction n)
  case 0
  then show ?case by (simp add: spread_def)
next
  case (Suc n)
  then have "n mod k < length (spread k n)" by simp
  with Suc show ?case by (auto simp: spread_Suc share_Suc nth_list_update)
qed

lemma sum_list_share: "0 < k \<Longrightarrow> sum_list (map (share k n) [0..<k]) = n"
proof (induction n)
  case 0
  then show ?case by (simp add: sum_list_0)
next
  case (Suc n)
  have "sum_list (map (share k (Suc n)) [0..<k]) = sum_list (map (\<lambda>i. share k n i + (if n mod k = i then 1 else 0)) [0..<k])"
    by (rule arg_cong[where f = sum_list], rule map_cong) (auto simp: share_Suc)
  also have "\<dots> = sum_list (map (share k n) [0..<k]) + sum_list (map (\<lambda>i. if n mod k = i then 1 else 0) [0..<k])"
    by (simp add: sum_list_addf)
  also have "sum_list (map (\<lambda>i. if n mod k = i then 1 else 0 :: nat) [0..<k]) = 1"
    using Suc.prems by (simp add: interv_sum_list_conv_sum_set_nat)
  finally show ?case using Suc by simp
qed

text \<open>
  Spreading \<open>d\<close> and \<open>z\<close> nodes separately gives each zone the share of \<open>d + z\<close> nodes spread together exactly when
  one of the two fills the zones evenly.
\<close>

lemma share_le_add: "i < k \<Longrightarrow> share k d i \<le> share k (d + z) i"
  by (induction z) (auto simp: share_Suc)

lemma share_add_even:
  assumes "0 < k" "k dvd d \<or> k dvd z"
  shows "share k (d + z) i = share k d i + share k z i"
  using assms by (auto simp: share_def div_plus_div_distrib_dvd_left div_plus_div_distrib_dvd_right elim!: dvdE)

lemma share_add_uneven:
  assumes "0 < k" "\<not> k dvd d" "\<not> k dvd z"
  shows "\<exists>i<k. 0 < share k z i \<and> share k (d + z) i < share k d i + share k z i"
proof -
  let ?r = "d mod k" and ?s = "z mod k"
  have r: "0 < ?r" "?r < k" "0 < ?s" "?s < k" using assms by (auto simp: mod_greater_zero_iff_not_dvd)
  define i where "i = ?r + ?s - k"
  have i: "i < ?r" "i < ?s" using r unfolding i_def by linarith+
  have e: "d + z = (?r + ?s) + (d div k + z div k) * k"
    using div_mult_mod_eq[of d k] div_mult_mod_eq[of z k] by (simp add: algebra_simps)
  have "share k (d + z) i = d div k + z div k + 1"
  proof (cases "k \<le> ?r + ?s")
    case True
    then have "d + z = i + Suc (d div k + z div k) * k" unfolding i_def using e by simp
    then have "(d + z) div k = Suc (d div k + z div k)" "(d + z) mod k = i"
      using i r by (simp_all del: mult_Suc)
    then show ?thesis by (simp add: share_def)
  next
    case False
    then have "(d + z) div k = d div k + z div k" "(d + z) mod k = ?r + ?s"
      using r by (simp_all add: e)
    then show ?thesis using i by (simp add: share_def)
  qed
  then have "share k (d + z) i < share k d i + share k z i" using i by (simp add: share_def)
  moreover have "0 < share k z i" using i by (simp add: share_def)
  ultimately show ?thesis using i r by (intro exI[of _ i]) auto
qed

section \<open>Nodes and batches\<close>

lemma length_filter_enumerate:
  "length (filter (\<lambda>p. P (snd p)) (enumerate n xs)) = length (filter P xs)"
  by (induction xs arbitrary: n) auto

lemma filter_slots:
  "distinct active \<Longrightarrow> filter (\<lambda>(r', a). r' = r \<and> Q a) (concat (map (region_slots k nums) active)) =
     (if r \<in> set active then filter (\<lambda>(r', a). Q a) (region_slots k nums r) else [])"
proof (induction active)
  case (Cons x active)
  have "filter (\<lambda>(r', a). r' = r \<and> Q a) (region_slots k nums x) =
      (if x = r then filter (\<lambda>(r', a). Q a) (region_slots k nums r) else [])"
    by (auto simp: region_slots_def filter_map o_def)
  with Cons show ?case by auto
qed simp

lemma length_az_members:
  assumes "distinct active" "r \<in> set active" "a < k"
  shows "length (az_members (nodes k nums active) r a) = share k (nat (nums ! r)) a"
proof -
  let ?xs = "concat (map (region_slots k nums) active)"
  have "length (az_members (nodes k nums active) r a) =
      length (filter (\<lambda>p. (\<lambda>(r', a'). r' = r \<and> a' = a) (snd p)) (enumerate 1 ?xs))"
    by (simp add: az_members_def nodes_def filter_map o_def case_prod_beta)
  also have "\<dots> = length (filter (\<lambda>(r', a'). r' = r \<and> a' = a) ?xs)"
    by (rule length_filter_enumerate)
  also have "\<dots> = length (filter (\<lambda>(r', a'). a' = a) (region_slots k nums r))"
    using filter_slots[OF assms(1), of r "\<lambda>a'. a' = a" k nums] assms(2) by simp
  also have "\<dots> = share k (nat (nums ! r)) a"
    using share_filter[OF assms(3), of "nat (nums ! r)"] by (simp add: region_slots_def filter_map o_def)
  finally show ?thesis .
qed

lemma distinct_node_nums: "distinct (map cn_node_num (nodes k nums active))"
proof -
  have "map cn_node_num (nodes k nums active) = map fst (enumerate 1 (concat (map (region_slots k nums) active)))"
    by (simp add: nodes_def o_def case_prod_beta)
  then show ?thesis by (simp only: map_fst_enumerate distinct_upt)
qed

lemma node_name_inject [simp]: "node_name lb n = node_name lb n' \<longleftrightarrow> cn_node_num n = cn_node_num n'"
  by (simp add: node_name_def)

lemma distinct_node_names: "distinct (map (node_name lb) (nodes k nums active))"
  using distinct_node_nums[of k nums active] by (auto simp: distinct_map inj_on_def)

lemma nodes_region_az:
  assumes "n \<in> set (nodes k nums active)" "0 < k"
  shows "cn_region_id n \<in> set active \<and> cn_az_id n < k"
proof -
  from assms(1) obtain p where p: "p \<in> set (enumerate 1 (concat (map (region_slots k nums) active)))"
    "n = (case p of (node_num, region_id, az_id) \<Rightarrow>
       \<lparr>cn_region_id = region_id, cn_az_id = az_id, cn_node_num = node_num\<rparr>)"
    by (auto simp: nodes_def)
  from p(1) have "snd p \<in> set (map snd (enumerate 1 (concat (map (region_slots k nums) active))))"
    unfolding set_map by (rule imageI)
  then have "snd p \<in> set (concat (map (region_slots k nums) active))" by (simp only: map_snd_enumerate)
  with p(2) assms(2) show ?thesis by (auto simp: region_slots_def split: prod.splits)
qed

lemma distinct_active: "distinct (active_region_ids regions nums)"
  by (simp add: active_region_ids_def)

lemma distinct_concat_map:
  "\<lbrakk>distinct xs; \<And>x. x \<in> set xs \<Longrightarrow> distinct (f x); \<And>x y. x \<noteq> y \<Longrightarrow> set (f x) \<inter> set (f y) = {}\<rbrakk>
     \<Longrightarrow> distinct (concat (map f xs))"
  by (induction xs) fastforce+

text \<open>The names of a zone, over all zones of all active regions, are the names of all nodes, each once.\<close>

lemma az_names_distinct: "distinct (node_names lb (nodes k nums active) r a)"
  unfolding node_names_def az_members_def using distinct_node_names[of lb k nums active]
  by (rule distinct_map_filter)

lemma az_names_disjoint:
  assumes "(r, a) \<noteq> (r', a')"
  shows "set (node_names lb (nodes k nums active) r a) \<inter> set (node_names lb (nodes k nums active) r' a') = {}"
proof -
  have inj: "inj_on (node_name lb) (set (nodes k nums active))"
    using distinct_node_names[of lb k nums active] by (simp add: distinct_map)
  have "x \<notin> set (node_names lb (nodes k nums active) r' a')" if "x \<in> set (node_names lb (nodes k nums active) r a)" for x
  proof
    assume "x \<in> set (node_names lb (nodes k nums active) r' a')"
    with that obtain n n' where "n \<in> set (nodes k nums active)" "n' \<in> set (nodes k nums active)"
      "node_name lb n = node_name lb n'" "cn_region_id n = r" "cn_az_id n = a" "cn_region_id n' = r'" "cn_az_id n' = a'"
      unfolding node_names_def az_members_def set_map set_filter by blast
    with inj assms show False by (metis inj_onD)
  qed
  then show ?thesis by blast
qed

lemma az_names_cover:
  assumes "0 < k"
  shows "(\<Union>r\<in>set active. \<Union>a\<in>{0..<k}. set (node_names lb (nodes k nums active) r a)) =
    set (map (node_name lb) (nodes k nums active))"
proof (intro equalityI subsetI)
  fix x assume "x \<in> set (map (node_name lb) (nodes k nums active))"
  then obtain n where n: "n \<in> set (nodes k nums active)" "x = node_name lb n" by auto
  then have "x \<in> set (node_names lb (nodes k nums active) (cn_region_id n) (cn_az_id n))"
    by (auto simp: node_names_def az_members_def simp del: node_name_inject)
  with nodes_region_az[OF n(1) assms]
  show "x \<in> (\<Union>r\<in>set active. \<Union>a\<in>{0..<k}. set (node_names lb (nodes k nums active) r a))"
    by (intro UN_I[of "cn_region_id n"] UN_I[of "cn_az_id n"]) auto
qed (auto simp: node_names_def az_members_def)

lemma length_node_names [simp]: "length (node_names lb ns r a) = length (az_members ns r a)"
  by (simp add: node_names_def)

lemma length_node_tags [simp]: "length (node_tags lb ns r a) = length (az_members ns r a)"
  by (simp add: node_tags_def)

lemma base_az_names:
  assumes "distinct active" "r \<in> set active" "a < k"
  shows "concat (map ba_names (base_az_batches lb (nodes k nums active) (spread k (nat (nums ! r))) r a)) =
    node_names lb (nodes k nums active) r a"
  using length_az_members[OF assms, of nums] assms(3)
  by (auto simp: base_az_batches_def spread_nth node_names_def)

lemma concat_map_concat: "concat (map f (concat (map g xs))) = concat (map (\<lambda>x. concat (map f (g x))) xs)"
  by (induction xs) auto

lemma base_names:
  assumes "distinct active"
  shows "concat (map ba_names (base_batches lb k nums active)) =
    concat (map (\<lambda>r. concat (map (node_names lb (nodes k nums active) r) [0..<k])) active)"
  unfolding base_batches_def concat_map_concat
  by (intro arg_cong[where f = concat] map_cong refl) (use base_az_names[OF assms] in auto)

lemma base_batches_match:
  assumes "distinct active" "b \<in> set (base_batches lb k nums active)"
  shows "length (ba_tags b) = ba_count b \<and> length (ba_names b) = ba_count b \<and> 0 < ba_count b"
proof -
  from assms(2) obtain r a where ra: "r \<in> set active" "a < k"
    and b: "b \<in> set (base_az_batches lb (nodes k nums active) (spread k (nat (nums ! r))) r a)"
    by (auto simp: base_batches_def)
  from b length_az_members[OF assms(1) ra, of nums] ra(2) show ?thesis
    by (auto simp: base_az_batches_def spread_nth split: if_splits)
qed

lemma base_names_once:
  assumes "distinct active" "0 < k"
  shows "distinct (concat (map ba_names (base_batches lb k nums active))) \<and>
    set (concat (map ba_names (base_batches lb k nums active))) = set (map (node_name lb) (nodes k nums active))"
proof
  have d: "distinct (concat (map (node_names lb (nodes k nums active) r) [0..<k]))" for r
    by (rule distinct_concat_map) (auto intro: az_names_distinct simp: az_names_disjoint simp del: disjoint_iff)
  have dj: "set (concat (map (node_names lb (nodes k nums active) r) [0..<k])) \<inter>
      set (concat (map (node_names lb (nodes k nums active) r') [0..<k])) = {}" if "r \<noteq> r'" for r r'
    using az_names_disjoint[of r _ r' _ lb k nums active] that by fastforce
  show "distinct (concat (map ba_names (base_batches lb k nums active)))"
    unfolding base_names[OF assms(1)] by (rule distinct_concat_map[OF assms(1) d dj])
  show "set (concat (map ba_names (base_batches lb k nums active))) = set (map (node_name lb) (nodes k nums active))"
    unfolding base_names[OF assms(1)] az_names_cover[OF assms(2), symmetric] by auto
qed

lemma azs_not_Nil: "azs p = Inr zones \<Longrightarrow> 0 < length zones"
  by (auto simp: azs_def split: param.splits)

lemma length_nodes: "length (nodes k nums active) = sum_list (map (\<lambda>r. nat (nums ! r)) active)"
  by (simp add: nodes_def length_concat o_def region_slots_def)

text \<open>C26: The batches of a cluster other than the DB cluster ask for exactly as many instances as they have names
  and tags; together they name every node of the cluster once and ask for the configured number of nodes.
\<close>

theorem cluster_nodes_named_once:
  assumes "kind \<noteq> DBCluster" "azs p = Inr zones" "node_nums kind p = Inr nums"
    and "cluster_batches lc kind p (length zones) nums (active_region_ids regions nums) [] = Inr bs"
  shows "list_all (\<lambda>b. length (ba_tags b) = ba_count b \<and> length (ba_names b) = ba_count b \<and> 0 < ba_count b) bs \<and>
    distinct (concat (map ba_names bs)) \<and>
    set (concat (map ba_names bs)) = node_name (cluster_labels lc kind p) `
      set (nodes (length zones) nums (active_region_ids regions nums)) \<and>
    sum_list (map ba_count bs) = sum_list (map (\<lambda>r. nat (nums ! r)) (active_region_ids regions nums))"
proof -
  let ?active = "active_region_ids regions nums" and ?k = "length zones" and ?lb = "cluster_labels lc kind p"
  from assms(1,4) have bs: "bs = base_batches ?lb ?k nums ?active" by (simp add: cluster_batches_def)
  note once = base_names_once[OF distinct_active azs_not_Nil[OF assms(2)], of ?lb nums regions nums, folded bs]
  have match: "list_all (\<lambda>b. length (ba_tags b) = ba_count b \<and> length (ba_names b) = ba_count b \<and> 0 < ba_count b) bs"
    using base_batches_match[OF distinct_active] unfolding bs list_all_iff by blast
  then have "sum_list (map ba_count bs) = length (concat (map ba_names bs))"
    by (simp add: length_concat list_all_iff cong: map_cong)
  also have "\<dots> = card (set (concat (map ba_names bs)))" using once by (metis distinct_card)
  also have "\<dots> = length (map (node_name ?lb) (nodes ?k nums ?active))"
    using once distinct_node_names by (metis distinct_card)
  also have "\<dots> = sum_list (map (\<lambda>r. nat (nums ! r)) ?active)" by (simp add: length_nodes)
  finally show ?thesis using match once by simp
qed

lemma db_active_count:
  assumes "node_nums DBCluster p = Inr nums" "get_data_nodes p = Inr data" "get_zero_token_nodes p = Inr zero"
    and "list_all (\<lambda>n. 0 \<le> n) data" "list_all (\<lambda>n. 0 \<le> n) zero" "r < length nums"
  shows "nat (nums ! r) = nat (data ! r) + zero_count zero r"
proof -
  from assms(1-3) have nums: "nums = (if zero \<noteq> [] then map (\<lambda>(n1, n2). n1 + n2) (zip data zero) else data)"
    by (simp add: node_nums_def)
  show ?thesis
  proof (cases "zero = []")
    case True
    with nums show ?thesis by (simp add: zero_count_def)
  next
    case False
    with nums assms(6) have "r < length data" "r < length zero" "nums ! r = data ! r + zero ! r" by auto
    moreover from this assms(4,5) have "0 \<le> data ! r" "0 \<le> zero ! r" by (auto simp: list_all_length)
    ultimately show ?thesis using False by (simp add: zero_count_def nat_add_distrib)
  qed
qed

text \<open>The batches of one zone match their tags unless its zero-token nodes are more than the rest of its nodes.\<close>

lemma db_az_batches_match:
  assumes "distinct active" "r \<in> set active" "a < k" "nat (nums ! r) = d + z"
  shows "(\<forall>b\<in>set (db_az_batches lb (nodes k nums active) (spread k d) (spread k z) r a). length (ba_tags b) = ba_count b) \<longleftrightarrow>
    (0 < share k z a \<longrightarrow> share k (d + z) a = share k d a + share k z a)"
  using length_az_members[OF assms(1-3), of nums] share_le_add[OF assms(3), of d z] assms(3,4)
  by (auto simp: db_az_batches_def Let_def spread_nth)

text \<open>C27: The batches of the DB cluster have as many tags as instances to ask for (the provisioner asserts it)
  exactly when in every active region the data nodes or the zero-token nodes fill the availability zones evenly.
\<close>

theorem db_batches_match_iff:
  assumes "azs p = Inr zones" "node_nums DBCluster p = Inr nums" "get_data_nodes p = Inr data"
    and "get_zero_token_nodes p = Inr zero" "list_all (\<lambda>n. 0 \<le> n) data" "list_all (\<lambda>n. 0 \<le> n) zero"
    and "cluster_batches lc DBCluster p (length zones) nums (active_region_ids regions nums) [] = Inr bs"
  shows "list_all (\<lambda>b. length (ba_tags b) = ba_count b) bs \<longleftrightarrow>
    list_all (\<lambda>r. length zones dvd nat (data ! r) \<or> length zones dvd zero_count zero r) (active_region_ids regions nums)"
proof -
  let ?active = "active_region_ids regions nums" and ?k = "length zones" and ?lb = "cluster_labels lc DBCluster p"
  note k = azs_not_Nil[OF assms(1)]
  have az: "(\<forall>b\<in>set (db_az_batches ?lb (nodes ?k nums ?active) (spread ?k (nat (data ! r))) (spread ?k (zero_count zero r)) r a).
        length (ba_tags b) = ba_count b) \<longleftrightarrow>
      (0 < share ?k (zero_count zero r) a \<longrightarrow>
       share ?k (nat (data ! r) + zero_count zero r) a = share ?k (nat (data ! r)) a + share ?k (zero_count zero r) a)"
    if "r \<in> set ?active" "a < ?k" for r a
    by (rule db_az_batches_match[OF distinct_active that])
      (rule db_active_count[OF assms(2-6)], use that in \<open>auto simp: active_region_ids_def\<close>)
  have zones: "(\<forall>a<?k. 0 < share ?k (zero_count zero r) a \<longrightarrow>
       share ?k (nat (data ! r) + zero_count zero r) a = share ?k (nat (data ! r)) a + share ?k (zero_count zero r) a) \<longleftrightarrow>
      ?k dvd nat (data ! r) \<or> ?k dvd zero_count zero r" for r
  proof (cases "?k dvd nat (data ! r) \<or> ?k dvd zero_count zero r")
    case True
    with share_add_even[OF k, of "nat (data ! r)" "zero_count zero r"] show ?thesis by simp
  next
    case False
    with share_add_uneven[OF k, of "nat (data ! r)" "zero_count zero r"] show ?thesis by fastforce
  qed
  from assms(3,4,7) have "bs = db_batches ?lb ?k nums ?active data zero []" by (simp add: cluster_batches_def)
  then have "set bs = (\<Union>r\<in>set ?active. \<Union>a<?k.
      set (db_az_batches ?lb (nodes ?k nums ?active) (spread ?k (nat (data ! r))) (spread ?k (zero_count zero r)) r a))"
    by (simp add: db_batches_def atLeast0LessThan)
  then have "list_all (\<lambda>b. length (ba_tags b) = ba_count b) bs \<longleftrightarrow> (\<forall>r\<in>set ?active. \<forall>a<?k.
      \<forall>b\<in>set (db_az_batches ?lb (nodes ?k nums ?active) (spread ?k (nat (data ! r))) (spread ?k (zero_count zero r)) r a).
        length (ba_tags b) = ba_count b)"
    by (auto simp: list_all_iff)
  also have "\<dots> \<longleftrightarrow> (\<forall>r\<in>set ?active. ?k dvd nat (data ! r) \<or> ?k dvd zero_count zero r)"
    by (simp add: az zones)
  finally show ?thesis by (simp add: list_all_iff)
qed

section \<open>An example\<close>

definition example_cparams :: params where
  "example_cparams = (\<lambda>_. PNone)(''n_loaders'' := PCounts [Some 3, Some 1], ''availability_zone'' := PStr ''a,b'',
     ''user_prefix'' := PStr ''u'', ''n_db_nodes'' := PInt 3, ''use_zero_nodes'' := PBool True,
     ''n_db_zero_token_nodes'' := PInt 1, ''instance_provision'' := PStr ''on_demand'', ''region_name'' := PStr ''r1 r2'')"

definition example_launcher :: "((string \<times> tags) list, string) launcher" where
  "example_launcher = \<lparr>lc_ec2 = example_ec2, lc_test_id = ''12345678-90'', lc_common_tags = [],
     lc_build = (\<lambda>kind zero c r a. Inr ''t'')\<rparr>"

definition example_conf :: aws_conf where
  "example_conf = \<lparr>cf_env = Map.empty, cf_params = example_cparams\<rparr>"

lemma example_counts:
  "azs example_cparams = Inr [''a'', ''b'']"
  "node_nums LoaderCluster example_cparams = Inr [3, 1]"
  "node_nums DBCluster example_cparams = Inr [4]"
  "get_data_nodes example_cparams = Inr [3]"
  "get_zero_token_nodes example_cparams = Inr [1]"
  "active_region_ids [''r1'', ''r2''] [3, 1] = [0, 1]"
  "active_region_ids [''r1'', ''r2''] [4] = [0]"
  by (code_simp)+

theorem cluster_nodes_named_once_witness:
  "let bs = base_batches (cluster_labels example_launcher LoaderCluster example_cparams) 2 [3, 1] [0, 1] in
     list_all (\<lambda>b. length (ba_names b) = ba_count b) bs \<and> distinct (concat (map ba_names bs)) \<and>
     sum_list (map ba_count bs) = 4"
  using cluster_nodes_named_once[OF _ example_counts(1,2), of example_launcher "[''r1'', ''r2'']"]
  by (simp add: example_counts cluster_batches_def Let_def list_all_iff flip: numeral_2_eq_2)

theorem db_batches_match_iff_witness:
  "\<not> list_all (\<lambda>b. length (ba_tags b) = ba_count b)
       (db_batches (cluster_labels example_launcher DBCluster example_cparams) 2 [4] [0] [3] [1] [])"
  using db_batches_match_iff[OF example_counts(1,3-5), of example_launcher "[''r1'', ''r2'']"]
  by (simp add: example_counts cluster_batches_def zero_count_def flip: numeral_2_eq_2)

text \<open>
  Three data nodes and one zero-token node over two zones: the zero-token node is asked for in the first zone,
  whose nodes all went to the data nodes, and the assertion on its tags fails.
\<close>

lemma zero_token_assertion:
  "fst (provision_cluster example_launcher example_conf [] (new_cluster DBCluster) []) = Inl (exn AssertionError)"
  by code_simp

section \<open>Provisioning all of it\<close>

definition in_region_of :: "string \<Rightarrow> instance_ref list \<Rightarrow> nat" where
  "in_region_of region insts = length (filter (\<lambda>i. in_region i = Some region) insts)"

text \<open>The ways a batch can fail: building its parameters, or EC2, with the region attached.\<close>

definition batch_error :: "('w, 'p) launcher \<Rightarrow> string list \<Rightarrow> aws_exn \<Rightarrow> bool" where
  "batch_error lc regions e \<longleftrightarrow>
     (\<exists>kind z c r a. lc_build lc kind z c r a = Inl e) \<or> (\<exists>s. ex_kind e = OtherError s) \<or>
     ((is_client_error e \<or> ex_kind e = CapacityExhausted) \<and> (\<exists>region\<in>set regions. ex_failed_region e = Some region))"

definition on_demand :: "aws_conf \<Rightarrow> bool" where
  "on_demand c \<longleftrightarrow> cf_params c ''instance_provision'' = PStr ''on_demand''"

definition batch_ok :: "string list \<Rightarrow> batch \<Rightarrow> bool" where
  "batch_ok regions b \<longleftrightarrow> ba_region_id b < length regions \<and> 0 < ba_count b \<and> length (ba_tags b) = ba_count b \<and>
     length (ba_names b) = ba_count b"

lemma provision_az_on_demand:
  assumes c: "ec2_contract (lc_ec2 lc) cap" and od: "on_demand conf" and b: "batch_ok regions b"
    and r: "provision_az_instances lc conf (regions ! ba_region_id b) az ip b w = (r, w')"
  shows "case r of Inl e \<Rightarrow> batch_error lc regions e | Inr ids \<Rightarrow> length ids = ba_count b"
proof -
  let ?region = "regions ! ba_region_id b"
  from b have reg: "?region \<in> set regions" by (simp add: batch_ok_def)
  have plan: "provision_plan conf ?region az = Inr [request_on_demand ?region az]"
    using od by (simp add: provision_plan_def provision_steps_def instance_provision_def on_demand_def get_str_def)
  obtain q w1 where q: "provision (lc_ec2 lc) (request_on_demand ?region az) ip (ba_count b) (ba_tags b) (ba_names b) w = (q, w1)"
    by fastforce
  note o = provision_outcome[OF c _ _ _ q]
  show ?thesis
  proof (cases q)
    case (Inl e)
    with o b have "ec2_error e" by (simp add: batch_ok_def)
    moreover from q Inl r plan have "r = Inl (tag_capacity_error ?region az e)"
      by (simp add: provision_az_instances_def provision_instances_def Let_def)
    ultimately show ?thesis using reg
      by (auto simp: batch_error_def tag_capacity_error_def attach_failed_region_def is_client_error_def ec2_error_def
          split: aws_kind.splits)
  next
    case (Inr ids)
    with o b have ids: "length ids = ba_count b" "ids \<noteq> []" by (auto simp: batch_ok_def request_on_demand_def)
    with q Inr r plan show ?thesis
      by (auto simp: provision_az_instances_def provision_instances_def Let_def)
  qed
qed

lemma run_batches_on_demand:
  assumes c: "ec2_contract (lc_ec2 lc) cap" and od: "on_demand conf"
  shows "\<lbrakk>run_batches lc conf kind regions zones bs acc w = (r, insts, w'); list_all (batch_ok regions) bs\<rbrakk> \<Longrightarrow>
    (case r of Inl e \<Rightarrow> batch_error lc regions e
     | Inr _ \<Rightarrow> \<forall>region. in_region_of region insts = in_region_of region acc +
         sum_list (map (\<lambda>b. if regions ! ba_region_id b = region then ba_count b else 0) bs))"
proof (induction bs arbitrary: acc w)
  case (Cons b bs)
  let ?region = "regions ! ba_region_id b"
  from Cons.prems(2) have b: "batch_ok regions b" and bs: "list_all (batch_ok regions) bs" by auto
  then have len: "ba_region_id b < length regions" by (simp add: batch_ok_def)
  show ?case
  proof (cases "lc_build lc kind (ba_zero b) conf (ba_region_id b) (ba_az_id b)")
    case (Inl e)
    with Cons.prems(1) show ?thesis by (auto simp: batch_error_def Let_def)
  next
    case (Inr ip)
    obtain q w1 where q: "provision_az_instances lc conf ?region (zones ! ba_az_id b) ip b w = (q, w1)" by fastforce
    note o = provision_az_on_demand[OF c od b q]
    show ?thesis
    proof (cases q)
      case (Inl e)
      with Cons.prems(1) q \<open>lc_build _ _ _ _ _ _ = _\<close> len o show ?thesis by (auto simp: Let_def)
    next
      case q': (Inr ids)
      let ?new = "map (\<lambda>i. \<lparr>in_id = Some i, in_region = Some ?region\<rparr>) ids"
      from Cons.prems(1) q q' Inr len have "run_batches lc conf kind regions zones bs (acc @ ?new) w1 = (r, insts, w')"
        by (simp add: Let_def)
      note ih = Cons.IH[OF this bs]
      have "in_region_of region (acc @ ?new) = in_region_of region acc + (if ?region = region then ba_count b else 0)" for region
        using o q' by (auto simp: in_region_of_def filter_map o_def)
      with ih show ?thesis by (auto split: sum.splits)
    qed
  qed
qed auto

lemma sum_list_single: "\<lbrakk>distinct xs; x \<in> set xs\<rbrakk> \<Longrightarrow> sum_list (map (\<lambda>y. if y = x then c else 0) xs) = (c :: nat)"
  by (induction xs) (auto simp: sum_list_0 cong: map_cong)

lemma sum_list_concat_map: "sum_list (map f (concat (map g xs))) = sum_list (map (\<lambda>x. sum_list (map f (g x))) xs)"
  for f :: "'a \<Rightarrow> nat"
  by (induction xs) auto

lemma base_region_total:
  assumes d: "distinct regions" and k: "0 < k" and r: "r \<in> set (active_region_ids regions nums)"
  shows "sum_list (map (\<lambda>b. if regions ! ba_region_id b = regions ! r then ba_count b else 0)
      (base_batches lb k nums (active_region_ids regions nums))) = nat (nums ! r)"
proof -
  let ?active = "active_region_ids regions nums"
  let ?f = "\<lambda>b. if regions ! ba_region_id b = regions ! r then ba_count b else 0"
  have same: "regions ! r' = regions ! r \<longleftrightarrow> r' = r" if "r' \<in> set ?active" for r'
    using d r that by (auto simp: active_region_ids_def nth_eq_iff_index_eq)
  have "sum_list (map (\<lambda>a. sum_list (map ?f (base_az_batches lb (nodes k nums ?active) (spread k (nat (nums ! r'))) r' a))) [0..<k]) =
      (if r' = r then nat (nums ! r) else 0)" if "r' \<in> set ?active" for r'
  proof -
    have "sum_list (map (\<lambda>a. sum_list (map ?f (base_az_batches lb (nodes k nums ?active) (spread k (nat (nums ! r'))) r' a))) [0..<k]) =
        sum_list (map (\<lambda>a. if r' = r then share k (nat (nums ! r)) a else 0) [0..<k])"
      using same[OF that]
      by (intro arg_cong[where f = sum_list] map_cong refl) (auto simp: base_az_batches_def spread_nth)
    also have "\<dots> = (if r' = r then nat (nums ! r) else 0)"
      using sum_list_share[OF k, of "nat (nums ! r)"] by (simp add: sum_list_0)
    finally show ?thesis .
  qed
  then have "sum_list (map ?f (base_batches lb k nums ?active)) =
      sum_list (map (\<lambda>r'. if r' = r then nat (nums ! r) else 0) ?active)"
    unfolding base_batches_def sum_list_concat_map by (simp cong: map_cong)
  with sum_list_single[OF distinct_active r] show ?thesis by simp
qed

lemma base_batches_ok:
  "list_all (batch_ok regions) (base_batches lb k nums (active_region_ids regions nums))"
proof -
  let ?active = "active_region_ids regions nums"
  have "ba_region_id b < length regions" if "b \<in> set (base_batches lb k nums ?active)" for b
    using that by (auto simp: base_batches_def base_az_batches_def active_region_ids_def split: if_splits)
  with base_batches_match[OF distinct_active] show ?thesis unfolding list_all_iff batch_ok_def by blast
qed

text \<open>C25: Provisioning a cluster other than the DB cluster on-demand, in distinct regions and with EC2 keeping its
  promises, either records in every active region exactly the configured number of instances, or raises an error
  of EC2 or of the parameter builder; a capacity error names one of the regions.
\<close>

theorem cluster_provision_complete:
  assumes "ec2_contract (lc_ec2 lc) cap" "on_demand c" "distinct (conf_region_names c)" "kind \<noteq> DBCluster"
    and "azs (cf_params c) = Inr zones" "node_nums kind (cf_params c) = Inr nums"
    and "provision_cluster lc c [] (new_cluster kind) w = (r, co, w')"
  shows "case r of
      Inl e \<Rightarrow> batch_error lc (conf_region_names c) e
    | Inr _ \<Rightarrow> list_all (\<lambda>i. in_region_of (conf_region_names c ! i) (co_instances co) = nat (nums ! i))
        (active_region_ids (conf_region_names c) nums)"
proof -
  let ?regions = "conf_region_names c" and ?active = "active_region_ids (conf_region_names c) nums"
  let ?bs = "base_batches (cluster_labels lc kind (cf_params c)) (length zones) nums ?active"
  show ?thesis
  proof (cases "nums = [0] \<or> ?active = []")
    case True
    then have a: "?active = []" by (auto simp: active_region_ids_def filter_empty_conv)
    have "r = Inr ()"
      using a assms(6,7) by (cases "nums = [0]") (simp_all add: provision_cluster_def new_cluster_def cached_def Let_def)
    with a show ?thesis by simp
  next
    case False
    obtain q insts w1 where q: "run_batches lc c kind ?regions zones ?bs [] w = (q, insts, w1)" by (metis prod_cases3)
    from False q assms(4-7) have res: "r = q" "co_instances co = insts"
      by (auto simp: provision_cluster_def new_cluster_def cached_def cluster_batches_def Let_def)
    from run_batches_on_demand[OF assms(1,2) q base_batches_ok]
      base_region_total[OF assms(3) azs_not_Nil[OF assms(5)], of _ nums "cluster_labels lc kind (cf_params c)"]
    show ?thesis unfolding res by (auto simp: list_all_iff in_region_of_def split: sum.splits)
  qed
qed

theorem cluster_provision_complete_witness:
  "ec2_contract (lc_ec2 example_launcher) length \<and>
   list_all (\<lambda>i. in_region_of (conf_region_names example_conf ! i)
       (co_instances (fst (snd (provision_cluster example_launcher example_conf [] (new_cluster LoaderCluster) [])))) = nat ([3, 1] ! i))
     [0, 1]"
proof -
  let ?p = "provision_cluster example_launcher example_conf [] (new_cluster LoaderCluster) []"
  have c: "ec2_contract (lc_ec2 example_launcher) length" by (simp add: example_launcher_def example_contract)
  have regions: "conf_region_names example_conf = [''r1'', ''r2'']" by code_simp
  have ok: "fst ?p = Inr ()" by code_simp
  obtain r co w' where p: "?p = (r, co, w')" by (metis prod_cases3)
  have "on_demand example_conf" by (simp add: on_demand_def example_conf_def example_cparams_def)
  from cluster_provision_complete[OF c this _ _ _ _ p, of "[''a'', ''b'']" "[3, 1]"] ok p c
  show ?thesis by (simp add: regions example_counts) (simp add: example_conf_def example_counts)
qed

end
