(* ===== verification/Capacity_Reservation.thy ===== *)
theory Capacity_Reservation
  imports Aws_Cluster
begin

text \<open>
  Capacity reservations and dedicated hosts of a test on AWS
  (\<^verbatim>\<open>sdcm/provision/aws/capacity_reservation.py\<close>, \<^verbatim>\<open>sdcm/provision/aws/dedicated_host.py\<close>): what is asked for, the
  search through the availability zones, and what is cancelled on the way.

  The class attributes \<^verbatim>\<open>reservations\<close> and \<^verbatim>\<open>hosts\<close> are fields of the state, next to the configuration; the
  EC2 calls are parameters.  After validation \<^verbatim>\<open>n_db_nodes\<close> and \<^verbatim>\<open>n_loaders\<close> are lists of numbers.
\<close>

record 'w site =
  si_conf :: aws_conf
  si_reservations :: "string dict dict"
  si_hosts :: "string dict dict"
  si_world :: 'w

definition set_zone :: "param \<Rightarrow> ('w, 'z) site_scheme \<Rightarrow> ('w, 'z) site_scheme" where
  "set_zone v s = s\<lparr>si_conf := (si_conf s)\<lparr>cf_params := (cf_params (si_conf s))(''availability_zone'' := v)\<rparr>\<rparr>"

lemma set_zone_simps [simp]:
  "si_world (set_zone v s) = si_world s" "si_reservations (set_zone v s) = si_reservations s"
  "si_hosts (set_zone v s) = si_hosts s" "cf_env (si_conf (set_zone v s)) = cf_env (si_conf s)"
  "conf_region_names (si_conf (set_zone v s)) = conf_region_names (si_conf s)"
  by (simp_all add: set_zone_def conf_region_names_def get_str_def split: option.splits)

section \<open>What to reserve\<close>

text \<open>\<^verbatim>\<open>sum(value)\<close> of a list of numbers, and \<^verbatim>\<open>_to_int_sum\<close>.\<close>

definition sum_counts :: "param \<Rightarrow> aws_exn + int" where
  "sum_counts v = (case v of
       PCounts l \<Rightarrow> (if None \<in> set l then Inl (exn (OtherError ''TypeError'')) else Inr (sum_list (map the l)))
     | _ \<Rightarrow> Inl (exn (OtherError ''TypeError'')))"

definition to_int_sum :: "param \<Rightarrow> aws_exn + int" where
  "to_int_sum v = (case v of
       PCounts l \<Rightarrow> (if None \<in> set l then Inl (exn ValueError) else Inr (sum_list (map the l)))
     | PInt i \<Rightarrow> Inr i
     | PFloat r \<Rightarrow> Inr (int_of_float r)
     | PBool b \<Rightarrow> Inr (of_bool b)
     | PNone \<Rightarrow> Inr 0
     | PStr s \<Rightarrow> if s = [] then Inr 0 else Inl (exn ValueError))"

text \<open>\<^verbatim>\<open>instance_counts[key] += n\<close> on a \<^verbatim>\<open>defaultdict(int)\<close>.\<close>

definition count_more :: "string \<Rightarrow> int \<Rightarrow> int dict \<Rightarrow> int dict" where
  "count_more key n counts = AList.update key ((case map_of counts key of Some v \<Rightarrow> v | None \<Rightarrow> 0) + n) counts"

definition or_fail :: "'e + 'a \<Rightarrow> ('a \<Rightarrow> 'e + 'b) \<Rightarrow> 'e + 'b" where
  "or_fail r f = (case r of Inl e \<Rightarrow> Inl e | Inr a \<Rightarrow> f a)"

definition is_mixed :: "params \<Rightarrow> bool" where
  "is_mixed p = (p ''db_type'' = PStr ''mixed_scylla'' \<or> p ''db_type'' = PStr ''mixed_cassandra'')"

text \<open>\<^verbatim>\<open>_get_cr_request_based_on_sct_config\<close>: the steps add the counts of the node types one after the other.\<close>

definition zero_token_request :: "params \<Rightarrow> int dict \<times> int \<Rightarrow> aws_exn + (int dict \<times> int)" where
  "zero_token_request p = (\<lambda>(counts, total_size).
     if \<not> truthy (p ''use_zero_nodes'') then Inr (counts, total_size)
     else or_fail (sum_counts (p ''n_db_zero_token_nodes'')) (\<lambda>zero.
       if get_str p ''zero_token_instance_type_db'' \<noteq> []
       then Inr (count_more (get_str p ''zero_token_instance_type_db'') zero counts, total_size)
       else Inr (counts, total_size + zero)))"

definition grow_shrink_request :: "params \<Rightarrow> int dict \<times> int \<Rightarrow> int dict \<times> int" where
  "grow_shrink_request p = (\<lambda>(counts, total_size).
     let added = get_int p ''nemesis_add_node_cnt'' in
     if get_str p ''nemesis_grow_shrink_instance_type'' \<noteq> []
     then (count_more (get_str p ''nemesis_grow_shrink_instance_type'') added counts, total_size)
     else (counts, total_size + added))"

definition typed_request :: "params \<Rightarrow> string \<Rightarrow> string \<Rightarrow> bool \<Rightarrow> int dict \<Rightarrow> aws_exn + int dict" where
  "typed_request p type_key count_key applies counts =
     (if get_str p type_key \<noteq> [] \<and> applies
      then or_fail (to_int_sum (p count_key)) (\<lambda>n. Inr (count_more (get_str p type_key) n counts))
      else Inr counts)"

definition get_cr_request :: "params \<Rightarrow> aws_exn + int dict" where
  "get_cr_request p =
     or_fail (sum_counts (if truthy (p ''cluster_target_size'') then p ''cluster_target_size'' else p ''n_db_nodes'')) (\<lambda>size0.
     or_fail (zero_token_request p ([], size0)) (\<lambda>st.
     (let (counts, total_size) = grow_shrink_request p st in
      or_fail (typed_request p ''instance_type_db_target'' ''n_db_nodes'' True
                 (count_more (get_str p ''instance_type_db'') total_size counts)) (\<lambda>counts.
      or_fail (typed_request p ''instance_type_db_oracle'' ''n_test_oracle_db_nodes'' (is_mixed p) counts) (\<lambda>counts.
      or_fail (sum_counts (p ''n_loaders'')) (\<lambda>loaders.
        Inr (filter (\<lambda>(k, v). v > 0) (count_more (get_str p ''instance_type_loader'') loaders counts))))))))"

definition is_capacity_reservation_enabled :: "params \<Rightarrow> bool" where
  "is_capacity_reservation_enabled p =
     (let is_single_dc = (case p ''n_db_nodes'' of PCounts l \<Rightarrow> length l = 1 | _ \<Rightarrow> False) \<or> get_int p ''simulated_regions'' > 0
      in p ''cluster_backend'' = PStr ''aws'' \<and> truthy (p ''test_id'') \<and> \<not> truthy (p ''reuse_cluster'') \<and>
         p ''use_capacity_reservation'' = PBool True \<and> p ''instance_provision'' = PStr ''on_demand'' \<and> is_single_dc)"

section \<open>Reserving\<close>

text \<open>The EC2 calls; a reservation of a test is its zone, instance type and id.\<close>

record 'w cr_api =
  ca_offerings :: offerings
  ca_describe :: "string \<Rightarrow> string \<Rightarrow> 'w \<Rightarrow> (aws_exn + (string \<times> string \<times> string) list) \<times> 'w"
  ca_placement_groups :: "string \<Rightarrow> string \<Rightarrow> 'w \<Rightarrow> (aws_exn + (string \<times> string) list) \<times> 'w"
  ca_create :: "string \<Rightarrow> string \<Rightarrow> string \<Rightarrow> int \<Rightarrow> param \<Rightarrow> string option \<Rightarrow> 'w \<Rightarrow> (aws_exn + string) \<times> 'w"
  ca_cancel :: "string \<Rightarrow> string \<Rightarrow> 'w \<Rightarrow> (aws_exn + unit) \<times> 'w"
  ca_sleep :: "nat \<Rightarrow> 'w \<Rightarrow> 'w"

text \<open>\<^verbatim>\<open>availability_zone[-1]\<close>\<close>

definition zone_letter :: "string \<Rightarrow> string" where
  "zone_letter az = drop (length az - 1) az"

definition add_reservation :: "string \<Rightarrow> string \<Rightarrow> string \<Rightarrow> string dict dict \<Rightarrow> string dict dict" where
  "add_reservation az t i reservations =
     AList.update az (AList.update t i (case map_of reservations az of Some d \<Rightarrow> d | None \<Rightarrow> [])) reservations"

definition fetch_reservations :: "'w cr_api \<Rightarrow> string \<Rightarrow> ('w, 'z) site_scheme \<Rightarrow> (aws_exn + unit) \<times> ('w, 'z) site_scheme" where
  "fetch_reservations api region s =
     (case ca_describe api region (get_str (cf_params (si_conf s)) ''test_id'') (si_world s) of
        (Inl e, w1) \<Rightarrow> (Inl e, s\<lparr>si_world := w1\<rparr>)
      | (Inr rs, w1) \<Rightarrow>
          (let result = foldl (\<lambda>d (az, t, i). add_reservation (zone_letter az) t i d) [] rs;
               s1 = s\<lparr>si_world := w1, si_reservations := result\<rparr>
           in (Inr (), if result \<noteq> [] then set_zone (PStr (zone_letter (fst (last rs)))) s1 else s1)))"

definition get_cr_from_aws :: "'w cr_api \<Rightarrow> bool \<Rightarrow> ('w, 'z) site_scheme \<Rightarrow> (aws_exn + unit) \<times> ('w, 'z) site_scheme" where
  "get_cr_from_aws api force_fetch s =
     (if \<not> is_capacity_reservation_enabled (cf_params (si_conf s)) \<and> \<not> force_fetch \<or> \<not> truthy (cf_params (si_conf s) ''test_id'')
      then (Inr (), s)
      else case conf_region_names (si_conf s) of
        [] \<Rightarrow> (Inl (exn IndexError), s)
      | region # _ \<Rightarrow> fetch_reservations api region s)"

definition cr_supported_zones :: "'w cr_api \<Rightarrow> string list \<Rightarrow> string \<Rightarrow> string \<Rightarrow> aws_exn + string list" where
  "cr_supported_zones api types region availability_zone =
     (let preferred = (case split_items CHR '','' availability_zone of [] \<Rightarrow> [] | letter # _ \<Rightarrow> [region @ letter])
      in case get_common_availability_zones (ca_offerings api) region types preferred of
           Inl e \<Rightarrow> Inl (exn (ResolverError e))
         | Inr zs \<Rightarrow> Inr zs)"

text \<open>\<^verbatim>\<open>_create\<close>: any failure is the answer None.\<close>

definition cr_create ::
    "'w cr_api \<Rightarrow> string \<Rightarrow> string \<Rightarrow> string \<Rightarrow> int \<Rightarrow> param \<Rightarrow> string option \<Rightarrow> 'w \<Rightarrow> string option \<times> 'w" where
  "cr_create api region az t n duration arn w = (case ca_create api region az t n duration arn w of
       (Inl _, w1) \<Rightarrow> (None, w1)
     | (Inr i, w1) \<Rightarrow> (Some i, w1))"

text \<open>\<^verbatim>\<open>_cancel_reservations\<close>: a \<^verbatim>\<open>ClientError\<close> is logged, anything else is raised.\<close>

fun cancel_ids :: "'w cr_api \<Rightarrow> string \<Rightarrow> string list \<Rightarrow> ('w, unit) aws" where
  "cancel_ids api region [] w = (Inr (), w)"
| "cancel_ids api region (i # is) w = (case ca_cancel api region i w of
       (Inr _, w1) \<Rightarrow> cancel_ids api region is w1
     | (Inl e, w1) \<Rightarrow> if is_client_error e then cancel_ids api region is w1 else (Inl e, w1))"

definition reservation_ids :: "string dict dict \<Rightarrow> string list" where
  "reservation_ids reservations = concat (map (\<lambda>(az, d). map snd d) reservations)"

definition cancel_reservations :: "'w cr_api \<Rightarrow> string \<Rightarrow> string dict dict \<Rightarrow> ('w, unit) aws" where
  "cancel_reservations api region reservations = cancel_ids api region (reservation_ids reservations)"

text \<open>
  The inner loop of \<^verbatim>\<open>reserve\<close> in one zone: a reservation per instance type, or None once one of them fails and
  those made before it are cancelled.
\<close>

fun reserve_types ::
    "'w cr_api \<Rightarrow> string \<Rightarrow> string \<Rightarrow> param \<Rightarrow> string option \<Rightarrow> int dict \<Rightarrow> string dict \<Rightarrow> ('w, string dict option) aws" where
  "reserve_types api region az duration arn [] made w = (Inr (Some made), w)"
| "reserve_types api region az duration arn ((t, n) # request) made w =
     (case cr_create api region az t n duration arn w of
        (Some i, w1) \<Rightarrow> reserve_types api region az duration arn request (AList.update t i made) w1
      | (None, w1) \<Rightarrow>
          (case cancel_reservations api region [(zone_letter az, made)] w1 of
             (Inl e, w2) \<Rightarrow> (Inl e, w2)
           | (Inr _, w2) \<Rightarrow> (Inr None, if arn \<noteq> None then ca_sleep api 30 w2 else w2)))"

fun reserve_zones ::
    "'w cr_api \<Rightarrow> string \<Rightarrow> param \<Rightarrow> string option \<Rightarrow> int dict \<Rightarrow> string list \<Rightarrow> ('w, string \<times> string dict) aws" where
  "reserve_zones api region duration arn request [] w = (Inl (exn CapacityReservationError), w)"
| "reserve_zones api region duration arn request (az # zones) w =
     (case reserve_types api region az duration arn request [] w of
        (Inl e, w1) \<Rightarrow> (Inl e, w1)
      | (Inr (Some made), w1) \<Rightarrow> (Inr (zone_letter az, made), w1)
      | (Inr None, w1) \<Rightarrow> reserve_zones api region duration arn request zones w1)"

definition placement_group_arn :: "'w cr_api \<Rightarrow> params \<Rightarrow> string \<Rightarrow> ('w, string option) aws" where
  "placement_group_arn api p region w =
     (if \<not> truthy (p ''use_placement_group'') then (Inr None, w)
      else case ca_placement_groups api region (get_str p ''test_id'') w of
        (Inl e, w1) \<Rightarrow> (Inl e, w1)
      | (Inr groups, w1) \<Rightarrow>
          (if groups = [] then (Inl (exn CapacityReservationError), w1)
           else case filter (\<lambda>(arn, state). state = ''available'') groups of
             [] \<Rightarrow> (Inl (exn IndexError), w1)
           | (arn, _) # _ \<Rightarrow> (Inr (Some arn), w1)))"

definition create_reservations ::
    "'w cr_api \<Rightarrow> string \<Rightarrow> ('w, 'z) site_scheme \<Rightarrow> (aws_exn + unit) \<times> ('w, 'z) site_scheme" where
  "create_reservations api region s =
     (let p = cf_params (si_conf s) in
      case placement_group_arn api p region (si_world s) of
        (Inl e, w1) \<Rightarrow> (Inl e, s\<lparr>si_world := w1\<rparr>)
      | (Inr arn, w1) \<Rightarrow>
          (case get_cr_request p of
             Inl e \<Rightarrow> (Inl e, s\<lparr>si_world := w1\<rparr>)
           | Inr request \<Rightarrow>
               (case cr_supported_zones api (map fst request) region (get_str p ''availability_zone'') of
                  Inl e \<Rightarrow> (Inl e, s\<lparr>si_world := w1\<rparr>)
                | Inr zones \<Rightarrow>
                    (case reserve_zones api region (p ''test_duration'') arn request zones w1 of
                       (Inl e, w2) \<Rightarrow> (Inl e, s\<lparr>si_world := w2\<rparr>)
                     | (Inr (letter, made), w2) \<Rightarrow>
                         (Inr (), set_zone (PStr letter) (s\<lparr>si_world := w2, si_reservations := [(letter, made)]\<rparr>))))))"

definition reserve :: "'w cr_api \<Rightarrow> ('w, 'z) site_scheme \<Rightarrow> (aws_exn + unit) \<times> ('w, 'z) site_scheme" where
  "reserve api s =
     (if \<not> is_capacity_reservation_enabled (cf_params (si_conf s)) then (Inr (), s)
      else case get_cr_from_aws api False s of
        (Inl e, s1) \<Rightarrow> (Inl e, s1)
      | (Inr _, s1) \<Rightarrow>
          (if si_reservations s1 \<noteq> [] then (Inr (), s1)
           else case conf_region_names (si_conf s1) of
             [] \<Rightarrow> (Inl (exn IndexError), s1)
           | region # _ \<Rightarrow> create_reservations api region s1))"

definition get_id :: "string \<Rightarrow> string \<Rightarrow> ('w, 'z) site_scheme \<Rightarrow> string option" where
  "get_id az t s = (case map_of (si_reservations s) az of Some d \<Rightarrow> map_of d t | None \<Rightarrow> None)"

definition cancel :: "'w cr_api \<Rightarrow> ('w, 'z) site_scheme \<Rightarrow> (aws_exn + unit) \<times> ('w, 'z) site_scheme" where
  "cancel api s =
     (if si_reservations s = [] then (Inr (), s)
      else case conf_region_names (si_conf s) of
        [] \<Rightarrow> (Inl (exn IndexError), s)
      | region # _ \<Rightarrow>
          (case cancel_reservations api region (si_reservations s) (si_world s) of
             (Inl e, w1) \<Rightarrow> (Inl e, s\<lparr>si_world := w1\<rparr>)
           | (Inr _, w1) \<Rightarrow> (Inr (), s\<lparr>si_world := w1, si_reservations := []\<rparr>)))"

text \<open>
  \<^verbatim>\<open>cancel_all_regions\<close>: every active reservation of the test in every region; a failing describe skips a region,
  a failing cancellation one reservation, and the outcome of a region never stops the others.
\<close>

definition cancel_region :: "'w cr_api \<Rightarrow> string \<Rightarrow> string \<Rightarrow> 'w \<Rightarrow> 'w" where
  "cancel_region api test_id region w = (case ca_describe api region test_id w of
       (Inl _, w1) \<Rightarrow> w1
     | (Inr rs, w1) \<Rightarrow> snd (cancel_ids api region (map (\<lambda>(az, t, i). i) rs) w1))"

definition cancel_all_regions :: "'w cr_api \<Rightarrow> string list \<Rightarrow> string \<Rightarrow> 'w \<Rightarrow> 'w" where
  "cancel_all_regions api regions test_id w =
     (if test_id = [] then w else fold (cancel_region api test_id) regions w)"

section \<open>No reservation is leaked\<close>

text \<open>
  What EC2 promises about reservations, in terms of those that are \<open>live\<close>: creating adds a new one or, failing,
  none; cancelling removes one; the other calls change nothing.
\<close>

definition cr_contract :: "'w cr_api \<Rightarrow> ('w \<Rightarrow> string set) \<Rightarrow> bool" where
  "cr_contract api live \<longleftrightarrow>
     (\<forall>region az t n d arn w e w'. ca_create api region az t n d arn w = (Inl e, w') \<longrightarrow> live w' = live w) \<and>
     (\<forall>region az t n d arn w i w'. ca_create api region az t n d arn w = (Inr i, w') \<longrightarrow>
        i \<notin> live w \<and> live w' = insert i (live w)) \<and>
     (\<forall>region i w r w'. ca_cancel api region i w = (r, w') \<longrightarrow> r = Inr () \<and> live w' = live w - {i}) \<and>
     (\<forall>region test_id w r w'. ca_describe api region test_id w = (r, w') \<longrightarrow> live w' = live w) \<and>
     (\<forall>region test_id w r w'. ca_placement_groups api region test_id w = (r, w') \<longrightarrow> live w' = live w) \<and>
     (\<forall>t w. live (ca_sleep api t w) = live w)"

lemma cr_contractD:
  assumes "cr_contract api live"
  shows "ca_create api region az t n d arn w = (Inl e, w') \<Longrightarrow> live w' = live w"
    and "ca_create api region az t n d arn w = (Inr i, w') \<Longrightarrow> i \<notin> live w \<and> live w' = insert i (live w)"
    and "ca_cancel api region i w = (r, w') \<Longrightarrow> r = Inr () \<and> live w' = live w - {i}"
    and "ca_describe api region test_id w = (rd, w') \<Longrightarrow> live w' = live w"
    and "ca_placement_groups api region test_id w = (rg, w') \<Longrightarrow> live w' = live w"
    and "live (ca_sleep api m w) = live w"
  using assms unfolding cr_contract_def by - (metis+)

lemma cancel_ids_live:
  assumes "cr_contract api live"
  shows "\<exists>w'. cancel_ids api region ids w = (Inr (), w') \<and> live w' = live w - set ids"
proof (induction ids arbitrary: w)
  case (Cons i ids)
  obtain r w1 where c: "ca_cancel api region i w = (r, w1)" by fastforce
  with cr_contractD(3)[OF assms c] Cons[of w1] show ?case by auto
qed simp

lemma reservation_ids_single [simp]: "reservation_ids [(z, made)] = map snd made"
  by (simp add: reservation_ids_def)

text \<open>In one zone: a reservation for every type, or nothing new.\<close>

lemma reserve_types_live:
  assumes c: "cr_contract api live"
  shows "\<lbrakk>reserve_types api region az d arn request made w = (r, w'); distinct (map fst request);
      fst ` set request \<inter> fst ` set made = {}; live w = L \<union> snd ` set made; L \<inter> snd ` set made = {}\<rbrakk> \<Longrightarrow>
    (case r of Inl e \<Rightarrow> False
     | Inr None \<Rightarrow> live w' = L
     | Inr (Some all) \<Rightarrow> map fst all = map fst made @ map fst request \<and> live w' = L \<union> snd ` set all \<and> L \<inter> snd ` set all = {})"
proof (induction request arbitrary: made w)
  case Nil
  then show ?case by auto
next
  case (Cons p request)
  obtain t n where p: "p = (t, n)" by fastforce
  obtain cr w1 where cr: "ca_create api region az t n d arn w = (cr, w1)" by fastforce
  from Cons.prems(3) p have t: "t \<notin> fst ` set made" by auto
  then have upd: "AList.update t i made = made @ [(t, i)]" for i by (induction made) auto
  show ?case
  proof (cases cr)
    case (Inl e)
    from cancel_ids_live[OF c, of region "map snd made" w1] obtain w2 where
      w2: "cancel_ids api region (map snd made) w1 = (Inr (), w2)" "live w2 = live w1 - snd ` set made" by auto
    have "live w1 = live w" using cr_contractD(1)[OF c, of region az t n d arn w e w1] cr Inl by simp
    with w2 Cons.prems(4,5) have "live w2 = L" by auto
    with Inl cr w2 p Cons.prems(1) cr_contractD(6)[OF c] show ?thesis
      by (auto simp: cr_create_def cancel_reservations_def)
  next
    case (Inr i)
    then have live: "i \<notin> live w" "live w1 = insert i (live w)"
      using cr_contractD(2)[OF c, of region az t n d arn w i w1] cr by simp_all
    from Inr cr p Cons.prems(1) have "reserve_types api region az d arn request (made @ [(t, i)]) w1 = (r, w')"
      by (simp add: cr_create_def upd)
    from Cons.IH[OF this] Cons.prems(2-5) live p show ?thesis by (auto split: sum.splits option.splits)
  qed
qed

lemma reserve_zones_live:
  assumes c: "cr_contract api live" and d: "distinct (map fst request)"
  shows "reserve_zones api region dur arn request zones w = (r, w') \<Longrightarrow>
    (case r of Inl e \<Rightarrow> ex_kind e = CapacityReservationError \<and> live w' = live w
     | Inr (letter, made) \<Rightarrow> letter \<in> zone_letter ` set zones \<and> map fst made = map fst request \<and>
         live w' = live w \<union> snd ` set made \<and> live w \<inter> snd ` set made = {})"
proof (induction zones arbitrary: w)
  case Nil
  then show ?case by (auto simp: exn_def)
next
  case (Cons az zones)
  obtain q w1 where q: "reserve_types api region az dur arn request [] w = (q, w1)" by fastforce
  note f = reserve_types_live[OF c q d, of "live w"]
  show ?case
  proof (cases q)
    case (Inl e)
    with f show ?thesis by simp
  next
    case (Inr made)
    show ?thesis
    proof (cases made)
      case None
      with q Inr f Cons.prems have "reserve_zones api region dur arn request zones w1 = (r, w')" "live w1 = live w" by auto
      with Cons.IH[of w1] show ?thesis by (cases r) auto
    next
      case (Some all)
      with q Inr f Cons.prems show ?thesis by auto
    qed
  qed
qed

lemma count_more_distinct: "distinct (map fst counts) \<Longrightarrow> distinct (map fst (count_more k n counts))"
  by (simp add: count_more_def)

lemma or_fail_Inr: "or_fail r f = Inr b \<longleftrightarrow> (\<exists>a. r = Inr a \<and> f a = Inr b)"
  by (auto simp: or_fail_def split: sum.splits)

lemma zero_token_distinct:
  "\<lbrakk>zero_token_request p (counts, n) = Inr (counts', n'); distinct (map fst counts)\<rbrakk> \<Longrightarrow> distinct (map fst counts')"
  by (auto simp: zero_token_request_def or_fail_Inr count_more_distinct split: if_splits)

lemma grow_shrink_distinct: "distinct (map fst counts) \<Longrightarrow> distinct (map fst (fst (grow_shrink_request p (counts, n))))"
  by (simp add: grow_shrink_request_def Let_def count_more_distinct)

lemma typed_distinct:
  "\<lbrakk>typed_request p tk ck b counts = Inr counts'; distinct (map fst counts)\<rbrakk> \<Longrightarrow> distinct (map fst counts')"
  by (auto simp: typed_request_def or_fail_Inr count_more_distinct split: if_splits)

text \<open>A request asks for each instance type once, and for a positive number of instances.\<close>

lemma request_well_formed:
  assumes "get_cr_request p = Inr request"
  shows "distinct (map fst request) \<and> (\<forall>(t, n)\<in>set request. n > 0)"
proof -
  let ?g = "grow_shrink_request p"
  from assms obtain size0 st c2 c3 loaders where st: "zero_token_request p ([], size0) = Inr st"
    and t1: "typed_request p ''instance_type_db_target'' ''n_db_nodes'' True
      (count_more (get_str p ''instance_type_db'') (snd (?g st)) (fst (?g st))) = Inr c2"
    and t2: "typed_request p ''instance_type_db_oracle'' ''n_test_oracle_db_nodes'' (is_mixed p) c2 = Inr c3"
    and r: "request = filter (\<lambda>kv. snd kv > 0) (count_more (get_str p ''instance_type_loader'') loaders c3)"
    unfolding get_cr_request_def or_fail_Inr Let_def case_prod_unfold by auto
  obtain c0 n0 where st0: "st = (c0, n0)" by fastforce
  have "distinct (map fst c0)" using zero_token_distinct[OF st[unfolded st0]] by simp
  then have "distinct (map fst (fst (?g st)))" using grow_shrink_distinct[of c0 p n0] st0 by simp
  then have "distinct (map fst c3)" using typed_distinct[OF t2] typed_distinct[OF t1] count_more_distinct by blast
  then show ?thesis unfolding r by (auto simp: count_more_distinct)
qed

lemma fetch_live:
  assumes c: "cr_contract api live" and g: "fetch_reservations api region s = (r, s')"
  shows "live (si_world s') = live (si_world s) \<and> conf_region_names (si_conf s') = conf_region_names (si_conf s)"
proof -
  obtain q w1 where q: "ca_describe api region (get_str (cf_params (si_conf s)) ''test_id'') (si_world s) = (q, w1)" by fastforce
  with g have "si_world s' = w1 \<and> conf_region_names (si_conf s') = conf_region_names (si_conf s)"
    by (cases q) (auto simp: fetch_reservations_def Let_def)
  with cr_contractD(4)[OF c q] show ?thesis by simp
qed

lemma get_cr_live:
  assumes "cr_contract api live" "get_cr_from_aws api force s = (r, s')"
  shows "live (si_world s') = live (si_world s) \<and> conf_region_names (si_conf s') = conf_region_names (si_conf s)"
  using assms(2) fetch_live[OF assms(1), of _ s r s']
  by (auto simp: get_cr_from_aws_def split: if_splits list.splits)

lemma get_cr_conf:
  assumes "get_cr_from_aws api force s = (r, s')" "si_reservations s' = []"
  shows "si_conf s' = si_conf s"
  using assms by (auto simp: get_cr_from_aws_def fetch_reservations_def Let_def
      split: if_splits list.splits sum.splits prod.splits)

lemma placement_group_live:
  "\<lbrakk>cr_contract api live; placement_group_arn api p region w = (r, w')\<rbrakk> \<Longrightarrow> live w' = live w"
  by (auto simp: placement_group_arn_def dest: cr_contractD(5) split: if_splits prod.splits sum.splits list.splits)

text \<open>What a reservation in one zone looks like.\<close>

definition reserved_in :: "string \<Rightarrow> string dict \<Rightarrow> ('w, 'z) site_scheme \<Rightarrow> bool" where
  "reserved_in letter made s \<longleftrightarrow> si_reservations s = [(letter, made)] \<and>
     cf_params (si_conf s) ''availability_zone'' = PStr letter"

lemma create_reservations_live:
  assumes c: "cr_contract api live" and r: "create_reservations api region s = (r, s')"
  shows "case r of
      Inl e \<Rightarrow> live (si_world s') = live (si_world s) \<and> si_reservations s' = si_reservations s
    | Inr _ \<Rightarrow> \<exists>request letter made. get_cr_request (cf_params (si_conf s)) = Inr request \<and> reserved_in letter made s' \<and>
        map fst made = map fst request \<and> live (si_world s') = live (si_world s) \<union> snd ` set made \<and>
        live (si_world s) \<inter> snd ` set made = {}"
proof -
  let ?p = "cf_params (si_conf s)"
  obtain a w1 where a: "placement_group_arn api ?p region (si_world s) = (a, w1)" by fastforce
  note l1 = placement_group_live[OF c a]
  show ?thesis
  proof (cases a)
    case (Inl e)
    with a r l1 show ?thesis by (auto simp: create_reservations_def Let_def)
  next
    case arn: (Inr arn)
    show ?thesis
    proof (cases "get_cr_request ?p")
      case (Inl e)
      with a arn r l1 show ?thesis by (auto simp: create_reservations_def Let_def)
    next
      case req: (Inr request)
      show ?thesis
      proof (cases "cr_supported_zones api (map fst request) region (get_str ?p ''availability_zone'')")
        case (Inl e)
        with a arn req r l1 show ?thesis by (auto simp: create_reservations_def Let_def)
      next
        case zs: (Inr zones)
        obtain q w2 where q: "reserve_zones api region (?p ''test_duration'') arn request zones w1 = (q, w2)" by fastforce
        from reserve_zones_live[OF c _ q] request_well_formed[OF req] a arn req zs q r l1 show ?thesis
          by (cases q) (auto simp: create_reservations_def Let_def reserved_in_def set_zone_def)
      qed
    qed
  qed
qed


text \<open>An EC2 whose first zone has no capacity for loaders; its world is the list of live reservations.\<close>

definition fresh_id :: "string list \<Rightarrow> string" where
  "fresh_id w = replicate (Suc (sum_list (map length w))) CHR ''c''"

lemma fresh_id: "fresh_id w \<notin> set w"
proof
  assume "fresh_id w \<in> set w"
  then have "length (fresh_id w) \<le> sum_list (map length w)" by (intro member_le_sum_list) auto
  then show False by (simp add: fresh_id_def)
qed

definition example_cr_api :: "string list cr_api" where
  "example_cr_api =
     \<lparr>ca_offerings = (\<lambda>region. Inr [(region @ ''a'', ''db''), (region @ ''a'', ''ld''), (region @ ''b'', ''db''), (region @ ''b'', ''ld'')]),
      ca_describe = (\<lambda>region test_id w. (Inr [], w)),
      ca_placement_groups = (\<lambda>region test_id w. (Inr [], w)),
      ca_create = (\<lambda>region az t n d arn w.
        if az = region @ ''a'' \<and> t = ''ld'' then (Inl (exn (ClientError ''InsufficientInstanceCapacity'' [])), w)
        else (Inr (fresh_id w), w @ [fresh_id w])),
      ca_cancel = (\<lambda>region i w. (Inr (), filter (\<lambda>j. j \<noteq> i) w)),
      ca_sleep = (\<lambda>t w. w)\<rparr>"

definition example_cr_site :: "string list site" where
  "example_cr_site =
     \<lparr>si_conf = \<lparr>cf_env = Map.empty, cf_params = (\<lambda>_. PNone)(''n_db_nodes'' := PCounts [Some 3], ''n_loaders'' := PCounts [Some 1],
        ''instance_type_db'' := PStr ''db'', ''instance_type_loader'' := PStr ''ld'', ''availability_zone'' := PStr ''a'',
        ''cluster_backend'' := PStr ''aws'', ''test_id'' := PStr ''t'', ''use_capacity_reservation'' := PBool True,
        ''instance_provision'' := PStr ''on_demand'', ''region_name'' := PStr ''r'')\<rparr>,
      si_reservations = [], si_hosts = [], si_world = [''other'']\<rparr>"

lemma example_cr_contract: "cr_contract example_cr_api set"
  by (auto simp: cr_contract_def example_cr_api_def fresh_id split: if_splits)


section \<open>Dedicated hosts\<close>

text \<open>
  The EC2 calls for hosts: the available hosts of a test (zone, instance type, id), allocation, release with its
  retries, and whether hosts are kept after the test.
\<close>

record 'w host_api =
  ha_offerings :: offerings
  ha_describe :: "string \<Rightarrow> params \<Rightarrow> string \<Rightarrow> 'w \<Rightarrow> (aws_exn + (string \<times> string \<times> string) list) \<times> 'w"
  ha_allocate :: "string \<Rightarrow> string \<Rightarrow> string \<Rightarrow> 'w \<Rightarrow> (aws_exn + string) \<times> 'w"
  ha_release :: "string \<Rightarrow> string \<Rightarrow> 'w \<Rightarrow> (aws_exn + unit) \<times> 'w"
  ha_keep_alive :: bool

definition get_host :: "string \<Rightarrow> string \<Rightarrow> ('w, 'z) site_scheme \<Rightarrow> string option" where
  "get_host az t s = (case map_of (si_hosts s) az of Some d \<Rightarrow> map_of d t | None \<Rightarrow> None)"

definition is_dedicated_hosts_enabled :: "params \<Rightarrow> bool" where
  "is_dedicated_hosts_enabled p =
     (p ''cluster_backend'' = PStr ''aws'' \<and> (truthy (p ''test_id'') \<or> truthy (p ''reuse_cluster'')) \<and>
      truthy (p ''instance_type_db'') \<and> p ''use_dedicated_host'' = PBool True \<and>
      p ''instance_provision'' = PStr ''on_demand'')"

text \<open>\<^verbatim>\<open>initial_az\<close> is the region followed by the whole \<^verbatim>\<open>availability_zone\<close>; the region is read back from it.\<close>

definition host_supported_zones :: "'w host_api \<Rightarrow> string list \<Rightarrow> string \<Rightarrow> aws_exn + string list" where
  "host_supported_zones api types initial_az =
     (case get_common_availability_zones (ha_offerings api) (butlast initial_az) types
             (if initial_az \<noteq> [] then [initial_az] else []) of
        Inl e \<Rightarrow> Inl (exn (ResolverError e))
      | Inr zs \<Rightarrow> Inr zs)"

definition allocate :: "'w host_api \<Rightarrow> string \<Rightarrow> string \<Rightarrow> string \<Rightarrow> 'w \<Rightarrow> string option \<times> 'w" where
  "allocate api region az t w = (case ha_allocate api region az t w of
       (Inl _, w1) \<Rightarrow> (None, w1)
     | (Inr i, w1) \<Rightarrow> (Some i, w1))"

fun allocate_zones :: "'w host_api \<Rightarrow> string \<Rightarrow> string \<Rightarrow> string list \<Rightarrow> ('w, string \<times> string) aws" where
  "allocate_zones api region t [] w = (Inl (exn (OtherError ''EnvironmentError'')), w)"
| "allocate_zones api region t (az # zones) w = (case allocate api region az t w of
       (Some i, w1) \<Rightarrow> (if i \<noteq> [] then (Inr (az, i), w1) else allocate_zones api region t zones w1)
     | (None, w1) \<Rightarrow> allocate_zones api region t zones w1)"

definition use_host :: "string \<Rightarrow> string \<Rightarrow> string \<Rightarrow> ('w, 'z) site_scheme \<Rightarrow> ('w, 'z) site_scheme" where
  "use_host az t i s = set_zone (PStr (zone_letter az)) (s\<lparr>si_hosts := AList.update az [(t, i)] (si_hosts s)\<rparr>)"

definition allocate_host :: "'w host_api \<Rightarrow> string \<Rightarrow> ('w, 'z) site_scheme \<Rightarrow> (aws_exn + unit) \<times> ('w, 'z) site_scheme" where
  "allocate_host api region s =
     (let p = cf_params (si_conf s); t = get_str p ''instance_type_db'' in
      case host_supported_zones api [t] (region @ get_str p ''availability_zone'') of
        Inl e \<Rightarrow> (Inl e, s)
      | Inr zones \<Rightarrow>
          (case allocate_zones api region t zones (si_world s) of
             (Inl e, w1) \<Rightarrow> (Inl e, s\<lparr>si_world := w1\<rparr>)
           | (Inr (az, i), w1) \<Rightarrow> (Inr (), use_host az t i (s\<lparr>si_world := w1\<rparr>))))"

definition reserve_host :: "'w host_api \<Rightarrow> ('w, 'z) site_scheme \<Rightarrow> (aws_exn + unit) \<times> ('w, 'z) site_scheme" where
  "reserve_host api s =
     (let p = cf_params (si_conf s);
          test_id = (if truthy (p ''reuse_cluster'') then get_str p ''reuse_cluster'' else get_str p ''test_id'')
      in if \<not> is_dedicated_hosts_enabled p then (Inr (), s)
         else case conf_region_names (si_conf s) of
           [] \<Rightarrow> (Inl (exn IndexError), s)
         | region # _ \<Rightarrow>
             (case ha_describe api region p test_id (si_world s) of
                (Inl e, w1) \<Rightarrow> (Inl e, s\<lparr>si_world := w1\<rparr>)
              | (Inr ((az, t, i) # _), w1) \<Rightarrow> (Inr (), use_host az t i (s\<lparr>si_world := w1\<rparr>))
              | (Inr [], w1) \<Rightarrow> allocate_host api region (s\<lparr>si_world := w1\<rparr>)))"

fun release_ids :: "'w host_api \<Rightarrow> string \<Rightarrow> string list \<Rightarrow> ('w, unit) aws" where
  "release_ids api region [] w = (Inr (), w)"
| "release_ids api region (i # is) w = (case ha_release api region i w of
       (Inl e, w1) \<Rightarrow> (Inl e, w1)
     | (Inr _, w1) \<Rightarrow> release_ids api region is w1)"

text \<open>\<^verbatim>\<open>release\<close> ends by resetting \<^verbatim>\<open>cls.reservations\<close>, an attribute nothing reads.\<close>

definition release :: "'w host_api \<Rightarrow> ('w, 'z) site_scheme \<Rightarrow> (aws_exn + unit) \<times> ('w, 'z) site_scheme" where
  "release api s =
     (if si_hosts s = [] \<or> ha_keep_alive api then (Inr (), s)
      else case conf_region_names (si_conf s) of
        [] \<Rightarrow> (Inl (exn IndexError), s)
      | region # _ \<Rightarrow>
          (case release_ids api region (reservation_ids (si_hosts s)) (si_world s) of
             (r, w1) \<Rightarrow> (r, s\<lparr>si_world := w1\<rparr>)))"

text \<open>A host that was reserved is the one instances of that type are placed on in that zone.\<close>

lemma use_host_found: "get_host az t (use_host az t i s) = Some i"
  by (simp add: get_host_def use_host_def)

text \<open>Releasing keeps the released hosts, so later launches are still placed on them.\<close>

lemma release_keeps_hosts: "release api s = (r, s') \<Longrightarrow> si_hosts s' = si_hosts s"
  by (auto simp: release_def split: if_splits list.splits prod.splits)

text \<open>With more than one zone configured, the region read back from \<^verbatim>\<open>initial_az\<close> is not the configured one.\<close>

lemma host_region_misread:
  "ha_offerings api ''eu-west-1a,'' = Inl e \<Longrightarrow>
     host_supported_zones api [t] (''eu-west-1'' @ ''a,b'') = Inl (exn (ResolverError (AwsError e)))"
  by (simp add: host_supported_zones_def get_common_availability_zones_def)

text \<open>
  \<^verbatim>\<open>list_hosts\<close> grouped by region and \<^verbatim>\<open>release_by_tags\<close>: \<open>describe\<close> gives the ids of the hosts of a region with the
  tags; a region that fails is skipped.  Hosts are released one by one, each in its region.
\<close>

type_synonym 'w host_scan = "string \<Rightarrow> tags \<Rightarrow> 'w \<Rightarrow> (aws_exn + string list) \<times> 'w"

fun list_hosts :: "'w host_scan \<Rightarrow> tags \<Rightarrow> string list \<Rightarrow> 'w \<Rightarrow> string list dict \<times> 'w" where
  "list_hosts describe tags_dict [] w = ([], w)"
| "list_hosts describe tags_dict (region # regions) w =
     (case describe region tags_dict w of
        (Inl _, w1) \<Rightarrow> list_hosts describe tags_dict regions w1
      | (Inr ids, w1) \<Rightarrow>
          (case list_hosts describe tags_dict regions w1 of (hosts, w2) \<Rightarrow> (dict_update [(region, ids)] hosts, w2)))"

fun release_listed :: "'w host_api \<Rightarrow> string list dict \<Rightarrow> ('w, unit) aws" where
  "release_listed api [] w = (Inr (), w)"
| "release_listed api ((region, ids) # hosts) w = (case release_ids api region ids w of
       (Inl e, w1) \<Rightarrow> (Inl e, w1)
     | (Inr _, w1) \<Rightarrow> release_listed api hosts w1)"

definition release_by_tags ::
    "'w host_api \<Rightarrow> 'w host_scan \<Rightarrow> string list \<Rightarrow> tags \<Rightarrow> string list \<Rightarrow> bool \<Rightarrow> ('w, unit) aws" where
  "release_by_tags api describe all_regions tags_dict regions dry_run w =
     (let local_tags_dict = filter (\<lambda>(k, v). k \<noteq> ''NodeType'') tags_dict in
      if local_tags_dict = [] then (Inl (exn AssertionError), w)
      else case list_hosts describe local_tags_dict (if regions \<noteq> [] then regions else all_regions) w of
        (hosts, w1) \<Rightarrow> (if dry_run then (Inr (), w1) else release_listed api hosts w1))"

text \<open>Hosts are only looked for, and so only released, in the regions asked for.\<close>

lemma list_hosts_regions: "list_hosts describe tags_dict regions w = (hosts, w') \<Longrightarrow> fst ` set hosts \<subseteq> set regions"
proof (induction regions arbitrary: hosts w w')
  case (Cons r regions)
  obtain q w1 where q: "describe r tags_dict w = (q, w1)" by fastforce
  obtain hs w2 where hs: "list_hosts describe tags_dict regions w1 = (hs, w2)" by fastforce
  have "hosts = hs \<or> (\<exists>ids. hosts = dict_update [(r, ids)] hs)"
    using Cons.prems q hs by (cases q) auto
  moreover have "fst ` set (dict_update [(r, ids)] hs) \<subseteq> insert r (fst ` set hs)" for ids
    using dict_update_keys[of "[(r, ids)]" hs] by auto
  ultimately show ?case using Cons.IH[OF hs] by auto
qed simp

end
