(* ===== verification/Aws_Relocation.thy ===== *)
theory Aws_Relocation
  imports Capacity_Reservation
begin

text \<open>
  Moving a test to another AWS region: its AMIs (\<^verbatim>\<open>SCTConfiguration.resolve_amis\<close> of
  \<^verbatim>\<open>sdcm/sct_config/config.py\<close> and \<^verbatim>\<open>remap_dc_ami\<close>), its region and zone settings, and what is cleaned up behind
  it (\<^verbatim>\<open>sdcm/provision/aws/region_fallback.py\<close>, \<^verbatim>\<open>cleanup_abandoned_region\<close> of
  \<^verbatim>\<open>sdcm/provision/aws/utils.py\<close>).
\<close>

section \<open>State and parameters\<close>

text \<open>
  The layout of a test: the settings and the world, the cached cluster objects, the AMI settings as first
  configured, the AMIs of the target instance type, and the instances left by capacity probes.
\<close>

record 'w layout = "'w site" +
  ly_clusters :: "cluster_kind \<Rightarrow> cluster_obj option"
  ly_ami_intent :: "string \<Rightarrow> string option"
  ly_target_images :: "string list"
  ly_probes :: "string list"

text \<open>
  The services: AMI lookups (an equivalent AMI of another region, an AMI by name), the instances of a test in a
  region with their node types, termination, deletion of a KMS alias, creation of a placement group.
\<close>

record ('w, 'p) provider =
  pv_launcher :: "('w, 'p) launcher"
  pv_cloud :: cloud
  pv_prober :: prober
  pv_explicitly_set :: "string \<Rightarrow> bool"
  pv_reservations :: "'w cr_api"
  pv_hosts :: "'w host_api"
  pv_all_regions :: "string list"
  pv_equivalent_ami :: "string \<Rightarrow> string \<Rightarrow> string \<Rightarrow> aws_exn + string list"
  pv_ami_by_name :: "string \<Rightarrow> string list \<Rightarrow> aws_exn + string"
  pv_list_instances :: "string \<Rightarrow> string \<Rightarrow> 'w \<Rightarrow> (aws_exn + (string \<times> string) list) \<times> 'w"
  pv_terminate :: "string \<Rightarrow> string list \<Rightarrow> 'w \<Rightarrow> (aws_exn + unit) \<times> 'w"
  pv_delete_alias :: "string \<Rightarrow> string \<Rightarrow> 'w \<Rightarrow> (aws_exn + unit) \<times> 'w"
  pv_placement_group :: "aws_conf \<Rightarrow> string \<Rightarrow> ('w, unit) aws"

type_synonym ('w, 'a) ly = "('w layout, aws_exn, 'a) comp"

text \<open>\<^verbatim>\<open>params[key] = value\<close>\<close>

definition set_param :: "string \<Rightarrow> param \<Rightarrow> ('w, 'z) site_scheme \<Rightarrow> ('w, 'z) site_scheme" where
  "set_param key v s = s\<lparr>si_conf := (si_conf s)\<lparr>cf_params := (cf_params (si_conf s))(key := v)\<rparr>\<rparr>"

definition set_env :: "string option \<Rightarrow> ('w, 'z) site_scheme \<Rightarrow> ('w, 'z) site_scheme" where
  "set_env v s = s\<lparr>si_conf := (si_conf s)\<lparr>cf_env := (cf_env (si_conf s))(region_var := v)\<rparr>\<rparr>"

text \<open>A list built by a loop that may raise.\<close>

fun collect :: "('a \<Rightarrow> 'e + 'b) \<Rightarrow> 'a list \<Rightarrow> 'e + 'b list" where
  "collect f [] = Inr []"
| "collect f (x # xs) = or_fail (f x) (\<lambda>y. or_fail (collect f xs) (\<lambda>ys. Inr (y # ys)))"

section \<open>AMIs of a whole cluster\<close>

definition ami_id_params :: "string list" where
  "ami_id_params = [''ami_id_db_scylla'', ''ami_id_loader'', ''ami_id_monitor'', ''ami_id_db_cassandra'',
     ''ami_id_db_oracle'', ''ami_id_vector_store'']"

definition equivalent_ami :: "('w, 'p) provider \<Rightarrow> string \<Rightarrow> string \<Rightarrow> string \<Rightarrow> aws_exn + string" where
  "equivalent_ami pv source region ami = or_fail (pv_equivalent_ami pv ami source region) (\<lambda>matches.
     case matches of [] \<Rightarrow> Inl (exn RegionAMINotFoundError) | m # _ \<Rightarrow> Inr m)"

definition remap_amis_to_regions :: "('w, 'p) provider \<Rightarrow> string \<Rightarrow> string \<Rightarrow> string list \<Rightarrow> aws_exn + string" where
  "remap_amis_to_regions pv v source regions =
     or_fail (collect (\<lambda>region. collect (equivalent_ami pv source region) (split_ws v)) regions)
       (\<lambda>remapped. Inr (join '' '' (concat remapped)))"

text \<open>The new value of one AMI parameter, if it changes.\<close>

definition resolved_ami ::
    "('w, 'p) provider \<Rightarrow> string list \<Rightarrow> string option \<Rightarrow> string option \<Rightarrow> string \<Rightarrow> aws_exn + string option" where
  "resolved_ami pv regions source original current =
     (let by_current = (case source of
            Some src \<Rightarrow> (if current \<noteq> [] \<and> src \<noteq> []
                       then or_fail (remap_amis_to_regions pv current src regions) (\<lambda>v. Inr (Some v)) else Inr None)
          | None \<Rightarrow> Inr None)
      in case original of
        None \<Rightarrow> by_current
      | Some name \<Rightarrow>
          (if name = [] then by_current
           else case split_ws name of
             [] \<Rightarrow> Inl (exn IndexError)
           | token # _ \<Rightarrow>
               (if \<not> startswith token ''ami-''
                then or_fail (pv_ami_by_name pv name regions) (\<lambda>v. Inr (Some v)) else by_current)))"

text \<open>The parameters are assigned one by one, as they are resolved.\<close>

fun resolve_ami_keys ::
    "('w, 'p) provider \<Rightarrow> string list \<Rightarrow> string option \<Rightarrow> string list \<Rightarrow> ('w, unit) ly" where
  "resolve_ami_keys pv regions source [] s = (Inr (), s)"
| "resolve_ami_keys pv regions source (key # keys) s =
     (case resolved_ami pv regions source (ly_ami_intent s key) (get_str (cf_params (si_conf s)) key) of
        Inl e \<Rightarrow> (Inl e, s)
      | Inr None \<Rightarrow> resolve_ami_keys pv regions source keys s
      | Inr (Some v) \<Rightarrow> resolve_ami_keys pv regions source keys (set_param key (PStr v) s))"

definition resolve_amis :: "('w, 'p) provider \<Rightarrow> string list \<Rightarrow> string option \<Rightarrow> ('w, unit) ly" where
  "resolve_amis pv regions source s =
     (if cf_params (si_conf s) ''cluster_backend'' \<noteq> PStr ''aws'' then (Inr (), s)
      else andthen (resolve_ami_keys pv regions source ami_id_params) (\<lambda>_ s1.
        if ly_target_images s1 = [] \<or> source = None \<or> source = Some [] then (Inr (), s1)
        else case collect (\<lambda>ami. remap_amis_to_regions pv ami (the source) regions) (ly_target_images s1) of
          Inl e \<Rightarrow> (Inl e, s1)
        | Inr imgs \<Rightarrow> (Inr (), s1\<lparr>ly_target_images := imgs\<rparr>)) s)"

section \<open>AMIs of one datacenter\<close>

definition resolve_relocated_ami ::
    "('w, 'p) provider \<Rightarrow> string option \<Rightarrow> string \<Rightarrow> nat \<Rightarrow> nat \<Rightarrow> string \<Rightarrow> string \<Rightarrow> aws_exn + string" where
  "resolve_relocated_ami pv original current dc_index region_count source target =
     (let tokens = split_ws (case original of Some v \<Rightarrow> v | None \<Rightarrow> []) in
      if tokens \<noteq> [] \<and> \<not> startswith (hd tokens) ''ami-'' then
        (let name = (if length tokens = region_count then tokens ! dc_index else hd tokens) in
         case pv_ami_by_name pv name [target] of
           Inl e \<Rightarrow> Inl (if ex_kind e = ValueError then exn RegionAMINotFoundError else e)
         | Inr v \<Rightarrow>
             (case split_ws v of
                [] \<Rightarrow> Inl (exn RegionAMINotFoundError)
              | ami # _ \<Rightarrow> if startswith ami ''ami-'' then Inr ami else Inl (exn RegionAMINotFoundError)))
      else equivalent_ami pv source target current)"

text \<open>One key of \<^verbatim>\<open>remap_dc_ami\<close>: its new value, or None when it is left alone.\<close>

definition remapped_key ::
    "('w, 'p) provider \<Rightarrow> (string \<Rightarrow> string option) \<Rightarrow> params \<Rightarrow> nat \<Rightarrow> nat \<Rightarrow> string \<Rightarrow> string \<Rightarrow> string
      \<Rightarrow> aws_exn + (string \<times> string) option" where
  "remapped_key pv intent p dc_index region_count source target key =
     (let v = get_str p key; amis = split_ws v in
      if v = [] then Inr None
      else if length amis \<noteq> 1 \<and> length amis \<noteq> region_count then Inl (exn ValueError)
      else if dc_index \<ge> length amis then Inr None
      else or_fail (resolve_relocated_ami pv (intent key) (amis ! dc_index) dc_index region_count source target)
        (\<lambda>ami. Inr (Some (key, join '' '' (amis[dc_index := ami])))))"

text \<open>The new values are collected first and assigned when all of them are there.\<close>

definition remap_dc_ami :: "('w, 'p) provider \<Rightarrow> nat \<Rightarrow> string \<Rightarrow> string \<Rightarrow> ('w, unit) ly" where
  "remap_dc_ami pv dc_index source target s =
     (case collect (remapped_key pv (ly_ami_intent s) (cf_params (si_conf s)) dc_index
              (length (conf_region_names (si_conf s))) source target) ami_id_params of
        Inl e \<Rightarrow> (Inl e, s)
      | Inr pending \<Rightarrow> (Inr (), fold (\<lambda>(key, v). set_param key (PStr v)) (List.map_filter (\<lambda>x. x) pending) s))"

section \<open>Gates\<close>

definition enforce_single_region_gate :: "('w, unit) ly" where
  "enforce_single_region_gate s =
     (if length (conf_region_names (si_conf s)) \<noteq> 1 then (Inl (exn ValueError), s) else (Inr (), s))"

definition enforce_multi_dc_fallback_supported :: "('w, unit) ly" where
  "enforce_multi_dc_fallback_supported s =
     (if truthy (cf_params (si_conf s) ''use_capacity_reservation'') \<or> truthy (cf_params (si_conf s) ''use_dedicated_host'')
      then (Inl (exn ValueError), s) else (Inr (), s))"

section \<open>Moving and coming back\<close>

definition clear_cluster_caches :: "'w layout \<Rightarrow> 'w layout" where
  "clear_cluster_caches s = s\<lparr>ly_clusters := Map.empty\<rparr>"

definition switch_region :: "('w, 'p) provider \<Rightarrow> string \<Rightarrow> string list \<Rightarrow> string option \<Rightarrow> ('w, unit) ly" where
  "switch_region pv region az_letters source =
     andthen (resolve_amis pv [region] source) (\<lambda>_ s.
       (Inr (), (clear_cluster_caches
          (set_param ''availability_zone'' (PStr (join '','' az_letters))
            (set_param ''region_name'' (PStr region) (set_env (Some region) s))))\<lparr>si_reservations := []\<rparr>))"

text \<open>Drops the cached counts and zones of the retained clusters, not their instances.\<close>

definition invalidate_region_derived_caches :: "'w layout \<Rightarrow> 'w layout" where
  "invalidate_region_derived_caches s = s\<lparr>ly_clusters := (\<lambda>kind. map_option
     (\<lambda>co. co\<lparr>co_active_region_ids := None, co_azs := None, co_node_nums := None\<rparr>) (ly_clusters s kind))\<rparr>"

definition switch_dc_region :: "('w, 'p) provider \<Rightarrow> nat \<Rightarrow> string \<Rightarrow> string \<Rightarrow> ('w, unit) ly" where
  "switch_dc_region pv dc_index region source =
     andthen (remap_dc_ami pv dc_index source region) (\<lambda>_ s.
       (let joined = join '' '' ((conf_region_names (si_conf s))[dc_index := region]) in
        (Inr (), invalidate_region_derived_caches (set_param ''region_name'' (PStr joined) (set_env (Some joined) s)))))"

definition restore_region :: "string option \<Rightarrow> param \<Rightarrow> string option \<Rightarrow> 'w layout \<Rightarrow> 'w layout" where
  "restore_region region az env_region s =
     (let s1 = set_env env_region s;
          s2 = (case region of Some r \<Rightarrow> set_param ''region_name'' (PStr r) s1 | None \<Rightarrow> s1)
      in set_param ''availability_zone'' az s2)"

definition restore_region_names :: "string list \<Rightarrow> param \<Rightarrow> string option \<Rightarrow> 'w layout \<Rightarrow> 'w layout" where
  "restore_region_names names az env_region s =
     set_param ''availability_zone'' az (set_param ''region_name'' (PStr (join '' '' names)) (set_env env_region s))"

section \<open>Cleaning up\<close>

text \<open>Reservations of the test everywhere, then its instances in the region except the runner; failures are logged.\<close>

definition cleanup_abandoned_region :: "('w, 'p) provider \<Rightarrow> string \<Rightarrow> 'w \<Rightarrow> 'w" where
  "cleanup_abandoned_region pv region w =
     (let test_id = lc_test_id (pv_launcher pv) in
      if test_id = [] then w
      else (let w1 = cancel_all_regions (pv_reservations pv) (pv_all_regions pv) test_id w in
        case pv_list_instances pv region test_id w1 of
          (Inl _, w2) \<Rightarrow> w2
        | (Inr insts, w2) \<Rightarrow>
            (let ids = map fst (filter (\<lambda>(i, node_type). node_type \<noteq> ''sct-runner'') insts)
             in if ids = [] then w2 else snd (pv_terminate pv region ids w2))))"

definition instance_clusters :: "cluster_kind list" where
  "instance_clusters = [DBCluster, LoaderCluster, MonitoringCluster, OracleDBCluster]"

text \<open>The instances of the cached clusters with an id and a region, grouped by region.\<close>

definition provisioned :: "'w layout \<Rightarrow> instance_ref list" where
  "provisioned s = concat (map (\<lambda>kind. case ly_clusters s kind of Some co \<Rightarrow> co_instances co | None \<Rightarrow> []) instance_clusters)"

definition group_instance :: "string list dict \<Rightarrow> instance_ref \<Rightarrow> string list dict" where
  "group_instance groups inst = (case (in_id inst, in_region inst) of
       (Some i, Some region) \<Rightarrow>
         (if i = [] \<or> region = [] then groups
          else AList.update region ((case map_of groups region of Some is \<Rightarrow> is | None \<Rightarrow> []) @ [i]) groups)
     | _ \<Rightarrow> groups)"

definition cleanup_partial_provision :: "('w, 'p) provider \<Rightarrow> 'w layout \<Rightarrow> 'w layout" where
  "cleanup_partial_provision pv s =
     s\<lparr>si_world := fold (\<lambda>(region, ids) w. snd (pv_terminate pv region ids w))
        (foldl group_instance [] (provisioned s)) (si_world s)\<rparr>"

definition cleanup_region :: "('w, 'p) provider \<Rightarrow> string option \<Rightarrow> 'w layout \<Rightarrow> 'w layout" where
  "cleanup_region pv region s =
     (let s1 = cleanup_partial_provision pv s in
      case region of
        Some r \<Rightarrow> (if r = [] then s1
          else s1\<lparr>si_world := snd (pv_delete_alias pv r (''alias/testid-'' @ lc_test_id (pv_launcher pv))
                   (cleanup_abandoned_region pv r (si_world s1)))\<rparr>)
      | None \<Rightarrow> s1)"

text \<open>One region of a multi-region cluster: its instances are terminated and forgotten.\<close>

definition drop_region :: "string \<Rightarrow> cluster_obj \<Rightarrow> cluster_obj" where
  "drop_region region co = co\<lparr>co_instances := filter (\<lambda>i. in_region i \<noteq> Some region) (co_instances co)\<rparr>"

definition region_ids :: "string \<Rightarrow> cluster_obj \<Rightarrow> string list" where
  "region_ids region co = filter (\<lambda>i. i \<noteq> []) (List.map_filter in_id (filter (\<lambda>i. in_region i = Some region) (co_instances co)))"

definition cleanup_dc_cluster :: "('w, 'p) provider \<Rightarrow> string \<Rightarrow> cluster_kind \<Rightarrow> 'w layout \<Rightarrow> 'w layout" where
  "cleanup_dc_cluster pv region kind s = (case ly_clusters s kind of
       None \<Rightarrow> s
     | Some co \<Rightarrow>
         (let ids = region_ids region co in
          s\<lparr>si_world := (if ids = [] then si_world s else snd (pv_terminate pv region ids (si_world s))),
            ly_clusters := (ly_clusters s)(kind \<mapsto> drop_region region co)\<rparr>))"

definition cleanup_dc_region :: "('w, 'p) provider \<Rightarrow> string \<Rightarrow> 'w layout \<Rightarrow> 'w layout" where
  "cleanup_dc_region pv region s =
     (let s1 = fold (cleanup_dc_cluster pv region) instance_clusters s
      in s1\<lparr>si_world := cleanup_abandoned_region pv region (si_world s1)\<rparr>)"

section \<open>Relocating one datacenter changes its part only\<close>

lemma set_param_simps [simp]:
  "cf_params (si_conf (set_param key v s)) = (cf_params (si_conf s))(key := v)"
  "cf_env (si_conf (set_param key v s)) = cf_env (si_conf s)"
  "cf_params (si_conf (set_env v' s)) = cf_params (si_conf s)"
  "cf_env (si_conf (set_env v' s)) = (cf_env (si_conf s))(region_var := v')"
  by (simp_all add: set_param_def set_env_def)

lemma set_param_layout [simp]:
  "ly_clusters (set_param key v s) = ly_clusters s" "ly_clusters (set_env v' s) = ly_clusters s"
  "ly_ami_intent (set_param key v s) = ly_ami_intent s" "ly_ami_intent (set_env v' s) = ly_ami_intent s"
  "ly_target_images (set_param key v s) = ly_target_images s" "ly_target_images (set_env v' s) = ly_target_images s"
  "si_world (set_param key v s) = si_world s" "si_world (set_env v' s) = si_world s"
  by (simp_all add: set_param_def set_env_def)

lemma region_names_set_env [simp]: "conf_region_names (si_conf (set_env (Some v) s)) = split_ws v"
  by (simp add: conf_region_names_def)

lemma region_names_set_param [simp]:
  "key \<noteq> ''region_name'' \<Longrightarrow> conf_region_names (si_conf (set_param key v s)) = conf_region_names (si_conf s)"
  by (simp add: conf_region_names_def get_str_def split: option.splits)

lemma region_names_env:
  "cf_env (si_conf s) region_var = Some v \<Longrightarrow> conf_region_names (si_conf s) = split_ws v"
  by (simp add: conf_region_names_def)

lemma region_names_cong:
  "\<lbrakk>cf_env c region_var = cf_env c' region_var; cf_params c ''region_name'' = cf_params c' ''region_name''\<rbrakk> \<Longrightarrow>
     conf_region_names c = conf_region_names c'"
  by (simp add: conf_region_names_def get_str_def split: option.splits)

lemma collect_Inr: "collect f xs = Inr ys \<longleftrightarrow> list_all2 (\<lambda>x y. f x = Inr y) xs ys"
  by (induction xs arbitrary: ys) (auto simp: or_fail_Inr list_all2_Cons1)

lemma pending_lookup:
  assumes "list_all2 (\<lambda>x y. f x = Inr y) xs ys" "distinct xs" "\<And>x kv. f x = Inr (Some kv) \<Longrightarrow> fst kv = x"
  shows "distinct (map fst (List.map_filter (\<lambda>x. x) ys)) \<and> fst ` set (List.map_filter (\<lambda>x. x) ys) \<subseteq> set xs \<and>
    map_of (List.map_filter (\<lambda>x. x) ys) x = (if x \<in> set xs then (case f x of Inr (Some kv) \<Rightarrow> Some (snd kv) | _ \<Rightarrow> None) else None)"
  using assms(1,2)
proof (induction xs ys rule: list_all2_induct)
  case Nil
  then show ?case by (simp add: List.map_filter_simps)
next
  case (Cons x0 xs y0 ys)
  then show ?case
  proof (cases y0)
    case None
    with Cons show ?thesis by (auto simp: List.map_filter_simps)
  next
    case (Some kv)
    with Cons(1) assms(3) have "fst kv = x0" by blast
    moreover from Cons have "x0 \<notin> fst ` set (List.map_filter (\<lambda>x. x) ys)" by auto
    ultimately show ?thesis using Cons Some by (cases kv) (auto simp: List.map_filter_simps)
  qed
qed

lemma fold_set_param:
  "distinct (map fst kvs) \<Longrightarrow> cf_params (si_conf (fold (\<lambda>(k, v). set_param k (PStr v)) kvs s)) key =
     (case map_of kvs key of Some v \<Rightarrow> PStr v | None \<Rightarrow> cf_params (si_conf s) key)"
proof (induction kvs arbitrary: s)
  case (Cons kv kvs)
  obtain k v where "kv = (k, v)" by fastforce
  with Cons have "map_of kvs k = None" by (simp add: map_of_eq_None_iff)
  with Cons \<open>kv = (k, v)\<close> show ?case by (auto split: option.splits)
qed simp

lemma fold_set_param_rest:
  "cf_env (si_conf (fold (\<lambda>(k, v). set_param k (PStr v)) kvs s)) = cf_env (si_conf s)"
  "ly_clusters (fold (\<lambda>(k, v). set_param k (PStr v)) kvs s) = ly_clusters s"
  "ly_ami_intent (fold (\<lambda>(k, v). set_param k (PStr v)) kvs s) = ly_ami_intent s"
  "si_world (fold (\<lambda>(k, v). set_param k (PStr v)) kvs s) = si_world s"
  by (induction kvs arbitrary: s) auto

text \<open>AMI ids are words: the lookup never answers with blanks in them.\<close>

definition ami_words :: "('w, 'p) provider \<Rightarrow> bool" where
  "ami_words pv \<longleftrightarrow> (\<forall>ami source target ms. pv_equivalent_ami pv ami source target = Inr ms \<longrightarrow> list_all is_word ms)"

lemma resolve_relocated_word:
  assumes "ami_words pv" "resolve_relocated_ami pv original current i n source target = Inr ami"
  shows "is_word ami"
proof (cases "split_ws (case original of Some v \<Rightarrow> v | None \<Rightarrow> []) \<noteq> [] \<and>
    \<not> startswith (hd (split_ws (case original of Some v \<Rightarrow> v | None \<Rightarrow> []))) ''ami-''")
  case True
  from assms(2) have "\<exists>v rest. split_ws v = ami # rest"
    unfolding resolve_relocated_ami_def Let_def if_P[OF True] by (auto split: sum.splits list.splits if_splits)
  then show ?thesis using split_ws_words by (metis list.set_intros(1))
next
  case False
  with assms(2) have "equivalent_ami pv source target current = Inr ami"
    unfolding resolve_relocated_ami_def Let_def if_not_P[OF False] by simp
  then obtain rest where "pv_equivalent_ami pv current source target = Inr (ami # rest)"
    unfolding equivalent_ami_def or_fail_Inr by (metis (no_types) Inl_Inr_False list.case list.exhaust sum.inject(2))
  with assms(1) have "list_all is_word (ami # rest)" unfolding ami_words_def by blast
  then show ?thesis by simp
qed

lemma remapped_key_value:
  assumes "ami_words pv" "remapped_key pv intent p i n source target key = Inr (Some kv)"
  shows "fst kv = key \<and> (\<exists>ami. split_ws (snd kv) = (split_ws (get_str p key))[i := ami])"
proof -
  from assms(2) obtain ami where ami: "resolve_relocated_ami pv (intent key) (split_ws (get_str p key) ! i) i n source target = Inr ami"
    and kv: "kv = (key, join '' '' ((split_ws (get_str p key))[i := ami]))"
    by (auto simp: remapped_key_def Let_def or_fail_Inr split: if_splits)
  from resolve_relocated_word[OF assms(1) ami] have "\<forall>x\<in>set ((split_ws (get_str p key))[i := ami]). is_word x"
    using set_update_subset_insert[of "split_ws (get_str p key)" i ami] split_ws_words by blast
  with kv show ?thesis by (auto simp: split_ws_join)
qed

lemma list_update_same_ex: "\<exists>x. xs = xs[i := x]"
  by (rule exI[of _ "xs ! i"]) simp

lemma distinct_ami_params: "distinct ami_id_params"
  by (simp add: ami_id_params_def)

lemma region_name_not_ami: "''region_name'' \<notin> set ami_id_params"
  by (simp add: ami_id_params_def)

text \<open>Every other parameter, and every other position of an AMI parameter, is kept.\<close>

definition changes_only :: "nat \<Rightarrow> params \<Rightarrow> params \<Rightarrow> bool" where
  "changes_only i p p' \<longleftrightarrow>
     (\<forall>key. if key \<in> set ami_id_params then \<exists>ami. split_ws (get_str p' key) = (split_ws (get_str p key))[i := ami]
            else key = ''region_name'' \<or> p' key = p key)"

lemma get_str_other: "key \<noteq> k \<Longrightarrow> get_str (p(k := v)) key = get_str p key"
  by (simp add: get_str_def)

lemma changes_only_region_name:
  assumes "changes_only i p p'"
  shows "changes_only i p (p'(''region_name'' := v))"
  unfolding changes_only_def
proof
  fix key
  show "if key \<in> set ami_id_params
      then \<exists>ami. split_ws (get_str (p'(''region_name'' := v)) key) = (split_ws (get_str p key))[i := ami]
      else key = ''region_name'' \<or> (p'(''region_name'' := v)) key = p key"
    using assms[unfolded changes_only_def, rule_format, of key] region_name_not_ami
    by (cases "key = ''region_name''") (simp_all add: get_str_other split: if_splits)
qed

lemma remap_dc_ami_facts:
  assumes a: "ami_words pv" and r: "remap_dc_ami pv i source target s = (Inr u, s')"
  shows "changes_only i (cf_params (si_conf s)) (cf_params (si_conf s'))"
    and "cf_params (si_conf s') ''region_name'' = cf_params (si_conf s) ''region_name''"
    and "cf_env (si_conf s') = cf_env (si_conf s)" "ly_clusters s' = ly_clusters s"
proof -
  let ?p = "cf_params (si_conf s)"
  let ?f = "remapped_key pv (ly_ami_intent s) ?p i (length (conf_region_names (si_conf s))) source target"
  from r obtain pending where pending: "collect ?f ami_id_params = Inr pending"
    and s': "s' = fold (\<lambda>(k, v). set_param k (PStr v)) (List.map_filter (\<lambda>x. x) pending) s"
    by (auto simp: remap_dc_ami_def split: sum.splits)
  let ?kvs = "List.map_filter (\<lambda>x. x) pending"
  have look: "distinct (map fst ?kvs) \<and> fst ` set ?kvs \<subseteq> set ami_id_params \<and> map_of ?kvs key =
      (if key \<in> set ami_id_params then (case ?f key of Inr (Some kv) \<Rightarrow> Some (snd kv) | _ \<Rightarrow> None) else None)" for key
    by (rule pending_lookup[OF pending[unfolded collect_Inr] distinct_ami_params])
      (use remapped_key_value[OF a] in blast)
  have val: "cf_params (si_conf s') key =
      (if key \<in> set ami_id_params then (case ?f key of Inr (Some kv) \<Rightarrow> PStr (snd kv) | _ \<Rightarrow> ?p key) else ?p key)" for key
    unfolding s' using fold_set_param[of ?kvs s key] look[of key] by (simp split: sum.splits option.splits)
  show "cf_params (si_conf s') ''region_name'' = ?p ''region_name''" using val region_name_not_ami by simp
  show "changes_only i ?p (cf_params (si_conf s'))"
    unfolding changes_only_def
  proof (intro allI)
    fix key
    show "if key \<in> set ami_id_params then \<exists>ami. split_ws (get_str (cf_params (si_conf s')) key) = (split_ws (get_str ?p key))[i := ami]
      else key = ''region_name'' \<or> cf_params (si_conf s') key = ?p key"
      using val[of key] remapped_key_value[OF a, of "ly_ami_intent s" ?p i _ source target key]
        list_update_same_ex[of "split_ws (get_str ?p key)" i]
      by (auto simp: get_str_def split: sum.splits option.splits)
  qed
qed (use r in \<open>auto simp: remap_dc_ami_def fold_set_param_rest split: sum.splits\<close>)

lemma switch_dc_region_facts:
  assumes "ami_words pv" "is_word region"
  shows "case switch_dc_region pv i region source s of
      (Inl e, s') \<Rightarrow> s' = s
    | (Inr _, s') \<Rightarrow> conf_region_names (si_conf s') = (conf_region_names (si_conf s))[i := region] \<and>
        changes_only i (cf_params (si_conf s)) (cf_params (si_conf s')) \<and>
        map_option co_instances \<circ> ly_clusters s' = map_option co_instances \<circ> ly_clusters s"
proof -
  obtain r s1 where r: "remap_dc_ami pv i source region s = (r, s1)" by fastforce
  show ?thesis
  proof (cases r)
    case (Inl e)
    with r have "s1 = s" by (auto simp: remap_dc_ami_def split: sum.splits)
    with Inl r show ?thesis by (simp add: switch_dc_region_def andthen_def)
  next
    case (Inr u)
    note f = remap_dc_ami_facts[OF assms(1) r[unfolded Inr]]
    let ?names = "(conf_region_names (si_conf s))[i := region]"
    have n: "conf_region_names (si_conf s1) = conf_region_names (si_conf s)"
      using f(2,3) by (intro region_names_cong) simp_all
    have "is_word x" if "x \<in> set (conf_region_names (si_conf s))" for x
      using that split_ws_words by (auto simp: conf_region_names_def split: option.splits)
    then have "\<forall>x\<in>set ?names. is_word x"
      using set_update_subset_insert[of "conf_region_names (si_conf s)" i region] assms(2) by blast
    then have "split_ws (join '' '' ?names) = ?names" by (rule split_ws_join)
    moreover define s2 where "s2 = invalidate_region_derived_caches (set_param ''region_name'' (PStr (join '' '' ?names))
      (set_env (Some (join '' '' ?names)) s1))"
    ultimately have "conf_region_names (si_conf s2) = ?names"
      by (simp add: invalidate_region_derived_caches_def region_names_env)
    moreover have "changes_only i (cf_params (si_conf s)) (cf_params (si_conf s2))"
      using changes_only_region_name[OF f(1)] by (simp add: s2_def invalidate_region_derived_caches_def)
    moreover have "map_option co_instances \<circ> ly_clusters s2 = map_option co_instances \<circ> ly_clusters s"
      using f(4) by (simp add: s2_def invalidate_region_derived_caches_def o_def option.map_comp)
    moreover have "switch_dc_region pv i region source s = (Inr (), s2)"
      using Inr r n by (simp add: switch_dc_region_def andthen_def Let_def s2_def)
    ultimately show ?thesis by simp
  qed
qed


section \<open>An example\<close>

definition no_reservations :: "'w cr_api" where
  "no_reservations = \<lparr>ca_offerings = (\<lambda>region. Inr []), ca_describe = (\<lambda>region test_id w. (Inr [], w)),
     ca_placement_groups = (\<lambda>region test_id w. (Inr [], w)),
     ca_create = (\<lambda>region az t n d arn w. (Inl (exn (OtherError [])), w)), ca_cancel = (\<lambda>region i w. (Inr (), w)),
     ca_sleep = (\<lambda>t w. w)\<rparr>"

definition no_hosts :: "'w host_api" where
  "no_hosts = \<lparr>ha_offerings = (\<lambda>region. Inr []), ha_describe = (\<lambda>region p test_id w. (Inr [], w)),
     ha_allocate = (\<lambda>region az t w. (Inl (exn (OtherError [])), w)), ha_release = (\<lambda>region i w. (Inr (), w)),
     ha_keep_alive = False\<rparr>"

text \<open>Services that know the AMI of the DB nodes in every region and the AMI of the loaders in none.\<close>

definition example_provider :: "((string \<times> tags) list, string) provider" where
  "example_provider =
     \<lparr>pv_launcher = example_launcher, pv_cloud = example_cloud,
      pv_prober = \<lparr>pb_run = (\<lambda>t az. Inr []), pb_subnet = (\<lambda>az. True), pb_security_group = True, pb_terminate_ok = True\<rparr>,
      pv_explicitly_set = (\<lambda>key. True), pv_reservations = no_reservations, pv_hosts = no_hosts, pv_all_regions = [],
      pv_equivalent_ami = (\<lambda>ami source target. Inr (if ami = ''ami-db'' then [''ami-db2''] else [])),
      pv_ami_by_name = (\<lambda>name regions. Inl (exn ValueError)),
      pv_list_instances = (\<lambda>region test_id w. (Inr [], w)), pv_terminate = (\<lambda>region ids w. (Inr (), w)),
      pv_delete_alias = (\<lambda>region alias w. (Inr (), w)), pv_placement_group = (\<lambda>c region w. (Inr (), w))\<rparr>"

definition example_layout :: "((string \<times> tags) list) layout" where
  "example_layout =
     \<lparr>si_conf = \<lparr>cf_env = Map.empty, cf_params = example_cparams(''cluster_backend'' := PStr ''aws'',
        ''ami_id_db_scylla'' := PStr ''ami-db'', ''ami_id_loader'' := PStr ''ami-ld'')\<rparr>,
      si_reservations = [], si_hosts = [], si_world = [], ly_clusters = Map.empty, ly_ami_intent = Map.empty,
      ly_target_images = [], ly_probes = []\<rparr>"


text \<open>
  Moving a whole cluster is not all-or-nothing: here the loaders' AMI has no equivalent, the move fails, and the
  DB nodes are left with the AMI of the region that was given up.
\<close>

lemma switch_region_partial:
  "fst (switch_region example_provider ''r3'' [''a''] (Some ''r1'') example_layout) = Inl (exn RegionAMINotFoundError)"
  "conf_region_names (si_conf (snd (switch_region example_provider ''r3'' [''a''] (Some ''r1'') example_layout))) = [''r1'', ''r2'']"
  "cf_params (si_conf (snd (switch_region example_provider ''r3'' [''a''] (Some ''r1'') example_layout))) ''ami_id_db_scylla'' = PStr ''ami-db2''"
  by code_simp+

end
