(* ===== verification/Aws_Layout.thy ===== *)
theory Aws_Layout
  imports Aws_Relocation
begin

text \<open>
  Provisioning a whole test on AWS with capacity fallback (\<^verbatim>\<open>sdcm/sct_provision/aws/layout.py\<close>): one attempt,
  the loop over availability zones, the relocation of a single-region cluster, and the relocation of single
  datacenters of a multi-region cluster.  The causes attached to exceptions (\<^verbatim>\<open>raise ... from\<close>) are left out.
\<close>

section \<open>The zone resolver on a layout\<close>

definition az_of :: "('w, 'p) provider \<Rightarrow> ('w, 'z) site_scheme \<Rightarrow> az_params" where
  "az_of pv s = \<lparr>ap_params = cf_params (si_conf s), ap_region_names = Some (conf_region_names (si_conf s)),
     ap_is_explicitly_set = Some (pv_explicitly_set pv)\<rparr>"

definition of_resolver :: "az_error + 'a \<Rightarrow> aws_exn + 'a" where
  "of_resolver r = (case r of
       Inl (ProvisioningCapacityExhausted _) \<Rightarrow> Inl (exn CapacityExhausted)
     | Inl e \<Rightarrow> Inl (exn (ResolverError e))
     | Inr a \<Rightarrow> Inr a)"

definition layout_resolve :: "('w, 'p) provider \<Rightarrow> ('w, unit) ly" where
  "layout_resolve pv s = (case of_resolver (resolve (pv_cloud pv) (az_of pv s)) of
       Inl e \<Rightarrow> (Inl e, s)
     | Inr ap \<Rightarrow> (Inr (), s\<lparr>si_conf := (si_conf s)\<lparr>cf_params := ap_params ap\<rparr>\<rparr>))"

definition layout_probe :: "('w, 'p) provider \<Rightarrow> ('w, unit) ly" where
  "layout_probe pv s = (case of_resolver (run_pre_flight_capacity_probe (pv_prober pv) (az_of pv s) (ly_probes s)) of
       Inl e \<Rightarrow> (Inl e, s)
     | Inr running \<Rightarrow> (Inr (), s\<lparr>ly_probes := running\<rparr>))"

section \<open>One attempt\<close>

text \<open>\<^verbatim>\<open>PlacementGroup.provision\<close>\<close>

definition provision_placement_group :: "('w, 'p) provider \<Rightarrow> ('w, unit) ly" where
  "provision_placement_group pv s =
     (if \<not> truthy (cf_params (si_conf s) ''use_placement_group'') then (Inr (), s)
      else case conf_region_names (si_conf s) of
        [] \<Rightarrow> (Inl (exn IndexError), s)
      | region # _ \<Rightarrow>
          (case pv_placement_group pv (si_conf s) region (si_world s) of (r, w1) \<Rightarrow> (r, s\<lparr>si_world := w1\<rparr>)))"

text \<open>Launching sees the reservations and hosts of the moment.\<close>

definition launcher_of :: "('w, 'p) provider \<Rightarrow> ('w, 'z) site_scheme \<Rightarrow> ('w, 'p) launcher" where
  "launcher_of pv s = (pv_launcher pv)\<lparr>lc_ec2 := (lc_ec2 (pv_launcher pv))
     \<lparr>ec_reservation := (\<lambda>az t w. get_id az t s), ec_host := (\<lambda>az t w. get_host az t s)\<rparr>\<rparr>"

text \<open>A cluster is the cached object, or a new one.\<close>

definition cluster_of :: "'w layout \<Rightarrow> cluster_kind \<Rightarrow> cluster_obj" where
  "cluster_of s kind = (case ly_clusters s kind of Some co \<Rightarrow> co | None \<Rightarrow> new_cluster kind)"

definition provision_kind :: "('w, 'p) provider \<Rightarrow> cluster_kind \<Rightarrow> nat list \<Rightarrow> ('w, unit) ly" where
  "provision_kind pv kind skip s =
     (case provision_cluster (launcher_of pv s) (si_conf s) skip (cluster_of s kind) (si_world s) of
        (r, co, w1) \<Rightarrow> (r, s\<lparr>si_world := w1, ly_clusters := (ly_clusters s)(kind \<mapsto> co)\<rparr>))"

definition provision_oracle :: "('w, 'p) provider \<Rightarrow> ('w, unit) ly" where
  "provision_oracle pv s =
     (if cf_params (si_conf s) ''db_type'' = PStr ''mixed_scylla'' then provision_kind pv OracleDBCluster [] s else (Inr (), s))"

definition use_scylla_cloud :: "params \<Rightarrow> bool" where
  "use_scylla_cloud p = (p ''cluster_backend'' = PStr ''xcloud'' \<or> truthy (p ''xcloud_provider''))"

definition do_provision :: "('w, 'p) provider \<Rightarrow> ('w, unit) ly" where
  "do_provision pv s0 =
     andthen (layout_probe pv) (\<lambda>_.
     andthen (provision_placement_group pv) (\<lambda>_.
     andthen (reserve (pv_reservations pv)) (\<lambda>_.
     andthen (reserve_host (pv_hosts pv)) (\<lambda>_.
     andthen (if use_scylla_cloud (cf_params (si_conf s0)) then return () else provision_kind pv DBCluster []) (\<lambda>_.
     andthen (provision_kind pv MonitoringCluster []) (\<lambda>_.
     andthen (provision_kind pv LoaderCluster []) (\<lambda>_.
     provision_oracle pv))))))) s0"

section \<open>Zones\<close>

text \<open>The exceptions that count as exhausted capacity.\<close>

definition exhausted :: "aws_exn \<Rightarrow> bool" where
  "exhausted e = (is_aws_capacity_error e \<or> ex_kind e = CapacityExhausted)"

text \<open>The result is whether the region is exhausted.\<close>

fun az_loop :: "('w, 'p) provider \<Rightarrow> param \<Rightarrow> bool \<Rightarrow> string list list \<Rightarrow> ('w, bool) ly" where
  "az_loop pv original_az first [] s = (Inr True, set_zone original_az s)"
| "az_loop pv original_az first (candidate # candidates) s =
     (let s1 = set_zone (PStr (join '','' candidate)) s;
          s2 = (if first then s1 else clear_cluster_caches s1)
      in case do_provision pv s2 of
           (Inr _, s3) \<Rightarrow> (Inr False, s3)
         | (Inl e, s3) \<Rightarrow>
             (if exhausted e then az_loop pv original_az False candidates (cleanup_partial_provision pv s3)
              else (Inl e, s3)))"

definition provision_az_loop :: "('w, 'p) provider \<Rightarrow> string list list \<Rightarrow> ('w, bool) ly" where
  "provision_az_loop pv candidates s = az_loop pv (cf_params (si_conf s) ''availability_zone'') True candidates s"

definition fallback_candidates :: "('w, 'p) provider \<Rightarrow> ('w, string list list) ly" where
  "fallback_candidates pv s = (of_resolver (get_fallback_candidates (pv_cloud pv) (az_of pv s)), s)"

definition provision_once :: "('w, 'p) provider \<Rightarrow> ('w, unit) ly" where
  "provision_once pv =
     andthen (layout_resolve pv) (\<lambda>_ s.
       if is_capacity_reservation_enabled (cf_params (si_conf s)) \<or> \<not> is_az_fallback_enabled (cf_params (si_conf s))
       then do_provision pv s
       else andthen (fallback_candidates pv) (\<lambda>candidates.
         if candidates = [] then do_provision pv
         else andthen (provision_az_loop pv candidates) (\<lambda>region_exhausted.
           if region_exhausted then raise (exn (OtherError ''RuntimeError'')) else return ())) s)"

section \<open>Regions\<close>

definition provision_capacity_aware :: "('w, 'p) provider \<Rightarrow> ('w, bool) ly" where
  "provision_capacity_aware pv s = (case do_provision pv s of
       (Inr _, s1) \<Rightarrow> (Inr False, s1)
     | (Inl e, s1) \<Rightarrow> if exhausted e then (Inr True, s1) else (Inl e, s1))"

definition provision_reserved :: "('w, 'p) provider \<Rightarrow> ('w, bool) ly" where
  "provision_reserved pv s = (case do_provision pv s of
       (Inr _, s1) \<Rightarrow> (Inr False, s1)
     | (Inl e, s1) \<Rightarrow> if exhausted e \<or> ex_kind e = CapacityReservationError then (Inr True, s1) else (Inl e, s1))"

definition attempt_region :: "('w, 'p) provider \<Rightarrow> ('w, bool) ly" where
  "attempt_region pv =
     andthen (layout_resolve pv) (\<lambda>_ s.
       if is_capacity_reservation_enabled (cf_params (si_conf s)) then provision_reserved pv s
       else if \<not> is_az_fallback_enabled (cf_params (si_conf s)) then provision_capacity_aware pv s
       else andthen (fallback_candidates pv) (\<lambda>candidates.
         if candidates = [] then provision_capacity_aware pv else provision_az_loop pv candidates) s)"

text \<open>What is remembered at the start.\<close>

record home =
  ho_region :: "string option"
  ho_az :: param
  ho_env :: "string option"

definition go_home :: "home \<Rightarrow> 'w layout \<Rightarrow> 'w layout" where
  "go_home h = restore_region (ho_region h) (ho_az h) (ho_env h)"

text \<open>An attempt in the region \<open>source\<close>: True when it succeeded.\<close>

definition region_attempt :: "('w, 'p) provider \<Rightarrow> home \<Rightarrow> string option \<Rightarrow> ('w, bool) ly" where
  "region_attempt pv h source s = (case attempt_region pv s of
       (Inl e, s1) \<Rightarrow> (Inl e, go_home h s1)
     | (Inr False, s1) \<Rightarrow> (Inr True, s1)
     | (Inr True, s1) \<Rightarrow> (Inr False, cleanup_region pv source s1))"

fun region_candidates_loop :: "('w, 'p) provider \<Rightarrow> home \<Rightarrow> string option \<Rightarrow> candidate list \<Rightarrow> ('w, unit) ly" where
  "region_candidates_loop pv h source [] s = (Inl (exn (OtherError ''RuntimeError'')), go_home h s)"
| "region_candidates_loop pv h source ((region, letters) # candidates) s =
     (case switch_region pv region letters source s of
        (Inl e, s1) \<Rightarrow>
          (if ex_kind e = RegionAMINotFoundError then region_candidates_loop pv h source candidates s1 else (Inl e, s1))
      | (Inr _, s1) \<Rightarrow>
          (case region_attempt pv h (Some region) s1 of
             (Inl e, s2) \<Rightarrow> (Inl e, s2)
           | (Inr True, s2) \<Rightarrow> (Inr (), s2)
           | (Inr False, s2) \<Rightarrow> region_candidates_loop pv h (Some region) candidates s2))"

definition first_region :: "('w, 'z) site_scheme \<Rightarrow> string option" where
  "first_region s = (case conf_region_names (si_conf s) of [] \<Rightarrow> None | r # _ \<Rightarrow> Some r)"

text \<open>Moving upfront to a better region: any failure to switch means staying.\<close>

definition relocate_to_preferred_spot_region :: "('w, 'p) provider \<Rightarrow> ('w, unit) ly" where
  "relocate_to_preferred_spot_region pv s =
     (case of_resolver (get_preferred_spot_region (pv_cloud pv) (az_of pv s)) of
        Inl e \<Rightarrow> (Inl e, s)
      | Inr None \<Rightarrow> (Inr (), s)
      | Inr (Some (region, letters)) \<Rightarrow> (Inr (), snd (switch_region pv region letters (first_region s) s)))"

definition provision_with_region_fallback :: "('w, 'p) provider \<Rightarrow> ('w, unit) ly" where
  "provision_with_region_fallback pv =
     andthen enforce_single_region_gate (\<lambda>_ s.
       (let h = \<lparr>ho_region = first_region s, ho_az = cf_params (si_conf s) ''availability_zone'',
                 ho_env = cf_env (si_conf s) region_var\<rparr>
        in andthen (relocate_to_preferred_spot_region pv) (\<lambda>_ s1.
          (let source = (if first_region s1 \<noteq> None then first_region s1 else ho_region h) in
           case of_resolver (get_region_fallback_candidates (pv_cloud pv) (az_of pv s1)) of
             Inl e \<Rightarrow> (Inl e, s1)
           | Inr candidates \<Rightarrow>
               (case region_attempt pv h source s1 of
                  (Inl e, s2) \<Rightarrow> (Inl e, s2)
                | (Inr True, s2) \<Rightarrow> (Inr (), s2)
                | (Inr False, s2) \<Rightarrow> region_candidates_loop pv h source candidates s2))) s))"

section \<open>Datacenters\<close>

definition completed_db_region_ids :: "'w layout \<Rightarrow> nat list" where
  "completed_db_region_ids s =
     (let names = conf_region_names (si_conf s) in
      filter (\<lambda>i. names ! i \<notin> set (take i names) \<and>
        Some (names ! i) \<in> in_region ` set (co_instances (cluster_of s DBCluster))) [0..<length names])"

type_synonym tried = "nat \<Rightarrow> string list"

fun relocation_targets ::
    "('w, 'p) provider \<Rightarrow> nat \<Rightarrow> string \<Rightarrow> string list \<Rightarrow> string list \<Rightarrow> ('w, string list option) ly" where
  "relocation_targets pv dc_index failed seen [] s = (Inr None, s)"
| "relocation_targets pv dc_index failed seen (target # targets) s =
     (case switch_dc_region pv dc_index target failed s of
        (Inr _, s1) \<Rightarrow> (Inr (Some (append_new target seen)), s1)
      | (Inl e, s1) \<Rightarrow>
          (if ex_kind e = RegionAMINotFoundError then relocation_targets pv dc_index failed (append_new target seen) targets s1
           else (Inl e, s1)))"

definition relocate_failed_db_dc :: "('w, 'p) provider \<Rightarrow> aws_exn \<Rightarrow> tried \<Rightarrow> ('w, tried) ly" where
  "relocate_failed_db_dc pv e tried s =
     (let names = conf_region_names (si_conf s) in
      case get_failed_region e of
        None \<Rightarrow> (Inl e, s)
      | Some failed \<Rightarrow>
          (if failed \<notin> set names then (Inl e, s)
           else (let dc_index = length (takeWhile (\<lambda>n. n \<noteq> failed) names);
                     s1 = cleanup_dc_region pv failed s;
                     seen = append_new failed (tried dc_index)
             in case of_resolver (get_dc_fallback_candidates (pv_cloud pv) (az_of pv s1) dc_index) of
                  Inl e' \<Rightarrow> (Inl e', s1)
                | Inr candidates \<Rightarrow>
                    (case relocation_targets pv dc_index failed seen
                            (filter (\<lambda>r. r \<notin> set seen) (map fst candidates)) s1 of
                       (Inl e', s2) \<Rightarrow> (Inl e', s2)
                     | (Inr None, s2) \<Rightarrow> (Inl (exn (OtherError ''RuntimeError'')), s2)
                     | (Inr (Some seen'), s2) \<Rightarrow> (Inr (tried(dc_index := seen')), s2)))))"

text \<open>\<^verbatim>\<open>while True\<close> of \<^verbatim>\<open>_provision_db_with_dc_fallback\<close>\<close>

partial_function (option) dc_provision_loop ::
    "('w, 'p) provider \<Rightarrow> tried \<Rightarrow> 'w layout \<Rightarrow> ((aws_exn + unit) \<times> 'w layout) option" where
  "dc_provision_loop pv tried s =
     (case provision_kind pv DBCluster (completed_db_region_ids s) s of
        (Inr _, s1) \<Rightarrow> Some (Inr (), s1)
      | (Inl e, s1) \<Rightarrow>
          (if \<not> exhausted e then Some (Inl e, s1)
           else case relocate_failed_db_dc pv e tried s1 of
             (Inl e', s2) \<Rightarrow> Some (Inl e', s2)
           | (Inr tried', s2) \<Rightarrow> dc_provision_loop pv tried' s2))"

definition provision_multi_dc_body :: "('w, 'p) provider \<Rightarrow> 'w layout \<Rightarrow> ((aws_exn + unit) \<times> 'w layout) option" where
  "provision_multi_dc_body pv s =
     (case andthen (layout_resolve pv) (\<lambda>_. andthen (layout_probe pv) (\<lambda>_. provision_placement_group pv)) s of
        (Inl e, s1) \<Rightarrow> Some (Inl e, s1)
      | (Inr _, s1) \<Rightarrow>
          (case dc_provision_loop pv (\<lambda>_. []) s1 of
             None \<Rightarrow> None
           | Some (Inl e, s2) \<Rightarrow> Some (Inl e, s2)
           | Some (Inr _, s2) \<Rightarrow>
               Some (andthen (provision_kind pv MonitoringCluster []) (\<lambda>_.
                 andthen (provision_kind pv LoaderCluster []) (\<lambda>_. provision_oracle pv)) s2)))"

definition provision_with_multi_dc_fallback ::
    "('w, 'p) provider \<Rightarrow> 'w layout \<Rightarrow> ((aws_exn + unit) \<times> 'w layout) option" where
  "provision_with_multi_dc_fallback pv s =
     (case enforce_multi_dc_fallback_supported s of
        (Inl e, s1) \<Rightarrow> Some (Inl e, s1)
      | (Inr _, _) \<Rightarrow>
          map_option (\<lambda>(r, s1). case r of
              Inl e \<Rightarrow> (Inl e, restore_region_names (conf_region_names (si_conf s))
                 (cf_params (si_conf s) ''availability_zone'') (cf_env (si_conf s) region_var) s1)
            | Inr u \<Rightarrow> (Inr u, s1)) (provision_multi_dc_body pv s))"

definition layout_provision :: "('w, 'p) provider \<Rightarrow> 'w layout \<Rightarrow> ((aws_exn + unit) \<times> 'w layout) option" where
  "layout_provision pv s =
     (if is_region_fallback_enabled (cf_params (si_conf s))
      then (if length (conf_region_names (si_conf s)) > 1 then provision_with_multi_dc_fallback pv s
            else Some (provision_with_region_fallback pv s))
      else Some (provision_once pv s))"

section \<open>What an attempt leaves alone\<close>

text \<open>Nothing but the zone changes in the settings.\<close>

definition settled :: "'w layout \<Rightarrow> 'w layout \<Rightarrow> bool" where
  "settled s s' \<longleftrightarrow> cf_env (si_conf s') = cf_env (si_conf s) \<and> ly_ami_intent s' = ly_ami_intent s \<and>
     (\<forall>key. key \<noteq> ''availability_zone'' \<longrightarrow> cf_params (si_conf s') key = cf_params (si_conf s) key)"

definition settles :: "('w, 'a) ly \<Rightarrow> bool" where
  "settles m \<longleftrightarrow> (\<forall>s r s'. m s = (r, s') \<longrightarrow> settled s s')"

lemma settled_refl [simp]: "settled s s"
  by (simp add: settled_def)

lemma settled_trans: "settled s s1 \<Longrightarrow> settled s1 s2 \<Longrightarrow> settled s s2"
  by (simp add: settled_def)

lemma settled_regions: "settled s s' \<Longrightarrow> conf_region_names (si_conf s') = conf_region_names (si_conf s)"
  by (intro region_names_cong) (simp_all add: settled_def)

lemma settled_conf: "\<lbrakk>si_conf s' = si_conf s; ly_ami_intent s' = ly_ami_intent s\<rbrakk> \<Longrightarrow> settled s s'"
  by (simp add: settled_def)

lemma settles_andthen:
  assumes "settles m" "\<And>a. settles (f a)"
  shows "settles (andthen m f)"
  unfolding settles_def
proof (intro allI impI)
  fix s r s' assume a: "andthen m f s = (r, s')"
  obtain q s1 where q: "m s = (q, s1)" by fastforce
  with assms(1) have "settled s s1" by (simp add: settles_def)
  moreover have "settled s1 s'"
    using a q assms(2) by (cases q) (auto simp: andthen_def settles_def)
  ultimately show "settled s s'" by (rule settled_trans)
qed

lemma settlesD: "settles m \<Longrightarrow> m s = (r, s') \<Longrightarrow> settled s s'"
  by (simp add: settles_def)

lemma settles_return [simp]: "settles (return a)"
  by (simp add: settles_def return_def)

lemma settles_raise [simp]: "settles (raise e)"
  by (simp add: settles_def raise_def)

lemma settled_set_zone [simp]: "settled s (set_zone v s)"
  by (simp add: settled_def set_zone_def)

lemma resolve_only_zone:
  assumes "resolve cl ap = Inr ap'" "key \<noteq> ''availability_zone''"
  shows "ap_params ap' key = ap_params ap key"
  using assms by (auto simp: resolve_def Let_def split: if_splits sum.splits)

lemma of_resolver_Inr [simp]: "of_resolver r = Inr a \<longleftrightarrow> r = Inr a"
  by (auto simp: of_resolver_def split: sum.splits az_error.splits)

lemma settles_resolve: "settles (layout_resolve pv)"
  unfolding settles_def
proof (intro allI impI)
  fix s r s' assume r: "layout_resolve pv s = (r, s')"
  show "settled s s'"
  proof (cases "of_resolver (resolve (pv_cloud pv) (az_of pv s))")
    case (Inl e)
    with r show ?thesis by (simp add: layout_resolve_def)
  next
    case (Inr ap)
    then have "ap_params ap key = cf_params (si_conf s) key" if "key \<noteq> ''availability_zone''" for key
      using resolve_only_zone[of _ "az_of pv s" ap key] that by (simp add: az_of_def)
    with r Inr show ?thesis by (auto simp: layout_resolve_def settled_def)
  qed
qed

lemma settles_probe: "settles (layout_probe pv)"
  by (auto simp: settles_def layout_probe_def settled_def split: sum.splits)

lemma settles_placement_group: "settles (provision_placement_group pv)"
  by (auto simp: settles_def provision_placement_group_def settled_def split: if_splits list.splits prod.splits)

lemma settled_world: "settled s (s\<lparr>si_world := w\<rparr>)" "settled s (s\<lparr>si_world := w, si_reservations := d\<rparr>)"
  by (simp_all add: settled_def)

lemma settled_zone_world:
  "settled s (set_zone v (s\<lparr>si_world := w\<rparr>))" "settled s (set_zone v (s\<lparr>si_world := w, si_reservations := d\<rparr>))"
  "settled s (set_zone v (s\<lparr>si_world := w, si_hosts := h\<rparr>))"
  by (simp_all add: settled_def set_zone_def)

lemma settled_fetch: "fetch_reservations api region s = (r, s') \<Longrightarrow> settled s s'"
  by (auto simp: fetch_reservations_def Let_def settled_world settled_zone_world split: prod.splits sum.splits if_splits)

lemma settled_create: "create_reservations api region s = (r, s') \<Longrightarrow> settled s s'"
  by (auto simp: create_reservations_def Let_def settled_world settled_zone_world split: prod.splits sum.splits)

lemma settles_reserve: "settles (reserve api)"
  unfolding settles_def
proof (intro allI impI)
  fix s s' :: "'a layout" and r assume r: "reserve api s = (r, s')"
  obtain g s1 where g: "get_cr_from_aws api False s = (g, s1)" by fastforce
  then have "settled s s1"
    using settled_fetch[of api _ s g s1] by (auto simp: get_cr_from_aws_def split: if_splits list.splits)
  moreover have "s' = s \<or> s' = s1 \<or> settled s1 s'"
    using r g settled_create[of api _ s1 r s'] by (auto simp: reserve_def split: if_splits sum.splits list.splits)
  ultimately show "settled s s'" using settled_trans by auto
qed

lemma settles_reserve_host: "settles (reserve_host api)"
  by (auto simp: settles_def reserve_host_def allocate_host_def use_host_def Let_def settled_world settled_zone_world
      split: if_splits list.splits prod.splits sum.splits)

lemma settles_kind: "settles (provision_kind pv kind skip)"
  by (auto simp: settles_def provision_kind_def settled_def split: prod.splits)

lemma settles_oracle: "settles (provision_oracle pv)"
  by (auto simp: settles_def provision_oracle_def split: if_splits dest: settlesD[OF settles_kind])

lemma settles_do_provision: "settles (do_provision pv)"
proof -
  have "settles (\<lambda>s. andthen (layout_probe pv) (\<lambda>_. andthen (provision_placement_group pv) (\<lambda>_.
      andthen (reserve (pv_reservations pv)) (\<lambda>_. andthen (reserve_host (pv_hosts pv)) (\<lambda>_.
      andthen (if b then return () else provision_kind pv DBCluster []) (\<lambda>_.
      andthen (provision_kind pv MonitoringCluster []) (\<lambda>_.
      andthen (provision_kind pv LoaderCluster []) (\<lambda>_. provision_oracle pv))))))) s)" for b
    by (intro settles_andthen settles_probe settles_placement_group settles_reserve settles_reserve_host settles_kind
        settles_oracle) (cases b; simp add: settles_kind)
  then show ?thesis unfolding settles_def do_provision_def by blast
qed

lemma settled_cleanup_partial [simp]: "settled s (cleanup_partial_provision pv s)"
  by (simp add: settled_def cleanup_partial_provision_def)

lemma settled_clear [simp]: "settled s (clear_cluster_caches s)"
  by (simp add: settled_def clear_cluster_caches_def)

lemma settled_cleanup_region [simp]: "settled s (cleanup_region pv region s)"
  by (simp add: settled_def cleanup_region_def cleanup_partial_provision_def Let_def split: option.splits)

lemma settled_az_loop: "az_loop pv az first cands s = (r, s') \<Longrightarrow> settled s s'"
proof (induction cands arbitrary: first s)
  case Nil
  then show ?case by auto
next
  case (Cons c cands)
  let ?s1 = "set_zone (PStr (join '','' c)) s"
  let ?s2 = "if first then ?s1 else clear_cluster_caches ?s1"
  have "settled s ?s2" using settled_trans[OF settled_set_zone settled_clear, of s "PStr (join '','' c)"] by simp
  obtain q s3 where q: "do_provision pv ?s2 = (q, s3)" by fastforce
  from settled_trans[OF \<open>settled s ?s2\<close> settlesD[OF settles_do_provision q]] have s3: "settled s s3" .
  show ?case
  proof (cases "\<exists>e. q = Inl e \<and> exhausted e")
    case True
    with Cons.prems q have "az_loop pv az False cands (cleanup_partial_provision pv s3) = (r, s')" by (auto simp: Let_def)
    from settled_trans[OF settled_trans[OF s3 settled_cleanup_partial] Cons.IH[OF this]] show ?thesis .
  next
    case False
    with Cons.prems q s3 show ?thesis by (cases q) (auto simp: Let_def)
  qed
qed

lemma settles_capacity_aware: "settles (provision_capacity_aware pv)"
  by (auto simp: settles_def provision_capacity_aware_def split: prod.splits sum.splits if_splits
      dest: settlesD[OF settles_do_provision])

lemma settles_reserved: "settles (provision_reserved pv)"
  by (auto simp: settles_def provision_reserved_def split: prod.splits sum.splits if_splits
      dest: settlesD[OF settles_do_provision])

lemma settles_candidates: "settles (fallback_candidates pv)"
  by (simp add: settles_def fallback_candidates_def)

lemma settles_provision_az_loop: "settles (provision_az_loop pv cands)"
  using settled_az_loop by (auto simp: settles_def provision_az_loop_def)

lemma settles_if: "settles m \<Longrightarrow> settles m' \<Longrightarrow> settles (\<lambda>s. if P s then m s else m' s)"
  by (auto simp: settles_def split: if_splits)

lemma settles_attempt_region: "settles (attempt_region pv)"
proof -
  have m: "settles (andthen (fallback_candidates pv) (\<lambda>candidates.
      if candidates = [] then provision_capacity_aware pv else provision_az_loop pv candidates))"
    by (rule settles_andthen[OF settles_candidates]) (simp add: settles_capacity_aware settles_provision_az_loop)
  show ?thesis unfolding attempt_region_def
    by (intro settles_andthen[OF settles_resolve] settles_if settles_reserved settles_capacity_aware m)
qed

lemma settles_provision_once: "settles (provision_once pv)"
proof -
  have m: "settles (andthen (fallback_candidates pv) (\<lambda>candidates.
      if candidates = [] then do_provision pv
      else andthen (provision_az_loop pv candidates) (\<lambda>region_exhausted.
        if region_exhausted then raise (exn (OtherError ''RuntimeError'')) else return ())))"
    by (rule settles_andthen[OF settles_candidates])
      (auto intro: settles_do_provision settles_andthen settles_provision_az_loop)
  show ?thesis unfolding provision_once_def
    by (intro settles_andthen[OF settles_resolve] settles_if settles_do_provision m)
qed

section \<open>Candidates\<close>

lemma relocation_loop_regions:
  "relocation_loop offer peered configured n types regions = Inr cands \<Longrightarrow> fst ` set cands \<subseteq> set regions"
proof (induction regions arbitrary: cands)
  case (Cons r regions)
  show ?case
  proof (cases "relocation_loop offer peered configured n types regions")
    case (Inl e)
    with Cons.prems show ?thesis by (auto split: if_splits sum.splits)
  next
    case (Inr cs)
    with Cons.prems have "cands = cs \<or> (\<exists>ls. cands = (r, ls) # cs)" by (auto split: if_splits sum.splits)
    then have "fst ` set cands \<subseteq> insert r (fst ` set cs)" by auto
    from order_trans[OF this insert_mono[OF Cons.IH[OF Inr]]] show ?thesis by simp
  qed
qed simp

lemma region_candidates_supported:
  assumes "get_region_fallback_candidates cl ap = Inr cands"
  shows "fst ` set cands \<subseteq> set aws_supported_regions"
proof (cases "blocked_by_dns_names ap \<or> Az_Resolver.region_names ap = []")
  case True
  with assms show ?thesis by (auto simp: get_region_fallback_candidates_def split: if_splits)
next
  case False
  then obtain c rest where "Az_Resolver.region_names ap = c # rest" by (cases "Az_Resolver.region_names ap") auto
  with assms False have "relocation_loop (cl_offerings cl) (is_region_peered cl c) (configured_az_letters ap)
      (az_cardinality ap) (required_instance_types (ap_params ap)) (ordered_fallback_regions cl ap [c]) = Inr cands"
    by (simp add: get_region_fallback_candidates_def)
  from relocation_loop_regions[OF this] show ?thesis unfolding ordered_regions_facts by blast
qed

lemma dc_candidates_supported:
  assumes "get_dc_fallback_candidates cl ap i = Inr cands"
  shows "fst ` set cands \<subseteq> set aws_supported_regions - set (Az_Resolver.region_names ap)"
proof (cases "blocked_by_dns_names ap \<or> i \<ge> length (Az_Resolver.region_names ap)")
  case True
  with assms have "cands = []" by (auto simp: get_dc_fallback_candidates_def Let_def split: if_splits)
  then show ?thesis by simp
next
  case False
  with assms obtain peered types where "relocation_loop (cl_offerings cl) peered (configured_az_letters ap)
      (az_cardinality ap) types (ordered_fallback_regions cl ap (Az_Resolver.region_names ap)) = Inr cands"
    unfolding get_dc_fallback_candidates_def Let_def by (metis (no_types, lifting))
  from relocation_loop_regions[OF this] show ?thesis unfolding ordered_regions_facts .
qed

lemma preferred_supported:
  assumes "get_preferred_spot_region cl ap = Inr (Some (region, letters))"
  shows "region \<in> set aws_supported_regions"
proof -
  from assms obtain P cands where "get_region_fallback_candidates cl ap = Inr cands" "find P cands = Some (region, letters)"
    by (auto simp: get_preferred_spot_region_def Let_def map_sum_def split: if_splits option.splits sum.splits)
  then have "(region, letters) \<in> set cands" by (metis find_Some_iff nth_mem)
  then have "region \<in> fst ` set cands" by force
  with region_candidates_supported[OF \<open>get_region_fallback_candidates cl ap = Inr cands\<close>] show ?thesis by blast
qed

lemma aws_regions_words: "r \<in> set aws_supported_regions \<Longrightarrow> is_word r"
proof -
  have "list_all is_word aws_supported_regions" by code_simp
  then show "r \<in> set aws_supported_regions \<Longrightarrow> is_word r" by (simp add: list_all_iff)
qed

section \<open>A cluster in one region\<close>

text \<open>
  What region fallback needs of the services: zone offerings and AMI lookups answer (a lookup of an equivalent
  AMI may find none), and the configured AMI settings are not blank.
\<close>

definition services_answer :: "('w, 'p) provider \<Rightarrow> bool" where
  "services_answer pv \<longleftrightarrow> (\<forall>region. \<exists>os. cl_offerings (pv_cloud pv) region = Inr os) \<and>
     (\<forall>ami source target. \<exists>ms. pv_equivalent_ami pv ami source target = Inr ms) \<and>
     (\<forall>name regions. \<exists>v. pv_ami_by_name pv name regions = Inr v)"

definition intents_given :: "'w layout \<Rightarrow> bool" where
  "intents_given s \<longleftrightarrow> (\<forall>key v. ly_ami_intent s key = Some v \<longrightarrow> v = [] \<or> split_ws v \<noteq> [])"

lemma relocation_loop_answers:
  assumes "\<And>region. \<exists>os. offer region = Inr os"
  shows "\<exists>cands. relocation_loop offer peered configured n types regions = Inr cands"
proof (induction regions)
  case (Cons r regions)
  then obtain cs where cs: "relocation_loop offer peered configured n types regions = Inr cs" ..
  obtain os where "offer r = Inr os" using assms by blast
  then obtain ls where "common_supported_letters offer [r] configured types = Inr ls"
    by (cases "types = []") (simp_all add: common_supported_letters_def get_common_availability_zones_def Let_def)
  with cs show ?case by simp
qed simp

lemma region_candidates_answer:
  assumes "services_answer pv"
  shows "\<exists>cands. get_region_fallback_candidates (pv_cloud pv) ap = Inr cands"
  using relocation_loop_answers assms
  by (auto simp: get_region_fallback_candidates_def services_answer_def split: list.splits)

lemma collect_Inl: "collect f xs = Inl e \<Longrightarrow> \<exists>x\<in>set xs. f x = Inl e"
  by (induction xs) (auto simp: or_fail_def split: sum.splits)

lemma remap_error:
  assumes "services_answer pv" "remap_amis_to_regions pv v source regions = Inl e"
  shows "ex_kind e = RegionAMINotFoundError"
proof -
  from assms(2) obtain region ami where ami: "equivalent_ami pv source region ami = Inl e"
    by (auto simp: remap_amis_to_regions_def or_fail_def dest!: collect_Inl split: sum.splits)
  obtain ms where "pv_equivalent_ami pv ami source region = Inr ms" using assms(1) services_answer_def by blast
  with ami show ?thesis by (auto simp: equivalent_ami_def or_fail_def exn_def split: list.splits)
qed

lemma resolved_ami_error:
  assumes "services_answer pv" "resolved_ami pv regions source original current = Inl e"
    and "\<And>v. original = Some v \<Longrightarrow> v = [] \<or> split_ws v \<noteq> []"
  shows "ex_kind e = RegionAMINotFoundError"
proof -
  have named: "or_fail (pv_ami_by_name pv name regions) (\<lambda>v. Inr (Some v)) \<noteq> Inl e" for name
    using assms(1) services_answer_def by (metis (no_types, lifting) Inl_Inr_False or_fail_Inr)
  have "(case source of Some src \<Rightarrow> (if current \<noteq> [] \<and> src \<noteq> []
      then or_fail (remap_amis_to_regions pv current src regions) (\<lambda>v. Inr (Some v)) else Inr None) | None \<Rightarrow> Inr None) = Inl e"
  proof (cases "original = None \<or> original = Some []")
    case True
    with assms(2) show ?thesis by (auto simp: resolved_ami_def Let_def)
  next
    case False
    with assms(3) obtain name token rest where "original = Some name" "name \<noteq> []" "split_ws name = token # rest"
      by (metis list.exhaust option.exhaust)
    with assms(2) named show ?thesis by (auto simp: resolved_ami_def Let_def split: if_splits)
  qed
  then obtain src where "remap_amis_to_regions pv current src regions = Inl e"
    by (auto simp: or_fail_def split: option.splits if_splits sum.splits)
  then show ?thesis by (rule remap_error[OF assms(1)])
qed

text \<open>Resolving AMIs moves nothing.\<close>

definition stays :: "'w layout \<Rightarrow> 'w layout \<Rightarrow> bool" where
  "stays s s' \<longleftrightarrow> cf_env (si_conf s') = cf_env (si_conf s) \<and> ly_ami_intent s' = ly_ami_intent s \<and>
     cf_params (si_conf s') ''region_name'' = cf_params (si_conf s) ''region_name''"

lemma stays_refl [simp]: "stays s s"
  by (simp add: stays_def)

lemma stays_trans: "stays s s1 \<Longrightarrow> stays s1 s2 \<Longrightarrow> stays s s2"
  by (simp add: stays_def)

lemma settled_stays: "settled s s' \<Longrightarrow> stays s s'"
  by (simp add: settled_def stays_def)

lemma stays_regions: "stays s s' \<Longrightarrow> conf_region_names (si_conf s') = conf_region_names (si_conf s)"
  by (intro region_names_cong) (simp_all add: stays_def)

lemma stays_intents: "stays s s' \<Longrightarrow> intents_given s' \<longleftrightarrow> intents_given s"
  by (simp add: stays_def intents_given_def)

lemma resolve_ami_keys_facts:
  assumes "services_answer pv"
  shows "\<lbrakk>intents_given s; set keys \<subseteq> set ami_id_params; resolve_ami_keys pv regions source keys s = (r, s')\<rbrakk> \<Longrightarrow>
    stays s s' \<and> (\<forall>e. r = Inl e \<longrightarrow> ex_kind e = RegionAMINotFoundError)"
proof (induction keys arbitrary: s)
  case (Cons key keys)
  let ?q = "resolved_ami pv regions source (ly_ami_intent s key) (get_str (cf_params (si_conf s)) key)"
  have int: "\<And>v. ly_ami_intent s key = Some v \<Longrightarrow> v = [] \<or> split_ws v \<noteq> []"
    using Cons.prems(1) unfolding intents_given_def by blast
  show ?case
  proof (cases ?q)
    case (Inl e)
    with Cons.prems resolved_ami_error[OF assms Inl int] show ?thesis by auto
  next
    case (Inr q)
    have "key \<noteq> ''region_name''" using Cons.prems(2) region_name_not_ami by auto
    then have st: "stays s (set_param key (PStr v) s)" for v by (simp add: stays_def)
    show ?thesis
    proof (cases q)
      case None
      with Inr Cons show ?thesis by simp
    next
      case (Some v)
      with Inr Cons.prems stays_intents[OF st] have "intents_given (set_param key (PStr v) s)"
        "resolve_ami_keys pv regions source keys (set_param key (PStr v) s) = (r, s')" by simp_all
      from Cons.IH[OF this(1) _ this(2)] Cons.prems(2) stays_trans[OF st[of v], of s'] show ?thesis by simp
    qed
  qed
qed auto

lemma resolve_amis_facts:
  assumes "services_answer pv" "intents_given s" "resolve_amis pv regions source s = (r, s')"
  shows "stays s s' \<and> (\<forall>e. r = Inl e \<longrightarrow> ex_kind e = RegionAMINotFoundError)"
proof (cases "cf_params (si_conf s) ''cluster_backend'' = PStr ''aws''")
  case False
  with assms(3) show ?thesis by (auto simp: resolve_amis_def)
next
  case True
  obtain q s1 where q: "resolve_ami_keys pv regions source ami_id_params s = (q, s1)" by fastforce
  note k = resolve_ami_keys_facts[OF assms(1,2) order_refl q]
  show ?thesis
  proof (cases q)
    case (Inl e)
    with assms(3) True q k show ?thesis by (auto simp: resolve_amis_def andthen_def)
  next
    case (Inr u)
    let ?images = "collect (\<lambda>ami. remap_amis_to_regions pv ami (the source) regions) (ly_target_images s1)"
    have img: "ex_kind e = RegionAMINotFoundError" if "?images = Inl e" for e
      using collect_Inl[OF that] remap_error[OF assms(1)] by blast
    have "stays s1 (s1\<lparr>ly_target_images := imgs\<rparr>)" for imgs by (simp add: stays_def)
    with k have "stays s (s1\<lparr>ly_target_images := imgs\<rparr>)" for imgs using stays_trans by blast
    with assms(3) True q Inr k img show ?thesis
      by (auto simp: resolve_amis_def andthen_def split: if_splits sum.splits)
  qed
qed

lemma switch_region_facts:
  assumes "services_answer pv" "intents_given s" "is_word region" "switch_region pv region letters source s = (r, s')"
  shows "intents_given s' \<and> (case r of
      Inl e \<Rightarrow> ex_kind e = RegionAMINotFoundError \<and> stays s s'
    | Inr _ \<Rightarrow> cf_env (si_conf s') region_var = Some region \<and> conf_region_names (si_conf s') = [region])"
proof -
  obtain q s1 where q: "resolve_amis pv [region] source s = (q, s1)" by fastforce
  note f = resolve_amis_facts[OF assms(1,2) q]
  have i: "intents_given s1" using f stays_intents assms(2) by blast
  show ?thesis
  proof (cases q)
    case (Inl e)
    with assms(4) q f i show ?thesis by (auto simp: switch_region_def andthen_def)
  next
    case (Inr u)
    define s2 where "s2 = set_param ''availability_zone'' (PStr (join '','' letters))
      (set_param ''region_name'' (PStr region) (set_env (Some region) s1))"
    with assms(4) q Inr have s': "r = Inr ()" "s' = (clear_cluster_caches s2)\<lparr>si_reservations := []\<rparr>"
      by (auto simp: switch_region_def andthen_def)
    have conf: "si_conf s' = si_conf s2" "ly_ami_intent s' = ly_ami_intent s1"
      by (simp_all add: s'(2) clear_cluster_caches_def s2_def)
    have env: "cf_env (si_conf s') region_var = Some region" by (simp add: conf s2_def)
    with region_names_env[OF env] split_ws_join[of "[region]"] assms(3) i conf(2) s'(1) show ?thesis
      by (simp add: intents_given_def)
  qed
qed

lemma region_attempt_facts:
  assumes "region_attempt pv h source s = (r, s')"
  shows "case r of Inl _ \<Rightarrow> \<exists>s1. s' = go_home h s1 | Inr _ \<Rightarrow> settled s s'"
proof -
  obtain q s1 where q: "attempt_region pv s = (q, s1)" by fastforce
  note st = settlesD[OF settles_attempt_region q]
  consider (err) e where "q = Inl e" | (ok) "q = Inr False" | (out) "q = Inr True" by (metis (full_types) sum.exhaust)
  then show ?thesis
  proof cases
    case out
    with assms q settled_trans[OF st settled_cleanup_region, of pv source] show ?thesis
      by (auto simp: region_attempt_def)
  qed (use assms q st in \<open>auto simp: region_attempt_def\<close>)
qed

text \<open>The settings point to one region, also in the environment.\<close>

definition relocated_to :: "string \<Rightarrow> 'w layout \<Rightarrow> bool" where
  "relocated_to region s \<longleftrightarrow> cf_env (si_conf s) region_var = Some region \<and> conf_region_names (si_conf s) = [region]"

lemma relocated_settled: "settled s s' \<Longrightarrow> relocated_to region s' \<longleftrightarrow> relocated_to region s"
  using settled_regions[of s s'] by (simp add: relocated_to_def settled_def)

lemma region_candidates_loop_facts:
  assumes "services_answer pv"
  shows "\<lbrakk>intents_given s; fst ` set cands \<subseteq> set aws_supported_regions; region_candidates_loop pv h source cands s = (r, s')\<rbrakk> \<Longrightarrow>
    case r of Inl _ \<Rightarrow> \<exists>s1. s' = go_home h s1 | Inr _ \<Rightarrow> \<exists>region\<in>set aws_supported_regions. relocated_to region s'"
proof (induction cands arbitrary: source s)
  case Nil
  then show ?case by auto
next
  case (Cons c cands)
  obtain region letters where c: "c = (region, letters)" by fastforce
  with Cons.prems(2) have sup: "region \<in> set aws_supported_regions" "fst ` set cands \<subseteq> set aws_supported_regions" by auto
  obtain q s1 where q: "switch_region pv region letters source s = (q, s1)" by fastforce
  note sw = switch_region_facts[OF assms Cons.prems(1) aws_regions_words[OF sup(1)] q]
  show ?case
  proof (cases q)
    case (Inl e)
    with Cons.prems(3) c q sw have "region_candidates_loop pv h source cands s1 = (r, s')" by simp
    from Cons.IH[OF _ sup(2) this] sw show ?thesis by simp
  next
    case (Inr u)
    obtain a s2 where a: "region_attempt pv h (Some region) s1 = (a, s2)" by fastforce
    note at = region_attempt_facts[OF a]
    have to: "relocated_to region s2" if "settled s1 s2"
      using relocated_settled[OF that] sw Inr by (simp add: relocated_to_def)
    consider (err) e where "a = Inl e" | (ok) "a = Inr True" | (out) "a = Inr False" by (metis (full_types) sum.exhaust)
    then show ?thesis
    proof cases
      case out
      with Cons.prems(3) c q Inr a have "region_candidates_loop pv h (Some region) cands s2 = (r, s')" by simp
      moreover have "intents_given s2" using stays_intents[OF settled_stays] at out sw by auto
      ultimately show ?thesis using Cons.IH[OF _ sup(2)] by simp
    next
      case ok
      with Cons.prems(3) c q Inr a have "r = Inr ()" "s' = s2" by simp_all
      with to at ok sup(1) show ?thesis by auto
    qed (use Cons.prems(3) c q Inr a at in auto)
  qed
qed

text \<open>Environment, regions and zone are as they were.\<close>

definition at_home :: "'w layout \<Rightarrow> 'w layout \<Rightarrow> bool" where
  "at_home s s' \<longleftrightarrow> cf_env (si_conf s') region_var = cf_env (si_conf s) region_var \<and>
     conf_region_names (si_conf s') = conf_region_names (si_conf s) \<and>
     cf_params (si_conf s') ''availability_zone'' = cf_params (si_conf s) ''availability_zone''"

lemma at_home_refl [simp]: "at_home s s"
  by (simp add: at_home_def)

lemma conf_region_words: "x \<in> set (conf_region_names c) \<Longrightarrow> is_word x"
  using split_ws_words by (auto simp: conf_region_names_def split: option.splits)

lemma go_home_at_home:
  assumes "conf_region_names (si_conf s) = [R]"
  shows "at_home s (go_home \<lparr>ho_region = Some R, ho_az = cf_params (si_conf s) ''availability_zone'',
    ho_env = cf_env (si_conf s) region_var\<rparr> s1)"
proof -
  have "is_word R" using assms conf_region_words[of R "si_conf s"] by simp
  then have R: "split_ws R = [R]" using split_ws_join[of "[R]"] by simp
  show ?thesis
  proof (cases "cf_env (si_conf s) region_var")
    case None
    with R assms show ?thesis
      by (simp add: at_home_def go_home_def restore_region_def Let_def conf_region_names_def get_str_def)
  next
    case (Some v)
    with assms show ?thesis
      by (simp add: at_home_def go_home_def restore_region_def Let_def conf_region_names_def)
  qed
qed

lemma relocate_upfront_facts:
  assumes "services_answer pv" "intents_given s" "relocate_to_preferred_spot_region pv s = (r, s')"
  shows "intents_given s' \<and> (case r of Inl _ \<Rightarrow> s' = s
    | Inr _ \<Rightarrow> stays s s' \<or> (\<exists>region\<in>set aws_supported_regions. relocated_to region s'))"
proof -
  let ?p = "get_preferred_spot_region (pv_cloud pv) (az_of pv s)"
  show ?thesis
  proof (cases "\<exists>region letters. ?p = Inr (Some (region, letters))")
    case True
    then obtain region letters where p: "?p = Inr (Some (region, letters))" by blast
    obtain q s1 where q: "switch_region pv region letters (first_region s) s = (q, s1)" by fastforce
    note sup = preferred_supported[OF p]
    have "of_resolver ?p = Inr (Some (region, letters))" using p by simp
    with assms(3) q have rs: "r = Inr ()" "s' = s1" by (simp_all add: relocate_to_preferred_spot_region_def)
    from switch_region_facts[OF assms(1,2) aws_regions_words[OF sup] q] sup show ?thesis
      unfolding rs by (cases q) (auto simp: relocated_to_def)
  next
    case False
    then have "of_resolver ?p \<noteq> Inr (Some c)" for c by (cases c) simp
    with assms(2,3) show ?thesis
      by (cases "of_resolver ?p") (auto simp: relocate_to_preferred_spot_region_def split: option.splits)
  qed
qed


text \<open>Services with the given peered regions and an EC2 that has no capacity in some, and a test of one DB node and one loader.\<close>

definition crowded_provider :: "string list \<Rightarrow> string list \<Rightarrow> ((string \<times> tags) list, string) provider" where
  "crowded_provider peers full = example_provider
     \<lparr>pv_cloud := example_cloud\<lparr>cl_peering := (\<lambda>_ r. Inr (if r \<in> set peers then Some ''active'' else None))\<rparr>,
      pv_launcher := example_launcher\<lparr>lc_ec2 := example_ec2\<lparr>ec_create_instances := (\<lambda>la w.
        if la_region la \<in> set full then (Inl (exn (ClientError ''InsufficientInstanceCapacity'' [])), w)
        else (Inr (numbered (la_count la)), w))\<rparr>\<rparr>,
      pv_equivalent_ami := (\<lambda>ami source target. Inr [''ami-2'']), pv_ami_by_name := (\<lambda>name regions. Inr ''ami-2'')\<rparr>"

definition small_layout :: "string \<Rightarrow> param \<Rightarrow> ((string \<times> tags) list) layout" where
  "small_layout region counts = example_layout\<lparr>si_conf := \<lparr>cf_env = Map.empty, cf_params = (\<lambda>_. PNone)(
     ''cluster_backend'' := PStr ''aws'', ''region_name'' := PStr region, ''availability_zone'' := PStr ''a'',
     ''instance_provision'' := PStr ''on_demand'', ''instance_type_db'' := PStr ''i4i'', ''n_db_nodes'' := counts,
     ''n_loaders'' := PCounts [Some 1], ''n_monitor_nodes'' := PCounts [Some 0],
     ''fallback_to_next_region'' := PBool True)\<rparr>\<rparr>"

lemma crowded_answers: "services_answer (crowded_provider peers full)" "ami_words (crowded_provider peers full)"
  by (auto simp: services_answer_def ami_words_def crowded_provider_def example_provider_def example_cloud_def
      is_word_def is_space_def)

lemma small_intents: "intents_given (small_layout region counts)"
  by (simp add: intents_given_def small_layout_def example_layout_def)


text \<open>
  An AMI given by name that is missing in a candidate region ends the fallback with the \<^verbatim>\<open>ValueError\<close> of the lookup:
  the candidates after it are not tried and the settings stay with the region relocated to before.
\<close>

lemma named_ami_aborts:
  defines "run \<equiv> provision_with_region_fallback
      ((crowded_provider [''eu-west-2'', ''eu-central-1''] [''eu-west-1'', ''eu-west-2''])
        \<lparr>pv_ami_by_name := (\<lambda>name regions. if regions = [''eu-west-2''] then Inr ''ami-2'' else Inl (exn ValueError))\<rparr>)
      ((small_layout ''eu-west-1'' (PCounts [Some 1]))\<lparr>ly_ami_intent := [''ami_id_db_scylla'' \<mapsto> ''scylla-6'']\<rparr>)"
  shows "map_prod id (\<lambda>s. conf_region_names (si_conf s)) run = (Inl (exn ValueError), [''eu-west-2''])"
  unfolding run_def by code_simp

end
