(* ===== verification/Aws_Dc_Fallback.thy ===== *)
theory Aws_Dc_Fallback
  imports Aws_Layout
begin

text \<open>
  What the relocation of single datacenters on AWS guarantees (\<^verbatim>\<open>_provision_with_multi_dc_fallback\<close> of
  \<^verbatim>\<open>sdcm/sct_provision/aws/layout.py\<close>): it ends, restores the placement on errors, and after a success every
  datacenter has its DB nodes in the region it ended up in.
\<close>

section \<open>One relocation\<close>

text \<open>The recorded DB instances.\<close>

definition db_instances :: "'w layout \<Rightarrow> instance_ref list" where
  "db_instances s = co_instances (cluster_of s DBCluster)"

text \<open>The regions of the test: as many as configured, pairwise different, configured or supported.\<close>

definition dc_ok :: "string list \<Rightarrow> 'w layout \<Rightarrow> bool" where
  "dc_ok configured s \<longleftrightarrow> length (conf_region_names (si_conf s)) = length configured \<and>
     distinct (conf_region_names (si_conf s)) \<and>
     set (conf_region_names (si_conf s)) \<subseteq> set configured \<union> set aws_supported_regions"

lemma cleanup_dc_cluster_conf [simp]:
  "si_conf (cleanup_dc_cluster pv region kind s) = si_conf s"
  "ly_ami_intent (cleanup_dc_cluster pv region kind s) = ly_ami_intent s"
  by (simp_all add: cleanup_dc_cluster_def Let_def split: option.splits)

lemma cleanup_dc_region_conf [simp]: "si_conf (cleanup_dc_region pv region s) = si_conf s"
  by (simp add: cleanup_dc_region_def Let_def instance_clusters_def)

lemma cleanup_dc_clusters:
  "ly_clusters (cleanup_dc_cluster pv region kind s) k =
     (if k = kind then map_option (drop_region region) (ly_clusters s k) else ly_clusters s k)"
  by (simp add: cleanup_dc_cluster_def Let_def split: option.splits)

lemma cleanup_dc_region_db:
  "ly_clusters (cleanup_dc_region pv region s) DBCluster = map_option (drop_region region) (ly_clusters s DBCluster)"
  by (simp add: cleanup_dc_region_def Let_def instance_clusters_def cleanup_dc_clusters)

lemma cluster_of_map:
  assumes "ly_clusters s' kind = map_option f (ly_clusters s kind)" "f (new_cluster kind) = new_cluster kind"
  shows "cluster_of s' kind = f (cluster_of s kind)"
  using assms by (cases "ly_clusters s kind") (simp_all add: cluster_of_def)

lemma cleanup_dc_region_instances:
  "db_instances (cleanup_dc_region pv region s) = filter (\<lambda>i. in_region i \<noteq> Some region) (db_instances s)"
  unfolding db_instances_def
  by (subst cluster_of_map[OF cleanup_dc_region_db]) (simp_all add: drop_region_def new_cluster_def)

text \<open>Candidates are tried until one can be switched to; a failing switch changes nothing.\<close>

lemma relocation_targets_facts:
  assumes "ami_words pv"
  shows "\<lbrakk>set targets \<subseteq> set aws_supported_regions; relocation_targets pv i failed seen targets s = (Inr (Some seen'), s')\<rbrakk> \<Longrightarrow>
    \<exists>target u. target \<in> set targets \<and> target \<in> set seen' \<and> set seen \<subseteq> set seen' \<and>
      switch_dc_region pv i target failed s = (Inr u, s')"
proof (induction targets arbitrary: seen)
  case (Cons t targets)
  obtain q s1 where q: "switch_dc_region pv i t failed s = (q, s1)" by fastforce
  from Cons.prems(1) have w: "is_word t" using aws_regions_words by simp
  show ?case
  proof (cases q)
    case (Inr u)
    with Cons.prems(2) q show ?thesis by (intro exI[of _ t] exI[of _ u]) auto
  next
    case (Inl e)
    with switch_dc_region_facts[OF assms w, where i = i and source = failed and s = s] q have "s1 = s" by simp
    with Cons.prems q Inl have "relocation_targets pv i failed (append_new t seen) targets s = (Inr (Some seen'), s')"
      by (auto split: if_splits)
    with Cons.IH[of "append_new t seen"] Cons.prems(1) show ?thesis by auto
  qed
qed simp

lemma az_of_regions: "conf_region_names (si_conf s) \<noteq> [] \<Longrightarrow> Az_Resolver.region_names (az_of pv s) = conf_region_names (si_conf s)"
  by (simp add: Az_Resolver.region_names_def az_of_def)

lemma index_of_nth:
  assumes "x \<in> set xs"
  shows "length (takeWhile (\<lambda>y. y \<noteq> x) xs) < length xs \<and> xs ! length (takeWhile (\<lambda>y. y \<noteq> x) xs) = x"
  using assms by (induction xs) auto

text \<open>What a relocation did: datacenter \<open>i\<close> moved from the failed region to \<open>target\<close>.\<close>

definition moved :: "('w, 'p) provider \<Rightarrow> aws_exn \<Rightarrow> nat \<Rightarrow> string \<Rightarrow> 'w layout \<Rightarrow> 'w layout \<Rightarrow> bool" where
  "moved pv e i target s s' \<longleftrightarrow> i < length (conf_region_names (si_conf s)) \<and>
     get_failed_region e = Some (conf_region_names (si_conf s) ! i) \<and>
     target \<in> set aws_supported_regions - set (conf_region_names (si_conf s)) \<and>
     (\<exists>u. switch_dc_region pv i target (conf_region_names (si_conf s) ! i)
        (cleanup_dc_region pv (conf_region_names (si_conf s) ! i) s) = (Inr u, s'))"

lemma relocate_facts:
  assumes "ami_words pv" "relocate_failed_db_dc pv e tried s = (Inr tried', s')"
  obtains i target seen where "moved pv e i target s s'" "tried' = tried(i := seen)" "set (tried i) \<subseteq> set seen"
    "target \<in> set seen" "target \<notin> set (tried i)"
proof -
  let ?names = "conf_region_names (si_conf s)"
  from assms(2) obtain failed where failed: "get_failed_region e = Some failed" "failed \<in> set ?names"
    by (auto simp: relocate_failed_db_dc_def Let_def split: option.splits if_splits)
  define i where "i = length (takeWhile (\<lambda>n. n \<noteq> failed) ?names)"
  have i: "i < length ?names" "?names ! i = failed" using index_of_nth[OF failed(2)] unfolding i_def by simp_all
  define s1 where "s1 = cleanup_dc_region pv failed s"
  define seen where "seen = append_new failed (tried i)"
  from assms(2) failed obtain cands where cands: "get_dc_fallback_candidates (pv_cloud pv) (az_of pv s1) i = Inr cands"
    by (auto simp: relocate_failed_db_dc_def Let_def i_def s1_def of_resolver_def split: sum.splits az_error.splits)
  let ?targets = "filter (\<lambda>r. r \<notin> set seen) (map fst cands)"
  from assms(2) failed cands obtain seen' where
    t: "relocation_targets pv i failed seen ?targets s1 = (Inr (Some seen'), s')" and tried': "tried' = tried(i := seen')"
    by (auto simp: relocate_failed_db_dc_def Let_def of_resolver_def simp flip: i_def s1_def seen_def
        split: prod.splits sum.splits option.splits)
  have "?names \<noteq> []" using i by auto
  then have "Az_Resolver.region_names (az_of pv s1) = ?names"
    using az_of_regions[of s1 pv] by (simp add: s1_def)
  with dc_candidates_supported[OF cands] have sup: "fst ` set cands \<subseteq> set aws_supported_regions - set ?names" by simp
  then have "set ?targets \<subseteq> set aws_supported_regions" by auto
  from relocation_targets_facts[OF assms(1) this t] obtain target u where
    target: "target \<in> set ?targets" "target \<in> set seen'" "set seen \<subseteq> set seen'"
      "switch_dc_region pv i target failed s1 = (Inr u, s')" by blast
  have "moved pv e i target s s'"
    unfolding moved_def using i failed target(1,4) sup s1_def by auto
  then show thesis
    by (rule that[OF _ tried']) (use target in \<open>auto simp: seen_def\<close>)
qed

lemma moved_regions:
  assumes "ami_words pv" "moved pv e i target s s'"
  shows "conf_region_names (si_conf s') = (conf_region_names (si_conf s))[i := target]"
    and "changes_only i (cf_params (si_conf s)) (cf_params (si_conf s'))"
    and "db_instances s' = filter (\<lambda>x. in_region x \<noteq> get_failed_region e) (db_instances s)"
proof -
  let ?s1 = "cleanup_dc_region pv (conf_region_names (si_conf s) ! i) s"
  from assms(2) obtain u where m: "target \<in> set aws_supported_regions"
    "get_failed_region e = Some (conf_region_names (si_conf s) ! i)"
    "switch_dc_region pv i target (conf_region_names (si_conf s) ! i) ?s1 = (Inr u, s')"
    unfolding moved_def by blast
  from switch_dc_region_facts[OF assms(1) aws_regions_words[OF m(1)], where i = i and s = ?s1
      and source = "conf_region_names (si_conf s) ! i"] m(3)
  have f: "conf_region_names (si_conf s') = (conf_region_names (si_conf s))[i := target]"
    "changes_only i (cf_params (si_conf s)) (cf_params (si_conf s'))"
    "map_option co_instances \<circ> ly_clusters s' = map_option co_instances \<circ> ly_clusters ?s1" by simp_all
  have "map_option co_instances (ly_clusters s' DBCluster) = map_option co_instances (ly_clusters ?s1 DBCluster)"
    using fun_cong[OF f(3), of DBCluster] by simp
  then have "db_instances s' = db_instances ?s1"
    by (cases "ly_clusters s' DBCluster"; cases "ly_clusters ?s1 DBCluster") (simp_all add: db_instances_def cluster_of_def)
  with f(1,2) m(2) show "conf_region_names (si_conf s') = (conf_region_names (si_conf s))[i := target]"
    "changes_only i (cf_params (si_conf s)) (cf_params (si_conf s'))"
    "db_instances s' = filter (\<lambda>x. in_region x \<noteq> get_failed_region e) (db_instances s)"
    by (simp_all add: cleanup_dc_region_instances)
qed

lemma moved_dc_ok:
  assumes "ami_words pv" "moved pv e i target s s'" "dc_ok configured s"
  shows "dc_ok configured s'"
proof -
  let ?names = "conf_region_names (si_conf s)"
  have n: "conf_region_names (si_conf s') = ?names[i := target]" by (rule moved_regions(1)[OF assms(1,2)])
  have t: "target \<in> set aws_supported_regions" "target \<notin> set ?names" using assms(2) by (auto simp: moved_def)
  then have "distinct (?names[i := target])" using assms(3) by (auto simp: dc_ok_def intro: distinct_list_update)
  with n t set_update_subset_insert[of ?names i target] assms(3) show ?thesis by (auto simp: dc_ok_def)
qed

lemma settled_dc_ok: "settled s s' \<Longrightarrow> dc_ok configured s' \<longleftrightarrow> dc_ok configured s"
  using settled_regions[of s s'] by (simp add: dc_ok_def)

section \<open>The loop ends\<close>

text \<open>The regions the datacenters have not tried yet.\<close>

definition untried :: "nat \<Rightarrow> tried \<Rightarrow> nat" where
  "untried n tried = (\<Sum>i<n. card (set aws_supported_regions - set (tried i)))"

lemma untried_decreases:
  assumes "i < n" "set (tried i) \<subseteq> set seen" "target \<in> set aws_supported_regions" "target \<in> set seen" "target \<notin> set (tried i)"
  shows "untried n (tried(i := seen)) < untried n tried"
proof -
  have "set aws_supported_regions - set seen \<subset> set aws_supported_regions - set (tried i)" using assms by blast
  then have "card (set aws_supported_regions - set seen) < card (set aws_supported_regions - set (tried i))"
    by (intro psubset_card_mono) auto
  then show ?thesis unfolding untried_def using assms(1) by (intro sum_strict_mono_ex1) auto
qed

text \<open>
  A rule for the loop: an invariant \<open>J\<close> that holds again after every relocation, and what a successful
  provision makes of it.
\<close>

lemma dc_provision_loop_rule:
  assumes "ami_words pv" and J: "\<And>s. J s \<Longrightarrow> dc_ok configured s"
    and success: "\<And>s s1 u. \<lbrakk>J s; provision_kind pv DBCluster (completed_db_region_ids s) s = (Inr u, s1)\<rbrakk> \<Longrightarrow> Q s1"
    and again: "\<And>s s1 s2 e i target. \<lbrakk>J s; provision_kind pv DBCluster (completed_db_region_ids s) s = (Inl e, s1);
      exhausted e; moved pv e i target s1 s2\<rbrakk> \<Longrightarrow> J s2"
  shows "J s \<Longrightarrow> \<exists>r s'. dc_provision_loop pv tried s = Some (r, s') \<and> (case r of Inl _ \<Rightarrow> True | Inr _ \<Rightarrow> Q s')"
proof (induction "untried (length configured) tried" arbitrary: tried s rule: less_induct)
  case less
  obtain q s1 where q: "provision_kind pv DBCluster (completed_db_region_ids s) s = (q, s1)" by fastforce
  have ok: "dc_ok configured s1" using J[OF less.prems] settled_dc_ok[OF settlesD[OF settles_kind q]] by simp
  show ?case
  proof (cases q)
    case (Inr u)
    with q success[OF less.prems] show ?thesis by (subst dc_provision_loop.simps) simp
  next
    case (Inl e)
    obtain x s2 where x: "relocate_failed_db_dc pv e tried s1 = (x, s2)" by fastforce
    show ?thesis
    proof (cases "exhausted e \<and> (\<exists>tried'. x = Inr tried')")
      case False
      with q Inl x show ?thesis by (subst dc_provision_loop.simps) (cases x; auto)
    next
      case True
      then obtain tried' where x': "exhausted e" "x = Inr tried'" by blast
      obtain i target seen where m: "moved pv e i target s1 s2" "tried' = tried(i := seen)" "set (tried i) \<subseteq> set seen"
        "target \<in> set seen" "target \<notin> set (tried i)"
        by (rule relocate_facts[OF assms(1) x[unfolded x'(2)]])
      have "i < length configured" "target \<in> set aws_supported_regions"
        using m(1) ok by (auto simp: moved_def dc_ok_def)
      from untried_decreases[of i "length configured" tried seen target, OF this(1) m(3) this(2) m(4,5)] m(2)
      have "untried (length configured) tried' < untried (length configured) tried" by simp
      from less.hyps[OF this again[OF less.prems q[unfolded Inl] x'(1) m(1)]] q Inl x x' show ?thesis
        by (subst dc_provision_loop.simps) simp
    qed
  qed
qed

section \<open>The whole run\<close>

text \<open>The steps before and after the loop leave the regions alone.\<close>

lemma settles_prepare:
  "settles (andthen (layout_resolve pv) (\<lambda>_. andthen (layout_probe pv) (\<lambda>_. provision_placement_group pv)))"
  by (intro settles_andthen settles_resolve settles_probe settles_placement_group)

lemma settles_finish:
  "settles (andthen (provision_kind pv MonitoringCluster []) (\<lambda>_. andthen (provision_kind pv LoaderCluster []) (\<lambda>_. provision_oracle pv)))"
  by (intro settles_andthen settles_kind settles_oracle)

lemma restore_names_at_home:
  "at_home s (restore_region_names (conf_region_names (si_conf s)) (cf_params (si_conf s) ''availability_zone'')
     (cf_env (si_conf s) region_var) s1)"
proof -
  have w: "split_ws (join '' '' (conf_region_names (si_conf s))) = conf_region_names (si_conf s)"
    by (rule split_ws_join) (use conf_region_words in blast)
  show ?thesis
  proof (cases "cf_env (si_conf s) region_var")
    case None
    with w show ?thesis by (simp add: at_home_def restore_region_names_def conf_region_names_def get_str_def)
  next
    case (Some v)
    then show ?thesis by (simp add: at_home_def restore_region_names_def conf_region_names_def)
  qed
qed

definition keeps :: "('s \<Rightarrow> 'x) \<Rightarrow> ('s, 'e, 'a) comp \<Rightarrow> bool" where
  "keeps g m \<longleftrightarrow> (\<forall>s r s'. m s = (r, s') \<longrightarrow> g s' = g s)"

lemma keepsD: "keeps g m \<Longrightarrow> m s = (r, s') \<Longrightarrow> g s' = g s"
  by (simp add: keeps_def)

lemma keeps_andthen: "keeps g m \<Longrightarrow> (\<And>a. keeps g (f a)) \<Longrightarrow> keeps g (andthen m f)"
  unfolding keeps_def andthen_def by (auto split: prod.splits sum.splits)

lemma prepare_clusters:
  "keeps ly_clusters (andthen (layout_resolve pv) (\<lambda>_. andthen (layout_probe pv) (\<lambda>_. provision_placement_group pv)))"
proof (intro keeps_andthen)
  show "keeps ly_clusters (layout_resolve pv)" by (auto simp: keeps_def layout_resolve_def split: sum.splits)
  show "keeps ly_clusters (layout_probe pv)" by (auto simp: keeps_def layout_probe_def split: sum.splits)
  show "keeps ly_clusters (provision_placement_group pv)"
    by (auto simp: keeps_def provision_placement_group_def split: if_splits list.splits prod.splits)
qed

lemma provision_kind_other: "kind \<noteq> k \<Longrightarrow> keeps (\<lambda>s. ly_clusters s k) (provision_kind pv kind skip)"
  by (auto simp: keeps_def provision_kind_def split: prod.splits)

lemma finish_clusters:
  "keeps (\<lambda>s. ly_clusters s DBCluster) (andthen (provision_kind pv MonitoringCluster []) (\<lambda>_.
     andthen (provision_kind pv LoaderCluster []) (\<lambda>_. provision_oracle pv)))"
proof -
  have "keeps (\<lambda>s. ly_clusters s DBCluster) (provision_oracle pv)"
    using provision_kind_other[of OracleDBCluster DBCluster pv "[]"] by (auto simp: keeps_def provision_oracle_def split: if_splits)
  then show ?thesis by (intro keeps_andthen provision_kind_other) simp_all
qed

lemma multi_dc_rule:
  assumes "ami_words pv"
    and start: "\<And>s0. \<lbrakk>settled s s0; ly_clusters s0 = ly_clusters s\<rbrakk> \<Longrightarrow> J s0" and J: "\<And>s. J s \<Longrightarrow> dc_ok configured s"
    and success: "\<And>s s1 u. \<lbrakk>J s; provision_kind pv DBCluster (completed_db_region_ids s) s = (Inr u, s1)\<rbrakk> \<Longrightarrow> Q s1"
    and again: "\<And>s s1 s2 e i target. \<lbrakk>J s; provision_kind pv DBCluster (completed_db_region_ids s) s = (Inl e, s1);
      exhausted e; moved pv e i target s1 s2\<rbrakk> \<Longrightarrow> J s2"
    and finish: "\<And>s s'. \<lbrakk>Q s; settled s s'; ly_clusters s' DBCluster = ly_clusters s DBCluster\<rbrakk> \<Longrightarrow> Q s'"
  shows "\<exists>r s'. provision_with_multi_dc_fallback pv s = Some (r, s') \<and> (case r of Inl _ \<Rightarrow> at_home s s' | Inr _ \<Rightarrow> Q s')"
proof (cases "fst (enforce_multi_dc_fallback_supported s)")
  case (Inl e)
  then show ?thesis
    by (auto simp: provision_with_multi_dc_fallback_def enforce_multi_dc_fallback_supported_def split: if_splits)
next
  case (Inr u)
  then have gate: "enforce_multi_dc_fallback_supported s = (Inr (), s)"
    by (simp add: enforce_multi_dc_fallback_supported_def split: if_splits)
  have "\<exists>r s'. provision_multi_dc_body pv s = Some (r, s') \<and> (case r of Inl _ \<Rightarrow> True | Inr _ \<Rightarrow> Q s')"
  proof -
    obtain q s1 where q: "andthen (layout_resolve pv) (\<lambda>_. andthen (layout_probe pv) (\<lambda>_. provision_placement_group pv)) s = (q, s1)"
      by fastforce
    from start[OF settlesD[OF settles_prepare q] keepsD[OF prepare_clusters q]] have "J s1" .
    have "\<exists>r s2. dc_provision_loop pv (\<lambda>_. []) s1 = Some (r, s2) \<and> (case r of Inl _ \<Rightarrow> True | Inr _ \<Rightarrow> Q s2)"
      by (rule dc_provision_loop_rule[where J = J and Q = Q and configured = configured, OF assms(1)])
        (fact J success again \<open>J s1\<close>)+
    then obtain r s2 where r: "dc_provision_loop pv (\<lambda>_. []) s1 = Some (r, s2)" "case r of Inl _ \<Rightarrow> True | Inr _ \<Rightarrow> Q s2" by blast
    obtain x s3 where x: "andthen (provision_kind pv MonitoringCluster []) (\<lambda>_. andthen (provision_kind pv LoaderCluster [])
        (\<lambda>_. provision_oracle pv)) s2 = (x, s3)" by fastforce
    have "Q s2 \<Longrightarrow> Q s3" by (rule finish[OF _ settlesD[OF settles_finish x] keepsD[OF finish_clusters x]])
    with q r x show ?thesis
      by (cases q; cases r; cases x) (simp_all add: provision_multi_dc_body_def)
  qed
  then obtain r s' where "provision_multi_dc_body pv s = Some (r, s')" "case r of Inl _ \<Rightarrow> True | Inr _ \<Rightarrow> Q s'" by blast
  with gate restore_names_at_home[of s s'] show ?thesis
    by (cases r) (simp_all add: provision_with_multi_dc_fallback_def)
qed

text \<open>The DB instances are in regions of the test.\<close>

definition in_dcs :: "'w layout \<Rightarrow> bool" where
  "in_dcs s \<longleftrightarrow> list_all (\<lambda>i. \<exists>region\<in>set (conf_region_names (si_conf s)). in_region i = Some region) (db_instances s)"

lemma run_batches_regions:
  "run_batches lc c kind regions zones bs acc w = (r, insts, w') \<Longrightarrow>
     \<exists>new. insts = acc @ new \<and> list_all (\<lambda>i. \<exists>region\<in>set regions. in_region i = Some region) new"
proof (induction bs arbitrary: acc w)
  case (Cons b bs)
  let ?region = "regions ! ba_region_id b"
  show ?case
  proof (cases "\<exists>ip ids w1. lc_build lc kind (ba_zero b) c (ba_region_id b) (ba_az_id b) = Inr ip \<and> ba_region_id b < length regions \<and>
      provision_az_instances lc c ?region (zones ! ba_az_id b) ip b w = (Inr ids, w1)")
    case True
    then obtain ids w1 where len: "ba_region_id b < length regions"
      and "run_batches lc c kind regions zones bs (acc @ map (\<lambda>i. \<lparr>in_id = Some i, in_region = Some ?region\<rparr>) ids) w1 = (r, insts, w')"
      using Cons.prems by (auto simp: Let_def)
    from Cons.IH[OF this(2)] nth_mem[OF len] show ?thesis by (auto simp: list_all_iff)
  next
    case False
    then have "insts = acc" using Cons.prems by (auto simp: Let_def split: sum.splits if_splits prod.splits)
    then show ?thesis by simp
  qed
qed simp

lemma provision_cluster_regions:
  assumes "provision_cluster lc c skip co w = (r, co', w')"
  shows "\<exists>new. co_instances co' = co_instances co @ new \<and>
    list_all (\<lambda>i. \<exists>region\<in>set (conf_region_names c). in_region i = Some region) new"
proof (cases "co_instances co' = co_instances co")
  case True
  then show ?thesis by simp
next
  case False
  with assms obtain zones bs q insts w1 where
    "run_batches lc c (co_kind co) (conf_region_names c) zones bs (co_instances co) w = (q, insts, w1)" "co_instances co' = insts"
    by (auto simp: provision_cluster_def Let_def split: sum.splits if_splits prod.splits)
  from run_batches_regions[OF this(1)] this(2) show ?thesis by simp
qed

lemma provision_in_dcs:
  assumes "provision_kind pv DBCluster skip s = (r, s')" "in_dcs s"
  shows "in_dcs s'"
proof -
  from assms(1) obtain co w where
    p: "provision_cluster (launcher_of pv s) (si_conf s) skip (cluster_of s DBCluster) (si_world s) = (r, co, w)"
    "s' = s\<lparr>si_world := w, ly_clusters := (ly_clusters s)(DBCluster \<mapsto> co)\<rparr>"
    by (auto simp: provision_kind_def split: prod.splits)
  from provision_cluster_regions[OF p(1)] assms(2) show ?thesis
    by (auto simp: in_dcs_def db_instances_def cluster_of_def p(2))
qed

lemma in_update: "x \<in> set xs \<Longrightarrow> x \<noteq> xs ! i \<Longrightarrow> x \<in> set (xs[i := y])"
  by (metis in_set_conv_nth length_list_update nth_list_update_neq)

lemma moved_in_dcs:
  assumes "ami_words pv" "moved pv e i target s s'" "in_dcs s"
  shows "in_dcs s'"
  using assms(3) in_update[of _ "conf_region_names (si_conf s)" i target] assms(2)
  unfolding in_dcs_def moved_regions(1,3)[OF assms(1,2)] by (fastforce simp: list_all_iff moved_def)

text \<open>C13: Provisioning a multi-region cluster in different regions ends.  On an error the environment, the regions and
  the zone of the test are as they were; on success every datacenter is in a region of its own, a configured or
  supported one, and every recorded DB instance is in one of these regions.
\<close>

theorem aws_dc_fallback_terminates:
  assumes "ami_words pv" "distinct (conf_region_names (si_conf s))" "ly_clusters s = Map.empty"
  shows "\<exists>r s'. provision_with_multi_dc_fallback pv s = Some (r, s') \<and> (case r of
      Inl _ \<Rightarrow> at_home s s'
    | Inr _ \<Rightarrow> dc_ok (conf_region_names (si_conf s)) s' \<and>
        list_all (\<lambda>i. \<exists>region\<in>set (conf_region_names (si_conf s')). in_region i = Some region) (db_instances s'))"
proof -
  let ?J = "\<lambda>t. dc_ok (conf_region_names (si_conf s)) t \<and> in_dcs t"
  have run: "?J t'" if "?J t" "provision_kind pv DBCluster skip t = (r, t')" for t t' skip r
    using that settled_dc_ok[OF settlesD[OF settles_kind that(2)]] provision_in_dcs[OF that(2)] by blast
  have "\<exists>r s'. provision_with_multi_dc_fallback pv s = Some (r, s') \<and> (case r of Inl _ \<Rightarrow> at_home s s' | Inr _ \<Rightarrow> ?J s')"
  proof (rule multi_dc_rule[where J = ?J and configured = "conf_region_names (si_conf s)"])
    fix s0 assume "settled s s0" "ly_clusters s0 = ly_clusters s"
    with assms(2,3) settled_dc_ok[of s s0] show "?J s0"
      by (auto simp: dc_ok_def in_dcs_def db_instances_def cluster_of_def new_cluster_def)
  next
    fix t t1 t2 e i target
    assume "?J t" "provision_kind pv DBCluster (completed_db_region_ids t) t = (Inl e, t1)" and m: "moved pv e i target t1 t2"
    from run[OF this(1,2)] moved_dc_ok[OF assms(1) m] moved_in_dcs[OF assms(1) m] show "?J t2" by blast
  next
    fix t t' assume "?J t" "settled t t'" "ly_clusters t' DBCluster = ly_clusters t DBCluster"
    then show "?J t'" using settled_dc_ok[of t t'] settled_regions[of t t']
      by (simp add: in_dcs_def db_instances_def cluster_of_def)
  qed (use assms(1) run in blast)+
  then show ?thesis unfolding in_dcs_def by blast
qed

section \<open>Batches region by region\<close>

text \<open>Without zero-token nodes the batches of the DB cluster are those of its regions that are not skipped.\<close>

definition region_batches :: "labels \<Rightarrow> nat \<Rightarrow> int list \<Rightarrow> nat list \<Rightarrow> nat \<Rightarrow> batch list" where
  "region_batches lb k nums active r =
     concat (map (base_az_batches lb (nodes k nums active) (spread k (nat (nums ! r))) r) [0..<k])"

lemma db_batches_regions:
  assumes "distinct active"
  shows "db_batches lb k nums active nums [] skip =
    concat (map (region_batches lb k nums active) (filter (\<lambda>r. r \<notin> set skip) active))"
proof -
  have "db_az_batches lb (nodes k nums active) (spread k (nat (nums ! r))) (spread k (zero_count [] r)) r a =
      base_az_batches lb (nodes k nums active) (spread k (nat (nums ! r))) r a" if "r \<in> set active" "a < k" for r a
    using length_az_members[OF assms that, of nums] that(2)
    by (simp add: db_az_batches_def base_az_batches_def zero_count_def spread_nth Let_def)
  then show ?thesis unfolding db_batches_def region_batches_def
    by (intro arg_cong[where f = concat] map_cong refl) auto
qed

lemma region_batches_region: "b \<in> set (region_batches lb k nums active r) \<Longrightarrow> ba_region_id b = r"
  by (auto simp: region_batches_def base_az_batches_def split: if_splits)

lemma region_batches_count:
  assumes "0 < k"
  shows "sum_list (map ba_count (region_batches lb k nums active r)) = nat (nums ! r)"
proof -
  have "sum_list (map ba_count (region_batches lb k nums active r)) = sum_list (map (share k (nat (nums ! r))) [0..<k])"
    unfolding region_batches_def sum_list_concat_map
    by (intro arg_cong[where f = sum_list] map_cong refl) (auto simp: base_az_batches_def spread_nth)
  then show ?thesis using sum_list_share[OF assms] by simp
qed

lemma region_batches_ok:
  assumes "distinct active" "r \<in> set active" "r < length regions" "b \<in> set (region_batches lb k nums active r)"
  shows "batch_ok regions b"
proof -
  from assms(2,4) have "b \<in> set (base_batches lb k nums active)" by (auto simp: base_batches_def region_batches_def)
  from base_batches_match[OF assms(1) this] region_batches_region[OF assms(4)] assms(3) show ?thesis
    by (simp add: batch_ok_def)
qed

text \<open>A cut through a list of blocks leaves every block but the one it goes through whole, or not yet begun.\<close>

lemma cut_blocks:
  assumes "distinct rs" "\<And>r b. r \<in> set rs \<Longrightarrow> b \<in> set (f r) \<Longrightarrow> g b = r"
  shows "concat (map f rs) = bs @ c # cs \<Longrightarrow> r \<noteq> g c \<Longrightarrow>
    filter (\<lambda>b. g b = r) bs = [] \<or> (r \<in> set rs \<and> filter (\<lambda>b. g b = r) bs = f r)"
  using assms
proof (induction rs arbitrary: bs)
  case (Cons r0 rs)
  have own: "\<And>b. b \<in> set (f r0) \<Longrightarrow> g b = r0" using Cons.prems(4) by simp
  from Cons.prems(1) consider (within) ys where "f r0 = bs @ ys" "ys @ concat (map f rs) = c # cs" |
    (past) bs' where "bs = f r0 @ bs'" "concat (map f rs) = bs' @ c # cs"
    by (auto simp: append_eq_append_conv2)
  then show ?case
  proof cases
    case within
    show ?thesis
    proof (cases "r = r0")
      case True
      with Cons.prems(2) own within have "ys = []" by (cases ys) auto
      with within True own show ?thesis by (simp add: filter_id_conv)
    next
      case False
      with own within have "filter (\<lambda>b. g b = r) bs = []" by (auto simp: filter_empty_conv)
      then show ?thesis ..
    qed
  next
    case past
    have ih: "filter (\<lambda>b. g b = r) bs' = [] \<or> (r \<in> set rs \<and> filter (\<lambda>b. g b = r) bs' = f r)"
      using Cons.IH[OF past(2) Cons.prems(2)] Cons.prems(3,4) by simp
    show ?thesis
    proof (cases "r = r0")
      case True
      with ih Cons.prems(3) have "filter (\<lambda>b. g b = r) bs' = []" by auto
      with past(1) own True show ?thesis by (simp add: filter_id_conv)
    next
      case False
      with own have "filter (\<lambda>b. g b = r) (f r0) = []" by (auto simp: filter_empty_conv)
      with ih past(1) show ?thesis by auto
    qed
  qed
qed simp

text \<open>A capacity error of a batch names its region.\<close>

lemma az_capacity_region:
  assumes "provision_az_instances lc c region az ip b w = (Inl e, w')" "exhausted e"
  shows "get_failed_region e = Some region"
proof (cases "provision_plan c region az")
  case (Inl e0)
  then have "e0 = exn ValueError" by (auto simp: provision_plan_def provision_steps_def split: if_splits)
  with Inl assms show ?thesis
    by (auto simp: provision_az_instances_def exhausted_def is_aws_capacity_error_def exn_def)
next
  case (Inr steps)
  have kind: "ex_kind (tag_capacity_error region az x) = ex_kind x" for x
    by (simp add: tag_capacity_error_def attach_failed_region_def)
  from Inr assms(1) obtain x where x: "e = tag_capacity_error region az x"
    by (auto simp: provision_az_instances_def split: prod.splits sum.splits if_splits)
  with assms(2) kind have "is_client_error x \<or> ex_kind x = CapacityExhausted"
    by (auto simp: exhausted_def is_aws_capacity_error_def is_client_error_def split: aws_kind.splits)
  with x show ?thesis by (simp add: tag_capacity_error_def attach_failed_region_def get_failed_region_def)
qed

text \<open>Building instance parameters never reports exhausted capacity.\<close>

definition builds_without_capacity_errors :: "('w, 'p) launcher \<Rightarrow> bool" where
  "builds_without_capacity_errors lc \<longleftrightarrow> (\<forall>kind z c r a e. lc_build lc kind z c r a = Inl e \<longrightarrow> \<not> exhausted e)"

lemma run_batches_step:
  assumes c: "ec2_contract (lc_ec2 lc) cap" and od: "on_demand conf" and bd: "builds_without_capacity_errors lc"
    and "run_batches lc conf kind regions zones (b # bs) acc w = (r, insts, w')" and b: "batch_ok regions b"
  shows "(\<exists>ids w1. length ids = ba_count b \<and> run_batches lc conf kind regions zones bs
        (acc @ map (\<lambda>i. \<lparr>in_id = Some i, in_region = Some (regions ! ba_region_id b)\<rparr>) ids) w1 = (r, insts, w')) \<or>
    (\<exists>e. r = Inl e \<and> insts = acc \<and> (exhausted e \<longrightarrow> get_failed_region e = Some (regions ! ba_region_id b)))"
proof (cases "lc_build lc kind (ba_zero b) conf (ba_region_id b) (ba_az_id b)")
  case (Inl e)
  with assms(4) have "r = Inl e" "insts = acc" by (auto simp: Let_def)
  with bd Inl show ?thesis unfolding builds_without_capacity_errors_def by blast
next
  case (Inr ip)
  let ?region = "regions ! ba_region_id b"
  have len: "ba_region_id b < length regions" using b by (simp add: batch_ok_def)
  obtain q w1 where q: "provision_az_instances lc conf ?region (zones ! ba_az_id b) ip b w = (q, w1)" by fastforce
  show ?thesis
  proof (cases q)
    case (Inl e)
    with assms(4) q Inr len have "r = Inl e" "insts = acc" by (auto simp: Let_def)
    with az_capacity_region[OF q[unfolded Inl]] show ?thesis by blast
  next
    case q': (Inr ids)
    with provision_az_on_demand[OF c od b q] have "length ids = ba_count b" by simp
    moreover from assms(4) q q' Inr len have "run_batches lc conf kind regions zones bs
        (acc @ map (\<lambda>i. \<lparr>in_id = Some i, in_region = Some ?region\<rparr>) ids) w1 = (r, insts, w')" by (simp add: Let_def)
    ultimately show ?thesis by blast
  qed
qed

text \<open>A run completes a prefix of its batches; when capacity is exhausted, in the region of the next one.\<close>

lemma run_batches_prefix:
  assumes c: "ec2_contract (lc_ec2 lc) cap" and od: "on_demand conf" and bd: "builds_without_capacity_errors lc"
  shows "\<lbrakk>run_batches lc conf kind regions zones bs acc w = (r, insts, w'); list_all (batch_ok regions) bs\<rbrakk> \<Longrightarrow>
    \<exists>complete rest. bs = complete @ rest \<and>
      (\<forall>region. in_region_of region insts = in_region_of region acc +
        sum_list (map ba_count (filter (\<lambda>b. regions ! ba_region_id b = region) complete))) \<and>
      (case r of Inr _ \<Rightarrow> rest = []
       | Inl e \<Rightarrow> exhausted e \<longrightarrow> rest \<noteq> [] \<and> get_failed_region e = Some (regions ! ba_region_id (hd rest)))"
proof (induction bs arbitrary: acc w)
  case (Cons b bs)
  from Cons.prems(2) have b: "batch_ok regions b" and bs: "list_all (batch_ok regions) bs" by auto
  let ?region = "regions ! ba_region_id b"
  from run_batches_step[OF c od bd Cons.prems(1) b] show ?case
  proof (elim disjE exE conjE)
    fix e assume "r = Inl e" "insts = acc" "exhausted e \<longrightarrow> get_failed_region e = Some ?region"
    then show ?thesis by (intro exI[of _ "[]"] exI[of _ "b # bs"]) simp
  next
    fix ids w1 assume ids: "length ids = ba_count b"
      and run: "run_batches lc conf kind regions zones bs
        (acc @ map (\<lambda>i. \<lparr>in_id = Some i, in_region = Some ?region\<rparr>) ids) w1 = (r, insts, w')"
    have n: "in_region_of region (acc @ map (\<lambda>i. \<lparr>in_id = Some i, in_region = Some ?region\<rparr>) ids) =
        in_region_of region acc + (if ?region = region then ba_count b else 0)" for region
      using ids by (auto simp: in_region_of_def filter_map o_def)
    from Cons.IH[OF run bs, unfolded n] obtain complete rest where bs': "bs = complete @ rest" and
      f: "\<forall>region. in_region_of region insts = in_region_of region acc + (if ?region = region then ba_count b else 0) +
        sum_list (map ba_count (filter (\<lambda>b. regions ! ba_region_id b = region) complete))"
        "case r of Inr _ \<Rightarrow> rest = [] | Inl e \<Rightarrow> exhausted e \<longrightarrow> rest \<noteq> [] \<and> get_failed_region e = Some (regions ! ba_region_id (hd rest))"
      by blast
    show ?thesis
      by (rule exI[of _ "b # complete"], rule exI[of _ rest]) (use bs' f in simp)
  qed
qed auto

lemma filter_blocks:
  assumes "distinct rs" "\<And>r b. r \<in> set rs \<Longrightarrow> b \<in> set (f r) \<Longrightarrow> g b = r"
  shows "filter (\<lambda>b. g b = r) (concat (map f rs)) = (if r \<in> set rs then f r else [])"
  using assms
proof (induction rs)
  case (Cons r0 rs)
  have "filter (\<lambda>b. g b = r) (f r0) = (if r = r0 then f r0 else [])"
    using Cons.prems(2)[of r0] by (auto simp: filter_id_conv filter_empty_conv)
  with Cons show ?case by auto
qed simp

lemma db_run_prefix:
  assumes "ec2_contract (lc_ec2 lc) cap" "on_demand conf" "builds_without_capacity_errors lc" "distinct regions"
    and active: "active = active_region_ids regions nums" and rs: "set rs \<subseteq> set active"
    and run: "run_batches lc conf kind regions zones (concat (map (region_batches lb k nums active) rs)) acc w = (r, insts, w')"
  shows "\<exists>complete rest. concat (map (region_batches lb k nums active) rs) = complete @ rest \<and>
    (\<forall>i\<in>set active. in_region_of (regions ! i) insts = in_region_of (regions ! i) acc +
      sum_list (map ba_count (filter (\<lambda>b. ba_region_id b = i) complete))) \<and>
    (case r of Inr _ \<Rightarrow> rest = []
     | Inl e \<Rightarrow> exhausted e \<longrightarrow> (\<exists>c cs. rest = c # cs \<and> ba_region_id c \<in> set active \<and>
         get_failed_region e = Some (regions ! ba_region_id c)))"
proof -
  let ?bs = "concat (map (region_batches lb k nums active) rs)"
  have len: "i < length regions" if "i \<in> set active" for i using that by (simp add: active active_region_ids_def)
  have ok: "list_all (batch_ok regions) ?bs"
    using region_batches_ok[OF _ _ len] rs distinct_active[of regions nums] unfolding list_all_iff active by auto
  from run_batches_prefix[OF assms(1-3) run ok] obtain complete rest where cut: "?bs = complete @ rest"
    and n: "\<And>region. in_region_of region insts = in_region_of region acc +
        sum_list (map ba_count (filter (\<lambda>b. regions ! ba_region_id b = region) complete))"
    and e: "case r of Inr _ \<Rightarrow> rest = []
       | Inl e \<Rightarrow> exhausted e \<longrightarrow> rest \<noteq> [] \<and> get_failed_region e = Some (regions ! ba_region_id (hd rest))" by blast
  have in_active: "ba_region_id b \<in> set active" if "b \<in> set complete \<union> set rest" for b
  proof -
    from that have "b \<in> set ?bs" unfolding cut by simp
    with region_batches_region rs show ?thesis by fastforce
  qed
  have "filter (\<lambda>b. regions ! ba_region_id b = regions ! i) complete = filter (\<lambda>b. ba_region_id b = i) complete"
    if "i \<in> set active" for i
    by (rule filter_cong[OF refl]) (use nth_eq_iff_index_eq[OF assms(4)] len that in_active in blast)
  with n have "\<forall>i\<in>set active. in_region_of (regions ! i) insts = in_region_of (regions ! i) acc +
      sum_list (map ba_count (filter (\<lambda>b. ba_region_id b = i) complete))" by simp
  moreover from e in_active have "case r of Inr _ \<Rightarrow> rest = []
     | Inl e \<Rightarrow> exhausted e \<longrightarrow> (\<exists>c cs. rest = c # cs \<and> ba_region_id c \<in> set active \<and>
         get_failed_region e = Some (regions ! ba_region_id c))"
    by (cases rest) (auto split: sum.splits)
  ultimately show ?thesis using cut by blast
qed

lemma db_run:
  assumes "ec2_contract (lc_ec2 lc) cap" "on_demand conf" "builds_without_capacity_errors lc" "distinct regions" "0 < k"
    and active: "active = active_region_ids regions nums" and rs: "distinct rs" "set rs \<subseteq> set active"
    and run: "run_batches lc conf kind regions zones (concat (map (region_batches lb k nums active) rs)) acc w = (r, insts, w')"
  shows "case r of
      Inr _ \<Rightarrow> \<forall>i\<in>set active. in_region_of (regions ! i) insts = in_region_of (regions ! i) acc + (if i \<in> set rs then nat (nums ! i) else 0)
    | Inl e \<Rightarrow> exhausted e \<longrightarrow> (\<exists>j\<in>set active. get_failed_region e = Some (regions ! j) \<and>
        (\<forall>i\<in>set active. i \<noteq> j \<longrightarrow> in_region_of (regions ! i) insts = in_region_of (regions ! i) acc \<or>
          (i \<in> set rs \<and> in_region_of (regions ! i) insts = in_region_of (regions ! i) acc + nat (nums ! i))))"
proof -
  let ?f = "region_batches lb k nums active"
  have own: "\<And>r b. r \<in> set rs \<Longrightarrow> b \<in> set (?f r) \<Longrightarrow> ba_region_id b = r" using region_batches_region by blast
  from db_run_prefix[OF assms(1-4) active rs(2) run] obtain complete rest where cut: "concat (map ?f rs) = complete @ rest"
    and n': "\<And>i. i \<in> set active \<Longrightarrow> in_region_of (regions ! i) insts = in_region_of (regions ! i) acc +
      sum_list (map ba_count (filter (\<lambda>b. ba_region_id b = i) complete))"
    and e: "case r of Inr _ \<Rightarrow> rest = []
     | Inl e \<Rightarrow> exhausted e \<longrightarrow> (\<exists>c cs. rest = c # cs \<and> ba_region_id c \<in> set active \<and>
         get_failed_region e = Some (regions ! ba_region_id c))" by blast
  note count = region_batches_count[OF assms(5), of lb nums active]
  show ?thesis
  proof (cases r)
    case (Inr u)
    with e cut have "complete = concat (map ?f rs)" by simp
    then have "filter (\<lambda>b. ba_region_id b = i) complete = (if i \<in> set rs then ?f i else [])" for i
      using filter_blocks[where g = ba_region_id and f = ?f, OF rs(1) own] by simp
    with n' count Inr show ?thesis by simp
  next
    case (Inl x)
    show ?thesis
    proof (cases "exhausted x")
      case True
      with e Inl obtain c cs where c: "rest = c # cs" "get_failed_region x = Some (regions ! ba_region_id c)"
        "ba_region_id c \<in> set active" by auto
      have "in_region_of (regions ! i) insts = in_region_of (regions ! i) acc \<or>
          (i \<in> set rs \<and> in_region_of (regions ! i) insts = in_region_of (regions ! i) acc + nat (nums ! i))"
        if i: "i \<in> set active" "i \<noteq> ba_region_id c" for i
      proof -
        have "filter (\<lambda>b. ba_region_id b = i) complete = [] \<or> (i \<in> set rs \<and> filter (\<lambda>b. ba_region_id b = i) complete = ?f i)"
          by (rule cut_blocks[where g = ba_region_id and f = ?f, OF rs(1) _ cut[unfolded c(1)] i(2)]) (rule own)
        then show ?thesis
        proof (elim disjE conjE)
          assume "filter (\<lambda>b. ba_region_id b = i) complete = []"
          then show ?thesis unfolding n'[OF i(1)] by (metis add.right_neutral list.simps(8) sum_list.Nil)
        next
          assume "i \<in> set rs" "filter (\<lambda>b. ba_region_id b = i) complete = ?f i"
          then show ?thesis unfolding n'[OF i(1)] using count[of i] by metis
        qed
      qed
      with c Inl show ?thesis by auto
    qed (use Inl in simp)
  qed
qed

section \<open>The DB cluster\<close>

text \<open>What a DB cluster object has cached agrees with the settings.\<close>

definition caches_ok :: "int list \<Rightarrow> aws_conf \<Rightarrow> cluster_obj \<Rightarrow> bool" where
  "caches_ok nums c co \<longleftrightarrow> co_kind co = DBCluster \<and> (co_node_nums co = None \<or> co_node_nums co = Some nums) \<and>
     (co_active_region_ids co = None \<or> co_active_region_ids co = Some (active_region_ids (conf_region_names c) nums)) \<and>
     (\<forall>z. co_azs co = Some z \<longrightarrow> azs (cf_params c) = Inr z)"

lemma provision_db_cases:
  assumes "caches_ok nums c co" "node_nums DBCluster (cf_params c) = Inr nums" "get_zero_token_nodes (cf_params c) = Inr []"
    and "provision_cluster lc c skip co w = (r, co', w')"
  shows "caches_ok nums c co' \<and>
    ((\<exists>zones insts. 0 < length zones \<and> co_instances co' = insts \<and>
        run_batches lc c DBCluster (conf_region_names c) zones
          (concat (map (region_batches (cluster_labels lc DBCluster (cf_params c)) (length zones) nums (active_region_ids (conf_region_names c) nums))
            (filter (\<lambda>i. i \<notin> set skip) (active_region_ids (conf_region_names c) nums)))) (co_instances co) w = (r, insts, w')) \<or>
     (co_instances co' = co_instances co \<and>
       (case r of Inr _ \<Rightarrow> set (active_region_ids (conf_region_names c) nums) \<subseteq> set skip | Inl e \<Rightarrow> \<not> exhausted e)))"
proof -
  let ?p = "cf_params c" and ?active = "active_region_ids (conf_region_names c) nums"
  have nums: "cached (co_node_nums co) (node_nums (co_kind co) ?p) = Inr nums"
    using assms(1,2) by (auto simp: caches_ok_def cached_def)
  have act: "(case co_active_region_ids co of Some v \<Rightarrow> v | None \<Rightarrow> active_region_ids (conf_region_names c) nums) = ?active"
    using assms(1) by (auto simp: caches_ok_def)
  have kind: "co_kind co = DBCluster" using assms(1) by (simp add: caches_ok_def)
  have "get_data_nodes ?p = Inr nums" using assms(2,3) by (auto simp: node_nums_def split: sum.splits)
  then have bs: "cluster_batches lc DBCluster ?p k nums ?active skip = Inr (concat (map
      (region_batches (cluster_labels lc DBCluster ?p) k nums ?active) (filter (\<lambda>i. i \<notin> set skip) ?active)))" for k
    using assms(3) db_batches_regions[OF distinct_active] by (simp add: cluster_batches_def)
  define co1 where "co1 = co\<lparr>co_node_nums := Some nums\<rparr>"
  define co2 where "co2 = co1\<lparr>co_active_region_ids := Some ?active\<rparr>"
  have ok: "caches_ok nums c co1" "caches_ok nums c co2" using assms(1) by (simp_all add: caches_ok_def co1_def co2_def)
  show ?thesis
  proof (cases "set ?active \<subseteq> set skip")
    case True
    have "r = Inr ()" "co' = co1 \<or> co' = co2"
      using assms(4) True unfolding provision_cluster_def nums Let_def sum.case act
      by (auto simp: co1_def co2_def subset_eq split: if_splits)
    with ok True show ?thesis by (auto simp: co1_def co2_def)
  next
    case False
    then have n0: "nums \<noteq> [0]" and nf: "\<not> (\<forall>r\<in>set ?active. r \<in> set skip)" by (auto simp: active_region_ids_def)
    from assms(4) have run: "(case cached (co_azs co) (azs ?p) of Inl e \<Rightarrow> (Inl e, co2, w)
      | Inr zones \<Rightarrow> (case run_batches lc c DBCluster (conf_region_names c) zones (concat (map
          (region_batches (cluster_labels lc DBCluster ?p) (length zones) nums ?active) (filter (\<lambda>i. i \<notin> set skip) ?active)))
          (co_instances co) w of (r, insts, w1) \<Rightarrow> (r, co2\<lparr>co_azs := Some zones, co_instances := insts\<rparr>, w1))) = (r, co', w')"
      unfolding provision_cluster_def nums Let_def sum.case act
      unfolding kind bs sum.case if_not_P[OF n0] if_not_P[OF nf] co1_def co2_def by simp
    show ?thesis
    proof (cases "cached (co_azs co) (azs ?p)")
      case (Inl e)
      then have "\<not> exhausted e"
        by (auto simp: cached_def azs_def exhausted_def is_aws_capacity_error_def exn_def split: option.splits param.splits)
      with Inl run ok show ?thesis by (auto simp: co1_def co2_def)
    next
      case (Inr zones)
      then have z: "azs ?p = Inr zones" using assms(1) by (auto simp: cached_def caches_ok_def split: option.splits)
      with ok(2) have "caches_ok nums c (co2\<lparr>co_azs := Some zones, co_instances := insts\<rparr>)" for insts by (simp add: caches_ok_def)
      with run Inr azs_not_Nil[OF z] show ?thesis by (auto split: prod.splits)
    qed
  qed
qed

lemma provision_db_step:
  assumes c: "ec2_contract (lc_ec2 lc) cap" "on_demand c" "builds_without_capacity_errors lc" "distinct (conf_region_names c)"
    and db: "caches_ok nums c co" "node_nums DBCluster (cf_params c) = Inr nums" "get_zero_token_nodes (cf_params c) = Inr []"
    and r: "provision_cluster lc c skip co w = (r, co', w')"
    and active: "active = active_region_ids (conf_region_names c) nums"
  shows "case r of
      Inr _ \<Rightarrow> \<forall>i\<in>set active. in_region_of (conf_region_names c ! i) (co_instances co') =
        in_region_of (conf_region_names c ! i) (co_instances co) + (if i \<in> set skip then 0 else nat (nums ! i))
    | Inl e \<Rightarrow> exhausted e \<longrightarrow> (\<exists>j\<in>set active. get_failed_region e = Some (conf_region_names c ! j) \<and>
        (\<forall>i\<in>set active. i \<noteq> j \<longrightarrow>
          in_region_of (conf_region_names c ! i) (co_instances co') = in_region_of (conf_region_names c ! i) (co_instances co) \<or>
          (i \<notin> set skip \<and> in_region_of (conf_region_names c ! i) (co_instances co') =
            in_region_of (conf_region_names c ! i) (co_instances co) + nat (nums ! i))))"
proof -
  let ?rs = "filter (\<lambda>i. i \<notin> set skip) active"
  have rs: "distinct ?rs" "set ?rs \<subseteq> set active" using distinct_active active by auto
  from provision_db_cases[OF db r, folded active]
  consider (run) zones where "0 < length zones"
      "run_batches lc c DBCluster (conf_region_names c) zones
        (concat (map (region_batches (cluster_labels lc DBCluster (cf_params c)) (length zones) nums active) ?rs))
        (co_instances co) w = (r, co_instances co', w')"
    | (stop) "co_instances co' = co_instances co" "case r of Inr _ \<Rightarrow> set active \<subseteq> set skip | Inl e \<Rightarrow> \<not> exhausted e"
    by blast
  then show ?thesis
  proof cases
    case run
    from db_run[OF c run(1) active rs run(2)] show ?thesis by (auto split: sum.splits)
  next
    case stop
    then show ?thesis by (auto split: sum.splits)
  qed
qed

text \<open>Every datacenter has none or all of its DB nodes.\<close>

definition db_ok :: "int list \<Rightarrow> 'w layout \<Rightarrow> bool" where
  "db_ok nums s \<longleftrightarrow> on_demand (si_conf s) \<and> node_nums DBCluster (cf_params (si_conf s)) = Inr nums \<and>
     get_zero_token_nodes (cf_params (si_conf s)) = Inr [] \<and> caches_ok nums (si_conf s) (cluster_of s DBCluster) \<and>
     list_all (\<lambda>i. in_region_of (conf_region_names (si_conf s) ! i) (db_instances s) \<in> {0, nat (nums ! i)})
       (active_region_ids (conf_region_names (si_conf s)) nums)"

lemma in_region_of_pos: "0 < in_region_of region insts \<longleftrightarrow> Some region \<in> in_region ` set insts"
  by (auto simp: in_region_of_def filter_empty_conv image_iff) metis

lemma completed_iff:
  assumes "distinct (conf_region_names (si_conf s))" "i < length (conf_region_names (si_conf s))"
  shows "i \<in> set (completed_db_region_ids s) \<longleftrightarrow> 0 < in_region_of (conf_region_names (si_conf s) ! i) (db_instances s)"
proof -
  have "conf_region_names (si_conf s) ! i \<notin> set (take i (conf_region_names (si_conf s)))"
    using assms by (auto simp: in_set_conv_nth nth_eq_iff_index_eq)
  with assms(2) show ?thesis
    unfolding in_region_of_pos by (simp add: completed_db_region_ids_def Let_def db_instances_def)
qed

lemma contract_launcher_of:
  "ec2_contract (lc_ec2 (launcher_of pv s)) cap \<longleftrightarrow> ec2_contract (lc_ec2 (pv_launcher pv)) cap"
  "builds_without_capacity_errors (launcher_of pv s) \<longleftrightarrow> builds_without_capacity_errors (pv_launcher pv)"
  by (simp_all add: launcher_of_def ec2_contract_def builds_without_capacity_errors_def)

lemma provision_kind_db:
  assumes "provision_kind pv DBCluster skip s = (r, s')"
  obtains co w where
    "provision_cluster (launcher_of pv s) (si_conf s) skip (cluster_of s DBCluster) (si_world s) = (r, co, w)"
    "cluster_of s' DBCluster = co" "db_instances s' = co_instances co" "si_conf s' = si_conf s"
  using assms by (auto simp: provision_kind_def cluster_of_def db_instances_def split: prod.splits)

lemma active_length: "length regions = length regions' \<Longrightarrow> active_region_ids regions nums = active_region_ids regions' nums"
  by (simp add: active_region_ids_def)

text \<open>A relocation keeps the settings of the DB cluster and empties its caches.\<close>

lemma changes_only_other: "\<lbrakk>changes_only i p p'; key \<notin> set ami_id_params; key \<noteq> ''region_name''\<rbrakk> \<Longrightarrow> p' key = p key"
  unfolding changes_only_def by metis

lemma switch_dc_clusters:
  assumes "ami_words pv" "switch_dc_region pv i region source s = (Inr u, s')"
  shows "ly_clusters s' kind = map_option
    (\<lambda>co. co\<lparr>co_active_region_ids := None, co_azs := None, co_node_nums := None\<rparr>) (ly_clusters s kind)"
proof -
  from assms(2) obtain v s1 where s1: "remap_dc_ami pv i source region s = (Inr v, s1)"
    by (auto simp: switch_dc_region_def andthen_def split: prod.splits sum.splits)
  with assms(2) remap_dc_ami_facts(4)[OF assms(1) s1] show ?thesis
    by (auto simp: switch_dc_region_def andthen_def Let_def invalidate_region_derived_caches_def)
qed

lemma moved_caches:
  assumes "ami_words pv" "moved pv e i target s s'" "co_kind (cluster_of s DBCluster) = DBCluster"
  shows "caches_ok nums (si_conf s') (cluster_of s' DBCluster)"
proof -
  let ?region = "conf_region_names (si_conf s) ! i"
  from assms(2) obtain u where
    u: "switch_dc_region pv i target ?region (cleanup_dc_region pv ?region s) = (Inr u, s')" unfolding moved_def by blast
  have "ly_clusters s' DBCluster = map_option ((\<lambda>co. co\<lparr>co_active_region_ids := None, co_azs := None, co_node_nums := None\<rparr>) \<circ>
      drop_region ?region) (ly_clusters s DBCluster)"
    unfolding switch_dc_clusters[OF assms(1) u] cleanup_dc_region_db by (simp add: option.map_comp)
  from cluster_of_map[OF this] have "cluster_of s' DBCluster = ((\<lambda>co. co\<lparr>co_active_region_ids := None, co_azs := None,
      co_node_nums := None\<rparr>) \<circ> drop_region ?region) (cluster_of s DBCluster)"
    by (simp add: drop_region_def new_cluster_def)
  with assms(3) show ?thesis by (simp add: caches_ok_def drop_region_def)
qed

definition db_settings :: "string set" where
  "db_settings = {''instance_provision'', ''n_db_nodes'', ''use_zero_nodes'', ''n_db_zero_token_nodes''}"

lemma db_settings_cong:
  assumes "\<And>key. key \<in> db_settings \<Longrightarrow> cf_params c' key = cf_params c key"
  shows "on_demand c' \<longleftrightarrow> on_demand c"
    and "get_zero_token_nodes (cf_params c') = get_zero_token_nodes (cf_params c)"
    and "node_nums DBCluster (cf_params c') = node_nums DBCluster (cf_params c)"
proof -
  show "on_demand c' \<longleftrightarrow> on_demand c" and z: "get_zero_token_nodes (cf_params c') = get_zero_token_nodes (cf_params c)"
    using assms by (simp_all add: db_settings_def on_demand_def get_zero_token_nodes_def)
  have d: "get_data_nodes (cf_params c') = get_data_nodes (cf_params c)"
    using assms by (simp add: db_settings_def get_data_nodes_def)
  show "node_nums DBCluster (cf_params c') = node_nums DBCluster (cf_params c)" unfolding node_nums_def z d by simp
qed

lemma moved_db_settings:
  assumes "ami_words pv" "moved pv e i target s s'" "key \<in> db_settings"
  shows "cf_params (si_conf s') key = cf_params (si_conf s) key"
  by (rule changes_only_other[OF moved_regions(2)[OF assms(1,2)]])
    (use assms(3) in \<open>auto simp: db_settings_def ami_id_params_def\<close>)

text \<open>Its effect on the counts: none in the new region, the others as before.\<close>

lemma moved_counts:
  assumes "ami_words pv" "moved pv e i target s s'" "in_dcs s" "distinct (conf_region_names (si_conf s))"
    and "k < length (conf_region_names (si_conf s))"
  shows "in_region_of (conf_region_names (si_conf s') ! k) (db_instances s') =
    (if k = i then 0 else in_region_of (conf_region_names (si_conf s) ! k) (db_instances s))"
proof -
  let ?names = "conf_region_names (si_conf s)"
  from assms(2) have m: "i < length ?names" "target \<notin> set ?names" "get_failed_region e = Some (?names ! i)"
    by (auto simp: moved_def)
  note f = moved_regions(1,3)[OF assms(1,2)]
  show ?thesis
  proof (cases "k = i")
    case True
    have "in_region x \<noteq> Some target" if "x \<in> set (db_instances s)" for x
      using assms(3) that m(2) by (auto simp: in_dcs_def list_all_iff)
    with True m(1) show ?thesis unfolding f by (auto simp: in_region_of_def filter_empty_conv)
  next
    case False
    then have "?names ! k \<noteq> ?names ! i" using assms(4,5) m(1) by (simp add: nth_eq_iff_index_eq)
    then have "filter (\<lambda>x. in_region x = Some (?names ! k)) (filter (\<lambda>x. in_region x \<noteq> Some (?names ! i)) xs) =
        filter (\<lambda>x. in_region x = Some (?names ! k)) xs" for xs :: "instance_ref list"
      unfolding filter_filter by (intro filter_cong) auto
    then show ?thesis using False unfolding f m(3) in_region_of_def by (simp del: filter_filter)
  qed
qed

lemma db_ok_success:
  assumes c: "ec2_contract (lc_ec2 (pv_launcher pv)) cap" "builds_without_capacity_errors (pv_launcher pv)"
    and s: "db_ok nums s" "distinct (conf_region_names (si_conf s))"
    and p: "provision_kind pv DBCluster (completed_db_region_ids s) s = (Inr u, s')"
  shows "list_all (\<lambda>i. in_region_of (conf_region_names (si_conf s') ! i) (db_instances s') = nat (nums ! i))
    (active_region_ids (conf_region_names (si_conf s')) nums)"
proof -
  let ?names = "conf_region_names (si_conf s)" and ?active = "active_region_ids (conf_region_names (si_conf s)) nums"
  obtain co w where co: "provision_cluster (launcher_of pv s) (si_conf s) (completed_db_region_ids s) (cluster_of s DBCluster)
      (si_world s) = (Inr u, co, w)" "db_instances s' = co_instances co" "si_conf s' = si_conf s"
    by (rule provision_kind_db[OF p])
  have d: "on_demand (si_conf s)" "caches_ok nums (si_conf s) (cluster_of s DBCluster)"
    "node_nums DBCluster (cf_params (si_conf s)) = Inr nums" "get_zero_token_nodes (cf_params (si_conf s)) = Inr []"
    and n: "\<And>i. i \<in> set ?active \<Longrightarrow> in_region_of (?names ! i) (db_instances s) \<in> {0, nat (nums ! i)}"
    using s(1) by (auto simp: db_ok_def list_all_iff)
  from provision_db_step[OF _ d(1) _ s(2) d(2-4) co(1) refl, of cap] c
  have step: "\<forall>i\<in>set ?active. in_region_of (?names ! i) (db_instances s') =
      in_region_of (?names ! i) (db_instances s) + (if i \<in> set (completed_db_region_ids s) then 0 else nat (nums ! i))"
    by (simp add: contract_launcher_of co(2) db_instances_def[of s])
  have "in_region_of (?names ! i) (db_instances s') = nat (nums ! i)" if i: "i \<in> set ?active" for i
  proof -
    have "i < length ?names" using i by (simp add: active_region_ids_def)
    with step[rule_format, OF i] n[OF i] completed_iff[OF s(2)] show ?thesis by auto
  qed
  then show ?thesis unfolding list_all_iff co(3) by blast
qed

lemma db_ok_again:
  assumes c: "ec2_contract (lc_ec2 (pv_launcher pv)) cap" "builds_without_capacity_errors (pv_launcher pv)" "ami_words pv"
    and s: "db_ok nums s" "distinct (conf_region_names (si_conf s))" "in_dcs s"
    and p: "provision_kind pv DBCluster (completed_db_region_ids s) s = (Inl e, s1)" "exhausted e"
    and m: "moved pv e i target s1 s2"
  shows "db_ok nums s2"
proof -
  let ?names = "conf_region_names (si_conf s)" and ?active = "active_region_ids (conf_region_names (si_conf s)) nums"
  obtain co w where co: "provision_cluster (launcher_of pv s) (si_conf s) (completed_db_region_ids s) (cluster_of s DBCluster)
      (si_world s) = (Inl e, co, w)" "cluster_of s1 DBCluster = co" "db_instances s1 = co_instances co" "si_conf s1 = si_conf s"
    by (rule provision_kind_db[OF p(1)])
  have d: "on_demand (si_conf s)" "caches_ok nums (si_conf s) (cluster_of s DBCluster)"
    "node_nums DBCluster (cf_params (si_conf s)) = Inr nums" "get_zero_token_nodes (cf_params (si_conf s)) = Inr []"
    and n: "\<And>k. k \<in> set ?active \<Longrightarrow> in_region_of (?names ! k) (db_instances s) \<in> {0, nat (nums ! k)}"
    using s(1) by (auto simp: db_ok_def list_all_iff)
  from provision_db_step[OF _ d(1) _ s(2) d(2-4) co(1) refl, of cap] c p(2) obtain j where
    j: "j \<in> set ?active" "get_failed_region e = Some (?names ! j)" and
    step: "\<And>k. k \<in> set ?active \<Longrightarrow> k \<noteq> j \<Longrightarrow> in_region_of (?names ! k) (db_instances s1) = in_region_of (?names ! k) (db_instances s) \<or>
      (k \<notin> set (completed_db_region_ids s) \<and>
       in_region_of (?names ! k) (db_instances s1) = in_region_of (?names ! k) (db_instances s) + nat (nums ! k))"
    by (auto simp: contract_launcher_of co(3) db_instances_def[of s])
  have len: "k < length ?names" if "k \<in> set ?active" for k using that by (simp add: active_region_ids_def)
  have "i < length ?names" "?names ! i = ?names ! j" using m j(2) co(4) by (auto simp: moved_def)
  with s(2) len[OF j(1)] have i: "i = j" by (simp add: nth_eq_iff_index_eq)
  note counts = moved_counts[OF c(3) m provision_in_dcs[OF p(1) s(3)], unfolded co(4), OF s(2)]
  have all: "in_region_of (conf_region_names (si_conf s2) ! k) (db_instances s2) \<in> {0, nat (nums ! k)}" if k: "k \<in> set ?active" for k
    using counts[OF len[OF k]] step[OF k] n[OF k] completed_iff[OF s(2) len[OF k]] i by auto
  have act: "active_region_ids (conf_region_names (si_conf s2)) nums = ?active"
    by (rule active_length) (use moved_regions(1)[OF c(3) m] co(4) in simp)
  have "co_kind co = DBCluster"
    using provision_db_cases[OF d(2-4) co(1)] by (simp add: caches_ok_def)
  with moved_caches[OF c(3) m] co(2) have "caches_ok nums (si_conf s2) (cluster_of s2 DBCluster)" by simp
  with db_settings_cong[of "si_conf s2" "si_conf s1", OF moved_db_settings[OF c(3) m]] d all co(4) show ?thesis by (simp add: db_ok_def act list_all_iff)
qed

lemma db_ok_start:
  assumes "settled s s0" "ly_clusters s0 = Map.empty" "on_demand (si_conf s)"
    and "node_nums DBCluster (cf_params (si_conf s)) = Inr nums" "get_zero_token_nodes (cf_params (si_conf s)) = Inr []"
  shows "db_ok nums s0"
proof -
  have "cf_params (si_conf s0) key = cf_params (si_conf s) key" if "key \<in> db_settings" for key
    using assms(1) that by (auto simp: settled_def db_settings_def)
  from db_settings_cong[OF this] assms(2-5) show ?thesis
    by (simp add: db_ok_def cluster_of_def db_instances_def new_cluster_def caches_ok_def in_region_of_def list_all_iff)
qed


section \<open>An example\<close>

text \<open>A DB node in each of two regions; the first has no capacity, and its datacenter moves.\<close>

declare dc_provision_loop.simps [code]

abbreviation two_dcs :: "((string \<times> tags) list) layout" where
  "two_dcs \<equiv> small_layout ''eu-west-1 eu-west-3'' (PCounts [Some 1, Some 1])"

lemma two_dcs_run:
  "map_option (map_prod id (\<lambda>s. (conf_region_names (si_conf s), map in_region (db_instances s))))
     (provision_with_multi_dc_fallback (crowded_provider [''eu-west-2''] [''eu-west-1'']) two_dcs) =
   Some (Inr (), [''eu-west-2'', ''eu-west-3''], [Some ''eu-west-2'', Some ''eu-west-3''])"
  by code_simp

lemma two_dcs_regions: "conf_region_names (si_conf two_dcs) = [''eu-west-1'', ''eu-west-3'']"
  by code_simp

lemma two_dcs_settings:
  "on_demand (si_conf two_dcs)" "node_nums DBCluster (cf_params (si_conf two_dcs)) = Inr [1, 1]"
  "get_zero_token_nodes (cf_params (si_conf two_dcs)) = Inr []" "ly_clusters two_dcs = Map.empty"
  by (simp_all add: on_demand_def small_layout_def example_layout_def node_nums_def get_data_nodes_def
      get_zero_token_nodes_def Aws_Cluster.count_list_def truthy_def)

lemma crowded_contract:
  "ec2_contract (lc_ec2 (pv_launcher (crowded_provider peers full))) length"
  "builds_without_capacity_errors (pv_launcher (crowded_provider peers full))"
  by (auto simp: ec2_contract_def raises_ec2_errors_def returns_only_def crowded_provider_def example_launcher_def
      example_ec2_def numbered_def builds_without_capacity_errors_def ec2_error_def exn_def)

theorem aws_dc_fallback_terminates_witness:
  "\<exists>s'. provision_with_multi_dc_fallback (crowded_provider [''eu-west-2''] [''eu-west-1'']) two_dcs = Some (Inr (), s') \<and>
     dc_ok [''eu-west-1'', ''eu-west-3''] s' \<and> conf_region_names (si_conf s') = [''eu-west-2'', ''eu-west-3'']"
proof -
  obtain s' where s': "provision_with_multi_dc_fallback (crowded_provider [''eu-west-2''] [''eu-west-1'']) two_dcs = Some (Inr (), s')"
    "conf_region_names (si_conf s') = [''eu-west-2'', ''eu-west-3'']"
    using two_dcs_run by auto
  from aws_dc_fallback_terminates[OF crowded_answers(2)[of "[''eu-west-2'']" "[''eu-west-1'']"], of two_dcs]
  show ?thesis by (simp add: two_dcs_regions two_dcs_settings s')
qed


end
