(* ===== verification/Regex.thy ===== *)
theory Regex
  imports Sct_Prelude
begin

text \<open>
  Regular expressions as the modelled modules use Python's \<^verbatim>\<open>re\<close>: character classes, alternation,
  concatenation and repetition.  Membership is the inductive relation \<open>in_lang\<close>; \<open>accepts\<close> decides it
  by derivatives, and \<open>accepts_iff\<close> shows that the two agree.
\<close>

datatype rexp =
    Fail
  | Eps
  | Class "char \<Rightarrow> bool"
  | Or rexp rexp
  | Then rexp rexp
  | Many rexp

inductive in_lang :: "rexp \<Rightarrow> string \<Rightarrow> bool" where
  lang_eps: "in_lang Eps []"
| lang_class: "p c \<Longrightarrow> in_lang (Class p) [c]"
| lang_left: "in_lang r s \<Longrightarrow> in_lang (Or r q) s"
| lang_right: "in_lang q s \<Longrightarrow> in_lang (Or r q) s"
| lang_then: "in_lang r s \<Longrightarrow> in_lang q t \<Longrightarrow> in_lang (Then r q) (s @ t)"
| lang_stop: "in_lang (Many r) []"
| lang_more: "in_lang r s \<Longrightarrow> in_lang (Many r) t \<Longrightarrow> in_lang (Many r) (s @ t)"

inductive_simps lang_Fail [simp]: "in_lang Fail s"
inductive_simps lang_Eps [simp]: "in_lang Eps s"
inductive_simps lang_Class: "in_lang (Class p) s"
inductive_simps lang_Or [simp]: "in_lang (Or r q) s"
inductive_simps lang_Then: "in_lang (Then r q) s"

section \<open>The matcher\<close>

fun nullable :: "rexp \<Rightarrow> bool" where
  "nullable Fail = False"
| "nullable Eps = True"
| "nullable (Class p) = False"
| "nullable (Or r q) = (nullable r \<or> nullable q)"
| "nullable (Then r q) = (nullable r \<and> nullable q)"
| "nullable (Many r) = True"

text \<open>Alternatives that cannot match are dropped as they arise, to keep derivatives small.\<close>

fun mk_or :: "rexp \<Rightarrow> rexp \<Rightarrow> rexp" where
  "mk_or Fail q = q"
| "mk_or r Fail = r"
| "mk_or r q = Or r q"

fun mk_then :: "rexp \<Rightarrow> rexp \<Rightarrow> rexp" where
  "mk_then Fail q = Fail"
| "mk_then Eps q = q"
| "mk_then r q = Then r q"

lemma mk_or_iff [simp]: "in_lang (mk_or r q) s \<longleftrightarrow> in_lang r s \<or> in_lang q s"
  by (cases "(r, q)" rule: mk_or.cases) auto

lemma mk_then_iff: "in_lang (mk_then r q) s \<longleftrightarrow> (\<exists>u v. s = u @ v \<and> in_lang r u \<and> in_lang q v)"
  by (cases "(r, q)" rule: mk_then.cases) (auto simp: lang_Then)

fun deriv :: "char \<Rightarrow> rexp \<Rightarrow> rexp" where
  "deriv c Fail = Fail"
| "deriv c Eps = Fail"
| "deriv c (Class p) = (if p c then Eps else Fail)"
| "deriv c (Or r q) = mk_or (deriv c r) (deriv c q)"
| "deriv c (Then r q) =
     (let d = mk_then (deriv c r) q in if nullable r then mk_or d (deriv c q) else d)"
| "deriv c (Many r) = mk_then (deriv c r) (Many r)"

fun accepts :: "rexp \<Rightarrow> string \<Rightarrow> bool" where
  "accepts r [] = nullable r"
| "accepts r (c # s) = accepts (deriv c r) s"

lemma nullable_iff: "nullable r \<longleftrightarrow> in_lang r []"
  by (induction r) (auto simp: lang_Class lang_Then intro: lang_stop)

lemma many_Cons:
  assumes "in_lang (Many r) w" "w = c # s"
  shows "\<exists>u v. s = u @ v \<and> in_lang r (c # u) \<and> in_lang (Many r) v"
  using assms
proof (induction "Many r" w arbitrary: s rule: in_lang.induct)
  case (lang_more t1 t2)
  then show ?case by (cases t1) auto
qed simp

lemma deriv_iff: "in_lang (deriv c r) s \<longleftrightarrow> in_lang r (c # s)"
proof (induction r arbitrary: s)
  case (Then r q)
  have "in_lang (Then r q) (c # s) \<longleftrightarrow>
      (\<exists>u v. s = u @ v \<and> in_lang r (c # u) \<and> in_lang q v) \<or> in_lang r [] \<and> in_lang q (c # s)"
    unfolding lang_Then by (auto simp: Cons_eq_append_conv)
  with Then show ?case by (auto simp: mk_then_iff nullable_iff Let_def)
next
  case (Many r)
  have "in_lang (Many r) (c # s) \<longleftrightarrow> (\<exists>u v. s = u @ v \<and> in_lang r (c # u) \<and> in_lang (Many r) v)"
    using many_Cons lang_more[of r "c # _"] by fastforce
  with Many show ?case by (auto simp: mk_then_iff)
qed (auto simp: lang_Class)

lemma accepts_iff: "accepts r s \<longleftrightarrow> in_lang r s"
  by (induction s arbitrary: r) (simp_all add: nullable_iff deriv_iff)

section \<open>Derived forms\<close>

definition many1 :: "rexp \<Rightarrow> rexp" where
  "many1 r = Then r (Many r)"

definition opt :: "rexp \<Rightarrow> rexp" where
  "opt r = Or Eps r"

fun rep :: "nat \<Rightarrow> rexp \<Rightarrow> rexp" where
  "rep 0 r = Eps"
| "rep (Suc n) r = Then r (rep n r)"

fun lit :: "string \<Rightarrow> rexp" where
  "lit [] = Eps"
| "lit (c # s) = Then (Class (\<lambda>x. x = c)) (lit s)"

fun seq :: "rexp list \<Rightarrow> rexp" where
  "seq [] = Eps"
| "seq (r # rs) = Then r (seq rs)"

lemma many_class: "in_lang (Many (Class p)) s \<longleftrightarrow> list_all p s"
proof
  show "in_lang (Many (Class p)) s \<Longrightarrow> list_all p s"
    by (induction "Many (Class p)" s rule: in_lang.induct) (auto simp: lang_Class)
  show "list_all p s \<Longrightarrow> in_lang (Many (Class p)) s"
  proof (induction s)
    case (Cons c s)
    then have "in_lang (Many (Class p)) ([c] @ s)" by (intro lang_more lang_class) simp_all
    then show ?case by simp
  qed (rule lang_stop)
qed

lemma many1_class: "in_lang (many1 (Class p)) s \<longleftrightarrow> s \<noteq> [] \<and> list_all p s"
proof -
  have "in_lang (many1 (Class p)) s \<longleftrightarrow> (\<exists>c t. s = [c] @ t \<and> p c \<and> list_all p t)"
    unfolding many1_def lang_Then lang_Class many_class by blast
  then show ?thesis by (cases s) auto
qed

lemma rep_class: "in_lang (rep n (Class p)) s \<longleftrightarrow> length s = n \<and> list_all p s"
proof (induction n arbitrary: s)
  case (Suc n)
  have "in_lang (rep (Suc n) (Class p)) s \<longleftrightarrow> (\<exists>c t. s = c # t \<and> p c \<and> length t = n \<and> list_all p t)"
    unfolding rep.simps lang_Then lang_Class Suc by (metis append_Cons append_Nil)
  then show ?case by (auto simp: length_Suc_conv)
qed auto

lemma lit_iff [simp]: "in_lang (lit w) s \<longleftrightarrow> s = w"
  by (induction w arbitrary: s) (auto simp: lang_Then lang_Class)

lemma opt_iff [simp]: "in_lang (opt r) s \<longleftrightarrow> s = [] \<or> in_lang r s"
  by (simp add: opt_def)

lemma seq_Cons_intro: "in_lang r s \<Longrightarrow> in_lang (seq rs) t \<Longrightarrow> in_lang (seq (r # rs)) (s @ t)"
  by (simp add: lang_then)

lemma seq_Nil_iff [simp]: "in_lang (seq []) s \<longleftrightarrow> s = []"
  by simp

lemma seq_Cons_iff: "in_lang (seq (r # rs)) w \<longleftrightarrow> (\<exists>s t. w = s @ t \<and> in_lang r s \<and> in_lang (seq rs) t)"
  by (simp add: lang_Then)

declare seq.simps [simp del] lit.simps [simp del] rep.simps [simp del]

section \<open>Anchored matching\<close>

text \<open>\<^verbatim>\<open>re.match(r"^...$", s)\<close>: the dollar also matches before a final newline.\<close>

definition match_all :: "rexp \<Rightarrow> string \<Rightarrow> bool" where
  "match_all r s = (accepts r s \<or> (s \<noteq> [] \<and> last s = CHR 0x0A \<and> accepts r (butlast s)))"

lemma match_all_accepts: "in_lang r s \<Longrightarrow> match_all r s"
  by (simp add: match_all_def accepts_iff)

text \<open>Character classes.\<close>

definition digits :: rexp where
  "digits = many1 (Class is_dec_digit)"

definition is_hex :: "char \<Rightarrow> bool" where
  "is_hex c = (is_dec_digit c \<or> (let n = (of_char c :: nat) in 97 \<le> n \<and> n \<le> 102))"

definition is_alnum :: "char \<Rightarrow> bool" where
  "is_alnum c = (is_dec_digit c \<or> (let n = (of_char c :: nat) in (97 \<le> n \<and> n \<le> 122) \<or> (65 \<le> n \<and> n \<le> 90)))"

lemma digits_iff: "in_lang digits s \<longleftrightarrow> s \<noteq> [] \<and> list_all is_dec_digit s"
  by (simp add: digits_def many1_class)

end
