(* ===== verification/Trigger_Versions.thy ===== *)
theory Trigger_Versions
  imports Regex
begin

text \<open>
  Scylla version strings (\<^verbatim>\<open>sdcm/utils/trigger_matrix/versions.py\<close> and the patterns of
  \<^verbatim>\<open>sdcm/utils/version_utils.py\<close>): which spelling a string has, and the release line, branch, Jenkins
  folder and build date it names.  \<^verbatim>\<open>\d\<close> is an ASCII digit.

  The groups \<^verbatim>\<open>major\<close>, \<^verbatim>\<open>minor\<close> and \<^verbatim>\<open>branch\<close> are read off a matching string directly: each is the
  longest run of its class, since the next character of the pattern is outside the class.
\<close>

section \<open>Patterns\<close>

definition dot :: rexp where
  "dot = lit ''.''"

definition release_version_re :: rexp where
  "release_version_re = seq [digits, dot, digits, dot, digits]"

definition simple_version_re :: rexp where
  "simple_version_re = seq [digits, dot, digits, opt (seq [dot, digits])]"

definition build_tail_re :: rexp where
  "build_tail_re = seq [Class (\<lambda>c. c = CHR ''~'' \<or> c = CHR ''-''),
     many1 (Class (\<lambda>c. is_alnum c \<or> c \<in> set ''._~'')),
     opt (lit ''-''), Many (Class is_dec_digit), dot, rep 8 (Class is_dec_digit), dot,
     many1 (Class is_hex), opt (seq [lit ''-'', digits])]"

definition rc_tail_re :: rexp where
  "rc_tail_re = seq [lit ''.rc'', digits, dot, digits, dot, rep 8 (Class is_dec_digit), dot,
     many1 (Class is_hex), opt (seq [dot, digits])]"

definition full_version_tag_re :: rexp where
  "full_version_tag_re = seq [digits, dot, digits, dot, digits, Or build_tail_re rc_tail_re]"

definition is_branch_char :: "char \<Rightarrow> bool" where
  "is_branch_char c = (is_alnum c \<or> c \<in> set ''._-'')"

definition branch_version_re :: rexp where
  "branch_version_re = seq [many1 (Class is_branch_char), lit '':'', many1 (Class (\<lambda>c. c \<noteq> CHR 0x0A))]"

definition release_line_re :: rexp where
  "release_line_re = seq [digits, dot, digits]"

text \<open>The groups of a match.\<close>

definition major :: "string \<Rightarrow> string" where
  "major v = takeWhile is_dec_digit v"

definition minor :: "string \<Rightarrow> string" where
  "minor v = takeWhile is_dec_digit (drop (Suc (length (major v))) v)"

definition branch_group :: "string \<Rightarrow> string" where
  "branch_group v = takeWhile is_branch_char v"

definition release_line :: "string \<Rightarrow> string" where
  "release_line v = major v @ ''.'' @ minor v"

section \<open>Predicates and extractors\<close>

definition is_full_version_tag :: "string \<Rightarrow> bool" where
  "is_full_version_tag v = match_all full_version_tag_re v"

definition is_resolvable_partial_version :: "string \<Rightarrow> bool" where
  "is_resolvable_partial_version v =
     (if v = [] \<or> is_full_version_tag v \<or> match_all release_version_re v then False
      else match_all branch_version_re v \<or> match_all simple_version_re v)"

definition as_branch_qualifier :: "string \<Rightarrow> string" where
  "as_branch_qualifier v =
     (if match_all branch_version_re v then v
      else if match_all simple_version_re v then ''branch-'' @ release_line v @ '':latest''
      else v)"

definition gce_label_to_version :: "string \<Rightarrow> string" where
  "gce_label_to_version label = (case split_on CHR ''-'' label of
       ma # mi # pa # r # rest \<Rightarrow>
         (let base = ma @ ''.'' @ mi @ ''.'' @ pa;
              version = (if r = ''dev'' then base @ ''~dev-'' @ join ''.'' rest
                         else if startswith r ''rc'' then base @ ''.'' @ join ''.'' (r # rest)
                         else base @ ''-'' @ join ''.'' (r # rest))
          in if \<not> is_full_version_tag version then [] else version)
     | _ \<Rightarrow> [])"

text \<open>The errors of the trigger matrix package, with what their messages report.\<close>

datatype trigger_error =
    EmptyVersion
  | NoFolder string
  | NoSupportedVersions
  | NoReleasedImage string string
  | UnsupportedVersions "string list"
  | CannotResolve string string
  | UnknownStrategy string
  | NoBuildOnAny string
  | NoCommonBuild string "string list"
  | MissingParameters "(string \<times> string list) list"
  | NoWaitJob
  | MatrixValidation
  | JenkinsTriggerError string
  | CloudError string

definition folder_of_version :: "string \<Rightarrow> trigger_error + string" where
  "folder_of_version v =
     (if v = [] then Inl EmptyVersion
      else if match_all branch_version_re v then
        Inr (if branch_group v = ''master'' then ''scylla-master'' else ''scylla-'' @ branch_group v)
      else if match_all full_version_tag_re v then Inr (''scylla-'' @ release_line v)
      else if match_all simple_version_re v then Inr (''scylla-'' @ release_line v)
      else if lower (strip v) = ''master'' then Inr ''scylla-master''
      else Inl (NoFolder v))"

definition determine_job_folder :: "string \<Rightarrow> string option \<Rightarrow> trigger_error + string" where
  "determine_job_folder v job_folder = (case job_folder of
       Some f \<Rightarrow> if f \<noteq> [] then Inr f else folder_of_version v
     | None \<Rightarrow> folder_of_version v)"

definition strip_version_qualifier :: "string \<Rightarrow> string" where
  "strip_version_qualifier v = (if match_all branch_version_re v then branch_group v else v)"

definition extract_branch_from_version :: "string \<Rightarrow> string" where
  "extract_branch_from_version v =
     (if v = [] then []
      else if match_all branch_version_re v then branch_group v
      else if match_all full_version_tag_re v then release_line v
      else if match_all simple_version_re v then release_line v
      else if lower (strip v) = ''master'' then ''master''
      else [])"

text \<open>\<^verbatim>\<open>re.search(r"[.-](\d{8})[.-]", version)\<close>: the leftmost match.\<close>

fun version_build_date :: "string \<Rightarrow> string" where
  "version_build_date [] = []"
| "version_build_date (c # s) =
     (if c \<in> set ''.-'' \<and> list_all is_dec_digit (take 8 s) \<and> length s > 8 \<and> s ! 8 \<in> set ''.-''
      then take 8 s else version_build_date s)"

definition branch_directory_id :: "string \<Rightarrow> string" where
  "branch_directory_id branch =
     (if branch = [] \<or> branch = ''master'' \<or> startswith branch ''branch-'' \<or> startswith branch ''enterprise-''
      then branch else ''branch-'' @ branch)"

section \<open>Groups\<close>

lemma takeWhile_run: "list_all p s \<Longrightarrow> (case t of [] \<Rightarrow> True | c # _ \<Rightarrow> \<not> p c) \<Longrightarrow> takeWhile p (s @ t) = s"
  by (induction s) (auto split: list.splits)

text \<open>A match of \<^verbatim>\<open>branch:qualifier\<close>, possibly followed by a newline.\<close>

lemma branch_match:
  assumes "match_all branch_version_re v"
  shows "branch_group v \<noteq> [] \<and> (\<exists>q. q \<noteq> [] \<and> v = branch_group v @ '':'' @ q)"
proof -
  from assms obtain w e where v: "v = w @ e" "in_lang branch_version_re w"
    unfolding match_all_def accepts_iff by (metis append_Nil2 append_butlast_last_id)
  then obtain b q where w: "w = b @ '':'' @ q" "b \<noteq> []" "list_all is_branch_char b" "q \<noteq> []"
    unfolding branch_version_re_def seq_Cons_iff many1_class lit_iff by auto
  have "\<not> is_branch_char CHR '':''" by (simp add: is_branch_char_def is_alnum_def is_dec_digit_def)
  then have "branch_group v = b"
    unfolding branch_group_def v(1) w(1) using takeWhile_run[OF w(3), of "'':'' @ q @ e"] by simp
  with v w show ?thesis by simp
qed

lemma release_line_not_Nil [simp]: "release_line v \<noteq> []"
  by (simp add: release_line_def)

section \<open>GCE labels\<close>

text \<open>The three spellings of a full version tag without packaging revision, and the label GCE has for one.\<close>

datatype tag =
    ReleaseTag string string string string string string
  | DevTag string string string string string string
  | RcTag string string string string string string string

fun show_tag :: "tag \<Rightarrow> string" where
  "show_tag (ReleaseTag ma mi pa b d h) = ma @ ''.'' @ mi @ ''.'' @ pa @ ''-'' @ b @ ''.'' @ d @ ''.'' @ h"
| "show_tag (DevTag ma mi pa b d h) = ma @ ''.'' @ mi @ ''.'' @ pa @ ''~dev-'' @ b @ ''.'' @ d @ ''.'' @ h"
| "show_tag (RcTag ma mi pa n b d h) = ma @ ''.'' @ mi @ ''.'' @ pa @ ''.rc'' @ n @ ''.'' @ b @ ''.'' @ d @ ''.'' @ h"

definition numeral_text :: "string \<Rightarrow> bool" where
  "numeral_text s \<longleftrightarrow> s \<noteq> [] \<and> list_all is_dec_digit s"

definition build_text :: "string \<Rightarrow> string \<Rightarrow> string \<Rightarrow> bool" where
  "build_text b d h \<longleftrightarrow> numeral_text b \<and> length d = 8 \<and> list_all is_dec_digit d \<and> h \<noteq> [] \<and> list_all is_hex h"

fun well_formed_tag :: "tag \<Rightarrow> bool" where
  "well_formed_tag (ReleaseTag ma mi pa b d h) = (list_all numeral_text [ma, mi, pa] \<and> build_text b d h)"
| "well_formed_tag (DevTag ma mi pa b d h) = (list_all numeral_text [ma, mi, pa] \<and> build_text b d h)"
| "well_formed_tag (RcTag ma mi pa n b d h) = (list_all numeral_text [ma, mi, pa, n] \<and> build_text b d h)"

definition gce_label :: "string \<Rightarrow> string" where
  "gce_label v = map (\<lambda>c. if c \<in> set ''.~'' then CHR ''-'' else c) v"

lemma digit_not_special: "is_dec_digit c \<Longrightarrow> c \<notin> set ''.~-:''"
  by (auto simp: is_dec_digit_def)

lemma hex_not_special: "is_hex c \<Longrightarrow> c \<notin> set ''.~-:''"
  by (auto simp: is_hex_def is_dec_digit_def)

lemma label_plain: "\<forall>c\<in>set s. c \<notin> set ''.~-:'' \<Longrightarrow> gce_label s = s \<and> CHR ''-'' \<notin> set s"
  by (induction s) (auto simp: gce_label_def)

lemma label_digits: "list_all is_dec_digit s \<Longrightarrow> gce_label s = s" "list_all is_dec_digit s \<Longrightarrow> CHR ''-'' \<notin> set s"
  using label_plain[of s] digit_not_special by (auto simp: list_all_iff)

lemma label_hex: "list_all is_hex s \<Longrightarrow> gce_label s = s" "list_all is_hex s \<Longrightarrow> CHR ''-'' \<notin> set s"
  using label_plain[of s] hex_not_special by (auto simp: list_all_iff)

lemma label_append: "gce_label (s @ t) = gce_label s @ gce_label t"
  by (simp add: gce_label_def)

lemma label_split:
  assumes "xs \<noteq> []" "\<forall>x\<in>set xs. CHR ''-'' \<notin> set x"
  shows "split_on CHR ''-'' (join ''-'' xs) = xs"
  using split_on_join[OF assms] .

lemmas re_intros = seq_Cons_intro[where rs = "_ # _"] seq_Cons_intro[where rs = "[]" and t = "[]", simplified]

lemmas re_iffs = digits_iff numeral_text_def build_text_def many1_class rep_class many_class lang_Class dot_def

lemma in_full_tag:
  assumes "numeral_text ma" "numeral_text mi" "numeral_text pa" "in_lang (Or build_tail_re rc_tail_re) rest"
  shows "is_full_version_tag (ma @ ''.'' @ mi @ ''.'' @ pa @ rest)"
proof -
  have "in_lang full_version_tag_re (ma @ ''.'' @ mi @ ''.'' @ pa @ rest)"
    unfolding full_version_tag_re_def by (intro re_intros) (use assms in \<open>simp_all add: re_iffs\<close>)
  then show ?thesis unfolding is_full_version_tag_def by (rule match_all_accepts)
qed

lemma digit_alnum: "list_all is_dec_digit s \<Longrightarrow> list_all (\<lambda>c. is_alnum c \<or> c \<in> set ''._~'') s"
  by (auto simp: list_all_iff is_alnum_def)

lemma release_tail:
  assumes "build_text b d h"
  shows "in_lang build_tail_re (''-'' @ b @ ''.'' @ d @ ''.'' @ h)"
proof -
  have "in_lang build_tail_re (''-'' @ b @ [] @ [] @ ''.'' @ d @ ''.'' @ h @ [])"
    unfolding build_tail_re_def by (intro re_intros) (use assms digit_alnum in \<open>simp_all add: re_iffs\<close>)
  then show ?thesis by simp
qed

lemma dev_tail:
  assumes "build_text b d h"
  shows "in_lang build_tail_re (''~dev-'' @ b @ ''.'' @ d @ ''.'' @ h)"
proof -
  have "in_lang build_tail_re (''~'' @ ''dev'' @ ''-'' @ b @ ''.'' @ d @ ''.'' @ h @ [])"
    unfolding build_tail_re_def by (intro re_intros)
      (use assms in \<open>simp_all add: re_iffs is_alnum_def\<close>)
  then show ?thesis by simp
qed

lemma rc_tail:
  assumes "numeral_text n" "build_text b d h"
  shows "in_lang rc_tail_re (''.rc'' @ n @ ''.'' @ b @ ''.'' @ d @ ''.'' @ h)"
proof -
  have "in_lang rc_tail_re (''.rc'' @ n @ ''.'' @ b @ ''.'' @ d @ ''.'' @ h @ [])"
    unfolding rc_tail_re_def by (intro re_intros) (use assms in \<open>simp_all add: re_iffs\<close>)
  then show ?thesis by simp
qed

lemma tag_is_full: "well_formed_tag t \<Longrightarrow> is_full_version_tag (show_tag t)"
  by (cases t) (use in_full_tag release_tail dev_tail rc_tail in auto)

lemma rest_not_keyword:
  "numeral_text b \<Longrightarrow> b \<noteq> ''dev'' \<and> \<not> startswith b ''rc''"
  by (cases b) (auto simp: numeral_text_def startswith_def is_dec_digit_def)

lemmas label_facts = label_digits label_hex numeral_text_def build_text_def

lemma label_Cons: "gce_label (c # s) = (if c \<in> set ''.~'' then CHR ''-'' else c) # gce_label s" "gce_label [] = []"
  by (simp_all add: gce_label_def)

lemma label_of_tag:
  "well_formed_tag t \<Longrightarrow> split_on CHR ''-'' (gce_label (show_tag t)) = (case t of
      ReleaseTag ma mi pa b d h \<Rightarrow> [ma, mi, pa, b, d, h]
    | DevTag ma mi pa b d h \<Rightarrow> [ma, mi, pa, ''dev'', b, d, h]
    | RcTag ma mi pa n b d h \<Rightarrow> [ma, mi, pa, ''rc'' @ n, b, d, h])"
proof (cases t)
  case (ReleaseTag ma mi pa b d h)
  assume "well_formed_tag t"
  with ReleaseTag label_split[of "[ma, mi, pa, b, d, h]"] show ?thesis
    by (simp add: label_append label_Cons label_facts)
next
  case (DevTag ma mi pa b d h)
  assume "well_formed_tag t"
  with DevTag label_split[of "[ma, mi, pa, ''dev'', b, d, h]"] show ?thesis
    by (simp add: label_append label_Cons label_facts)
next
  case (RcTag ma mi pa n b d h)
  assume "well_formed_tag t"
  with RcTag label_split[of "[ma, mi, pa, ''rc'' @ n, b, d, h]"] show ?thesis
    by (simp add: label_append label_Cons label_facts)
qed

section \<open>Properties\<close>

text \<open>a GCE image label loses the dots and tildes of the version; \<^verbatim>\<open>_gce_label_to_version\<close> recovers the full
  version tag from it, for each of the three spellings (release, dev, release candidate).\<close>

theorem gce_label_roundtrip:
  assumes "well_formed_tag t"
  shows "gce_label_to_version (gce_label (show_tag t)) = show_tag t"
proof (cases t)
  case (ReleaseTag ma mi pa b d h)
  with assms label_of_tag[OF assms] tag_is_full[OF assms] rest_not_keyword[of b] show ?thesis
    by (simp add: gce_label_to_version_def Let_def build_text_def)
next
  case (DevTag ma mi pa b d h)
  with assms label_of_tag[OF assms] tag_is_full[OF assms] show ?thesis
    by (simp add: gce_label_to_version_def Let_def)
next
  case (RcTag ma mi pa n b d h)
  with assms label_of_tag[OF assms] tag_is_full[OF assms] show ?thesis
    by (simp add: gce_label_to_version_def Let_def startswith_def)
qed

theorem gce_label_roundtrip_witness:
  "well_formed_tag (RcTag ''2026'' ''3'' ''0'' ''1'' ''0'' ''20260730'' ''726f67a532e2'') \<and>
   gce_label_to_version ''2026-3-0-rc1-0-20260730-726f67a532e2'' = ''2026.3.0.rc1.0.20260730.726f67a532e2''"
proof -
  let ?t = "RcTag ''2026'' ''3'' ''0'' ''1'' ''0'' ''20260730'' ''726f67a532e2''"
  have w: "well_formed_tag ?t" by code_simp
  have "gce_label (show_tag ?t) = ''2026-3-0-rc1-0-20260730-726f67a532e2''" by (simp add: gce_label_def)
  with gce_label_roundtrip[OF w] w show ?thesis by simp
qed

text \<open>the Jenkins folder derived from a version and the branch extracted from it for templates agree: without an
  override a folder is found exactly when a branch is, and it is \<^verbatim>\<open>scylla-\<close> followed by that branch.\<close>

theorem job_folder_is_branch:
  "determine_job_folder v None = Inr f \<longleftrightarrow>
   extract_branch_from_version v \<noteq> [] \<and> f = ''scylla-'' @ extract_branch_from_version v"
  using branch_match[of v]
  by (auto simp: determine_job_folder_def folder_of_version_def extract_branch_from_version_def)

end
