(* ===== verification/Trigger_Models.thy ===== *)
theory Trigger_Models
  imports Trigger_Versions
begin

text \<open>
  The trigger matrix (\<^verbatim>\<open>sdcm/utils/trigger_matrix\<close>): its jobs and their validation (\<^verbatim>\<open>models.py\<close>), the
  selection of the jobs of a run (\<^verbatim>\<open>filters.py\<close>) and the parameters a Jenkins job is given
  (\<^verbatim>\<open>parameters.py\<close>).

  A parameter value of the YAML file is a string, a Boolean, an integer or null.
\<close>

section \<open>Values\<close>

datatype jval = JNone | JBool bool | JInt int | JStr string

text \<open>\<^verbatim>\<open>str(v)\<close> and the truth of a value.\<close>

definition jstr :: "jval \<Rightarrow> string" where
  "jstr v = (case v of JNone \<Rightarrow> ''None'' | JBool b \<Rightarrow> if b then ''True'' else ''False'' | JInt i \<Rightarrow> show_int i | JStr s \<Rightarrow> s)"

definition jtruthy :: "jval \<Rightarrow> bool" where
  "jtruthy v = (case v of JNone \<Rightarrow> False | JBool b \<Rightarrow> b | JInt i \<Rightarrow> i \<noteq> 0 | JStr s \<Rightarrow> s \<noteq> [])"

section \<open>Jobs\<close>

record job_config =
  job_name :: string
  jc_backend :: string
  jc_arch :: string
  disabled :: bool
  labels :: "string list"
  include_versions :: "string list"
  exclude_versions :: "string list"
  pre_release :: "string list"
  job_throttle_category :: string
  jc_params :: "jval dict"
  wait :: bool
  wait_timeout :: int
  fail_on_error :: bool
  collect_results :: "string list"

abbreviation default_arch :: string where
  "default_arch \<equiv> ''x86_64''"

definition validate_arch :: "string \<Rightarrow> bool" where
  "validate_arch v = (v = [] \<or> v \<in> set [''aarch64'', ''x86_64''])"

definition job_arch :: "job_config \<Rightarrow> string" where
  "job_arch job = (if jc_arch job \<noteq> [] then jc_arch job
     else if ''aarch64'' \<in> set (labels job) then ''aarch64'' else default_arch)"

definition matches_version :: "job_config \<Rightarrow> string \<Rightarrow> bool" where
  "matches_version job version =
     (if include_versions job \<noteq> [] \<and> \<not> list_ex (startswith version) (include_versions job) then False
      else \<not> list_ex (startswith version) (exclude_versions job))"

definition version_ranges_overlap :: "job_config \<Rightarrow> job_config \<Rightarrow> bool" where
  "version_ranges_overlap a b =
     (let prefixes = include_versions a @ exclude_versions a @ include_versions b @ exclude_versions b;
          probes = [''master'', ''9999.9''] @ prefixes @ map (\<lambda>p. p @ ''.999'') prefixes
      in list_ex (\<lambda>v. matches_version a v \<and> matches_version b v) probes)"

record matrix_config =
  jobs :: "job_config list"
  defaults :: "jval dict"
  default_scylla_version :: string
  version_resolution :: string
  email_recipients :: "string list"
  required_params :: "string list"
  supported_versions_only :: bool

text \<open>\<^verbatim>\<open>for i, a in enumerate(jobs): for b in jobs[i + 1:]\<close>\<close>

fun some_pair :: "('a \<Rightarrow> 'a \<Rightarrow> bool) \<Rightarrow> 'a list \<Rightarrow> bool" where
  "some_pair P [] = False"
| "some_pair P (a # as) = (list_ex (P a) as \<or> some_pair P as)"

definition enabled_jobs_named :: "matrix_config \<Rightarrow> string \<Rightarrow> job_config list" where
  "enabled_jobs_named m name = filter (\<lambda>job. \<not> disabled job \<and> job_name job = name) (jobs m)"

definition cross_arch_twins :: "matrix_config \<Rightarrow> string list" where
  "cross_arch_twins m = sort (remdups (filter
     (\<lambda>name. some_pair (\<lambda>a b. job_arch a \<noteq> job_arch b \<and> version_ranges_overlap a b) (enabled_jobs_named m name))
     (map job_name (filter (\<lambda>job. \<not> disabled job) (jobs m)))))"

text \<open>The model validator: a matrix with twins is refused.\<close>

definition reject_cross_arch_twins :: "matrix_config \<Rightarrow> trigger_error + matrix_config" where
  "reject_cross_arch_twins m = (if cross_arch_twins m \<noteq> [] then Inl MatrixValidation else Inr m)"

section \<open>Selecting jobs\<close>

definition is_version_excluded :: "string \<Rightarrow> string list \<Rightarrow> bool" where
  "is_version_excluded v excl =
     (if excl = [] then False else list_ex (startswith (strip_version_qualifier v)) excl)"

definition is_version_included :: "string \<Rightarrow> string list \<Rightarrow> bool" where
  "is_version_included v incl = list_ex (startswith (strip_version_qualifier v)) incl"

definition is_pre_release_match :: "string \<Rightarrow> string \<Rightarrow> string list \<Rightarrow> bool" where
  "is_pre_release_match v resolved tags =
     (if strip_version_qualifier v = ''master'' then True
      else list_ex (\<lambda>tag. contains (''-'' @ tag) resolved) tags)"

definition required_groups :: "string option \<Rightarrow> string list list" where
  "required_groups selector = (case selector of
       None \<Rightarrow> []
     | Some s \<Rightarrow> if s = [] then []
         else filter (\<lambda>g. g \<noteq> []) (map (split_items CHR ''/'') (split_on CHR '','' s)))"

text \<open>An optional argument that is None or empty is falsy.\<close>

definition given :: "string option \<Rightarrow> bool" where
  "given arg = (arg \<noteq> None \<and> arg \<noteq> Some [])"

record job_filter =
  jf_version :: string
  jf_resolved :: "string option"
  jf_labels :: "string option"
  jf_backend :: "string option"
  jf_skip :: "string list"
  jf_arch :: "string option"

definition keep_job :: "job_filter \<Rightarrow> job_config \<Rightarrow> bool" where
  "keep_job f job =
     (if disabled job then False
      else if job_name job \<in> set (jf_skip f) then False
      else if given (jf_backend f) \<and> Some (jc_backend job) \<noteq> jf_backend f then False
      else if jf_arch f = Some ''aarch64'' \<and> job_arch job \<noteq> ''aarch64'' then False
      else if jf_arch f = Some ''x86_64'' \<and> job_arch job = ''aarch64'' then False
      else if include_versions job \<noteq> [] \<and> \<not> is_version_included (jf_version f) (include_versions job) then False
      else if is_version_excluded (jf_version f) (exclude_versions job) then False
      else if pre_release job \<noteq> [] \<and> \<not> is_pre_release_match (jf_version f)
          (if given (jf_resolved f) then the (jf_resolved f) else jf_version f) (pre_release job) then False
      else list_all (\<lambda>g. \<exists>l\<in>set g. l \<in> set (labels job)) (required_groups (jf_labels f)))"

definition filter_jobs :: "job_filter \<Rightarrow> job_config list \<Rightarrow> job_config list" where
  "filter_jobs f js = filter (keep_job f) js"

text \<open>\<^verbatim>\<open>audit.runs_on_version\<close>\<close>

definition runs_on_version :: "job_config \<Rightarrow> string \<Rightarrow> bool" where
  "runs_on_version job version =
     (if disabled job then False
      else if include_versions job \<noteq> [] \<and> \<not> is_version_included version (include_versions job) then False
      else \<not> is_version_excluded version (exclude_versions job))"

section \<open>Parameters\<close>

definition resolve_templates :: "string \<Rightarrow> string \<Rightarrow> jval \<Rightarrow> jval" where
  "resolve_templates branch branch_id v = (case v of
       JStr s \<Rightarrow>
         (let s1 = (if contains ''{branch}'' s then replace_str ''{branch}'' branch s else s);
              s2 = (if contains ''{branch_id}'' s1 then replace_str ''{branch_id}'' branch_id s1 else s1)
          in JStr s2)
     | _ \<Rightarrow> v)"

definition per_job_location_params :: "string list" where
  "per_job_location_params = [''region'', ''availability_zone'']"

text \<open>\<^verbatim>\<open>{k: v for k, v in overrides.items() if v is not None}\<close>\<close>

definition given_overrides :: "jval dict \<Rightarrow> jval dict" where
  "given_overrides ov = filter (\<lambda>p. snd p \<noteq> JNone) ov"

definition is_rolling_upgrade :: "jval dict \<Rightarrow> bool" where
  "is_rolling_upgrade p =
     (lower (case map_of p ''rolling_upgrade_test'' of Some v \<Rightarrow> jstr v | None \<Rightarrow> []) = ''true'')"

definition merge_parameters :: "job_config \<Rightarrow> jval dict \<Rightarrow> jval dict \<Rightarrow> jval dict" where
  "merge_parameters job dflt ov =
     (let overrides = given_overrides ov;
          loc = List.map_filter (\<lambda>k. map_option (Pair k) (map_of overrides k)) per_job_location_params;
          rest = filter (\<lambda>p. fst p \<notin> set per_job_location_params) overrides
      in dict_update (dict_update (dict_update dflt loc) (jc_params job)) rest)"

definition build_job_parameters ::
    "job_config \<Rightarrow> jval dict \<Rightarrow> string \<Rightarrow> jval dict \<Rightarrow> string option \<Rightarrow> jval dict" where
  "build_job_parameters job dflt scylla_version ov branch_source =
     (let p1 = merge_parameters job dflt ov;
          p2 = (if scylla_version \<noteq> [] then AList.update ''scylla_version'' (JStr scylla_version) p1 else p1);
          p3 = (if job_throttle_category job \<noteq> [] \<and> map_of p2 ''job_throttle_category'' = None
                then AList.update ''job_throttle_category'' (JStr (job_throttle_category job)) p2 else p2);
          p4 = (if is_rolling_upgrade p3 then AList.update ''scylla_version'' (JStr []) p3
                else AList.delete ''new_scylla_repo'' p3);
          branch = extract_branch_from_version (if given branch_source then the branch_source else scylla_version)
      in if branch = [] then p4
         else map (\<lambda>(k, v). (k, resolve_templates branch (branch_directory_id branch) v)) p4)"

definition resolve_job_path :: "string \<Rightarrow> string \<Rightarrow> string" where
  "resolve_job_path name folder =
     (if startswith name ''/'' then dropWhile (\<lambda>c. c = CHR ''/'') name else folder @ ''/'' @ name)"

section \<open>Version ranges\<close>

lemma matches_version_iff:
  "matches_version job v \<longleftrightarrow>
     (include_versions job = [] \<or> (\<exists>p\<in>set (include_versions job). prefix p v)) \<and>
     (\<forall>e\<in>set (exclude_versions job). \<not> prefix e v)"
  by (auto simp: matches_version_def list_ex_iff startswith_prefix)

text \<open>A prefix of an accepted version that still carries the inclusion is accepted too.\<close>

lemma matches_cut:
  assumes "matches_version job v" "prefix p v"
    and "include_versions job \<noteq> [] \<Longrightarrow> \<exists>q\<in>set (include_versions job). prefix q p"
  shows "matches_version job p"
  using assms unfolding matches_version_iff by (meson prefix_order.order_trans)

lemma overlap_probe:
  assumes "matches_version a v" "matches_version b v"
    and "v \<in> set (include_versions a) \<union> set (include_versions b) \<or> v = ''9999.9''"
  shows "version_ranges_overlap a b"
  using assms unfolding version_ranges_overlap_def Let_def list_ex_iff by auto

lemma included_prefix:
  assumes "matches_version job v" "include_versions job \<noteq> []"
  obtains p where "p \<in> set (include_versions job)" "prefix p v"
  using assms by (auto simp: matches_version_iff)

lemma overlap_complete:
  assumes v: "matches_version a v" "matches_version b v"
    and ok: "include_versions a \<noteq> [] \<or> include_versions b \<noteq> [] \<or>
      (\<forall>e\<in>set (exclude_versions a) \<union> set (exclude_versions b). \<not> startswith ''9999.9'' e)"
  shows "version_ranges_overlap a b"
proof -
  consider (none) "include_versions a = []" "include_versions b = []"
    | (left) "include_versions a \<noteq> []" "include_versions b = []"
    | (right) "include_versions a = []" "include_versions b \<noteq> []"
    | (both) "include_versions a \<noteq> []" "include_versions b \<noteq> []" by blast
  then show ?thesis
  proof cases
    case none
    with ok have "matches_version a ''9999.9''" "matches_version b ''9999.9''"
      by (auto simp: matches_version_iff startswith_prefix)
    then show ?thesis by (rule overlap_probe) simp
  next
    case left
    then obtain p where "p \<in> set (include_versions a)" "prefix p v" using included_prefix[OF v(1)] by blast
    with left v matches_cut show ?thesis by (intro overlap_probe[of a p b]) blast+
  next
    case right
    then obtain p where "p \<in> set (include_versions b)" "prefix p v" using included_prefix[OF v(2)] by blast
    with right v matches_cut show ?thesis by (intro overlap_probe[of a p b]) blast+
  next
    case both
    then obtain p q where pq: "p \<in> set (include_versions a)" "prefix p v" "q \<in> set (include_versions b)" "prefix q v"
      using included_prefix[OF v(1)] included_prefix[OF v(2)] by metis
    then have "prefix p q \<or> prefix q p" by (auto dest: prefix_same_cases)
    then show ?thesis
    proof
      assume "prefix p q"
      with pq v matches_cut show ?thesis by (intro overlap_probe[of a q b]) blast+
    next
      assume "prefix q p"
      with pq v matches_cut show ?thesis by (intro overlap_probe[of a p b]) blast+
    qed
  qed
qed

lemma overlap_sound: "version_ranges_overlap a b \<Longrightarrow> \<exists>v. matches_version a v \<and> matches_version b v"
  by (auto simp: version_ranges_overlap_def Let_def list_ex_iff)

section \<open>Twins\<close>

lemma some_pair_member:
  assumes "\<not> some_pair P xs" "\<And>x y. P x y = P y x" "a \<in> set xs" "b \<in> set xs" "a \<noteq> b"
  shows "\<not> P a b"
  using assms(1,3-5) by (induction xs) (auto simp: list_ex_iff assms(2))

lemma overlap_sym: "version_ranges_overlap a b = version_ranges_overlap b a"
  unfolding version_ranges_overlap_def Let_def list_ex_iff by (simp add: image_Un Un_ac conj_commute)

lemma keep_job_matches:
  "keep_job f job \<Longrightarrow> \<not> disabled job \<and> matches_version job (strip_version_qualifier (jf_version f))"
  by (auto simp: keep_job_def matches_version_def is_version_included_def is_version_excluded_def split: if_splits)

lemma valid_matrix_no_twins:
  assumes "reject_cross_arch_twins m = Inr m'" "a \<in> set (jobs m)" "b \<in> set (jobs m)"
    "\<not> disabled a" "\<not> disabled b" "job_name a = job_name b" "job_arch a \<noteq> job_arch b"
  shows "\<not> version_ranges_overlap a b"
proof -
  let ?P = "\<lambda>a b. job_arch a \<noteq> job_arch b \<and> version_ranges_overlap a b"
  from assms(1) have "set (cross_arch_twins m) = {}" by (simp add: reject_cross_arch_twins_def split: if_splits)
  with assms(2,4) have "\<not> some_pair ?P (enabled_jobs_named m (job_name a))"
    by (auto simp: cross_arch_twins_def)
  moreover have "a \<in> set (enabled_jobs_named m (job_name a))" "b \<in> set (enabled_jobs_named m (job_name a))"
    using assms by (simp_all add: enabled_jobs_named_def)
  moreover have "a \<noteq> b" using assms(7) by blast
  moreover have "?P x y = ?P y x" for x y using overlap_sym[of x y] by auto
  ultimately have "\<not> ?P a b" using some_pair_member[of ?P "enabled_jobs_named m (job_name a)" a b] by blast
  with assms(7) show ?thesis by blast
qed

section \<open>Lookup in the merged parameters\<close>

text \<open>Where the value of a parameter comes from, and what it is before templates are resolved.\<close>

definition merged_value :: "job_config \<Rightarrow> jval dict \<Rightarrow> jval dict \<Rightarrow> string \<Rightarrow> jval option" where
  "merged_value job dflt ov k =
     (if k \<in> set per_job_location_params
      then (map_of dflt ++ map_of (given_overrides ov) ++ map_of (jc_params job)) k
      else (map_of dflt ++ map_of (jc_params job) ++ map_of (given_overrides ov)) k)"

definition expected_value :: "job_config \<Rightarrow> jval dict \<Rightarrow> string \<Rightarrow> jval dict \<Rightarrow> string \<Rightarrow> jval option" where
  "expected_value job dflt v ov k =
     (let merged = merged_value job dflt ov;
          rolling = (lower (case merged ''rolling_upgrade_test'' of Some x \<Rightarrow> jstr x | None \<Rightarrow> []) = ''true'')
      in if k = ''scylla_version'' \<and> rolling then Some (JStr [])
         else if k = ''scylla_version'' \<and> v \<noteq> [] then Some (JStr v)
         else if k = ''new_scylla_repo'' \<and> \<not> rolling then None
         else if k = ''job_throttle_category'' \<and> job_throttle_category job \<noteq> [] \<and> merged k = None
         then Some (JStr (job_throttle_category job))
         else merged k)"

lemma map_of_filter_fst: "map_of (filter (\<lambda>p. Q (fst p)) xs) k = (if Q k then map_of xs k else None)"
  by (induction xs) auto

lemma distinct_given_overrides: "distinct (map fst ov) \<Longrightarrow> distinct (map fst (given_overrides ov))"
  by (simp add: given_overrides_def)

lemma map_of_merge_parameters:
  assumes "distinct (map fst (jc_params job))" "distinct (map fst ov)"
  shows "map_of (merge_parameters job dflt ov) k = merged_value job dflt ov k"
proof -
  let ?o = "given_overrides ov" and ?L = per_job_location_params
  let ?loc = "List.map_filter (\<lambda>k. map_option (Pair k) (map_of ?o k)) ?L"
  let ?rest = "filter (\<lambda>p. fst p \<notin> set ?L) ?o"
  have loc: "map_of ?loc k = (if k \<in> set ?L then map_of ?o k else None)" for k
    by (cases "map_of ?o ''region''"; cases "map_of ?o ''availability_zone''")
      (auto simp: per_job_location_params_def List.map_filter_def)
  have dloc: "distinct (map fst ?loc)"
    by (cases "map_of ?o ''region''"; cases "map_of ?o ''availability_zone''")
      (simp_all add: per_job_location_params_def List.map_filter_def)
  have drest: "distinct (map fst ?rest)" using distinct_given_overrides[OF assms(2)] by simp
  have "map_of (merge_parameters job dflt ov) = map_of dflt ++ map_of ?loc ++ map_of (jc_params job) ++ map_of ?rest"
    unfolding merge_parameters_def Let_def
    by (simp only: map_of_dict_update_distinct[OF dloc] map_of_dict_update_distinct[OF drest]
        map_of_dict_update_distinct[OF assms(1)])
  moreover have "map_of ?rest k = (if k \<notin> set ?L then map_of ?o k else None)"
    by (rule map_of_filter_fst[where Q = "\<lambda>k. k \<notin> set ?L"])
  ultimately show ?thesis
    by (simp add: merged_value_def map_add_def loc split: option.splits)
qed

lemma map_of_map_value: "map_of (map (\<lambda>(k, v). (k, g v)) xs) k = map_option g (map_of xs k)"
  by (induction xs) auto

lemma build_parameters_lookup:
  assumes "distinct (map fst (jc_params job))" "distinct (map fst ov)"
  shows "map_of (build_job_parameters job dflt v ov src) k =
    (let branch = extract_branch_from_version (if given src then the src else v)
     in map_option (\<lambda>x. if branch = [] then x else resolve_templates branch (branch_directory_id branch) x)
          (expected_value job dflt v ov k))"
proof -
  note m = map_of_merge_parameters[OF assms, of dflt]
  define p3 where "p3 = (let p1 = merge_parameters job dflt ov;
      p2 = (if v \<noteq> [] then AList.update ''scylla_version'' (JStr v) p1 else p1)
    in if job_throttle_category job \<noteq> [] \<and> map_of p2 ''job_throttle_category'' = None
       then AList.update ''job_throttle_category'' (JStr (job_throttle_category job)) p2 else p2)"
  define p4 where "p4 = (if is_rolling_upgrade p3 then AList.update ''scylla_version'' (JStr []) p3
    else AList.delete ''new_scylla_repo'' p3)"
  have r: "is_rolling_upgrade p3 \<longleftrightarrow>
      lower (case merged_value job dflt ov ''rolling_upgrade_test'' of Some x \<Rightarrow> jstr x | None \<Rightarrow> []) = ''true''"
    by (simp add: is_rolling_upgrade_def p3_def Let_def m)
  have "map_of p4 k = expected_value job dflt v ov k"
    unfolding p4_def r expected_value_def Let_def by (auto simp: p3_def Let_def m)
  moreover have "build_job_parameters job dflt v ov src =
      (let branch = extract_branch_from_version (if given src then the src else v)
       in if branch = [] then p4 else map (\<lambda>(k, x). (k, resolve_templates branch (branch_directory_id branch) x)) p4)"
    unfolding build_job_parameters_def p4_def p3_def Let_def ..
  ultimately show ?thesis by (simp add: Let_def map_of_map_value option.map_ident)
qed

section \<open>Properties\<close>

text \<open>the probes of \<^verbatim>\<open>_version_ranges_overlap\<close> decide exactly whether some version is accepted by both
  entries, as long as one entry lists the versions it includes or neither excludes the future release
  \<^verbatim>\<open>9999.9\<close>.\<close>

theorem version_ranges_overlap_exact:
  assumes "include_versions a \<noteq> [] \<or> include_versions b \<noteq> [] \<or>
      (\<forall>e\<in>set (exclude_versions a) \<union> set (exclude_versions b). \<not> startswith ''9999.9'' e)"
  shows "version_ranges_overlap a b \<longleftrightarrow> (\<exists>v. matches_version a v \<and> matches_version b v)"
  using overlap_complete[OF _ _ assms] overlap_sound by blast

definition sample_job :: job_config where
  "sample_job = \<lparr>job_name = ''tier1/longevity'', jc_backend = ''aws'', jc_arch = [], disabled = False, labels = [''tier1''],
     include_versions = [], exclude_versions = [], pre_release = [], job_throttle_category = [], jc_params = [],
     wait = False, wait_timeout = 14400, fail_on_error = False, collect_results = []\<rparr>"

theorem version_ranges_overlap_exact_witness:
  "(include_versions (sample_job\<lparr>include_versions := [''2025'']\<rparr>) \<noteq> []) \<and>
   (version_ranges_overlap (sample_job\<lparr>include_versions := [''2025'']\<rparr>) (sample_job\<lparr>exclude_versions := [''2025.1'', ''2025.2'']\<rparr>) \<longleftrightarrow>
    (\<exists>v. matches_version (sample_job\<lparr>include_versions := [''2025'']\<rparr>) v \<and>
         matches_version (sample_job\<lparr>exclude_versions := [''2025.1'', ''2025.2'']\<rparr>) v))"
proof -
  have "include_versions (sample_job\<lparr>include_versions := [''2025'']\<rparr>) \<noteq> []" by (simp add: sample_job_def)
  with version_ranges_overlap_exact[of "sample_job\<lparr>include_versions := [''2025'']\<rparr>"
      "sample_job\<lparr>exclude_versions := [''2025.1'', ''2025.2'']\<rparr>"]
  show ?thesis by blast
qed

text \<open>The condition is needed: an entry that excludes \<^verbatim>\<open>master\<close> and everything from 9 on is taken to be disjoint
  from an unrestricted one, although both accept 2025.1.\<close>

theorem version_ranges_overlap_misses:
  "\<not> version_ranges_overlap (sample_job\<lparr>exclude_versions := [''master'', ''9'']\<rparr>) sample_job \<and>
   matches_version (sample_job\<lparr>exclude_versions := [''master'', ''9'']\<rparr>) ''2025.1'' \<and> matches_version sample_job ''2025.1''"
  by code_simp

text \<open>a validated matrix never selects one Jenkins job under two architectures: whatever version, labels, backend
  and image a run is filtered by, two selected entries of the same job have the same architecture (no entry
  excluding the future release 9999.9).\<close>

theorem selected_jobs_one_arch:
  assumes "reject_cross_arch_twins m = Inr m'"
    and "\<forall>job\<in>set (jobs m). \<forall>e\<in>set (exclude_versions job). \<not> startswith ''9999.9'' e"
    and "a \<in> set (filter_jobs f (jobs m))" "b \<in> set (filter_jobs f (jobs m))" "job_name a = job_name b"
  shows "job_arch a = job_arch b"
proof (rule ccontr)
  assume ne: "job_arch a \<noteq> job_arch b"
  from assms(3,4) have m: "a \<in> set (jobs m)" "b \<in> set (jobs m)" "keep_job f a" "keep_job f b"
    by (simp_all add: filter_jobs_def)
  note k = keep_job_matches[OF m(3)] keep_job_matches[OF m(4)]
  with valid_matrix_no_twins[OF assms(1) m(1,2) _ _ assms(5) ne] have "\<not> version_ranges_overlap a b" by blast
  with overlap_complete[of a "strip_version_qualifier (jf_version f)" b] k assms(2) m(1,2) show False by blast
qed

definition sample_matrix :: matrix_config where
  "sample_matrix = \<lparr>jobs = [sample_job\<lparr>jc_arch := ''aarch64'', include_versions := [''2026'']\<rparr>,
       sample_job\<lparr>exclude_versions := [''2026'']\<rparr>],
     defaults = [(''region'', JStr ''eu-west-1'')], default_scylla_version = ''master:latest'', version_resolution = ''per-backend'', email_recipients = [],
     required_params = [], supported_versions_only = False\<rparr>"

definition sample_filter :: job_filter where
  "sample_filter = \<lparr>jf_version = ''2026.1'', jf_resolved = None, jf_labels = Some ''tier1'', jf_backend = None, jf_skip = [],
     jf_arch = None\<rparr>"

theorem selected_jobs_one_arch_witness:
  "reject_cross_arch_twins sample_matrix = Inr sample_matrix \<and>
   hd (jobs sample_matrix) \<in> set (filter_jobs sample_filter (jobs sample_matrix)) \<and>
   job_arch (hd (jobs sample_matrix)) = job_arch (hd (jobs sample_matrix))"
proof -
  have r: "cross_arch_twins sample_matrix = []" by code_simp
  then have v: "reject_cross_arch_twins sample_matrix = Inr sample_matrix" by (simp add: reject_cross_arch_twins_def)
  have e: "\<forall>job\<in>set (jobs sample_matrix). \<forall>e\<in>set (exclude_versions job). \<not> startswith ''9999.9'' e"
    by (simp add: sample_matrix_def sample_job_def startswith_def)
  have k: "keep_job sample_filter (hd (jobs sample_matrix))" by code_simp
  then have s: "hd (jobs sample_matrix) \<in> set (filter_jobs sample_filter (jobs sample_matrix))"
    by (simp add: filter_jobs_def sample_matrix_def)
  from selected_jobs_one_arch[OF v e s s refl] v s show ?thesis by blast
qed

text \<open>C37: the parameters a job is built with are, key by key, what the priorities say: overrides before the job's own
  values before the defaults, except that region and availability zone of the job come first; the version is set
  unless the job is a rolling upgrade, which alone keeps \<^verbatim>\<open>new_scylla_repo\<close>; templates are resolved with the branch.\<close>

theorem build_job_parameters_priority:
  assumes "distinct (map fst (jc_params job))" "distinct (map fst ov)"
  shows "map_of (build_job_parameters job dflt v ov src) k =
    (let branch = extract_branch_from_version (if given src then the src else v)
     in map_option (\<lambda>x. if branch = [] then x else resolve_templates branch (branch_directory_id branch) x)
          (expected_value job dflt v ov k))"
  using build_parameters_lookup[OF assms] .

theorem build_job_parameters_priority_witness:
  "distinct (map fst [(''region'', JStr ''eu-west-1'')]) \<and> distinct (map fst [(''region'', JStr ''us-east-1'')]) \<and>
   map_of (build_job_parameters (sample_job\<lparr>jc_params := [(''region'', JStr ''eu-west-1'')]\<rparr>)
     [(''repo'', JStr ''s3/{branch_id}/x'')] ''2025.4'' [(''region'', JStr ''us-east-1'')] None) ''region'' = Some (JStr ''eu-west-1'')"
proof -
  let ?job = "sample_job\<lparr>jc_params := [(''region'', JStr ''eu-west-1'')]\<rparr>"
  have d: "distinct (map fst (jc_params ?job))" "distinct (map fst [(''region'', JStr ''us-east-1'')])" by simp_all
  have b: "extract_branch_from_version ''2025.4'' = ''2025.4''" by code_simp
  have "expected_value ?job [(''repo'', JStr ''s3/{branch_id}/x'')] ''2025.4'' [(''region'', JStr ''us-east-1'')] ''region'' =
      Some (JStr ''eu-west-1'')" by code_simp
  moreover have "resolve_templates ''2025.4'' (branch_directory_id ''2025.4'') (JStr ''eu-west-1'') = JStr ''eu-west-1''"
    by code_simp
  ultimately show ?thesis
    using build_job_parameters_priority[OF d, of "[(''repo'', JStr ''s3/{branch_id}/x'')]" "''2025.4''" None "''region''"]
    by (simp add: given_def b)
qed

end
