(* ===== verification/Trigger_Resolution.thy ===== *)
theory Trigger_Resolution
  imports Trigger_Models
begin

text \<open>
  Which build each job of the trigger matrix runs (\<^verbatim>\<open>backends.py\<close>, \<^verbatim>\<open>images.py\<close>, \<^verbatim>\<open>resolution.py\<close> of
  \<^verbatim>\<open>sdcm/utils/trigger_matrix\<close>).

  The image lookups of the clouds are parameters: each returns the tags (labels, rows) of the images
  it found, newest first, or fails.  So is \<open>json\<close>, which maps a text to the items of the JSON list it
  denotes, as \<^verbatim>\<open>str\<close> writes them, if it is one.
\<close>

section \<open>Backends and regions\<close>

definition valid_image_backends :: "string list" where
  "valid_image_backends = [''aws'', ''gce'', ''azure'', ''oci'']"

definition regional_backends :: "string list" where
  "regional_backends = [''aws'', ''azure'', ''oci'']"

abbreviation default_aws_region :: string where
  "default_aws_region \<equiv> ''eu-west-1''"

abbreviation default_azure_region :: string where
  "default_azure_region \<equiv> ''eastus''"

text \<open>\<^verbatim>\<open>[part for part in re.split(r"[,\s]+", value) if part]\<close>\<close>

definition split_tokens :: "string \<Rightarrow> string list" where
  "split_tokens s = split_ws (map (\<lambda>c. if c = CHR '','' then CHR '' '' else c) s)"

type_synonym json_reader = "string \<Rightarrow> string list option"

definition split_regions :: "json_reader \<Rightarrow> string \<Rightarrow> string list" where
  "split_regions json region =
     (let value = strip region in
      if value = [] then []
      else if startswith value ''['' then
        (case json value of
           Some items \<Rightarrow> filter (\<lambda>i. i \<noteq> []) (map strip items)
         | None \<Rightarrow> split_tokens value)
      else split_tokens value)"

definition backend_region :: "json_reader \<Rightarrow> string \<Rightarrow> string \<Rightarrow> string" where
  "backend_region json backend region =
     (if backend \<notin> set regional_backends then []
      else (let regions = split_regions json region in
        if regions = [] then
          (if backend = ''aws'' then default_aws_region else if backend = ''azure'' then default_azure_region else [])
        else join '','' regions))"

datatype vm_arch = X86 | ARM

definition vm_arch_of :: "string \<Rightarrow> vm_arch" where
  "vm_arch_of arch = (if arch = ''aarch64'' then ARM else X86)"

definition vmarch_to_aws :: "vm_arch \<Rightarrow> string" where
  "vmarch_to_aws a = (case a of X86 \<Rightarrow> ''x86_64'' | ARM \<Rightarrow> ''arm64'')"

definition aws_arch :: "string \<Rightarrow> string" where
  "aws_arch arch = vmarch_to_aws (vm_arch_of arch)"

section \<open>Image lookups\<close>

type_synonym 'a lookup = "string + 'a"

record image_api =
  ia_branched_ami :: "string \<Rightarrow> string \<Rightarrow> string \<Rightarrow> string dict list lookup"
  ia_branched_gce :: "string \<Rightarrow> vm_arch \<Rightarrow> string dict list lookup"
  ia_azure :: "string \<Rightarrow> string \<Rightarrow> vm_arch \<Rightarrow> string dict list lookup"
  ia_branched_oci :: "string \<Rightarrow> string option \<Rightarrow> vm_arch \<Rightarrow> string list lookup"
  ia_ami_versions :: "string \<Rightarrow> string \<Rightarrow> string option \<Rightarrow> string dict list lookup"
  ia_gce_versions :: "string \<Rightarrow> vm_arch \<Rightarrow> string dict list lookup"
  ia_oci_versions :: "string \<Rightarrow> string option \<Rightarrow> vm_arch \<Rightarrow> string list lookup"
  ia_ami_tags :: "string \<Rightarrow> string \<Rightarrow> string dict lookup"
  ia_gce_tags :: "string \<Rightarrow> string dict lookup"
  ia_oci_tags :: "string \<Rightarrow> string \<Rightarrow> string dict lookup"
  ia_azure_tags :: "string \<Rightarrow> string dict lookup"
  ia_supported_lines :: "string list"

text \<open>A missing value and an empty one are both falsy: the lookups return the empty string.\<close>

definition get_tag :: "string \<Rightarrow> string dict \<Rightarrow> string" where
  "get_tag key tags = (case map_of tags key of Some v \<Rightarrow> v | None \<Rightarrow> [])"

fun extract_version_from_tags :: "string dict \<Rightarrow> string list \<Rightarrow> string" where
  "extract_version_from_tags tags [] = []"
| "extract_version_from_tags tags (key # keys) =
     (if get_tag key tags \<noteq> [] then get_tag key tags else extract_version_from_tags tags keys)"

definition default_tag_keys :: "string list" where
  "default_tag_keys = [''scylla_version'', ''ScyllaVersion'']"

definition opt_region :: "string \<Rightarrow> string option" where
  "opt_region r = (if r = [] then None else Some r)"

definition resolve_via_ami :: "image_api \<Rightarrow> string \<Rightarrow> string \<Rightarrow> string \<Rightarrow> string" where
  "resolve_via_ami api v region arch = (case ia_branched_ami api v region (aws_arch arch) of
       Inr (tags # _) \<Rightarrow> get_tag ''scylla_version'' tags | _ \<Rightarrow> [])"

definition resolve_via_gce :: "image_api \<Rightarrow> string \<Rightarrow> string \<Rightarrow> string" where
  "resolve_via_gce api v arch = (case ia_branched_gce api v (vm_arch_of arch) of
       Inr (ls # _) \<Rightarrow>
         (let label = get_tag ''scylla_version'' ls in if label = [] then [] else gce_label_to_version label)
     | _ \<Rightarrow> [])"

definition resolve_via_azure :: "image_api \<Rightarrow> string \<Rightarrow> string \<Rightarrow> string \<Rightarrow> string" where
  "resolve_via_azure api v region arch = (case ia_azure api v region (vm_arch_of arch) of
       Inr (tags # _) \<Rightarrow> extract_version_from_tags tags default_tag_keys | _ \<Rightarrow> [])"

definition resolve_via_oci :: "image_api \<Rightarrow> string \<Rightarrow> string \<Rightarrow> string \<Rightarrow> string" where
  "resolve_via_oci api v region arch = (case ia_branched_oci api v (opt_region region) (vm_arch_of arch) of
       Inr (version # _) \<Rightarrow> if version \<noteq> ''N/A'' then version else [] | _ \<Rightarrow> [])"

definition first_region :: "json_reader \<Rightarrow> string \<Rightarrow> string" where
  "first_region json region = (case split_regions json region of r # _ \<Rightarrow> r | [] \<Rightarrow> [])"

definition resolve_latest_version_for_backend ::
    "image_api \<Rightarrow> json_reader \<Rightarrow> string \<Rightarrow> string \<Rightarrow> string \<Rightarrow> string \<Rightarrow> string" where
  "resolve_latest_version_for_backend api json v backend region arch =
     (let bv = as_branch_qualifier v; r = first_region json region in
      if backend = ''aws'' then resolve_via_ami api bv r arch
      else if backend = ''gce'' then resolve_via_gce api bv arch
      else if backend = ''azure'' then resolve_via_azure api bv r arch
      else if backend = ''oci'' then resolve_via_oci api bv r arch
      else [])"

definition found :: "'a list lookup \<Rightarrow> bool" where
  "found l = (case l of Inl _ \<Rightarrow> False | Inr xs \<Rightarrow> xs \<noteq> [])"

definition version_exists_in_region :: "image_api \<Rightarrow> string \<Rightarrow> string \<Rightarrow> string \<Rightarrow> string \<Rightarrow> bool" where
  "version_exists_in_region api v backend region arch =
     (if backend = ''aws'' then found (ia_ami_versions api v region (Some (aws_arch arch)))
      else if backend = ''gce'' then found (ia_gce_versions api v (vm_arch_of arch))
      else if backend = ''azure'' then found (ia_azure api v region (vm_arch_of arch))
      else if backend = ''oci'' then found (ia_oci_versions api v (opt_region region) (vm_arch_of arch))
      else True)"

definition version_exists_for_backend ::
    "image_api \<Rightarrow> json_reader \<Rightarrow> string \<Rightarrow> string \<Rightarrow> string \<Rightarrow> string \<Rightarrow> bool" where
  "version_exists_for_backend api json v backend region arch =
     (let rs = split_regions json (backend_region json backend region)
      in list_all (\<lambda>r. version_exists_in_region api v backend r arch) (if rs = [] then [[]] else rs))"

section \<open>Versions of given images\<close>

definition resolve_version_from_ami :: "image_api \<Rightarrow> string \<Rightarrow> string \<Rightarrow> string" where
  "resolve_version_from_ami api ami region = (case ia_ami_tags api ami region of
       Inl _ \<Rightarrow> [] | Inr tags \<Rightarrow> extract_version_from_tags tags default_tag_keys)"

definition resolve_version_from_gce_image :: "image_api \<Rightarrow> string \<Rightarrow> string" where
  "resolve_version_from_gce_image api img = (case ia_gce_tags api img of
       Inl _ \<Rightarrow> []
     | Inr ls \<Rightarrow> (let label = extract_version_from_tags ls [''scylla_version''] in
         if label = [] then [] else replace_str ''-'' ''.'' label))"

definition resolve_version_from_oci_image :: "image_api \<Rightarrow> string \<Rightarrow> string option \<Rightarrow> string" where
  "resolve_version_from_oci_image api img region =
     (case ia_oci_tags api (case region of Some r \<Rightarrow> r | None \<Rightarrow> []) img of
        Inl _ \<Rightarrow> [] | Inr tags \<Rightarrow> extract_version_from_tags tags [''scylla_version''])"

definition resolve_version_from_azure_image :: "image_api \<Rightarrow> string \<Rightarrow> string" where
  "resolve_version_from_azure_image api img = (case ia_azure_tags api img of
       Inl _ \<Rightarrow> [] | Inr tags \<Rightarrow> extract_version_from_tags tags [''scylla_version''])"

record image_params =
  ip_ami :: "string option"
  ip_gce :: "string option"
  ip_azure :: "string option"
  ip_oci :: "string option"

definition resolve_scylla_version_from_image :: "image_api \<Rightarrow> image_params \<Rightarrow> string option \<Rightarrow> trigger_error + string" where
  "resolve_scylla_version_from_image api ip region =
     (let from_ami = (if given (ip_ami ip)
            then resolve_version_from_ami api (the (ip_ami ip)) (if given region then the region else default_aws_region) else []);
          from_gce = (if given (ip_gce ip) then resolve_version_from_gce_image api (the (ip_gce ip)) else []);
          from_oci = (if given (ip_oci ip) then resolve_version_from_oci_image api (the (ip_oci ip)) region else []);
          from_azure = (if given (ip_azure ip) then resolve_version_from_azure_image api (the (ip_azure ip)) else [])
      in case filter (\<lambda>v. v \<noteq> []) [from_ami, from_gce, from_oci, from_azure] of
           v # _ \<Rightarrow> Inr v
         | [] \<Rightarrow> Inl (CannotResolve [] ''images''))"

definition arch_from_image_name :: "string \<Rightarrow> string" where
  "arch_from_image_name name =
     (let n = lower name in
      if contains ''aarch64'' n \<or> contains ''arm64'' n then ''aarch64''
      else if contains ''x86_64'' n \<or> contains ''x86-64'' n then ''x86_64''
      else [])"

text \<open>\<open>ami_arch\<close> is what EC2 reports for an AMI in a region, the empty string when it cannot be read.\<close>

definition resolve_image_architecture :: "(string \<Rightarrow> string option \<Rightarrow> string) \<Rightarrow> image_params \<Rightarrow> string option \<Rightarrow> string" where
  "resolve_image_architecture ami_arch ip region =
     (let archs = [if given (ip_ami ip) then ami_arch (the (ip_ami ip)) region else [],
                   if given (ip_gce ip) then arch_from_image_name (the (ip_gce ip)) else [],
                   if given (ip_azure ip) then arch_from_image_name (the (ip_azure ip)) else [],
                   if given (ip_oci ip) then arch_from_image_name (the (ip_oci ip)) else []]
      in case filter (\<lambda>a. a \<noteq> []) archs of a # _ \<Rightarrow> a | [] \<Rightarrow> [])"

section \<open>Released patches\<close>

definition nat_of_digits :: "string \<Rightarrow> nat" where
  "nat_of_digits s = foldl (\<lambda>n c. 10 * n + (of_char c - 48)) 0 s"

text \<open>\<^verbatim>\<open>re.match(r"^(\d+)\.(\d+)\.(\d+)-", v)\<close>: the three groups.\<close>

definition release_groups :: "string \<Rightarrow> (string \<times> string \<times> string) option" where
  "release_groups v =
     (let ma = takeWhile is_dec_digit v; r1 = drop (length ma) v;
          mi = takeWhile is_dec_digit (tl r1); r2 = drop (length mi) (tl r1);
          pa = takeWhile is_dec_digit (tl r2); r3 = drop (length pa) (tl r2)
      in if ma \<noteq> [] \<and> take 1 r1 = ''.'' \<and> mi \<noteq> [] \<and> take 1 r2 = ''.'' \<and> pa \<noteq> [] \<and> take 1 r3 = ''-''
         then Some (ma, mi, pa) else None)"

definition releases_of :: "string \<Rightarrow> string dict list \<Rightarrow> (nat \<times> nat \<times> nat) list" where
  "releases_of line amis = List.map_filter (\<lambda>tags.
     case release_groups (get_tag ''scylla_version'' tags) of
       Some (ma, mi, pa) \<Rightarrow>
         if ma @ ''.'' @ mi = line then Some (nat_of_digits ma, nat_of_digits mi, nat_of_digits pa) else None
     | None \<Rightarrow> None) amis"

definition latest_release_of_line :: "image_api \<Rightarrow> string \<Rightarrow> string \<Rightarrow> trigger_error + string" where
  "latest_release_of_line api line region = (case ia_ami_versions api line region None of
       Inl e \<Rightarrow> Inl (CloudError e)
     | Inr amis \<Rightarrow> (case releases_of line amis of
           [] \<Rightarrow> Inr []
         | r # rs \<Rightarrow> (case foldl max r rs of (ma, mi, pa) \<Rightarrow>
               Inr (show_nat ma @ ''.'' @ show_nat mi @ ''.'' @ show_nat pa))))"

definition latest_release :: "image_api \<Rightarrow> json_reader \<Rightarrow> string option \<Rightarrow> string \<Rightarrow> trigger_error + string" where
  "latest_release api json region line =
     (case (if given region then split_regions json (the region) else [default_aws_region]) of
        [] \<Rightarrow> Inl (CloudError ''list index out of range'')
      | lookup_region # _ \<Rightarrow> (case latest_release_of_line api line lookup_region of
            Inl e \<Rightarrow> Inl e
          | Inr release \<Rightarrow> if release = [] then Inl (NoReleasedImage line lookup_region) else Inr release))"

text \<open>A list comprehension whose body may raise.\<close>

fun map_result :: "('a \<Rightarrow> 'e + 'b) \<Rightarrow> 'a list \<Rightarrow> 'e + 'b list" where
  "map_result f [] = Inr []"
| "map_result f (x # xs) = (case f x of
       Inl e \<Rightarrow> Inl e
     | Inr y \<Rightarrow> (case map_result f xs of Inl e \<Rightarrow> Inl e | Inr ys \<Rightarrow> Inr (y # ys)))"

definition supported_releases :: "image_api \<Rightarrow> json_reader \<Rightarrow> string option \<Rightarrow> trigger_error + string list" where
  "supported_releases api json region =
     (if ia_supported_lines api = [] then Inl NoSupportedVersions
      else map_result (latest_release api json region) (ia_supported_lines api))"

definition releases_of_lines :: "image_api \<Rightarrow> json_reader \<Rightarrow> string option \<Rightarrow> string list \<Rightarrow> trigger_error + string list" where
  "releases_of_lines api json region versions =
     map_result (\<lambda>v. if match_all release_line_re v then latest_release api json region v else Inr v) versions"

text \<open>\<^verbatim>\<open>re.match(r"^(?:branch-)?(\d+\.\d+)(?:[.:~-]|$)", version)\<close>: the group.\<close>

definition line_of_version :: "string \<Rightarrow> string option" where
  "line_of_version v =
     (let w = (if startswith v ''branch-'' then drop 7 v else v);
          ma = takeWhile is_dec_digit w; r1 = drop (length ma) w;
          mi = takeWhile is_dec_digit (tl r1); r2 = drop (length mi) (tl r1)
      in if ma \<noteq> [] \<and> take 1 r1 = ''.'' \<and> mi \<noteq> [] \<and>
            (r2 = [] \<or> r2 = [CHR 0x0A] \<or> (\<exists>c\<in>set ''.:~-''. take 1 r2 = [c]))
         then Some (ma @ ''.'' @ mi) else None)"

definition check_only_supported_versions :: "image_api \<Rightarrow> string list \<Rightarrow> trigger_error + unit" where
  "check_only_supported_versions api versions =
     (let unsupported = filter (\<lambda>v. case line_of_version v of
            None \<Rightarrow> True | Some line \<Rightarrow> line \<notin> set (ia_supported_lines api)) versions
      in if unsupported \<noteq> [] then Inl (UnsupportedVersions unsupported) else Inr ())"

definition supported_only_versions :: "image_api \<Rightarrow> json_reader \<Rightarrow> string \<Rightarrow> string option \<Rightarrow> trigger_error + string list" where
  "supported_only_versions api json v region =
     (let versions = split_tokens (strip v) in
      if versions = [] then supported_releases api json region
      else case check_only_supported_versions api versions of
        Inl e \<Rightarrow> Inl e
      | Inr _ \<Rightarrow> releases_of_lines api json region versions)"

definition resolve_to_full_version ::
    "image_api \<Rightarrow> json_reader \<Rightarrow> string \<Rightarrow> string \<Rightarrow> string \<Rightarrow> string \<Rightarrow> trigger_error + string" where
  "resolve_to_full_version api json v region backend arch =
     (if is_full_version_tag v then Inr v
      else if match_all release_version_re v then Inr v
      else (let latest = (if is_resolvable_partial_version v
              then resolve_latest_version_for_backend api json v backend (backend_region json backend region) arch else [])
            in if latest \<noteq> [] then Inr latest else Inl (CannotResolve v backend)))"

section \<open>Versions for targets\<close>

text \<open>A target is a backend, a region and an architecture; they are ordered lexicographically.\<close>

type_synonym target = "string \<times> string \<times> string"

definition jstring :: "jval option \<Rightarrow> string" where
  "jstring v = (case v of Some (JStr s) \<Rightarrow> s | _ \<Rightarrow> [])"

definition target_for_job :: "json_reader \<Rightarrow> job_config \<Rightarrow> jval dict \<Rightarrow> jval option \<Rightarrow> target" where
  "target_for_job json job dflt region_override =
     (let own = jstring (map_of (jc_params job) ''region'');
          cli = jstring region_override;
          region = (if own \<noteq> [] then own else if cli \<noteq> [] then cli else jstring (map_of dflt ''region''))
      in (jc_backend job, backend_region json (jc_backend job) region, job_arch job))"

definition job_uses_scylla_version :: "job_config \<Rightarrow> jval dict \<Rightarrow> jval dict \<Rightarrow> bool" where
  "job_uses_scylla_version job dflt ov =
     (let merged = dict_update (dict_update dflt (jc_params job)) (given_overrides ov) in
      if is_rolling_upgrade merged then False
      else \<not> (case map_of merged ''unified_package'' of Some v \<Rightarrow> jtruthy v | None \<Rightarrow> False))"

datatype reason = NotPublished string | NotInEveryRegion string | NoImageFor string

definition version_resolution_strategies :: "string list" where
  "version_resolution_strategies = [''per-backend'', ''common'', ''aws-strict'']"

definition published :: "image_api \<Rightarrow> json_reader \<Rightarrow> string \<Rightarrow> target \<Rightarrow> bool" where
  "published api json v t = (case t of (backend, region, arch) \<Rightarrow> version_exists_for_backend api json v backend region arch)"

definition latest_for :: "image_api \<Rightarrow> json_reader \<Rightarrow> string \<Rightarrow> target \<Rightarrow> string" where
  "latest_for api json v t = (case t of (backend, region, arch) \<Rightarrow> resolve_latest_version_for_backend api json v backend region arch)"

definition per_backend_version :: "image_api \<Rightarrow> json_reader \<Rightarrow> string \<Rightarrow> string \<Rightarrow> target \<Rightarrow> reason + string" where
  "per_backend_version api json original reference t = (case t of (backend, region, arch) \<Rightarrow>
     (let resolvable = is_resolvable_partial_version original in
      if backend \<notin> set valid_image_backends then Inr (if \<not> resolvable then reference else original)
      else if \<not> resolvable then (if published api json reference t then Inr reference else Inl (NotPublished reference))
      else (let version = latest_for api json original t in
        if version = [] then Inl (NoImageFor original)
        else if list_ex (\<lambda>other. \<not> version_exists_in_region api version backend other arch) (tl (split_regions json region))
        then Inl (NotInEveryRegion version)
        else Inr version)))"

definition strict_version :: "image_api \<Rightarrow> json_reader \<Rightarrow> string \<Rightarrow> target \<Rightarrow> reason + string" where
  "strict_version api json reference t = (if published api json reference t then Inr reference else Inl (NotPublished reference))"

type_synonym choice = "(target \<times> string) list \<times> (target \<times> reason) list"

definition choose_all :: "(target \<Rightarrow> reason + string) \<Rightarrow> target list \<Rightarrow> choice" where
  "choose_all f targets = foldl (\<lambda>(vs, un) t. case f t of
       Inr v \<Rightarrow> (AList.update t v vs, un)
     | Inl r \<Rightarrow> (vs, AList.update t r un)) ([], []) targets"

text \<open>\<^verbatim>\<open>candidates.sort(key=..., reverse=True)\<close> keeps the order of equal dates.\<close>

definition newest_first :: "string list \<Rightarrow> string list" where
  "newest_first vs = rev (sort_key version_build_date (rev vs))"

definition common_candidates :: "image_api \<Rightarrow> json_reader \<Rightarrow> string \<Rightarrow> string \<Rightarrow> target list \<Rightarrow> string list" where
  "common_candidates api json original reference targets =
     (if is_resolvable_partial_version original then
        newest_first (foldl (\<lambda>cs t.
          if fst t \<notin> set valid_image_backends then cs
          else (let v = latest_for api json original t in if v \<noteq> [] then append_new v cs else cs)) [] targets)
      else if reference \<noteq> [] then [reference] else [])"

definition common_version :: "image_api \<Rightarrow> json_reader \<Rightarrow> string \<Rightarrow> string \<Rightarrow> target list \<Rightarrow> trigger_error + choice" where
  "common_version api json original reference targets =
     (let candidates = common_candidates api json original reference targets in
      if candidates = [] then Inl (NoBuildOnAny original)
      else case find (\<lambda>c. list_all (published api json c) targets) candidates of
        Some c \<Rightarrow> Inr (foldl (\<lambda>vs t. AList.update t c vs) [] targets, [])
      | None \<Rightarrow> Inl (NoCommonBuild original candidates))"

definition resolve_versions_for_targets ::
    "image_api \<Rightarrow> json_reader \<Rightarrow> string \<Rightarrow> string \<Rightarrow> target list \<Rightarrow> string \<Rightarrow> trigger_error + choice" where
  "resolve_versions_for_targets api json original reference0 targets strategy =
     (if strategy \<notin> set version_resolution_strategies then Inl (UnknownStrategy strategy)
      else (let reference = (if reference0 \<noteq> [] then reference0 else original) in
        if strategy = ''per-backend'' then Inr (choose_all (per_backend_version api json original reference) targets)
        else if strategy = ''aws-strict'' then Inr (choose_all (strict_version api json reference) targets)
        else common_version api json original reference targets))"

section \<open>What the strategies guarantee\<close>

lemma choose_all_lookup:
  assumes "choose_all f targets = (vs, un)"
  shows "map_of vs t = (if t \<in> set targets then (case f t of Inr v \<Rightarrow> Some v | Inl _ \<Rightarrow> None) else None)"
    and "map_of un t = (if t \<in> set targets then (case f t of Inl r \<Rightarrow> Some r | Inr _ \<Rightarrow> None) else None)"
proof -
  let ?step = "\<lambda>(vs, un) t. case f t of Inr v \<Rightarrow> (AList.update t v vs, un) | Inl r \<Rightarrow> (vs, AList.update t r un)"
  have "foldl ?step (vs0, un0) targets = (vs, un) \<Longrightarrow>
      map_of vs t = (if t \<in> set targets then (case f t of Inr v \<Rightarrow> Some v | Inl _ \<Rightarrow> map_of vs0 t) else map_of vs0 t) \<and>
      map_of un t = (if t \<in> set targets then (case f t of Inl r \<Rightarrow> Some r | Inr _ \<Rightarrow> map_of un0 t) else map_of un0 t)"
    for vs0 un0
  proof (induction targets arbitrary: vs0 un0)
    case (Cons x targets)
    then show ?case by (cases "f x"; cases "f t"; cases "x = t") auto
  qed simp
  from this[of "[]" "[]"] assms show
    "map_of vs t = (if t \<in> set targets then (case f t of Inr v \<Rightarrow> Some v | Inl _ \<Rightarrow> None) else None)"
    "map_of un t = (if t \<in> set targets then (case f t of Inl r \<Rightarrow> Some r | Inr _ \<Rightarrow> None) else None)"
    unfolding choose_all_def by (auto split: sum.splits)
qed

lemma const_lookup:
  "map_of (foldl (\<lambda>vs t. AList.update t c vs) vs0 targets) t = (if t \<in> set targets then Some c else map_of vs0 t)"
  by (induction targets arbitrary: vs0) auto

lemma newest_first_set [simp]: "set (newest_first vs) = set vs"
  by (simp add: newest_first_def)

lemma newest_first_sorted: "sorted_wrt (\<lambda>a b. version_build_date b \<le> version_build_date a) (newest_first vs)"
  using sorted_sort_key[of version_build_date "rev vs"] unfolding newest_first_def sorted_wrt_rev sorted_map .

lemma find_newest:
  assumes "find P (newest_first vs) = Some c" "v \<in> set vs" "P v"
  shows "version_build_date v \<le> version_build_date c"
proof -
  let ?s = "newest_first vs"
  from assms(1) obtain i where i: "i < length ?s" "c = ?s ! i" "\<forall>j<i. \<not> P (?s ! j)"
    by (auto simp: find_Some_iff)
  from assms(2) obtain j where j: "j < length ?s" "v = ?s ! j" by (metis in_set_conv_nth newest_first_set)
  with i assms(3) have "i \<le> j" by (metis not_le)
  show ?thesis
  proof (cases "i = j")
    case False
    with \<open>i \<le> j\<close> j newest_first_sorted[of vs] show ?thesis unfolding i(2) j(2) by (simp add: sorted_wrt_iff_nth_less)
  qed (use i j in simp)
qed

lemma common_version_lookup:
  assumes "common_version api json original reference targets = Inr (vs, un)"
  shows "\<exists>c. find (\<lambda>c. list_all (published api json c) targets) (common_candidates api json original reference targets) = Some c \<and>
    un = [] \<and> (\<forall>t. map_of vs t = (if t \<in> set targets then Some c else None))"
  using assms by (auto simp: common_version_def Let_def const_lookup split: if_splits option.splits)

lemma common_candidates_set:
  assumes "is_resolvable_partial_version original"
  shows "set (common_candidates api json original reference targets) =
    latest_for api json original ` set (filter (\<lambda>t. fst t \<in> set valid_image_backends) targets) - {[]}"
proof -
  let ?step = "\<lambda>cs t. if fst t \<notin> set valid_image_backends then cs
    else (let v = latest_for api json original t in if v \<noteq> [] then append_new v cs else cs)"
  have "set (foldl ?step cs0 targets) = set cs0 \<union>
      (latest_for api json original ` set (filter (\<lambda>t. fst t \<in> set valid_image_backends) targets) - {[]})" for cs0
  proof (induction targets arbitrary: cs0)
    case (Cons x targets)
    let ?L = "latest_for api json original ` set (filter (\<lambda>t. fst t \<in> set valid_image_backends) targets) - {[]}"
    have "set (foldl ?step cs0 (x # targets)) = set (?step cs0 x) \<union> ?L" by (simp only: foldl_Cons Cons.IH)
    moreover have "set (?step cs0 x) = set cs0 \<union>
        (if fst x \<in> set valid_image_backends then {latest_for api json original x} - {[]} else {})"
      by (simp add: Let_def)
    ultimately show ?case by auto
  qed simp
  then show ?thesis using assms by (simp add: common_candidates_def)
qed

section \<open>Properties\<close>


text \<open>C33: the \<^verbatim>\<open>common\<close> strategy gives every target one and the same build, published on all of them; when the request
  names a line, it is the newest by build date of the targets' own newest builds that are published everywhere.\<close>

theorem common_version_newest:
  assumes "resolve_versions_for_targets api json original reference targets ''common'' = Inr (vs, un)"
  shows "\<exists>c. un = [] \<and> (\<forall>t\<in>set targets. map_of vs t = Some c \<and> published api json c t) \<and>
    (is_resolvable_partial_version original \<longrightarrow>
       (\<forall>t\<in>set targets. fst t \<in> set valid_image_backends \<and> latest_for api json original t \<noteq> [] \<and>
          list_all (published api json (latest_for api json original t)) targets \<longrightarrow>
          version_build_date (latest_for api json original t) \<le> version_build_date c))"
proof -
  let ?ref = "if reference \<noteq> [] then reference else original"
  from assms have "common_version api json original ?ref targets = Inr (vs, un)"
    by (simp add: resolve_versions_for_targets_def version_resolution_strategies_def Let_def split: if_splits)
  then obtain c where c: "find (\<lambda>c. list_all (published api json c) targets) (common_candidates api json original ?ref targets) = Some c"
    "un = []" "\<forall>t. map_of vs t = (if t \<in> set targets then Some c else None)" using common_version_lookup by blast
  from c(1) have "list_all (published api json c) targets" by (auto simp: find_Some_iff)
  with c(2,3) have "un = [] \<and> (\<forall>t\<in>set targets. map_of vs t = Some c \<and> published api json c t)"
    unfolding list_all_iff by metis
  moreover have "version_build_date (latest_for api json original t) \<le> version_build_date c"
    if "is_resolvable_partial_version original" "t \<in> set targets" "fst t \<in> set valid_image_backends"
      "latest_for api json original t \<noteq> []" "list_all (published api json (latest_for api json original t)) targets" for t
  proof -
    from that(1) obtain cs where cs: "common_candidates api json original ?ref targets = newest_first cs"
      by (simp add: common_candidates_def)
    have "latest_for api json original t \<in> set (common_candidates api json original ?ref targets)"
      unfolding common_candidates_set[OF that(1)] using that by simp
    with find_newest[of "\<lambda>c. list_all (published api json c) targets" cs c] c(1) that(5) show ?thesis by (simp add: cs)
  qed
  ultimately show ?thesis by blast
qed

text \<open>Two clouds: the newest build of AWS has not reached GCE yet.\<close>

definition sample_images :: image_api where
  "sample_images = \<lparr>
     ia_branched_ami = (\<lambda>_ _ _. Inr [[(''scylla_version'', ''2026.4.0~dev-0.20260805.bbb'')]]),
     ia_branched_gce = (\<lambda>_ _. Inr [[(''scylla_version'', ''2026-4-0-dev-0-20260804-aaa'')]]),
     ia_azure = (\<lambda>_ _ _. Inl ''no credentials''), ia_branched_oci = (\<lambda>_ _ _. Inr []),
     ia_ami_versions = (\<lambda>_ _ _. Inr [[]]),
     ia_gce_versions = (\<lambda>v _. if v = ''2026.4.0~dev-0.20260804.aaa'' then Inr [[]] else Inr []),
     ia_oci_versions = (\<lambda>_ _ _. Inr []), ia_ami_tags = (\<lambda>_ _. Inr []),
     ia_gce_tags = (\<lambda>_. Inr [(''scylla_version'', ''2025-4-10-0-20260609-99f4121cd8e1'')]),
     ia_oci_tags = (\<lambda>_ _. Inr []), ia_azure_tags = (\<lambda>_. Inr []), ia_supported_lines = [''2025.4'', ''2026.1'']\<rparr>"

abbreviation sample_targets :: "target list" where
  "sample_targets \<equiv> [(''aws'', ''eu-west-1'', ''x86_64''), (''gce'', [], ''x86_64'')]"

definition sample_common :: "(target \<times> string) list" where
  "sample_common = [((''aws'', ''eu-west-1'', ''x86_64''), ''2026.4.0~dev-0.20260804.aaa''),
     ((''gce'', [], ''x86_64''), ''2026.4.0~dev-0.20260804.aaa'')]"

lemma sample_common_run:
  "resolve_versions_for_targets sample_images (\<lambda>_. None) ''master:latest'' [] sample_targets ''common'' = Inr (sample_common, [])"
  by code_simp


theorem common_version_newest_witness:
  "resolve_versions_for_targets sample_images (\<lambda>_. None) ''master:latest'' [] sample_targets ''common'' = Inr (sample_common, []) \<and>
   (\<exists>c. \<forall>t\<in>set sample_targets. map_of sample_common t = Some c \<and> published sample_images (\<lambda>_. None) c t)"
proof -
  from common_version_newest[OF sample_common_run] obtain c where
    "\<forall>t\<in>set sample_targets. map_of sample_common t = Some c \<and> published sample_images (\<lambda>_. None) c t"
    by (elim exE conjE)
  then show ?thesis by (intro conjI exI[of _ c] sample_common_run)
qed

text \<open>A release label read back from a given GCE image is not a full version tag: every dash becomes a dot.\<close>

theorem gce_image_version_not_full:
  "resolve_version_from_gce_image sample_images ''some-image'' = ''2025.4.10.0.20260609.99f4121cd8e1'' \<and>
   \<not> is_full_version_tag (resolve_version_from_gce_image sample_images ''some-image'') \<and>
   gce_label_to_version ''2025-4-10-0-20260609-99f4121cd8e1'' = ''2025.4.10-0.20260609.99f4121cd8e1''"
  by code_simp

section \<open>Resolution and parameters agree\<close>

lemma contains_set: "contains p s \<Longrightarrow> set p \<subseteq> set s"
proof (induction p s rule: contains.induct)
  case (2 p c s)
  then show ?case using set_mono_prefix[of p "c # s"] by (auto simp: startswith_prefix)
qed simp

lemma resolve_templates_plain: "CHR ''{'' \<notin> set s \<Longrightarrow> resolve_templates b bid (JStr s) = JStr s"
  using contains_set[of "''{branch}''" s] contains_set[of "''{branch_id}''" s]
  by (auto simp: resolve_templates_def Let_def)

lemma uses_version_not_rolling:
  assumes "job_uses_scylla_version job dflt ov" "distinct (map fst (jc_params job))" "distinct (map fst ov)"
  shows "lower (case merged_value job dflt ov ''rolling_upgrade_test'' of Some x \<Rightarrow> jstr x | None \<Rightarrow> []) \<noteq> ''true''"
proof -
  have "''rolling_upgrade_test'' \<notin> set per_job_location_params" by (simp add: per_job_location_params_def)
  then have "merged_value job dflt ov ''rolling_upgrade_test'' =
      map_of (dict_update (dict_update dflt (jc_params job)) (given_overrides ov)) ''rolling_upgrade_test''"
    using assms(2,3) by (simp add: merged_value_def map_of_dict_update_distinct distinct_given_overrides)
  with assms(1) show ?thesis
    by (simp add: job_uses_scylla_version_def is_rolling_upgrade_def Let_def split: if_splits)
qed

text \<open>A region given as a value: a plain non-empty string.\<close>

definition plain_region :: "jval option \<Rightarrow> bool" where
  "plain_region v \<longleftrightarrow> (\<forall>x. v = Some x \<longrightarrow> (\<exists>s. x = JStr s \<and> s \<noteq> [] \<and> CHR ''{'' \<notin> set s))"

text \<open>for a job that runs the requested version, version resolution and parameter building agree: the job receives
  the version it was resolved to, and the region its images were looked up in is the region it receives (regions
  being plain non-empty strings where they are given).\<close>

theorem target_matches_parameters:
  assumes "job_uses_scylla_version job dflt ov" "distinct (map fst (jc_params job))" "distinct (map fst ov)"
    and "v \<noteq> []" "CHR ''{'' \<notin> set v"
    and "plain_region (map_of (jc_params job) ''region'')" "plain_region (map_of (given_overrides ov) ''region'')"
      "plain_region (map_of dflt ''region'')"
  shows "map_of (build_job_parameters job dflt v ov src) ''scylla_version'' = Some (JStr v) \<and>
    target_for_job json job dflt (map_of (given_overrides ov) ''region'') =
      (jc_backend job,
       backend_region json (jc_backend job) (jstring (map_of (build_job_parameters job dflt v ov src) ''region'')),
       job_arch job)"
proof -
  note look = build_parameters_lookup[OF assms(2,3), of dflt v src]
  note roll = uses_version_not_rolling[OF assms(1-3)]
  have ev: "expected_value job dflt v ov ''scylla_version'' = Some (JStr v)"
    using assms(4) roll by (simp add: expected_value_def Let_def)
  have "map_of (build_job_parameters job dflt v ov src) ''scylla_version'' = Some (JStr v)"
    unfolding look ev using assms(5) by (simp add: Let_def resolve_templates_plain)
  moreover have er: "expected_value job dflt v ov ''region'' =
      (map_of dflt ++ map_of (given_overrides ov) ++ map_of (jc_params job)) ''region''"
    by (simp add: expected_value_def merged_value_def per_job_location_params_def Let_def)
  have "jstring (map_of (build_job_parameters job dflt v ov src) ''region'') =
      jstring ((map_of dflt ++ map_of (given_overrides ov) ++ map_of (jc_params job)) ''region'')"
    unfolding look er using assms(6-8)
    by (auto simp: plain_region_def jstring_def Let_def map_add_def resolve_templates_plain split: option.splits)
  moreover have "target_for_job json job dflt (map_of (given_overrides ov) ''region'') =
      (jc_backend job, backend_region json (jc_backend job)
        (jstring ((map_of dflt ++ map_of (given_overrides ov) ++ map_of (jc_params job)) ''region'')), job_arch job)"
    using assms(6-8) by (auto simp: plain_region_def jstring_def target_for_job_def Let_def map_add_def split: option.splits)
  ultimately show ?thesis by simp
qed

theorem target_matches_parameters_witness:
  "job_uses_scylla_version sample_job [(''region'', JStr ''eu-west-1'')] [(''region'', JStr ''us-east-1'')] \<and>
   map_of (build_job_parameters sample_job [(''region'', JStr ''eu-west-1'')] ''2025.4.3'' [(''region'', JStr ''us-east-1'')] None)
     ''scylla_version'' = Some (JStr ''2025.4.3'')"
proof -
  let ?d = "[(''region'', JStr ''eu-west-1'')]" and ?o = "[(''region'', JStr ''us-east-1'')]"
  have u: "job_uses_scylla_version sample_job ?d ?o" by code_simp
  have d: "distinct (map fst (jc_params sample_job))" "distinct (map fst ?o)" by (simp_all add: sample_job_def)
  have v: "''2025.4.3'' \<noteq> []" "CHR ''{'' \<notin> set ''2025.4.3''" by simp_all
  have r: "plain_region (map_of (jc_params sample_job) ''region'')" "plain_region (map_of (given_overrides ?o) ''region'')"
    "plain_region (map_of ?d ''region'')"
    by (simp_all add: plain_region_def sample_job_def given_overrides_def)
  from target_matches_parameters[OF u d v r, THEN conjunct1] show ?thesis by (rule conjI[OF u])
qed

text \<open>An empty region of the job itself is where the two differ: it is what the job receives, but its images are looked
  up in the region of the defaults.\<close>

theorem empty_region_diverges:
  "target_for_job (\<lambda>_. None) (sample_job\<lparr>jc_params := [(''region'', JStr [])]\<rparr>) [(''region'', JStr ''us-east-1'')] None =
     (''aws'', ''us-east-1'', ''x86_64'') \<and>
   map_of (build_job_parameters (sample_job\<lparr>jc_params := [(''region'', JStr [])]\<rparr>) [(''region'', JStr ''us-east-1'')] ''2025.4.3'' [] None)
     ''region'' = Some (JStr [])"
  by code_simp

end
