(* ===== verification/Jenkins_Client.thy ===== *)
theory Jenkins_Client
  imports Complex_Main Trigger_Resolution "HOL-Library.Multiset"
begin

text \<open>
  The Jenkins client of the trigger matrix (\<^verbatim>\<open>sdcm/utils/trigger_matrix/jenkins_client.py\<close>) and the
  literals of the scripts it runs (\<^verbatim>\<open>groovy.py\<close>).

  Jenkins and the clock are parameters over a state \<open>'w\<close> of the world.  A reply of Jenkins is what
  its JSON says: the executable and cancellation of a queue item, the state of a build, the builds of a
  job, the artifacts of a build; a failed request is an answer of its own.
\<close>

section \<open>Data\<close>

record pending_wait_job =
  pw_job_name :: string
  pw_queue_url :: string
  pw_collect_results :: "string list"
  pw_timeout :: int
  pw_fail_on_error :: bool
  pw_scylla_version :: string

record build_result =
  br_job_name :: string
  br_build_number :: nat
  br_result :: string
  br_artifacts :: "string list"
  br_build_url :: string
  br_scylla_version :: string
  br_description :: string

definition success :: "build_result \<Rightarrow> bool" where
  "success r = (br_result r = ''SUCCESS'')"

record queued_build =
  qb_pending :: pending_wait_job
  qb_queued_since :: rat
  qb_queue_item_gone :: bool

record active_build =
  ab_job_name :: string
  ab_build_number :: nat
  ab_job_url_path :: string
  ab_collect_results :: "string list"
  ab_timeout :: int
  ab_fail_on_error :: bool
  ab_start_time :: rat
  ab_scylla_version :: string

section \<open>Jenkins\<close>

datatype queue_reply = QueueGone | QueueError | QueueEmpty | QueueItem "nat option" bool
datatype builds_reply = BuildsError | Builds "(nat option \<times> nat) list"
datatype build_reply = BuildError | BuildEmpty | BuildInfo "bool option" "string option" "string option"
datatype artifacts_reply = ArtifactsError | ArtifactsEmpty | Artifacts "string list"

record 'w jenkins_api =
  ja_url :: "trigger_error + string"
  ja_now :: "'w \<Rightarrow> rat \<times> 'w"
  ja_sleep :: "rat \<Rightarrow> 'w \<Rightarrow> 'w"
  ja_run_script :: "string \<Rightarrow> jval dict \<Rightarrow> bool \<Rightarrow> 'w \<Rightarrow> string option \<times> 'w"
  ja_queue_item :: "string \<Rightarrow> 'w \<Rightarrow> queue_reply \<times> 'w"
  ja_builds :: "string \<Rightarrow> 'w \<Rightarrow> builds_reply \<times> 'w"
  ja_build :: "string \<Rightarrow> 'w \<Rightarrow> build_reply \<times> 'w"
  ja_artifacts :: "string \<Rightarrow> 'w \<Rightarrow> artifacts_reply \<times> 'w"
  ja_fnmatch :: "string \<Rightarrow> string \<Rightarrow> bool"

section \<open>Triggering\<close>

definition max_trigger_retries :: nat where
  "max_trigger_retries = 3"

definition retry_backoff_base :: nat where
  "retry_backoff_base = 2"

text \<open>
  The \<^verbatim>\<open>for\<close> loop of \<^verbatim>\<open>_run_trigger_script\<close> from \<open>attempt\<close> on.  A script run answers with its output or, for a
  Jenkins exception, \<^const>\<open>None\<close>.
\<close>

function trigger_attempts :: "'w jenkins_api \<Rightarrow> string \<Rightarrow> jval dict \<Rightarrow> bool \<Rightarrow> nat \<Rightarrow> 'w \<Rightarrow> (trigger_error + string) \<times> 'w" where
  "trigger_attempts api job params queue attempt w =
     (if attempt \<ge> max_trigger_retries then (Inl (JenkinsTriggerError job), w)
      else (case ja_run_script api job params queue w of (out, w1) \<Rightarrow>
        (if out \<noteq> None \<and> startswith (the out) ''TRIGGERED:'' then (Inr (strip (drop 10 (the out))), w1)
         else if out \<noteq> None \<and> startswith (the out) ''ERROR:'' then (Inl (JenkinsTriggerError (strip (drop 6 (the out)))), w1)
         else trigger_attempts api job params queue (Suc attempt)
           (if attempt < max_trigger_retries - 1
            then ja_sleep api (of_nat (retry_backoff_base ^ (attempt + 1))) w1 else w1))))"
  by pat_completeness auto
termination
  by (relation "measure (\<lambda>(_, _, _, _, attempt, _). max_trigger_retries - attempt)") auto

declare trigger_attempts.simps [simp del]

definition run_trigger_script :: "'w jenkins_api \<Rightarrow> string \<Rightarrow> jval dict \<Rightarrow> bool \<Rightarrow> 'w \<Rightarrow> (trigger_error + string) \<times> 'w" where
  "run_trigger_script api job params queue w = (case ja_url api of
       Inl e \<Rightarrow> (Inl e, w)
     | Inr _ \<Rightarrow> trigger_attempts api job params queue 0 w)"

text \<open>\<^verbatim>\<open>trigger\<close>: a missing credential propagates, a failed trigger is reported as False.\<close>

definition trigger :: "'w jenkins_api \<Rightarrow> string \<Rightarrow> jval dict \<Rightarrow> bool \<Rightarrow> 'w \<Rightarrow> (trigger_error + bool) \<times> 'w" where
  "trigger api job params dry_run w =
     (if dry_run then (Inr True, w)
      else case ja_url api of
        Inl e \<Rightarrow> (Inl e, w)
      | Inr _ \<Rightarrow> (case run_trigger_script api job params False w of
            (Inl _, w1) \<Rightarrow> (Inr False, w1)
          | (Inr _, w1) \<Rightarrow> (Inr True, w1)))"

definition trigger_with_queue :: "'w jenkins_api \<Rightarrow> string \<Rightarrow> jval dict \<Rightarrow> bool \<Rightarrow> 'w \<Rightarrow> (trigger_error + string) \<times> 'w" where
  "trigger_with_queue api job params dry_run w =
     (if dry_run then (Inr [], w) else run_trigger_script api job params True w)"

section \<open>Builds\<close>

definition job_url_path :: "string \<Rightarrow> string" where
  "job_url_path job = replace_str ''/'' ''/job/'' job"

text \<open>\<^verbatim>\<open>re.search(r"/queue/item/(\d+)/?$", queue_url)\<close>: the queue id.\<close>

definition queue_id_of :: "string \<Rightarrow> nat option" where
  "queue_id_of url =
     (let u0 = (if url \<noteq> [] \<and> last url = CHR 0x0A then butlast url else url);
          u = (if u0 \<noteq> [] \<and> last u0 = CHR ''/'' then butlast u0 else u0);
          d = rev (takeWhile is_dec_digit (rev u))
      in if d \<noteq> [] \<and> endswith (take (length u - length d) u) ''/queue/item/'' then Some (nat_of_digits d) else None)"

definition find_build_by_queue_id :: "'w jenkins_api \<Rightarrow> string \<Rightarrow> nat \<Rightarrow> 'w \<Rightarrow> nat option \<times> 'w" where
  "find_build_by_queue_id api job queue_id w = (case ja_builds api job w of
       (BuildsError, w1) \<Rightarrow> (None, w1)
     | (Builds bs, w1) \<Rightarrow> (map_option snd (find (\<lambda>b. fst b = Some queue_id) bs), w1))"

definition check_build_start :: "'w jenkins_api \<Rightarrow> string \<Rightarrow> string \<Rightarrow> bool \<Rightarrow> 'w \<Rightarrow> (trigger_error + nat option \<times> bool) \<times> 'w" where
  "check_build_start api queue_url job gone w = (case queue_id_of queue_url of
       None \<Rightarrow> (Inl (JenkinsTriggerError ''Not a queue item URL''), w)
     | Some queue_id \<Rightarrow>
         (if gone then (case find_build_by_queue_id api job queue_id w of (n, w1) \<Rightarrow> (Inr (n, True), w1))
          else (case ja_queue_item api queue_url w of
            (QueueGone, w1) \<Rightarrow>
              (if job = [] then (Inl (JenkinsTriggerError ''Queue item is gone''), w1)
               else (case find_build_by_queue_id api job queue_id w1 of (n, w2) \<Rightarrow> (Inr (n, True), w2)))
          | (QueueError, w1) \<Rightarrow> (Inr (None, False), w1)
          | (QueueEmpty, w1) \<Rightarrow> (Inr (None, False), w1)
          | (QueueItem executable cancelled, w1) \<Rightarrow>
              (if executable \<noteq> None \<and> executable \<noteq> Some 0 then (Inr (executable, False), w1)
               else if cancelled then (Inl (JenkinsTriggerError ''Queued build was cancelled''), w1)
               else (Inr (None, False), w1)))))"

definition artifact_filename :: "string \<Rightarrow> string" where
  "artifact_filename rel_path = last (split_on CHR ''/'' rel_path)"

definition collect_artifacts :: "'w jenkins_api \<Rightarrow> string \<Rightarrow> string \<Rightarrow> nat \<Rightarrow> string list \<Rightarrow> 'w \<Rightarrow> string list \<times> 'w" where
  "collect_artifacts api url path n patterns w =
     (if patterns = [] then ([], w)
      else (let build_url = url @ ''/job/'' @ path @ ''/'' @ show_nat n in
        case ja_artifacts api build_url w of
          (ArtifactsError, w1) \<Rightarrow> ([], w1)
        | (ArtifactsEmpty, w1) \<Rightarrow> ([], w1)
        | (Artifacts paths, w1) \<Rightarrow>
            (map (\<lambda>p. build_url @ ''/artifact/'' @ p)
              (filter (\<lambda>p. list_ex (ja_fnmatch api (artifact_filename p)) patterns) paths), w1)))"

section \<open>Waiting\<close>

datatype poll = Started active_build | StillQueued queued_build | Done build_result

definition finish_queued :: "string \<Rightarrow> pending_wait_job \<Rightarrow> string \<Rightarrow> build_result" where
  "finish_queued url p result = \<lparr>br_job_name = pw_job_name p, br_build_number = 0, br_result = result, br_artifacts = [],
     br_build_url = url @ ''/job/'' @ job_url_path (pw_job_name p), br_scylla_version = pw_scylla_version p, br_description = []\<rparr>"

definition start_active :: "pending_wait_job \<Rightarrow> nat \<Rightarrow> rat \<Rightarrow> active_build" where
  "start_active p n t = \<lparr>ab_job_name = pw_job_name p, ab_build_number = n, ab_job_url_path = job_url_path (pw_job_name p),
     ab_collect_results = pw_collect_results p, ab_timeout = pw_timeout p, ab_fail_on_error = pw_fail_on_error p,
     ab_start_time = t, ab_scylla_version = pw_scylla_version p\<rparr>"

definition poll_queued_build :: "'w jenkins_api \<Rightarrow> string \<Rightarrow> queued_build \<Rightarrow> 'w \<Rightarrow> poll \<times> 'w" where
  "poll_queued_build api url q w =
     (let p = qb_pending q in
      case ja_now api w of (t, w1) \<Rightarrow>
        (if t - qb_queued_since q > of_int (pw_timeout p) then (Done (finish_queued url p ''NOT_STARTED''), w1)
         else (case check_build_start api (pw_queue_url p) (pw_job_name p) (qb_queue_item_gone q) w1 of
             (Inl _, w2) \<Rightarrow> (Done (finish_queued url p ''FAILURE''), w2)
           | (Inr (n, gone), w2) \<Rightarrow>
               (if n = None \<or> n = Some 0 then (StillQueued (q\<lparr>qb_queue_item_gone := gone\<rparr>), w2)
                else (case ja_now api w2 of (t2, w3) \<Rightarrow> (Started (start_active p (the n) t2), w3))))))"

definition active_result :: "active_build \<Rightarrow> string \<Rightarrow> string \<Rightarrow> string list \<Rightarrow> string \<Rightarrow> build_result" where
  "active_result b build_url result artifacts description = \<lparr>br_job_name = ab_job_name b, br_build_number = ab_build_number b,
     br_result = result, br_artifacts = artifacts, br_build_url = build_url, br_scylla_version = ab_scylla_version b,
     br_description = description\<rparr>"

definition poll_active_build :: "'w jenkins_api \<Rightarrow> string \<Rightarrow> active_build \<Rightarrow> 'w \<Rightarrow> build_result option \<times> 'w" where
  "poll_active_build api url b w =
     (let build_url = url @ ''/job/'' @ ab_job_url_path b @ ''/'' @ show_nat (ab_build_number b) in
      case ja_now api w of (t, w1) \<Rightarrow>
        (if t - ab_start_time b > of_int (ab_timeout b) then (Some (active_result b build_url ''TIMEOUT'' [] []), w1)
         else (case ja_build api build_url w1 of
             (BuildInfo building result description, w2) \<Rightarrow>
               (if building \<noteq> Some False then (None, w2)
                else (case collect_artifacts api url (ab_job_url_path b) (ab_build_number b) (ab_collect_results b) w2 of
                  (artifacts, w3) \<Rightarrow>
                    (Some (active_result b build_url (case result of Some r \<Rightarrow> r | None \<Rightarrow> ''UNKNOWN'') artifacts
                       (case description of Some d \<Rightarrow> d | None \<Rightarrow> [])), w3)))
           | (_, w2) \<Rightarrow> (None, w2))))"

fun poll_queue :: "'w jenkins_api \<Rightarrow> string \<Rightarrow> queued_build list \<Rightarrow> 'w
    \<Rightarrow> (queued_build list \<times> active_build list \<times> build_result list) \<times> 'w" where
  "poll_queue api url [] w = (([], [], []), w)"
| "poll_queue api url (q # qs) w = (case poll_queued_build api url q w of (p, w1) \<Rightarrow>
     (case poll_queue api url qs w1 of ((still, started, results), w2) \<Rightarrow>
       (case p of
          Started b \<Rightarrow> (still, b # started, results)
        | StillQueued q' \<Rightarrow> (q' # still, started, results)
        | Done r \<Rightarrow> (still, started, r # results), w2)))"

fun poll_active :: "'w jenkins_api \<Rightarrow> string \<Rightarrow> active_build list \<Rightarrow> 'w \<Rightarrow> (active_build list \<times> build_result list) \<times> 'w" where
  "poll_active api url [] w = (([], []), w)"
| "poll_active api url (b # bs) w = (case poll_active_build api url b w of (r, w1) \<Rightarrow>
     (case poll_active api url bs w1 of ((still, results), w2) \<Rightarrow>
       (case r of Some res \<Rightarrow> (still, res # results) | None \<Rightarrow> (b # still, results), w2)))"

text \<open>One cycle of \<^verbatim>\<open>while queued or active_builds\<close>.\<close>

definition wait_cycle :: "'w jenkins_api \<Rightarrow> string \<Rightarrow> rat \<Rightarrow> queued_build list \<Rightarrow> active_build list \<Rightarrow> build_result list \<Rightarrow> 'w
    \<Rightarrow> (queued_build list \<times> active_build list \<times> build_result list) \<times> 'w" where
  "wait_cycle api url poll_interval queued active results w =
     (case poll_queue api url queued w of ((still_queued, started, r1), w1) \<Rightarrow>
       (case poll_active api url (active @ started) w1 of ((still_running, r2), w2) \<Rightarrow>
         ((still_queued, still_running, results @ r1 @ r2),
          if still_queued \<noteq> [] \<or> still_running \<noteq> [] then ja_sleep api poll_interval w2 else w2)))"

partial_function (option) wait_loop :: "'w jenkins_api \<Rightarrow> string \<Rightarrow> rat \<Rightarrow> queued_build list \<Rightarrow> active_build list \<Rightarrow> build_result list \<Rightarrow> 'w
    \<Rightarrow> (build_result list \<times> 'w) option" where
  "wait_loop api url poll_interval queued active results w =
     (if queued = [] \<and> active = [] then Some (results, w)
      else (case wait_cycle api url poll_interval queued active results w of
        ((queued', active', results'), w') \<Rightarrow> wait_loop api url poll_interval queued' active' results' w'))"

definition build_key :: "build_result \<Rightarrow> string \<times> string" where
  "build_key r = (br_job_name r, br_scylla_version r)"

definition pending_key :: "pending_wait_job \<Rightarrow> string \<times> string" where
  "pending_key p = (pw_job_name p, pw_scylla_version p)"

definition in_trigger_order :: "build_result list \<Rightarrow> pending_wait_job list \<Rightarrow> build_result list" where
  "in_trigger_order results pending =
     (let order = foldl (\<lambda>m (i, p). AList.update (pending_key p) i m) [] (enumerate 0 pending)
      in sort_key (\<lambda>r. case map_of order (build_key r) of Some i \<Rightarrow> i | None \<Rightarrow> length order) results)"

fun enqueue_all :: "'w jenkins_api \<Rightarrow> pending_wait_job list \<Rightarrow> 'w \<Rightarrow> queued_build list \<times> 'w" where
  "enqueue_all api [] w = ([], w)"
| "enqueue_all api (p # ps) w = (case ja_now api w of (t, w1) \<Rightarrow>
     (case enqueue_all api ps w1 of (qs, w2) \<Rightarrow>
       (\<lparr>qb_pending = p, qb_queued_since = t, qb_queue_item_gone = False\<rparr> # qs, w2)))"

definition dry_result :: "pending_wait_job \<Rightarrow> build_result" where
  "dry_result p = \<lparr>br_job_name = pw_job_name p, br_build_number = 0, br_result = ''SUCCESS'', br_artifacts = [], br_build_url = [],
     br_scylla_version = pw_scylla_version p, br_description = []\<rparr>"

definition wait_for_builds :: "'w jenkins_api \<Rightarrow> pending_wait_job list \<Rightarrow> bool \<Rightarrow> rat \<Rightarrow> 'w
    \<Rightarrow> ((trigger_error + build_result list) \<times> 'w) option" where
  "wait_for_builds api pending dry_run poll_interval w =
     (if dry_run \<or> pending = [] then Some (Inr (map dry_result pending), w)
      else case ja_url api of
        Inl e \<Rightarrow> Some (Inl e, w)
      | Inr url \<Rightarrow> (case enqueue_all api pending w of (queued, w1) \<Rightarrow>
          map_option (\<lambda>(results, w2). (Inr (in_trigger_order results pending), w2))
            (wait_loop api url poll_interval queued [] [] w1)))"

section \<open>No build is lost\<close>

definition queued_key :: "queued_build \<Rightarrow> string \<times> string" where
  "queued_key q = pending_key (qb_pending q)"

definition active_key :: "active_build \<Rightarrow> string \<times> string" where
  "active_key b = (ab_job_name b, ab_scylla_version b)"

definition poll_key :: "poll \<Rightarrow> string \<times> string" where
  "poll_key p = (case p of Started b \<Rightarrow> active_key b | StillQueued q \<Rightarrow> queued_key q | Done r \<Rightarrow> build_key r)"

lemma key_simps [simp]:
  "build_key (finish_queued url p r) = pending_key p"
  "active_key (start_active p n t) = pending_key p"
  "queued_key (q\<lparr>qb_queue_item_gone := g\<rparr>) = queued_key q"
  "build_key (active_result b u r a d) = active_key b"
  "build_key (dry_result p) = pending_key p"
  by (simp_all add: build_key_def finish_queued_def pending_key_def active_key_def start_active_def queued_key_def
      active_result_def dry_result_def)

lemma poll_queued_key: "poll_queued_build api url q w = (p, w') \<Longrightarrow> poll_key p = queued_key q"
  by (auto simp: poll_queued_build_def Let_def poll_key_def queued_key_def[of q] split: prod.splits sum.splits if_splits)

lemma poll_active_key: "poll_active_build api url b w = (Some r, w') \<Longrightarrow> build_key r = active_key b"
  by (auto simp: poll_active_build_def Let_def split: prod.splits if_splits build_reply.splits)

lemma poll_queue_keys:
  "poll_queue api url qs w = ((still, started, rs), w') \<Longrightarrow>
   mset (map queued_key still) + mset (map active_key started) + mset (map build_key rs) = mset (map queued_key qs)"
proof (induction qs arbitrary: w still started rs w')
  case (Cons q qs)
  obtain p w1 where p: "poll_queued_build api url q w = (p, w1)" by fastforce
  obtain st sa r w2 where rest: "poll_queue api url qs w1 = ((st, sa, r), w2)" by (metis surj_pair)
  show ?case using Cons.prems Cons.IH[OF rest] poll_queued_key[OF p] p rest
    by (cases p) (auto simp: poll_key_def)
qed simp

lemma poll_active_keys:
  "poll_active api url bs w = ((still, rs), w') \<Longrightarrow>
   mset (map active_key still) + mset (map build_key rs) = mset (map active_key bs)"
proof (induction bs arbitrary: w still rs w')
  case (Cons b bs)
  obtain r w1 where r: "poll_active_build api url b w = (r, w1)" by fastforce
  obtain st rs1 w2 where rest: "poll_active api url bs w1 = ((st, rs1), w2)" by (metis surj_pair)
  show ?case using Cons.prems Cons.IH[OF rest] poll_active_key[of api url b w _ w1] r rest
    by (cases r) auto
qed simp

definition all_keys :: "queued_build list \<Rightarrow> active_build list \<Rightarrow> build_result list \<Rightarrow> (string \<times> string) multiset" where
  "all_keys qs bs rs = mset (map queued_key qs) + mset (map active_key bs) + mset (map build_key rs)"

lemma wait_cycle_keys:
  assumes "wait_cycle api url p queued active results w = ((queued', active', results'), w')"
  shows "all_keys queued' active' results' = all_keys queued active results"
proof -
  obtain sq st r1 w1 where q: "poll_queue api url queued w = ((sq, st, r1), w1)" by (metis surj_pair)
  obtain sr r2 w2 where a: "poll_active api url (active @ st) w1 = ((sr, r2), w2)" by (metis surj_pair)
  from assms q a have "queued' = sq" "active' = sr" "results' = results @ r1 @ r2" by (auto simp: wait_cycle_def)
  then have "all_keys queued' active' results' =
      mset (map queued_key sq) + mset (map build_key r1) + mset (map build_key results) +
      (mset (map active_key sr) + mset (map build_key r2))" by (simp add: all_keys_def)
  also have "\<dots> = mset (map queued_key sq) + mset (map active_key st) + mset (map build_key r1) +
      mset (map active_key active) + mset (map build_key results)" unfolding poll_active_keys[OF a] by simp
  finally show ?thesis unfolding poll_queue_keys[OF q] by (simp add: all_keys_def)
qed

section \<open>Waiting ends\<close>

text \<open>
  A clock that is read truthfully, that no request turns back and that sleeping advances by at least the
  time asked for.
\<close>

definition ticking :: "'w jenkins_api \<Rightarrow> ('w \<Rightarrow> rat) \<Rightarrow> bool" where
  "ticking api clock \<longleftrightarrow>
     (\<forall>w. clock w \<le> fst (ja_now api w) \<and> fst (ja_now api w) \<le> clock (snd (ja_now api w))) \<and>
     (\<forall>d w. clock w + d \<le> clock (ja_sleep api d w)) \<and>
     (\<forall>u w. clock w \<le> clock (snd (ja_queue_item api u w))) \<and>
     (\<forall>j w. clock w \<le> clock (snd (ja_builds api j w))) \<and>
     (\<forall>u w. clock w \<le> clock (snd (ja_build api u w))) \<and>
     (\<forall>u w. clock w \<le> clock (snd (ja_artifacts api u w)))"

lemma ticking_now: "ticking api clock \<Longrightarrow> ja_now api w = (t, w') \<Longrightarrow> clock w \<le> t \<and> t \<le> clock w'"
  unfolding ticking_def by (metis fst_conv snd_conv)

lemma ticking_sleep: "ticking api clock \<Longrightarrow> clock w + d \<le> clock (ja_sleep api d w)"
  by (simp add: ticking_def)

lemma ticking_find:
  assumes "ticking api clock" "find_build_by_queue_id api job i w = (n, w')"
  shows "clock w \<le> clock w'"
proof -
  obtain r w1 where r: "ja_builds api job w = (r, w1)" by fastforce
  from assms(1) r have "clock w \<le> clock w1" unfolding ticking_def by (metis snd_conv)
  with assms(2) r show ?thesis by (auto simp: find_build_by_queue_id_def split: builds_reply.splits)
qed

lemma ticking_check:
  assumes tick: "ticking api clock" and run: "check_build_start api u job gone w = (r, w')"
  shows "clock w \<le> clock w'"
proof (cases "queue_id_of u")
  case None
  with run show ?thesis by (simp add: check_build_start_def)
next
  case (Some i)
  obtain q w1 where q: "ja_queue_item api u w = (q, w1)" by fastforce
  from tick q have c1: "clock w \<le> clock w1" unfolding ticking_def by (metis snd_conv)
  obtain n1 v1 where f1: "find_build_by_queue_id api job i w = (n1, v1)" by fastforce
  obtain n2 v2 where f2: "find_build_by_queue_id api job i w1 = (n2, v2)" by fastforce
  show ?thesis
    using run Some q f1 f2 c1 ticking_find[OF tick f1] ticking_find[OF tick f2]
    by (auto simp: check_build_start_def split: if_splits queue_reply.splits)
qed

lemma ticking_artifacts:
  assumes "ticking api clock" "collect_artifacts api url path n pats w = (r, w')"
  shows "clock w \<le> clock w'"
proof -
  let ?u = "url @ ''/job/'' @ path @ ''/'' @ show_nat n"
  obtain a w1 where a: "ja_artifacts api ?u w = (a, w1)" by fastforce
  from assms(1) a have "clock w \<le> clock w1" unfolding ticking_def by (metis snd_conv)
  with assms(2) a show ?thesis by (auto simp: collect_artifacts_def Let_def split: if_splits artifacts_reply.splits)
qed

text \<open>How many more polls, at least \<open>p\<close> apart, a deadline \<open>X\<close> allows from time \<open>t\<close> on.\<close>

definition polls :: "rat \<Rightarrow> rat \<Rightarrow> rat \<Rightarrow> nat" where
  "polls p X t = (if X < t then 0 else Suc (nat \<lfloor>(X - t) / p\<rfloor>))"

lemma polls_mono:
  assumes "0 < p" "t \<le> t'"
  shows "polls p X t' \<le> polls p X t"
proof -
  have "(X - t') / p \<le> (X - t) / p" using assms by (simp add: divide_right_mono)
  then have "nat \<lfloor>(X - t') / p\<rfloor> \<le> nat \<lfloor>(X - t) / p\<rfloor>" by (intro nat_mono floor_mono)
  with assms(2) show ?thesis by (auto simp: polls_def)
qed

lemma polls_step:
  assumes "0 < p" "t \<le> X" "t + p \<le> t'"
  shows "polls p X t' < polls p X t"
proof (cases "X < t'")
  case True
  with assms show ?thesis by (simp add: polls_def)
next
  case False
  have "(X - t') / p \<le> (X - t - p) / p" using assms by (intro divide_right_mono) auto
  also have "\<dots> = (X - t) / p - 1" using assms(1) by (simp add: diff_divide_distrib)
  finally have "(X - t') / p \<le> (X - t) / p - 1" .
  then have "\<lfloor>(X - t') / p\<rfloor> \<le> \<lfloor>(X - t) / p\<rfloor> - 1" by linarith
  moreover have "0 \<le> \<lfloor>(X - t') / p\<rfloor>" using False assms(1) by simp
  ultimately have "nat \<lfloor>(X - t') / p\<rfloor> < nat \<lfloor>(X - t) / p\<rfloor>" by linarith
  with False assms(2) show ?thesis unfolding polls_def by (simp del: nat_less_iff zless_nat_conj)
qed

lemma polls_shift: "polls p (s + X) s = polls p X 0"
  by (simp add: polls_def)

definition queued_pot :: "rat \<Rightarrow> rat \<Rightarrow> queued_build \<Rightarrow> nat" where
  "queued_pot p t q = polls p (qb_queued_since q + of_int (pw_timeout (qb_pending q))) t +
     polls p (of_int (pw_timeout (qb_pending q))) 0 + 2"

definition active_pot :: "rat \<Rightarrow> rat \<Rightarrow> active_build \<Rightarrow> nat" where
  "active_pot p t b = polls p (ab_start_time b + of_int (ab_timeout b)) t + 1"

lemma queued_pot_mono: "0 < p \<Longrightarrow> t \<le> t' \<Longrightarrow> queued_pot p t' q \<le> queued_pot p t q"
  by (simp add: queued_pot_def polls_mono)

lemma active_pot_mono: "0 < p \<Longrightarrow> t \<le> t' \<Longrightarrow> active_pot p t' b \<le> active_pot p t b"
  by (simp add: active_pot_def polls_mono)

lemma poll_queued_pot:
  assumes tick: "ticking api clock" and p: "0 < p" and run: "poll_queued_build api url q w = (r, w')"
  shows "clock w \<le> clock w' \<and> (case r of
      Started b \<Rightarrow> \<forall>c\<ge>clock w'. active_pot p c b + 1 \<le> queued_pot p (clock w) q
    | StillQueued q' \<Rightarrow> \<forall>c\<ge>clock w' + p. queued_pot p c q' + 1 \<le> queued_pot p (clock w) q
    | Done _ \<Rightarrow> True)"
proof -
  let ?P = "qb_pending q"
  let ?X = "qb_queued_since q + of_int (pw_timeout ?P)"
  obtain t w1 where n: "ja_now api w = (t, w1)" by fastforce
  note c1 = ticking_now[OF tick n]
  show ?thesis
  proof (cases "t - qb_queued_since q > of_int (pw_timeout ?P)")
    case True
    with run n c1 show ?thesis by (auto simp: poll_queued_build_def Let_def)
  next
    case False
    then have tX: "t \<le> ?X" by simp
    obtain res w2 where k: "check_build_start api (pw_queue_url ?P) (pw_job_name ?P) (qb_queue_item_gone q) w1 = (res, w2)"
      by fastforce
    note c2 = ticking_check[OF tick k]
    show ?thesis
    proof (cases res)
      case (Inl e)
      with run n k False c1 c2 show ?thesis by (auto simp: poll_queued_build_def Let_def)
    next
      case (Inr ng)
      obtain m g where ng: "ng = (m, g)" by fastforce
      obtain t2 w3 where n2: "ja_now api w2 = (t2, w3)" by fastforce
      note c3 = ticking_now[OF tick n2]
      show ?thesis
      proof (cases "m = None \<or> m = Some 0")
        case True
        with run n k False Inr ng have r: "r = StillQueued (q\<lparr>qb_queue_item_gone := g\<rparr>)" "w' = w2"
          by (auto simp: poll_queued_build_def Let_def)
        have "queued_pot p c q + 1 \<le> queued_pot p (clock w) q" if "c \<ge> clock w2 + p" for c
        proof -
          have "polls p ?X c < polls p ?X t" using polls_step[OF p tX, of c] that c1 c2 by linarith
          moreover have "polls p ?X t \<le> polls p ?X (clock w)" using polls_mono[OF p] c1 by simp
          ultimately show ?thesis by (simp add: queued_pot_def)
        qed
        with r c1 c2 show ?thesis by (simp add: queued_pot_def)
      next
        case started: False
        with run n k False Inr ng n2 have r: "r = Started (start_active ?P (the m) t2)" "w' = w3"
          by (auto simp: poll_queued_build_def Let_def)
        have "active_pot p c (start_active ?P (the m) t2) + 1 \<le> queued_pot p (clock w) q" if "c \<ge> clock w3" for c
        proof -
          have "polls p (t2 + of_int (pw_timeout ?P)) c \<le> polls p (of_int (pw_timeout ?P)) 0"
            using polls_mono[OF p, of t2 c "t2 + of_int (pw_timeout ?P)"] that c3 polls_shift[of p t2 "of_int (pw_timeout ?P)"]
            by simp
          then show ?thesis by (simp add: active_pot_def queued_pot_def start_active_def)
        qed
        with r c1 c2 c3 show ?thesis by simp
      qed
    qed
  qed
qed

lemma poll_active_pot:
  assumes tick: "ticking api clock" and p: "0 < p" and run: "poll_active_build api url b w = (r, w')"
  shows "clock w \<le> clock w' \<and> (r = None \<longrightarrow> (\<forall>c\<ge>clock w' + p. active_pot p c b + 1 \<le> active_pot p (clock w) b))"
proof -
  let ?X = "ab_start_time b + of_int (ab_timeout b)"
  let ?u = "url @ ''/job/'' @ ab_job_url_path b @ ''/'' @ show_nat (ab_build_number b)"
  obtain t w1 where n: "ja_now api w = (t, w1)" by fastforce
  note c1 = ticking_now[OF tick n]
  obtain br w2 where k: "ja_build api ?u w1 = (br, w2)" by fastforce
  from tick k have c2: "clock w1 \<le> clock w2" unfolding ticking_def by (metis snd_conv)
  obtain a w3 where ar: "collect_artifacts api url (ab_job_url_path b) (ab_build_number b) (ab_collect_results b) w2 = (a, w3)"
    by fastforce
  note c3 = ticking_artifacts[OF tick ar]
  show ?thesis
  proof (cases "t - ab_start_time b > of_int (ab_timeout b)")
    case True
    with run n c1 show ?thesis by (auto simp: poll_active_build_def Let_def)
  next
    case False
    then have tX: "t \<le> ?X" by simp
    have w': "clock w1 \<le> clock w'"
      using run n k ar False c2 c3 by (auto simp: poll_active_build_def Let_def split: build_reply.splits if_splits)
    have "active_pot p c b + 1 \<le> active_pot p (clock w) b" if "c \<ge> clock w' + p" for c
    proof -
      have "polls p ?X c < polls p ?X t" using polls_step[OF p tX, of c] that c1 w' by linarith
      moreover have "polls p ?X t \<le> polls p ?X (clock w)" using polls_mono[OF p] c1 by simp
      ultimately show ?thesis by (simp add: active_pot_def)
    qed
    with c1 w' show ?thesis by simp
  qed
qed

definition queue_pot :: "rat \<Rightarrow> rat \<Rightarrow> queued_build list \<Rightarrow> nat" where
  "queue_pot p t qs = sum_list (map (queued_pot p t) qs)"

definition running_pot :: "rat \<Rightarrow> rat \<Rightarrow> active_build list \<Rightarrow> nat" where
  "running_pot p t bs = sum_list (map (active_pot p t) bs)"

lemma pot_Cons [simp]:
  "queue_pot p t (q # qs) = queued_pot p t q + queue_pot p t qs" "queue_pot p t [] = 0"
  "running_pot p t (b # bs) = active_pot p t b + running_pot p t bs" "running_pot p t [] = 0"
  "running_pot p t (bs @ cs) = running_pot p t bs + running_pot p t cs"
  by (simp_all add: queue_pot_def running_pot_def)

lemma queue_pot_mono: "0 < p \<Longrightarrow> t \<le> t' \<Longrightarrow> queue_pot p t' qs \<le> queue_pot p t qs"
  by (induction qs) (simp_all add: add_mono queued_pot_mono)

lemma running_pot_mono: "0 < p \<Longrightarrow> t \<le> t' \<Longrightarrow> running_pot p t' bs \<le> running_pot p t bs"
  by (induction bs) (simp_all add: add_mono active_pot_mono)

lemma poll_queue_pot:
  assumes tick: "ticking api clock" and p: "0 < p"
  shows "poll_queue api url qs w = ((still, started, rs), w') \<Longrightarrow>
    clock w \<le> clock w' \<and> (\<forall>c d. clock w' \<le> c \<and> clock w' + p \<le> d \<longrightarrow>
      queue_pot p d still + length still + running_pot p c started \<le> queue_pot p (clock w) qs)"
proof (induction qs arbitrary: w still started rs w')
  case (Cons q qs)
  obtain r w1 where r: "poll_queued_build api url q w = (r, w1)" by fastforce
  obtain st sa rs2 w2 where rest: "poll_queue api url qs w1 = ((st, sa, rs2), w2)" by (metis surj_pair)
  from Cons.prems r rest have w': "w' = w2" by (auto split: poll.splits)
  note hd = poll_queued_pot[OF tick p r] and tl = Cons.IH[OF rest]
  have mono: "queue_pot p (clock w1) qs \<le> queue_pot p (clock w) qs" using queue_pot_mono[OF p] hd by blast
  have "queue_pot p d still + length still + running_pot p c started \<le> queue_pot p (clock w) (q # qs)"
    if c: "clock w' \<le> c" and d: "clock w' + p \<le> d" for c d
  proof -
    from tl c d w' have t: "queue_pot p d st + length st + running_pot p c sa \<le> queue_pot p (clock w1) qs" by blast
    have le: "clock w1 \<le> c" "clock w1 + p \<le> d" using tl c d w' by auto
    show ?thesis
    proof (cases r)
      case (Started b)
      with hd le have "active_pot p c b + 1 \<le> queued_pot p (clock w) q" by simp
      with Started Cons.prems r rest t mono show ?thesis by auto
    next
      case (StillQueued q')
      with hd le have "queued_pot p d q' + 1 \<le> queued_pot p (clock w) q" by simp
      with StillQueued Cons.prems r rest t mono show ?thesis by auto
    next
      case (Done res)
      with Cons.prems r rest t mono show ?thesis by auto
    qed
  qed
  moreover have "clock w \<le> clock w'" using hd tl w' by (meson order_trans)
  ultimately show ?case by blast
qed simp

lemma poll_active_list_pot:
  assumes tick: "ticking api clock" and p: "0 < p"
  shows "poll_active api url bs w = ((still, rs), w') \<Longrightarrow>
    clock w \<le> clock w' \<and> (\<forall>d. clock w' + p \<le> d \<longrightarrow> running_pot p d still + length still \<le> running_pot p (clock w) bs)"
proof (induction bs arbitrary: w still rs w')
  case (Cons b bs)
  obtain r w1 where r: "poll_active_build api url b w = (r, w1)" by fastforce
  obtain st rs2 w2 where rest: "poll_active api url bs w1 = ((st, rs2), w2)" by (metis surj_pair)
  from Cons.prems r rest have w': "w' = w2" by (auto split: option.splits)
  note hd = poll_active_pot[OF tick p r] and tl = Cons.IH[OF rest]
  have mono: "running_pot p (clock w1) bs \<le> running_pot p (clock w) bs" using running_pot_mono[OF p] hd by blast
  have "running_pot p d still + length still \<le> running_pot p (clock w) (b # bs)" if d: "clock w' + p \<le> d" for d
  proof -
    from tl d w' have t: "running_pot p d st + length st \<le> running_pot p (clock w1) bs" by blast
    have le: "clock w1 + p \<le> d" using tl d w' by auto
    show ?thesis
    proof (cases r)
      case None
      with hd le have "active_pot p d b + 1 \<le> active_pot p (clock w) b" by simp
      with None Cons.prems r rest t mono show ?thesis by auto
    next
      case (Some res)
      with Cons.prems r rest t mono show ?thesis by auto
    qed
  qed
  moreover have "clock w \<le> clock w'" using hd tl w' by (meson order_trans)
  ultimately show ?case by blast
qed simp

lemma wait_cycle_pot:
  assumes tick: "ticking api clock" and p: "0 < p"
    and run: "wait_cycle api url p queued active results w = ((queued', active', results'), w')"
    and left: "queued' \<noteq> [] \<or> active' \<noteq> []"
  shows "queue_pot p (clock w') queued' + running_pot p (clock w') active' <
    queue_pot p (clock w) queued + running_pot p (clock w) active"
proof -
  obtain sq st r1 w1 where q: "poll_queue api url queued w = ((sq, st, r1), w1)" by (metis surj_pair)
  obtain sr r2 w2 where a: "poll_active api url (active @ st) w1 = ((sr, r2), w2)" by (metis surj_pair)
  from run q a left have e: "queued' = sq" "active' = sr" "w' = ja_sleep api p w2" by (auto simp: wait_cycle_def)
  note Q = poll_queue_pot[OF tick p q] and A = poll_active_list_pot[OF tick p a]
  have c: "clock w2 + p \<le> clock w'" using ticking_sleep[OF tick, of w2 p] e(3) by simp
  have "clock w1 + p \<le> clock w'" using A c by linarith
  with Q have "queue_pot p (clock w') sq + length sq + running_pot p (clock w1) st \<le> queue_pot p (clock w) queued" by blast
  moreover from A c have "running_pot p (clock w') sr + length sr \<le> running_pot p (clock w1) (active @ st)" by blast
  moreover have "running_pot p (clock w1) active \<le> running_pot p (clock w) active" using running_pot_mono[OF p] Q by blast
  moreover have "0 < length sq + length sr" using left e by auto
  ultimately show ?thesis unfolding e(1,2) pot_Cons(5) by linarith
qed

lemma wait_loop_result:
  assumes tick: "ticking api clock" and p: "0 < p"
  shows "\<exists>rs w'. wait_loop api url p queued active results w = Some (rs, w') \<and>
    mset (map build_key rs) = all_keys queued active results"
proof (induction "queue_pot p (clock w) queued + running_pot p (clock w) active" arbitrary: queued active results w rule: less_induct)
  case less
  show ?case
  proof (cases "queued = [] \<and> active = []")
    case True
    then show ?thesis by (subst wait_loop.simps) (simp add: all_keys_def)
  next
    case False
    obtain q' a' r' w' where c: "wait_cycle api url p queued active results w = ((q', a', r'), w')" by (metis surj_pair)
    have step: "wait_loop api url p queued active results w = wait_loop api url p q' a' r' w'"
      using False c by (subst wait_loop.simps) auto
    have keys: "all_keys q' a' r' = all_keys queued active results" by (rule wait_cycle_keys[OF c])
    show ?thesis
    proof (cases "q' = [] \<and> a' = []")
      case True
      then show ?thesis unfolding step keys[symmetric] by (subst wait_loop.simps) (simp add: all_keys_def)
    next
      case left: False
      from less[OF wait_cycle_pot[OF tick p c]] left keys step show ?thesis by metis
    qed
  qed
qed

lemma enqueue_all_keys: "enqueue_all api ps w = (qs, w') \<Longrightarrow> map queued_key qs = map pending_key ps"
  by (induction ps arbitrary: w qs) (auto simp: queued_key_def split: prod.splits)

section \<open>Trigger order\<close>

lemma order_other:
  "key \<notin> set (map pending_key ps) \<Longrightarrow>
   map_of (foldl (\<lambda>m (i, p). AList.update (pending_key p) i m) m0 (enumerate k ps)) key = map_of m0 key"
  by (induction ps arbitrary: m0 k) auto

lemma order_index:
  "\<lbrakk>distinct (map pending_key ps); i < length ps\<rbrakk> \<Longrightarrow>
   map_of (foldl (\<lambda>m (i, p). AList.update (pending_key p) i m) m0 (enumerate k ps)) (pending_key (ps ! i)) = Some (k + i)"
proof (induction ps arbitrary: m0 k i)
  case (Cons p ps)
  show ?case
  proof (cases i)
    case 0
    with Cons.prems order_other[of "pending_key p" ps] show ?thesis by simp
  next
    case (Suc j)
    with Cons.prems Cons.IH[of j] show ?thesis by simp
  qed
qed simp

lemma in_trigger_order_keys:
  assumes keys: "mset (map build_key rs) = mset (map pending_key ps)" and d: "distinct (map pending_key ps)"
  shows "map build_key (in_trigger_order rs ps) = map pending_key ps"
proof -
  define order where "order = foldl (\<lambda>m (i, p). AList.update (pending_key p) i m) [] (enumerate 0 ps)"
  define g where "g = (\<lambda>k. case map_of order k of Some i \<Rightarrow> i | None \<Rightarrow> length order)"
  have gi: "g (map pending_key ps ! i) = i" if "i < length ps" for i
    using order_index[OF d that, of "[]" 0] that by (simp add: g_def order_def)
  then have gp: "map g (map pending_key ps) = [0..<length ps]" by (intro nth_equalityI) auto
  have r: "in_trigger_order rs ps = sort_key (\<lambda>r. g (build_key r)) rs"
    unfolding in_trigger_order_def Let_def g_def order_def ..
  let ?R = "map build_key (in_trigger_order rs ps)"
  have ms: "mset ?R = mset (map pending_key ps)" using keys by (simp add: r)
  have "sorted (map g ?R)" unfolding r using sorted_sort_key[of "\<lambda>r. g (build_key r)" rs] by (simp add: comp_def)
  moreover have "mset (map g ?R) = mset [0..<length ps]" using ms gp by (metis mset_map)
  ultimately have "map g ?R = map g (map pending_key ps)"
    unfolding gp by (metis properties_for_sort sorted_upt sort_upt)
  moreover have "inj_on g (set (map pending_key ps))"
    by (rule inj_onI) (metis gi in_set_conv_nth length_map)
  moreover have "set ?R = set (map pending_key ps)" by (rule mset_eq_setD[OF ms])
  ultimately show ?thesis by (metis (no_types) Un_absorb map_inj_on)
qed

section \<open>Script literals\<close>

text \<open>\<^verbatim>\<open>_escape_groovy_string\<close>\<close>

definition escape_groovy_string :: "string \<Rightarrow> string" where
  "escape_groovy_string v =
     replace_str [CHR 0x27] [CHR 0x5C, CHR 0x27] (replace_str [CHR 0x5C] [CHR 0x5C, CHR 0x5C] v)"

definition parameter_groovy :: "string \<Rightarrow> jval \<Rightarrow> string" where
  "parameter_groovy k v = ''new StringParameterValue('' @ [CHR 0x27] @ escape_groovy_string k @ [CHR 0x27] @ '', '' @
     [CHR 0x27] @ escape_groovy_string (jstr v) @ [CHR 0x27] @ '')''"

definition params_groovy :: "jval dict \<Rightarrow> string" where
  "params_groovy params = join '', '' (map (\<lambda>(k, v). parameter_groovy k v) params)"

text \<open>
  How Groovy reads the rest of a single-quoted literal: up to the first quote, a backslash taking the next
  backslash or quote literally; a line break is not allowed.  The value and what follows the literal.
\<close>

fun read_literal :: "string \<Rightarrow> (string \<times> string) option" where
  "read_literal [] = None"
| "read_literal (c # s) =
     (if c = CHR 0x27 then Some ([], s)
      else if c = CHR 0x0A \<or> c = CHR 0x0D then None
      else if c = CHR 0x5C then
        (case s of
           d # s' \<Rightarrow> if d = CHR 0x27 \<or> d = CHR 0x5C then map_option (map_prod ((#) d) id) (read_literal s') else None
         | [] \<Rightarrow> None)
      else map_option (map_prod ((#) c) id) (read_literal s))"

lemma escape_Nil [simp]: "escape_groovy_string [] = []"
  by (simp add: escape_groovy_string_def)

lemma replace_single: "replace_str [a] new s = concat (map (\<lambda>c. if c = a then new else [c]) s)"
  by (induction s) (auto simp: startswith_def)

lemma escape_Cons:
  "escape_groovy_string (c # s) =
     (if c = CHR 0x5C then [CHR 0x5C, CHR 0x5C] else if c = CHR 0x27 then [CHR 0x5C, CHR 0x27] else [c]) @
     escape_groovy_string s"
  unfolding escape_groovy_string_def replace_single by simp

lemma read_escaped:
  "\<lbrakk>CHR 0x0A \<notin> set v; CHR 0x0D \<notin> set v\<rbrakk> \<Longrightarrow> read_literal (escape_groovy_string v @ CHR 0x27 # rest) = Some (v, rest)"
  by (induction v) (auto simp: escape_Cons)

section \<open>Waiting returns\<close>

lemma wait_for_builds_returns:
  assumes "ticking api clock" "0 < poll_interval" "ja_url api = Inr url"
  shows "\<exists>rs w'. wait_for_builds api pending dry_run poll_interval w = Some (Inr rs, w') \<and>
    mset (map build_key rs) = mset (map pending_key pending) \<and>
    (distinct (map pending_key pending) \<longrightarrow> map build_key rs = map pending_key pending)"
proof (cases "dry_run \<or> pending = []")
  case True
  have k: "map build_key (map dry_result pending) = map pending_key pending" by simp
  from True have "wait_for_builds api pending dry_run poll_interval w = Some (Inr (map dry_result pending), w)"
    by (auto simp: wait_for_builds_def)
  then show ?thesis using k by (simp del: map_map mset_map)
next
  case False
  obtain queued w1 where q: "enqueue_all api pending w = (queued, w1)" by fastforce
  from wait_loop_result[OF assms(1,2), of url queued "[]" "[]" w1] obtain rs w2 where
    r: "wait_loop api url poll_interval queued [] [] w1 = Some (rs, w2)" "mset (map build_key rs) = all_keys queued [] []" by blast
  have k: "mset (map build_key rs) = mset (map pending_key pending)"
    using r(2) enqueue_all_keys[OF q] by (simp add: all_keys_def flip: mset_map)
  have "mset (map build_key (in_trigger_order rs pending)) = mset (map build_key rs)"
    by (simp add: in_trigger_order_def Let_def)
  with False assms(3) q r(1) k in_trigger_order_keys[OF k] show ?thesis by (simp add: wait_for_builds_def)
qed

text \<open>Without a connection waiting ends at once, with the error.\<close>

lemma wait_for_builds_ends:
  assumes "ticking api clock" "0 < poll_interval"
  shows "\<exists>res w'. wait_for_builds api pending dry_run poll_interval w = Some (res, w') \<and>
    (\<forall>rs. res = Inr rs \<longrightarrow> mset (map build_key rs) = mset (map pending_key pending))"
proof (cases "ja_url api")
  case (Inl e)
  have "map build_key (map dry_result pending) = map pending_key pending" by simp
  with Inl show ?thesis by (auto simp: wait_for_builds_def simp del: map_map mset_map)
next
  case (Inr url)
  from wait_for_builds_returns[OF assms Inr, of pending dry_run w] show ?thesis by auto
qed

section \<open>Properties\<close>

text \<open>C17: \<^verbatim>\<open>wait_for_builds\<close> returns whatever Jenkins answers, provided the clock advances while it sleeps, and reports
  every awaited build exactly once; when the builds differ in job or version, in the order they were triggered.\<close>

theorem wait_for_builds_total:
  assumes "ticking api clock" "0 < poll_interval" "ja_url api = Inr url"
  shows "\<exists>rs w'. wait_for_builds api pending dry_run poll_interval w = Some (Inr rs, w') \<and>
    mset (map build_key rs) = mset (map pending_key pending) \<and>
    (distinct (map pending_key pending) \<longrightarrow> map build_key rs = map pending_key pending)"
  using wait_for_builds_returns[OF assms] .

text \<open>a value without line breaks, escaped and put between single quotes, is read back by Groovy as that value, and the
  literal ends where the script intends: no value of a job parameter can break out of its literal.\<close>

theorem groovy_literal_roundtrip:
  assumes "CHR 0x0A \<notin> set v" "CHR 0x0D \<notin> set v"
  shows "read_literal (escape_groovy_string v @ CHR 0x27 # rest) = Some (v, rest)"
  using read_escaped[OF assms] .

theorem groovy_literal_roundtrip_witness:
  "CHR 0x0A \<notin> set [CHR ''a'', CHR 0x5C, CHR 0x27] \<and>
   read_literal (escape_groovy_string [CHR ''a'', CHR 0x5C, CHR 0x27] @ CHR 0x27 # '')'') = Some ([CHR ''a'', CHR 0x5C, CHR 0x27], '')'')"
  using groovy_literal_roundtrip[of "[CHR ''a'', CHR 0x5C, CHR 0x27]" "'')''"] by simp

text \<open>A Jenkins whose only build never leaves the queue, with a clock in seconds.\<close>

definition stuck_jenkins :: "rat jenkins_api" where
  "stuck_jenkins = \<lparr>ja_url = Inr ''http://jenkins'', ja_now = (\<lambda>w. (w, w)), ja_sleep = (\<lambda>d w. w + d),
     ja_run_script = (\<lambda>_ _ _ w. (None, w)), ja_queue_item = (\<lambda>_ w. (QueueItem None False, w)),
     ja_builds = (\<lambda>_ w. (Builds [], w)), ja_build = (\<lambda>_ w. (BuildError, w)), ja_artifacts = (\<lambda>_ w. (ArtifactsEmpty, w)),
     ja_fnmatch = (\<lambda>_ _. False)\<rparr>"

definition sample_pending :: pending_wait_job where
  "sample_pending = \<lparr>pw_job_name = ''scylla-master/gating'', pw_queue_url = ''http://jenkins/queue/item/7/'', pw_collect_results = [],
     pw_timeout = 60, pw_fail_on_error = True, pw_scylla_version = ''2026.1.0''\<rparr>"

theorem wait_for_builds_total_witness:
  "ticking stuck_jenkins id \<and> (0::rat) < 30 \<and> ja_url stuck_jenkins = Inr ''http://jenkins'' \<and>
   (\<exists>rs w'. wait_for_builds stuck_jenkins [sample_pending] False 30 0 = Some (Inr rs, w') \<and>
     map build_key rs = [(''scylla-master/gating'', ''2026.1.0'')])"
proof -
  have t: "ticking stuck_jenkins id" by (simp add: ticking_def stuck_jenkins_def)
  have p: "(0::rat) < 30" by simp
  have u: "ja_url stuck_jenkins = Inr ''http://jenkins''" by (simp add: stuck_jenkins_def)
  have k: "map pending_key [sample_pending] = [(''scylla-master/gating'', ''2026.1.0'')]"
    by (simp add: pending_key_def sample_pending_def)
  from wait_for_builds_total[OF t p u, of "[sample_pending]" False 0] obtain rs w' where
    "wait_for_builds stuck_jenkins [sample_pending] False 30 0 = Some (Inr rs, w')"
    "distinct (map pending_key [sample_pending]) \<longrightarrow> map build_key rs = map pending_key [sample_pending]" by blast
  with t p u k show ?thesis by simp
qed

end
