(* ===== verification/Trigger_Matrix.thy ===== *)
theory Trigger_Matrix
  imports Jenkins_Client
begin

text \<open>
  A run of the trigger matrix (\<^verbatim>\<open>sdcm/utils/trigger_matrix/matrix.py\<close> and the verdict of \<^verbatim>\<open>reporting.py\<close>):
  the jobs of every requested version are selected, resolved and triggered, then all wait-mode builds are
  awaited together.

  A \<open>tools\<close> record holds what the run reaches outside: Jenkins, the images of the clouds, the JSON reader,
  the mail server and the report directory.  A parameter value that is used as a version is written as
  \<^verbatim>\<open>str\<close> writes it.
\<close>

section \<open>Data\<close>

record trigger_results =
  triggered :: "string list"
  skipped :: "string list"
  failed :: "string list"
  waited :: "(string \<times> build_result) list"
  tr_versions :: "string dict"

record request =
  rq_job_folder :: "string option"
  rq_labels :: "string option"
  rq_backend :: "string option"
  rq_skip_jobs :: "string option"
  rq_dry_run :: bool
  rq_recipients :: "string list"
  rq_image_arch :: "string option"
  rq_version_resolution :: "string option"
  rq_report_dir :: "string option"
  rq_overrides :: "jval dict"

record report =
  rp_passed :: bool
  rp_summary :: string

record 'w tools =
  tl_jenkins :: "'w jenkins_api"
  tl_images :: image_api
  tl_json :: json_reader
  tl_send :: "report \<Rightarrow> string list \<Rightarrow> 'w \<Rightarrow> 'w"
  tl_write :: "report \<Rightarrow> string \<Rightarrow> 'w \<Rightarrow> (trigger_error + unit) \<times> 'w"

definition no_results :: trigger_results where
  "no_results = \<lparr>triggered = [], skipped = [], failed = [], waited = [], tr_versions = []\<rparr>"

section \<open>Required parameters\<close>

text \<open>\<^verbatim>\<open>missing\<close>: the parameters without a value, each with the jobs that lack it.\<close>

definition lacks_value :: "matrix_config \<Rightarrow> jval dict \<Rightarrow> job_config \<Rightarrow> string \<Rightarrow> bool" where
  "lacks_value config overrides job name =
     (let params = dict_update (dict_update (defaults config) (jc_params job)) (given_overrides overrides)
      in strip (case map_of params name of Some v \<Rightarrow> jstr v | None \<Rightarrow> []) = [])"

definition missing_params :: "matrix_config \<Rightarrow> jval dict \<Rightarrow> (string \<times> string list) list" where
  "missing_params config overrides = foldl (\<lambda>missing (job, name).
       if lacks_value config overrides job name
       then AList.update name ((case map_of missing name of Some js \<Rightarrow> js | None \<Rightarrow> []) @ [job_name job]) missing
       else missing) []
     (concat (map (\<lambda>job. map (Pair job) (required_params config)) (filter (\<lambda>job. \<not> disabled job) (jobs config))))"

definition check_required_params :: "matrix_config \<Rightarrow> jval dict \<Rightarrow> trigger_error + unit" where
  "check_required_params config overrides =
     (let missing = missing_params config overrides
      in if missing \<noteq> [] then Inl (MissingParameters missing) else Inr ())"

section \<open>One version\<close>

definition job_target :: "json_reader \<Rightarrow> matrix_config \<Rightarrow> jval dict \<Rightarrow> job_config \<Rightarrow> target option" where
  "job_target json config overrides job =
     (if \<not> job_uses_scylla_version job (defaults config) overrides then None
      else Some (target_for_job json job (defaults config) (map_of overrides ''region'')))"

definition matrix_targets :: "json_reader \<Rightarrow> matrix_config \<Rightarrow> jval dict \<Rightarrow> job_config list \<Rightarrow> target list" where
  "matrix_targets json config overrides filtered =
     sort (remdups (List.map_filter (job_target json config overrides) filtered))"

definition version_filter :: "request \<Rightarrow> string list \<Rightarrow> string \<Rightarrow> string option \<Rightarrow> job_filter" where
  "version_filter rq skip_list scylla_version filter_version =
     \<lparr>jf_version = (if given filter_version then the filter_version else scylla_version),
      jf_resolved = (if given filter_version then Some scylla_version else None),
      jf_labels = rq_labels rq, jf_backend = rq_backend rq, jf_skip = skip_list, jf_arch = rq_image_arch rq\<rparr>"

text \<open>The version of every target of the selected jobs, or the reason it has none.\<close>

definition version_choice :: "'w tools \<Rightarrow> matrix_config \<Rightarrow> request \<Rightarrow> string \<Rightarrow> string \<Rightarrow> job_config list \<Rightarrow> trigger_error + choice" where
  "version_choice tools config rq version_for_filtering scylla_version filtered =
     (let strategy = (if given (rq_version_resolution rq) then the (rq_version_resolution rq) else version_resolution config);
          targets = matrix_targets (tl_json tools) config (rq_overrides rq) filtered
      in if scylla_version \<noteq> [] \<and> targets \<noteq> []
         then resolve_versions_for_targets (tl_images tools) (tl_json tools) version_for_filtering scylla_version targets strategy
         else Inr ([], []))"

record trigger_state =
  ts_results :: trigger_results
  ts_pending :: "pending_wait_job list"
  ts_paths :: "string list"

definition add_triggered :: "string \<Rightarrow> trigger_state \<Rightarrow> trigger_state" where
  "add_triggered path st = st\<lparr>ts_paths := path # ts_paths st,
     ts_results := (ts_results st)\<lparr>triggered := triggered (ts_results st) @ [path]\<rparr>\<rparr>"

definition add_failed :: "string \<Rightarrow> trigger_state \<Rightarrow> trigger_state" where
  "add_failed path st = st\<lparr>ts_results := (ts_results st)\<lparr>failed := failed (ts_results st) @ [path]\<rparr>\<rparr>"

definition add_skipped :: "string \<Rightarrow> trigger_state \<Rightarrow> trigger_state" where
  "add_skipped name st = st\<lparr>ts_results := (ts_results st)\<lparr>skipped := skipped (ts_results st) @ [name]\<rparr>\<rparr>"

definition set_version :: "string \<Rightarrow> string \<Rightarrow> trigger_state \<Rightarrow> trigger_state" where
  "set_version path v st = st\<lparr>ts_results := (ts_results st)\<lparr>tr_versions := AList.update path v (tr_versions (ts_results st))\<rparr>\<rparr>"

definition add_pending :: "pending_wait_job \<Rightarrow> trigger_state \<Rightarrow> trigger_state" where
  "add_pending p st = st\<lparr>ts_pending := ts_pending st @ [p]\<rparr>"

definition version_param :: "jval dict \<Rightarrow> string" where
  "version_param params = (case map_of params ''scylla_version'' of Some v \<Rightarrow> jstr v | None \<Rightarrow> [])"

definition pending_for :: "job_config \<Rightarrow> string \<Rightarrow> string \<Rightarrow> jval dict \<Rightarrow> pending_wait_job" where
  "pending_for job path queue_url params = \<lparr>pw_job_name = path, pw_queue_url = queue_url,
     pw_collect_results = collect_results job, pw_timeout = wait_timeout job, pw_fail_on_error = fail_on_error job,
     pw_scylla_version = version_param params\<rparr>"

text \<open>The last part of the loop body: the request to Jenkins.  A failed wait-mode job is recorded whatever failed, a
  failed plain job only when the connection data are there.\<close>

definition trigger_job :: "'w tools \<Rightarrow> bool \<Rightarrow> job_config \<Rightarrow> string \<Rightarrow> jval dict \<Rightarrow> trigger_state \<Rightarrow> 'w
    \<Rightarrow> (trigger_error + trigger_state) \<times> 'w" where
  "trigger_job tools dry_run job path params st w =
     (if wait job then (case trigger_with_queue (tl_jenkins tools) path params dry_run w of
          (Inr queue_url, w1) \<Rightarrow> (Inr (add_pending (pending_for job path queue_url params) (add_triggered path st)), w1)
        | (Inl _, w1) \<Rightarrow> (Inr (add_failed path st), w1))
      else (case trigger (tl_jenkins tools) path params dry_run w of
          (Inl e, w1) \<Rightarrow> (Inl e, w1)
        | (Inr ok, w1) \<Rightarrow> (Inr (if ok then add_triggered path st else add_failed path st), w1)))"

text \<open>The body of the loop over the selected jobs.  Targets are those of one \<open>choice\<close>.\<close>

definition job_version :: "choice \<Rightarrow> string \<Rightarrow> target option \<Rightarrow> string" where
  "job_version choice scylla_version t = (case t of
       None \<Rightarrow> scylla_version
     | Some t \<Rightarrow> (case map_of (fst choice) t of Some v \<Rightarrow> v | None \<Rightarrow> scylla_version))"

definition unavailable :: "choice \<Rightarrow> target option \<Rightarrow> bool" where
  "unavailable choice t = (case t of None \<Rightarrow> False | Some t \<Rightarrow> map_of (snd choice) t \<noteq> None)"

definition job_params :: "matrix_config \<Rightarrow> request \<Rightarrow> choice \<Rightarrow> string \<Rightarrow> string option \<Rightarrow> target option \<Rightarrow> job_config \<Rightarrow> jval dict" where
  "job_params config rq choice scylla_version filter_version t job =
     build_job_parameters job (defaults config) (job_version choice scylla_version t) (rq_overrides rq) filter_version"

definition trigger_step :: "'w tools \<Rightarrow> matrix_config \<Rightarrow> request \<Rightarrow> string \<Rightarrow> choice \<Rightarrow> string \<Rightarrow> string option
    \<Rightarrow> job_config \<Rightarrow> trigger_state \<Rightarrow> 'w \<Rightarrow> (trigger_error + trigger_state) \<times> 'w" where
  "trigger_step tools config rq folder choice scylla_version filter_version job st w =
     (let path = resolve_job_path (job_name job) folder;
          t = job_target (tl_json tools) config (rq_overrides rq) job
      in if path \<in> set (ts_paths st) then (Inr st, w)
         else if unavailable choice t then (Inr (add_skipped (job_name job) st), w)
         else (let params = job_params config rq choice scylla_version filter_version t job
               in trigger_job tools (rq_dry_run rq) job path params (set_version path (version_param params) st) w))"

fun trigger_jobs :: "'w tools \<Rightarrow> matrix_config \<Rightarrow> request \<Rightarrow> string \<Rightarrow> choice \<Rightarrow> string \<Rightarrow> string option
    \<Rightarrow> job_config list \<Rightarrow> trigger_state \<Rightarrow> 'w \<Rightarrow> (trigger_error + trigger_state) \<times> 'w" where
  "trigger_jobs tools config rq folder choice v fv [] st w = (Inr st, w)"
| "trigger_jobs tools config rq folder choice v fv (job # js) st w =
     (case trigger_step tools config rq folder choice v fv job st w of
        (Inl e, w1) \<Rightarrow> (Inl e, w1)
      | (Inr st1, w1) \<Rightarrow> trigger_jobs tools config rq folder choice v fv js st1 w1)"

definition not_selected :: "matrix_config \<Rightarrow> job_config list \<Rightarrow> string list" where
  "not_selected config filtered = filter (\<lambda>n. n \<notin> set (map job_name filtered)) (map job_name (jobs config))"

definition trigger_version :: "'w tools \<Rightarrow> matrix_config \<Rightarrow> request \<Rightarrow> string list \<Rightarrow> string \<Rightarrow> string option \<Rightarrow> 'w
    \<Rightarrow> (trigger_error + trigger_results \<times> pending_wait_job list) \<times> 'w" where
  "trigger_version tools config rq skip_list scylla_version filter_version w =
     (let f = version_filter rq skip_list scylla_version filter_version;
          filtered = filter_jobs f (jobs config)
      in case determine_job_folder (jf_version f) (rq_job_folder rq) of
        Inl e \<Rightarrow> (Inl e, w)
      | Inr folder \<Rightarrow> (case version_choice tools config rq (jf_version f) scylla_version filtered of
          Inl e \<Rightarrow> (Inl e, w)
        | Inr choice \<Rightarrow>
            (case trigger_jobs tools config rq folder choice scylla_version filter_version filtered
                \<lparr>ts_results = no_results\<lparr>skipped := not_selected config filtered\<rparr>, ts_pending = [], ts_paths = []\<rparr> w of
              (Inl e, w1) \<Rightarrow> (Inl e, w1)
            | (Inr st, w1) \<Rightarrow> (Inr (ts_results st, ts_pending st), w1))))"

section \<open>The report\<close>

text \<open>\<^verbatim>\<open>str(value).rstrip("/").rsplit("/", 1)[-1]\<close>\<close>

definition last_segment :: "string \<Rightarrow> string" where
  "last_segment s = (let t = rev (dropWhile (\<lambda>c. c = CHR ''/'') (rev s)) in rev (takeWhile (\<lambda>c. c \<noteq> CHR ''/'') (rev t)))"

definition run_params :: "jval dict \<Rightarrow> jval dict" where
  "run_params overrides = filter (\<lambda>p. snd p \<noteq> JNone \<and> snd p \<noteq> JStr []) overrides"

fun join :: "string \<Rightarrow> string list \<Rightarrow> string" where
  "join sep [] = []"
| "join sep [s] = s"
| "join sep (s # t # ss) = s @ sep @ join sep (t # ss)"

definition tested :: "jval dict \<Rightarrow> string list \<Rightarrow> string \<Rightarrow> string" where
  "tested overrides subject_params version = join '', ''
     (List.map_filter (\<lambda>n. map_option (last_segment \<circ> jstr) (map_of (run_params overrides) n)) subject_params @ [version])"

definition build_report :: "build_result list \<Rightarrow> string \<Rightarrow> jval dict \<Rightarrow> string list \<Rightarrow> report" where
  "build_report results version overrides subject_params =
     (let ok = list_all success results;
          passed = length (filter success results)
      in \<lparr>rp_passed = ok,
          rp_summary = (if ok then ''PASSED'' else ''FAILED'') @ '' | '' @ show_nat passed @ ''/'' @ show_nat (length results) @
            '' passed | '' @ tested overrides subject_params version\<rparr>)"

section \<open>The run\<close>

definition merge_version :: "string dict \<Rightarrow> string \<times> string \<Rightarrow> string dict" where
  "merge_version known pv = (case pv of (path, v) \<Rightarrow>
     AList.update path (case map_of known path of Some k \<Rightarrow> if k \<noteq> [] then k @ '', '' @ v else v | None \<Rightarrow> v) known)"

definition merge_results :: "trigger_results \<Rightarrow> trigger_results \<Rightarrow> trigger_results" where
  "merge_results r vr = r\<lparr>triggered := triggered r @ triggered vr, failed := failed r @ failed vr,
     skipped := foldl (\<lambda>s n. append_new n s) (skipped r) (skipped vr),
     tr_versions := foldl merge_version (tr_versions r) (tr_versions vr)\<rparr>"

definition version_or_default :: "matrix_config \<Rightarrow> string \<Rightarrow> string" where
  "version_or_default config v = (if v \<noteq> [] then v else default_scylla_version config)"

fun trigger_versions :: "'w tools \<Rightarrow> matrix_config \<Rightarrow> request \<Rightarrow> string list \<Rightarrow> (string \<times> string option) list
    \<Rightarrow> trigger_results \<Rightarrow> pending_wait_job list \<Rightarrow> 'w \<Rightarrow> (trigger_error + trigger_results \<times> pending_wait_job list) \<times> 'w" where
  "trigger_versions tools config rq skip_list [] r ps w = (Inr (r, ps), w)"
| "trigger_versions tools config rq skip_list ((v, fv) # vs) r ps w =
     (case trigger_version tools config rq skip_list (version_or_default config v) fv w of
        (Inl e, w1) \<Rightarrow> (Inl e, w1)
      | (Inr (vr, vps), w1) \<Rightarrow> trigger_versions tools config rq skip_list vs (merge_results r vr) (ps @ vps) w1)"

definition add_builds :: "build_result list \<Rightarrow> trigger_results \<Rightarrow> trigger_results" where
  "add_builds bs r = r\<lparr>waited := waited r @ map (\<lambda>b. (br_job_name b, b)) bs,
     failed := failed r @ map br_job_name (filter (\<lambda>b. \<not> success b) bs)\<rparr>"

definition wait_poll_interval :: rat where
  "wait_poll_interval = 30"

definition default_email_recipients :: "string list" where
  "default_email_recipients = [''qa@scylladb.com'']"

text \<open>\<^verbatim>\<open>email_recipients or config.email_recipients\<close>, and the default of \<^verbatim>\<open>send_trigger_matrix_email\<close>.\<close>

definition recipients :: "matrix_config \<Rightarrow> request \<Rightarrow> string list" where
  "recipients config rq =
     (if rq_recipients rq \<noteq> [] then rq_recipients rq
      else if email_recipients config \<noteq> [] then email_recipients config else default_email_recipients)"

definition send_report :: "'w tools \<Rightarrow> matrix_config \<Rightarrow> request \<Rightarrow> string \<Rightarrow> build_result list \<Rightarrow> 'w \<Rightarrow> (trigger_error + unit) \<times> 'w" where
  "send_report tools config rq versions bs w =
     (let report = build_report bs versions (rq_overrides rq) (required_params config);
          w1 = tl_send tools report (recipients config rq) w
      in if given (rq_report_dir rq) then tl_write tools report (the (rq_report_dir rq)) w1 else (Inr (), w1))"

text \<open>The last part of \<^verbatim>\<open>trigger_matrix_versions\<close>: the builds are awaited, entered and reported.\<close>

definition await_pending :: "'w tools \<Rightarrow> matrix_config \<Rightarrow> request \<Rightarrow> string \<Rightarrow> trigger_results \<Rightarrow> pending_wait_job list \<Rightarrow> 'w
    \<Rightarrow> ((trigger_error + trigger_results) \<times> 'w) option" where
  "await_pending tools config rq tested_versions r pending w =
     (if pending = [] then Some (Inr r, w)
      else case wait_for_builds (tl_jenkins tools) pending (rq_dry_run rq) wait_poll_interval w of
        None \<Rightarrow> None
      | Some (Inl e, w1) \<Rightarrow> Some (Inl e, w1)
      | Some (Inr bs, w1) \<Rightarrow> Some (case send_report tools config rq tested_versions bs w1 of
            (Inl e, w2) \<Rightarrow> (Inl e, w2)
          | (Inr _, w2) \<Rightarrow> (Inr (add_builds bs r), w2)))"

definition trigger_matrix_versions :: "'w tools \<Rightarrow> matrix_config \<Rightarrow> request \<Rightarrow> (string \<times> string option) list \<Rightarrow> 'w
    \<Rightarrow> ((trigger_error + trigger_results) \<times> 'w) option" where
  "trigger_matrix_versions tools config rq versions w = (case check_required_params config (rq_overrides rq) of
       Inl e \<Rightarrow> Some (Inl e, w)
     | Inr _ \<Rightarrow>
         (let skip_list = (case rq_skip_jobs rq of None \<Rightarrow> [] | Some s \<Rightarrow> split_items CHR '','' s)
          in case trigger_versions tools config rq skip_list versions no_results [] w of
            (Inl e, w1) \<Rightarrow> Some (Inl e, w1)
          | (Inr (r, pending), w1) \<Rightarrow>
              (if pending = [] \<and> failed r = [] \<and> list_ex (\<lambda>j. wait j \<and> \<not> disabled j) (jobs config)
               then Some (Inl NoWaitJob, w1)
               else await_pending tools config rq (join '', '' (map (version_or_default config \<circ> fst) versions)) r pending w1)))"

definition trigger_matrix :: "'w tools \<Rightarrow> matrix_config \<Rightarrow> request \<Rightarrow> string \<Rightarrow> string option \<Rightarrow> 'w
    \<Rightarrow> ((trigger_error + trigger_results) \<times> 'w) option" where
  "trigger_matrix tools config rq scylla_version filter_version w =
     trigger_matrix_versions tools config rq [(scylla_version, filter_version)] w"

section \<open>What one version triggers\<close>

lemmas trigger_state_defs = add_triggered_def add_failed_def add_skipped_def add_pending_def set_version_def

text \<open>The outcomes of the loop body.\<close>

lemma trigger_job_cases:
  assumes "trigger_job tools dry_run job path params st w = (Inr st', w')"
  shows "st' = add_failed path st \<or> \<not> wait job \<and> st' = add_triggered path st \<or>
    wait job \<and> (\<exists>url. st' = add_pending (pending_for job path url params) (add_triggered path st))"
proof (cases "wait job")
  case True
  obtain r w1 where "trigger_with_queue (tl_jenkins tools) path params dry_run w = (r, w1)" by fastforce
  with True assms show ?thesis by (cases r) (auto simp: trigger_job_def)
next
  case False
  obtain r w1 where "trigger (tl_jenkins tools) path params dry_run w = (r, w1)" by fastforce
  with False assms show ?thesis by (cases r) (auto simp: trigger_job_def split: if_splits)
qed

lemma trigger_step_cases [consumes 1, case_names Duplicate Skip Fail Start Await]:
  assumes "trigger_step tools config rq folder choice v fv job st w = (Inr st', w')"
  obtains "resolve_job_path (job_name job) folder \<in> set (ts_paths st)" "st' = st"
  | "unavailable choice (job_target (tl_json tools) config (rq_overrides rq) job)" "st' = add_skipped (job_name job) st"
  | path x where "path = resolve_job_path (job_name job) folder" "path \<notin> set (ts_paths st)" "st' = add_failed path (set_version path x st)"
  | path params where "path = resolve_job_path (job_name job) folder" "path \<notin> set (ts_paths st)" "\<not> wait job"
      "\<not> unavailable choice (job_target (tl_json tools) config (rq_overrides rq) job)"
      "params = job_params config rq choice v fv (job_target (tl_json tools) config (rq_overrides rq) job) job"
      "st' = add_triggered path (set_version path (version_param params) st)"
  | path params url where "path = resolve_job_path (job_name job) folder" "path \<notin> set (ts_paths st)" "wait job"
      "\<not> unavailable choice (job_target (tl_json tools) config (rq_overrides rq) job)"
      "params = job_params config rq choice v fv (job_target (tl_json tools) config (rq_overrides rq) job) job"
      "st' = add_pending (pending_for job path url params) (add_triggered path (set_version path (version_param params) st))"
proof -
  let ?path = "resolve_job_path (job_name job) folder"
  let ?t = "job_target (tl_json tools) config (rq_overrides rq) job"
  let ?params = "job_params config rq choice v fv ?t job"
  consider (d) "?path \<in> set (ts_paths st)" | (s) "?path \<notin> set (ts_paths st)" "unavailable choice ?t"
    | (go) "?path \<notin> set (ts_paths st)" "\<not> unavailable choice ?t" by blast
  then show ?thesis
  proof cases
    case d
    with assms have "st' = st" by (simp add: trigger_step_def Let_def)
    from that(1)[OF d this] show ?thesis .
  next
    case s
    with assms have "st' = add_skipped (job_name job) st" by (simp add: trigger_step_def Let_def)
    from that(2)[OF s(2) this] show ?thesis .
  next
    case go
    with assms have "trigger_job tools (rq_dry_run rq) job ?path ?params (set_version ?path (version_param ?params) st) w = (Inr st', w')"
      by (simp add: trigger_step_def Let_def)
    from trigger_job_cases[OF this] show ?thesis
    proof (elim disjE conjE exE)
      assume "st' = add_failed ?path (set_version ?path (version_param ?params) st)"
      from that(3)[OF refl go(1) this] show ?thesis .
    next
      assume "\<not> wait job" "st' = add_triggered ?path (set_version ?path (version_param ?params) st)"
      from that(4)[OF refl go(1) this(1) go(2) refl this(2)] show ?thesis .
    next
      fix url
      assume "wait job" "st' = add_pending (pending_for job ?path url ?params) (add_triggered ?path (set_version ?path (version_param ?params) st))"
      from that(5)[OF refl go(1) this(1) go(2) refl this(2)] show ?thesis .
    qed
  qed
qed

text \<open>What holds of the loop's state when the entries \<open>done\<close> have been visited.\<close>

definition entry_started :: "'w tools \<Rightarrow> matrix_config \<Rightarrow> request \<Rightarrow> string \<Rightarrow> choice \<Rightarrow> string \<Rightarrow> string option
    \<Rightarrow> trigger_results \<Rightarrow> string \<Rightarrow> job_config \<Rightarrow> bool" where
  "entry_started tools config rq folder choice v fv r path job \<longleftrightarrow>
     path = resolve_job_path (job_name job) folder \<and>
     (let t = job_target (tl_json tools) config (rq_overrides rq) job
      in \<not> unavailable choice t \<and> map_of (tr_versions r) path = Some (version_param (job_params config rq choice v fv t job)))"

definition accounted :: "string \<Rightarrow> trigger_results \<Rightarrow> job_config \<Rightarrow> bool" where
  "accounted folder r job \<longleftrightarrow>
     resolve_job_path (job_name job) folder \<in> set (triggered r) \<union> set (failed r) \<or> job_name job \<in> set (skipped r)"

definition trigger_inv :: "'w tools \<Rightarrow> matrix_config \<Rightarrow> request \<Rightarrow> string \<Rightarrow> choice \<Rightarrow> string \<Rightarrow> string option
    \<Rightarrow> job_config set \<Rightarrow> trigger_state \<Rightarrow> bool" where
  "trigger_inv tools config rq folder choice v fv visited st \<longleftrightarrow>
     set (ts_paths st) = set (triggered (ts_results st)) \<and> distinct (triggered (ts_results st)) \<and>
     distinct (map pw_job_name (ts_pending st)) \<and>
     (\<forall>p\<in>set (ts_pending st). pw_job_name p \<in> set (triggered (ts_results st)) \<and>
        map_of (tr_versions (ts_results st)) (pw_job_name p) = Some (pw_scylla_version p)) \<and>
     (\<forall>path\<in>set (triggered (ts_results st)).
        \<exists>job\<in>visited. entry_started tools config rq folder choice v fv (ts_results st) path job) \<and>
     (\<forall>job\<in>visited. accounted folder (ts_results st) job)"

lemma accounted_mono:
  "accounted folder r job \<Longrightarrow> set (triggered r) \<subseteq> set (triggered r') \<Longrightarrow> set (failed r) \<subseteq> set (failed r') \<Longrightarrow>
   set (skipped r) \<subseteq> set (skipped r') \<Longrightarrow> accounted folder r' job"
  by (auto simp: accounted_def)

lemma entry_started_cong:
  "entry_started tools config rq folder choice v fv r path job \<Longrightarrow> map_of (tr_versions r') path = map_of (tr_versions r) path \<Longrightarrow>
   entry_started tools config rq folder choice v fv r' path job"
  unfolding entry_started_def Let_def by metis

lemma trigger_inv_skip:
  assumes "trigger_inv tools config rq folder choice v fv visited st" "accounted folder (ts_results st') job"
    and "ts_paths st' = ts_paths st" "ts_pending st' = ts_pending st" "triggered (ts_results st') = triggered (ts_results st)"
    and "set (failed (ts_results st)) \<subseteq> set (failed (ts_results st'))" "set (skipped (ts_results st)) \<subseteq> set (skipped (ts_results st'))"
    and "\<And>path. path \<in> set (ts_paths st) \<Longrightarrow> map_of (tr_versions (ts_results st')) path = map_of (tr_versions (ts_results st)) path"
  shows "trigger_inv tools config rq folder choice v fv (insert job visited) st'"
proof -
  note inv = assms(1)[unfolded trigger_inv_def]
  have "\<forall>path\<in>set (triggered (ts_results st')). \<exists>job\<in>insert job visited.
      entry_started tools config rq folder choice v fv (ts_results st') path job"
    using inv assms(5,8) entry_started_cong by (metis insertCI)
  moreover have "\<forall>j\<in>insert job visited. accounted folder (ts_results st') j"
    using inv assms(2,5-7) accounted_mono by (metis insertE order_refl)
  ultimately show ?thesis unfolding trigger_inv_def using inv assms(3-5,8) by auto
qed

lemma trigger_inv_start:
  assumes "trigger_inv tools config rq folder choice v fv visited st" "path \<notin> set (ts_paths st)"
    and "path = resolve_job_path (job_name job) folder" "t = job_target (tl_json tools) config (rq_overrides rq) job"
    and "\<not> unavailable choice t" "x = version_param (job_params config rq choice v fv t job)"
  shows "trigger_inv tools config rq folder choice v fv (insert job visited) (add_triggered path (set_version path x st))"
proof -
  let ?st = "add_triggered path (set_version path x st)"
  note inv = assms(1)[unfolded trigger_inv_def]
  have ch: "map_of (tr_versions (ts_results ?st)) p = map_of (tr_versions (ts_results st)) p" if "p \<noteq> path" for p
    using that by (simp add: trigger_state_defs)
  have "entry_started tools config rq folder choice v fv (ts_results ?st) path job"
    using assms(3-6) by (simp add: entry_started_def Let_def trigger_state_defs)
  moreover have "\<exists>job\<in>visited. entry_started tools config rq folder choice v fv (ts_results ?st) p job"
    if "p \<in> set (triggered (ts_results st))" for p
    using that inv assms(2) ch entry_started_cong by metis
  moreover have "triggered (ts_results ?st) = triggered (ts_results st) @ [path]" by (simp add: trigger_state_defs)
  ultimately have s: "\<forall>p\<in>set (triggered (ts_results ?st)). \<exists>job\<in>insert job visited.
      entry_started tools config rq folder choice v fv (ts_results ?st) p job" by auto
  have "accounted folder (ts_results ?st) j" if "j \<in> visited" for j
  proof -
    from inv that have "accounted folder (ts_results st) j" by blast
    then show ?thesis by (rule accounted_mono) (auto simp: trigger_state_defs)
  qed
  moreover have "accounted folder (ts_results ?st) job" by (simp add: accounted_def trigger_state_defs assms(3))
  ultimately have a: "\<forall>j\<in>insert job visited. accounted folder (ts_results ?st) j" by blast
  have p: "\<forall>p\<in>set (ts_pending ?st). pw_job_name p \<in> set (triggered (ts_results ?st)) \<and>
      map_of (tr_versions (ts_results ?st)) (pw_job_name p) = Some (pw_scylla_version p)"
    using inv assms(2) by (auto simp: trigger_state_defs)
  have d: "set (ts_paths ?st) = set (triggered (ts_results ?st))" "distinct (triggered (ts_results ?st))"
    "distinct (map pw_job_name (ts_pending ?st))" using inv assms(2) by (auto simp: trigger_state_defs)
  show ?thesis unfolding trigger_inv_def using s a p d by blast
qed

lemma trigger_inv_pending:
  assumes "trigger_inv tools config rq folder choice v fv visited (add_triggered path (set_version path x st))"
    and "trigger_inv tools config rq folder choice v fv visited' st" "path \<notin> set (ts_paths st)"
    and "pw_job_name p = path" "pw_scylla_version p = x"
  shows "trigger_inv tools config rq folder choice v fv visited (add_pending p (add_triggered path (set_version path x st)))"
proof -
  have "path \<notin> pw_job_name ` set (ts_pending st)" using assms(2,3) by (auto simp: trigger_inv_def)
  with assms(1,4,5) show ?thesis by (auto simp: trigger_inv_def trigger_state_defs)
qed

lemma trigger_inv_step:
  assumes "trigger_step tools config rq folder choice v fv job st w = (Inr st', w')"
    and inv: "trigger_inv tools config rq folder choice v fv visited st"
  shows "trigger_inv tools config rq folder choice v fv (insert job visited) st'"
  using assms(1)
proof (cases rule: trigger_step_cases)
  case Duplicate
  with inv have "accounted folder (ts_results st') job" by (simp add: accounted_def trigger_inv_def)
  from trigger_inv_skip[OF inv this] Duplicate(2) show ?thesis by simp
next
  case Skip
  then have "accounted folder (ts_results st') job" by (simp add: accounted_def trigger_state_defs)
  from trigger_inv_skip[OF inv this] Skip(2) show ?thesis by (simp add: trigger_state_defs subset_insertI)
next
  case (Fail path x)
  then have "accounted folder (ts_results st') job" by (simp add: accounted_def trigger_state_defs)
  with inv show ?thesis by (rule trigger_inv_skip) (use Fail in \<open>auto simp: trigger_state_defs\<close>)
next
  case (Start path params)
  show ?thesis unfolding Start(6) by (rule trigger_inv_start[OF inv Start(2,1) refl Start(4)]) (simp add: Start(5))
next
  case (Await path params url)
  have "trigger_inv tools config rq folder choice v fv (insert job visited) (add_triggered path (set_version path (version_param params) st))"
    by (rule trigger_inv_start[OF inv Await(2,1) refl Await(4)]) (simp add: Await(5))
  from trigger_inv_pending[OF this inv Await(2)] show ?thesis unfolding Await(6) by (simp add: pending_for_def)
qed

lemma trigger_inv_jobs:
  assumes "trigger_jobs tools config rq folder choice v fv js st w = (Inr st', w')"
    and "trigger_inv tools config rq folder choice v fv visited st"
  shows "trigger_inv tools config rq folder choice v fv (visited \<union> set js) st'"
  using assms
proof (induction js arbitrary: st w visited)
  case (Cons job js)
  obtain r w1 where s: "trigger_step tools config rq folder choice v fv job st w = (r, w1)" by fastforce
  with Cons.prems(1) obtain st1 where r: "r = Inr st1" by (cases r) auto
  with s Cons.prems(1) have "trigger_jobs tools config rq folder choice v fv js st1 w1 = (Inr st', w')" by simp
  from Cons.IH[OF this trigger_inv_step[OF s[unfolded r] Cons.prems(2)]] show ?case by simp
qed simp

lemma trigger_version_run:
  assumes "trigger_version tools config rq skip_list v fv w = (Inr (r, pending), w')"
    and "selected = filter_jobs (version_filter rq skip_list v fv) (jobs config)"
  obtains folder choice st where
    "determine_job_folder (if given fv then the fv else v) (rq_job_folder rq) = Inr folder"
    "version_choice tools config rq (if given fv then the fv else v) v selected = Inr choice"
    "trigger_inv tools config rq folder choice v fv (set selected) st" "r = ts_results st" "pending = ts_pending st"
proof -
  let ?fv = "if given fv then the fv else v"
  let ?st = "\<lparr>ts_results = no_results\<lparr>skipped := not_selected config selected\<rparr>, ts_pending = [], ts_paths = []\<rparr>"
  have jf: "jf_version (version_filter rq skip_list v fv) = ?fv" by (simp add: version_filter_def)
  from assms obtain folder where f: "determine_job_folder ?fv (rq_job_folder rq) = Inr folder"
    by (cases "determine_job_folder ?fv (rq_job_folder rq)") (auto simp: trigger_version_def Let_def jf)
  with assms obtain choice where c: "version_choice tools config rq ?fv v selected = Inr choice"
    by (cases "version_choice tools config rq ?fv v selected") (auto simp: trigger_version_def Let_def jf)
  from assms(1) f c obtain st where
    j: "trigger_jobs tools config rq folder choice v fv selected ?st w = (Inr st, w')" "r = ts_results st" "pending = ts_pending st"
    by (auto simp: trigger_version_def Let_def jf assms(2)[symmetric] split: prod.splits sum.splits)
  have "trigger_inv tools config rq folder choice v fv {} ?st" by (simp add: trigger_inv_def no_results_def)
  from that[OF f c trigger_inv_jobs[OF j(1) this, simplified] j(2,3)] show ?thesis .
qed


section \<open>The whole run\<close>

lemma trigger_versions_pending:
  assumes "trigger_versions tools config rq skip_list vs r ps w = (Inr (r', ps'), w')"
    and "pw_job_name ` set ps \<subseteq> set (triggered r)" "waited r = []"
  shows "pw_job_name ` set ps' \<subseteq> set (triggered r') \<and> waited r' = []"
  using assms
proof (induction vs arbitrary: r ps w)
  case (Cons x vs)
  obtain v fv where x: "x = (v, fv)" by fastforce
  obtain res w1 where t: "trigger_version tools config rq skip_list (version_or_default config v) fv w = (res, w1)" by fastforce
  with Cons.prems(1) x obtain vr vps where res: "res = Inr (vr, vps)" by (cases res) auto
  from t[unfolded res] refl obtain folder choice st where
    "trigger_inv tools config rq folder choice (version_or_default config v) fv
       (set (filter_jobs (version_filter rq skip_list (version_or_default config v) fv) (jobs config))) st"
    "vr = ts_results st" "vps = ts_pending st" by (rule trigger_version_run)
  then have "pw_job_name ` set vps \<subseteq> set (triggered vr)" by (auto simp: trigger_inv_def)
  with Cons.prems(2,3) have "pw_job_name ` set (ps @ vps) \<subseteq> set (triggered (merge_results r vr))" "waited (merge_results r vr) = []"
    by (auto simp: merge_results_def)
  with Cons.IH[of "merge_results r vr" "ps @ vps" w1] Cons.prems(1) x t res show ?case by simp
qed simp

lemma missing_params_none:
  assumes "missing_params config ov = []" "job \<in> set (jobs config)" "\<not> disabled job" "name \<in> set (required_params config)"
  shows "\<not> lacks_value config ov job name"
proof
  assume l: "lacks_value config ov job name"
  define step where "step = (\<lambda>(missing :: (string \<times> string list) list) (job, name).
       if lacks_value config ov job name
       then AList.update name ((case map_of missing name of Some js \<Rightarrow> js | None \<Rightarrow> []) @ [job_name job]) missing
       else missing)"
  have ne: "step m jn \<noteq> []" if "m \<noteq> [] \<or> lacks_value config ov (fst jn) (snd jn)" for m jn
  proof -
    have "AList.update n js m \<noteq> []" for n js by (cases m) (auto split: if_splits)
    with that show ?thesis by (auto simp: step_def split: prod.splits)
  qed
  have keep: "foldl step m js \<noteq> []" if "m \<noteq> [] \<or> (\<exists>jn\<in>set js. lacks_value config ov (fst jn) (snd jn))" for m js
    using that by (induction js arbitrary: m) (auto simp: ne)
  let ?js = "concat (map (\<lambda>job. map (Pair job) (required_params config)) (filter (\<lambda>job. \<not> disabled job) (jobs config)))"
  have "(job, name) \<in> set ?js" using assms(2-4) by auto
  with l have "\<exists>jn\<in>set ?js. lacks_value config ov (fst jn) (snd jn)" by (metis fst_conv snd_conv)
  with keep[of "[]" ?js] have "foldl step [] ?js \<noteq> []" by blast
  moreover have "missing_params config ov = foldl step [] ?js" by (simp only: missing_params_def step_def)
  ultimately show False using assms(1) by simp
qed

lemma await_pending_reports:
  assumes "ticking (tl_jenkins tools) clock" "pw_job_name ` set pending \<subseteq> set (triggered r)" "waited r = []"
  shows "\<exists>res w'. await_pending tools config rq versions r pending w = Some (res, w') \<and>
    (\<forall>r'. res = Inr r' \<longrightarrow> (pending \<noteq> [] \<longrightarrow> waited r' \<noteq> []) \<and> (pending = [] \<longrightarrow> r' = r) \<and>
       (\<forall>(name, b)\<in>set (waited r'). name \<in> set (triggered r') \<and> (\<not> success b \<longrightarrow> name \<in> set (failed r'))))"
proof (cases "pending = []")
  case False
  have "0 < wait_poll_interval" by (simp add: wait_poll_interval_def)
  from wait_for_builds_ends[OF assms(1) this, of pending "rq_dry_run rq" w] obtain res w1 where
    wb: "wait_for_builds (tl_jenkins tools) pending (rq_dry_run rq) wait_poll_interval w = Some (res, w1)"
    "\<forall>bs. res = Inr bs \<longrightarrow> mset (map build_key bs) = mset (map pending_key pending)" by blast
  show ?thesis
  proof (cases res)
    case (Inl e)
    with False wb(1) show ?thesis by (simp add: await_pending_def)
  next
    case (Inr bs)
    with wb(2) have "mset (map build_key bs) = mset (map pending_key pending)" by blast
    then have k: "build_key ` set bs = pending_key ` set pending" by (metis set_map set_mset_mset)
    with False have "bs \<noteq> []" by auto
    have "br_job_name b \<in> set (triggered r)" if "b \<in> set bs" for b
    proof -
      from that k obtain p where "p \<in> set pending" "build_key b = pending_key p" by (metis imageE imageI)
      with assms(2) show ?thesis by (auto simp: build_key_def pending_key_def)
    qed
    with \<open>bs \<noteq> []\<close> False wb(1) Inr assms(3) show ?thesis
      by (cases "send_report tools config rq versions bs w1"; cases "fst (send_report tools config rq versions bs w1)")
        (auto simp: await_pending_def add_builds_def)
  qed
qed (simp add: await_pending_def assms(3))

section \<open>Properties\<close>

text \<open>C9: one version of a run accounts for every selected job and triggers none twice.  When it returns, the triggered
  paths differ, every selected entry was triggered, failed or skipped, every triggered path belongs to a selected entry
  whose target has the version, and was given the version resolved for that target; the builds to wait for are among
  them, one per path, with that version.\<close>

theorem trigger_version_accounts:
  assumes "trigger_version tools config rq skip_list v fv w = (Inr (r, pending), w')"
    and "selected = filter_jobs (version_filter rq skip_list v fv) (jobs config)"
  shows "\<exists>folder choice.
    determine_job_folder (if given fv then the fv else v) (rq_job_folder rq) = Inr folder \<and>
    version_choice tools config rq (if given fv then the fv else v) v selected = Inr choice \<and>
    distinct (triggered r) \<and> (\<forall>job\<in>set selected. accounted folder r job) \<and>
    (\<forall>path\<in>set (triggered r). \<exists>job\<in>set selected. entry_started tools config rq folder choice v fv r path job) \<and>
    distinct (map pw_job_name pending) \<and>
    (\<forall>p\<in>set pending. pw_job_name p \<in> set (triggered r) \<and> map_of (tr_versions r) (pw_job_name p) = Some (pw_scylla_version p))"
proof -
  from assms obtain folder choice st where
    "determine_job_folder (if given fv then the fv else v) (rq_job_folder rq) = Inr folder"
    "version_choice tools config rq (if given fv then the fv else v) v selected = Inr choice"
    "trigger_inv tools config rq folder choice v fv (set selected) st" "r = ts_results st" "pending = ts_pending st"
    by (rule trigger_version_run)
  then show ?thesis unfolding trigger_inv_def by blast
qed

text \<open>C12: a run always ends, whatever Jenkins answers, once the clock advances over sleeps; and a run that returns
  reports: with an enabled wait-mode job in the matrix it has awaited a build or has a failure, it awaited only builds it
  triggered, and every awaited build that did not succeed is among the failures.\<close>

theorem trigger_matrix_reports:
  assumes "ticking (tl_jenkins tools) clock"
  shows "\<exists>res w'. trigger_matrix_versions tools config rq versions w = Some (res, w') \<and>
    (\<forall>r. res = Inr r \<longrightarrow>
       ((\<exists>j\<in>set (jobs config). wait j \<and> \<not> disabled j) \<longrightarrow> waited r \<noteq> [] \<or> failed r \<noteq> []) \<and>
       (\<forall>(name, b)\<in>set (waited r). name \<in> set (triggered r) \<and> (\<not> success b \<longrightarrow> name \<in> set (failed r))))"
proof (cases "check_required_params config (rq_overrides rq)")
  case (Inl e)
  then show ?thesis by (simp add: trigger_matrix_versions_def)
next
  case (Inr u)
  define skip where "skip = (case rq_skip_jobs rq of None \<Rightarrow> [] | Some s \<Rightarrow> split_items CHR '','' s)"
  obtain out w1 where t: "trigger_versions tools config rq skip versions no_results [] w = (out, w1)" by fastforce
  note run = trigger_matrix_versions_def[of tools config rq versions w, unfolded Inr Let_def skip_def[symmetric] t]
  show ?thesis
  proof (cases out)
    case (Inl e)
    with run show ?thesis by simp
  next
    case (Inr rp)
    obtain r pending where rp: "rp = (r, pending)" by fastforce
    from trigger_versions_pending[OF t[unfolded Inr rp]] have
      p: "pw_job_name ` set pending \<subseteq> set (triggered r)" "waited r = []" by (simp_all add: no_results_def)
    note await = await_pending_reports[OF assms p, of config rq "join '', '' (map (version_or_default config \<circ> fst) versions)" w1]
    show ?thesis
    proof (cases "pending = [] \<and> failed r = [] \<and> list_ex (\<lambda>j. wait j \<and> \<not> disabled j) (jobs config)")
      case True
      with run Inr rp show ?thesis by simp
    next
      case False
      with run Inr rp have "trigger_matrix_versions tools config rq versions w =
        await_pending tools config rq (join '', '' (map (version_or_default config \<circ> fst) versions)) r pending w1" by auto
      with await False show ?thesis by (fastforce simp: list_ex_iff)
    qed
  qed
qed

text \<open>when the check of the required parameters passes, every enabled job is given a non-blank value for each of
  them (location parameters apart, which the job's own values override even when they are blank).\<close>

theorem required_params_given:
  assumes "check_required_params config ov = Inr ()" "job \<in> set (jobs config)" "\<not> disabled job"
    and "name \<in> set (required_params config)" "name \<notin> set per_job_location_params"
    and "distinct (map fst (jc_params job))" "distinct (map fst ov)"
  shows "\<exists>x. map_of (merge_parameters job (defaults config) ov) name = Some x \<and> strip (jstr x) \<noteq> []"
proof -
  from assms(1) have "missing_params config ov = []" by (simp add: check_required_params_def Let_def split: if_splits)
  with assms(2-4) have "\<not> lacks_value config ov job name" by (simp add: missing_params_none)
  with assms(6,7) have "strip (case (map_of (defaults config) ++ map_of (jc_params job) ++ map_of (given_overrides ov)) name of
      Some v \<Rightarrow> jstr v | None \<Rightarrow> []) \<noteq> []"
    by (simp add: lacks_value_def map_of_dict_update_distinct distinct_given_overrides)
  with assms(5-7) show ?thesis
    by (auto simp: map_of_merge_parameters merged_value_def strip_def lstrip_def split: option.splits)
qed

text \<open>A Jenkins that queues every job and finishes its build, and a matrix of a job with two entries and a job on a cloud
  that has no image.\<close>

definition sample_jenkins :: "rat jenkins_api" where
  "sample_jenkins = stuck_jenkins\<lparr>ja_run_script := (\<lambda>_ _ _ w. (Some ''TRIGGERED:http://jenkins/queue/item/7/'', w))\<rparr>"

definition sample_tools :: "rat tools" where
  "sample_tools = \<lparr>tl_jenkins = sample_jenkins, tl_images = sample_images, tl_json = (\<lambda>_. None), tl_send = (\<lambda>_ _ w. w),
     tl_write = (\<lambda>_ _ w. (Inr (), w))\<rparr>"

definition gating_matrix :: matrix_config where
  "gating_matrix = sample_matrix\<lparr>jobs := [sample_job\<lparr>wait := True\<rparr>, sample_job\<lparr>jc_backend := ''gce''\<rparr>,
     sample_job\<lparr>job_name := ''tier1/azure'', jc_backend := ''azure''\<rparr>], required_params := [''region'', ''email'']\<rparr>"

definition sample_request :: request where
  "sample_request = \<lparr>rq_job_folder = None, rq_labels = Some ''tier1'', rq_backend = None, rq_skip_jobs = None, rq_dry_run = False,
     rq_recipients = [], rq_image_arch = None, rq_version_resolution = None, rq_report_dir = None,
     rq_overrides = [(''email'', JStr ''qa@scylladb.com'')]\<rparr>"

abbreviation sample_version :: string where
  "sample_version \<equiv> ''2026.4.0~dev-0.20260805.bbb''"

abbreviation sample_path :: string where
  "sample_path \<equiv> ''scylla-master/tier1/longevity''"

definition sample_results :: trigger_results where
  "sample_results = \<lparr>triggered = [sample_path], skipped = [''tier1/azure''], failed = [], waited = [],
     tr_versions = [(sample_path, sample_version)]\<rparr>"

definition sample_awaited :: "pending_wait_job list" where
  "sample_awaited = [\<lparr>pw_job_name = sample_path, pw_queue_url = ''http://jenkins/queue/item/7/'', pw_collect_results = [],
     pw_timeout = 14400, pw_fail_on_error = False, pw_scylla_version = sample_version\<rparr>]"

lemma sample_version_run:
  "trigger_version sample_tools gating_matrix sample_request [] sample_version (Some ''master:latest'') 0 =
     (Inr (sample_results, sample_awaited), 0)"
  by code_simp

theorem trigger_version_accounts_witness:
  "trigger_version sample_tools gating_matrix sample_request [] sample_version (Some ''master:latest'') 0 =
     (Inr (sample_results, sample_awaited), 0) \<and>
   distinct (triggered sample_results) \<and> (\<exists>folder. \<forall>job\<in>set (filter_jobs (version_filter sample_request [] sample_version
     (Some ''master:latest'')) (jobs gating_matrix)). accounted folder sample_results job)"
proof -
  from trigger_version_accounts[OF sample_version_run refl] obtain folder where
    "distinct (triggered sample_results)" "\<forall>job\<in>set (filter_jobs (version_filter sample_request [] sample_version
     (Some ''master:latest'')) (jobs gating_matrix)). accounted folder sample_results job" by (elim exE conjE)
  then show ?thesis by (intro conjI exI[of _ folder] sample_version_run)
qed

theorem trigger_matrix_reports_witness:
  "ticking (tl_jenkins sample_tools) id \<and>
   (\<exists>res w'. trigger_matrix_versions sample_tools gating_matrix sample_request [(sample_version, Some ''master:latest'')] 0 = Some (res, w'))"
proof -
  have t: "ticking (tl_jenkins sample_tools) id"
    by (simp add: ticking_def sample_tools_def sample_jenkins_def stuck_jenkins_def)
  from trigger_matrix_reports[OF t, of gating_matrix sample_request "[(sample_version, Some ''master:latest'')]" 0] t
  show ?thesis by (elim exE conjE) (intro conjI exI)
qed

theorem required_params_given_witness:
  "check_required_params gating_matrix (rq_overrides sample_request) = Inr () \<and> ''email'' \<in> set (required_params gating_matrix) \<and>
   (\<exists>x. map_of (merge_parameters (hd (jobs gating_matrix)) (defaults gating_matrix) (rq_overrides sample_request)) ''email'' = Some x \<and>
      strip (jstr x) \<noteq> [])"
proof -
  have c: "check_required_params gating_matrix (rq_overrides sample_request) = Inr ()" by code_simp
  have m: "hd (jobs gating_matrix) \<in> set (jobs gating_matrix)" "\<not> disabled (hd (jobs gating_matrix))"
    by (simp_all add: gating_matrix_def sample_job_def)
  have n: "''email'' \<in> set (required_params gating_matrix)" "''email'' \<notin> set per_job_location_params"
    by (simp_all add: gating_matrix_def per_job_location_params_def)
  have d: "distinct (map fst (jc_params (hd (jobs gating_matrix))))" "distinct (map fst (rq_overrides sample_request))"
    by (simp_all add: gating_matrix_def sample_job_def sample_request_def)
  from required_params_given[OF c m n d] c n(1) show ?thesis by (intro conjI)
qed

section \<open>Where the code departs from its documentation\<close>

text \<open>Missing Jenkins credentials do not raise for a wait-mode job: the job is only entered as failed.\<close>

lemma missing_credentials_not_raised:
  "trigger_version (sample_tools\<lparr>tl_jenkins := sample_jenkins\<lparr>ja_url := Inl (JenkinsTriggerError ''Jenkins URL not set'')\<rparr>\<rparr>)
     (gating_matrix\<lparr>jobs := [sample_job\<lparr>wait := True\<rparr>]\<rparr>) sample_request [] sample_version (Some ''master:latest'') 0 =
   (Inr (\<lparr>triggered = [], skipped = [], failed = [sample_path], waited = [], tr_versions = [(sample_path, sample_version)]\<rparr>, []), 0)"
  by code_simp

text \<open>A required parameter whose only value is null passes the check, since \<^verbatim>\<open>str(None)\<close> is not blank.\<close>

lemma null_parameter_passes:
  "check_required_params (gating_matrix\<lparr>defaults := [(''region'', JNone), (''email'', JNone)]\<rparr>) [] = Inr ()"
  by code_simp

end
