(* ===== verification/Trigger_Config.thy ===== *)
theory Trigger_Config
  imports Trigger_Models
begin

text \<open>
  Loading a trigger matrix (\<^verbatim>\<open>sdcm/utils/trigger_matrix/config.py\<close>): the layout pass over the raw YAML
  document, which collects every misplaced key, and the validators of the parsed matrix.

  A YAML document is a scalar, a list or a mapping.  The conversion of a raw document to the typed fields
  of the matrix is pydantic's and is a parameter, \<open>None\<close> standing for a validation error.  A layout error is
  what its message says, without the spelling hint.
\<close>

section \<open>Documents\<close>

datatype yaml = YScalar jval | YList "yaml list" | YMap "(string \<times> yaml) list"

datatype layout_error =
    UnknownTopKey string
  | ParamsNotMapping string
  | JobLevelKeyInParams string string
  | NotScalar string string
  | JobNotMapping nat
  | UnknownJobKey nat string
  | GceRegion nat

datatype config_error =
    NotAMapping
  | NoJobsKey
  | JobsNotAList
  | BadLayout "layout_error list"
  | PythonTypeError
  | Rejected

definition job_level_keys :: "string list" where
  "job_level_keys = [''job_name'', ''backend'', ''arch'', ''disabled'', ''labels'', ''include_versions'', ''exclude_versions'',
     ''pre_release'', ''job_throttle_category'', ''params'', ''wait'', ''wait_timeout'', ''fail_on_error'', ''collect_results'']"

definition matrix_level_keys :: "string list" where
  "matrix_level_keys = [''jobs'', ''defaults'', ''default_scylla_version'', ''version_resolution'', ''cron_triggers'',
     ''email_recipients'', ''jenkinsfiles'', ''required_params'', ''supported_versions_only'']"

definition is_scalar :: "yaml \<Rightarrow> bool" where
  "is_scalar y = (case y of YScalar _ \<Rightarrow> True | _ \<Rightarrow> False)"

text \<open>The elements of \<^verbatim>\<open>raw.get(key) or []\<close> in a \<^verbatim>\<open>for\<close> loop: a mapping yields its keys, a string its characters, and a
  number or \<^verbatim>\<open>True\<close> raises a \<^verbatim>\<open>TypeError\<close>.\<close>

definition iterate :: "yaml option \<Rightarrow> config_error + yaml list" where
  "iterate y = (case y of
       None \<Rightarrow> Inr []
     | Some (YList ys) \<Rightarrow> Inr ys
     | Some (YMap kvs) \<Rightarrow> Inr (map (\<lambda>(k, _). YScalar (JStr k)) kvs)
     | Some (YScalar (JStr s)) \<Rightarrow> Inr (map (\<lambda>c. YScalar (JStr [c])) s)
     | Some (YScalar v) \<Rightarrow> if jtruthy v then Inl PythonTypeError else Inr [])"

text \<open>\<^verbatim>\<open>key in (y or {})\<close>\<close>

definition key_in :: "string \<Rightarrow> yaml \<Rightarrow> config_error + bool" where
  "key_in key y = (case y of
       YMap kvs \<Rightarrow> Inr (key \<in> set (map fst kvs))
     | YList ys \<Rightarrow> Inr (YScalar (JStr key) \<in> set ys)
     | YScalar (JStr s) \<Rightarrow> Inr (s \<noteq> [] \<and> contains key s)
     | YScalar v \<Rightarrow> if jtruthy v then Inl PythonTypeError else Inr False)"

section \<open>The layout pass\<close>

definition validate_param :: "string \<Rightarrow> string \<times> yaml \<Rightarrow> layout_error list" where
  "validate_param place kv = (case kv of (key, value) \<Rightarrow>
     (if key \<in> set job_level_keys then [JobLevelKeyInParams place key] else []) @
     (if \<not> is_scalar value then [NotScalar place key] else []))"

definition validate_params_block :: "string \<Rightarrow> yaml \<Rightarrow> layout_error list" where
  "validate_params_block place params = (case params of
       YMap kvs \<Rightarrow> concat (map (validate_param place) kvs)
     | _ \<Rightarrow> [ParamsNotMapping place])"

definition validate_job_entry :: "nat \<Rightarrow> yaml \<Rightarrow> config_error + layout_error list" where
  "validate_job_entry index job = (case job of
       YMap kvs \<Rightarrow>
         (let unknown = map (UnknownJobKey index) (filter (\<lambda>k. k \<notin> set job_level_keys) (map fst kvs))
          in case map_of kvs ''params'' of
               None \<Rightarrow> Inr unknown
             | Some params \<Rightarrow>
                 (let errors = unknown @ validate_params_block ''params'' params
                  in if map_of kvs ''backend'' = Some (YScalar (JStr ''gce'')) then
                       (case key_in ''region'' params of
                          Inl e \<Rightarrow> Inl e
                        | Inr b \<Rightarrow> Inr (errors @ (if b then [GceRegion index] else [])))
                     else Inr errors))
     | _ \<Rightarrow> Inr [JobNotMapping index])"

fun validate_job_entries :: "nat \<Rightarrow> yaml list \<Rightarrow> config_error + layout_error list" where
  "validate_job_entries index [] = Inr []"
| "validate_job_entries index (job # js) = (case validate_job_entry index job of
       Inl e \<Rightarrow> Inl e
     | Inr errors \<Rightarrow> (case validate_job_entries (Suc index) js of Inl e \<Rightarrow> Inl e | Inr rest \<Rightarrow> Inr (errors @ rest)))"

definition validate_cron :: "yaml \<Rightarrow> layout_error list" where
  "validate_cron cron = (case cron of
       YMap kvs \<Rightarrow> (case map_of kvs ''params'' of Some params \<Rightarrow> validate_params_block ''cron_triggers'' params | None \<Rightarrow> [])
     | _ \<Rightarrow> [])"

definition validate_matrix_layout :: "(string \<times> yaml) list \<Rightarrow> config_error + unit" where
  "validate_matrix_layout raw =
     (let top = map UnknownTopKey (filter (\<lambda>k. k \<notin> set matrix_level_keys) (map fst raw));
          dflt = (case map_of raw ''defaults'' of Some d \<Rightarrow> validate_params_block ''defaults'' d | None \<Rightarrow> [])
      in case iterate (map_of raw ''cron_triggers'') of
           Inl e \<Rightarrow> Inl e
         | Inr crons \<Rightarrow> (case iterate (map_of raw ''jobs'') of
             Inl e \<Rightarrow> Inl e
           | Inr js \<Rightarrow> (case validate_job_entries 0 js of
               Inl e \<Rightarrow> Inl e
             | Inr entries \<Rightarrow>
                 (let errors = top @ dflt @ concat (map validate_cron crons) @ entries
                  in if errors \<noteq> [] then Inl (BadLayout errors) else Inr ()))))"

section \<open>Loading\<close>

text \<open>\<^verbatim>\<open>raw["email_recipients"]\<close> given as one string becomes a list.\<close>

definition normalize_email :: "(string \<times> yaml) list \<Rightarrow> (string \<times> yaml) list" where
  "normalize_email raw = (case map_of raw ''email_recipients'' of
       Some (YScalar (JStr s)) \<Rightarrow> AList.update ''email_recipients'' (YList (map (YScalar \<circ> JStr) (split_items CHR '','' s))) raw
     | _ \<Rightarrow> raw)"

definition valid_backends :: "string list" where
  "valid_backends = [''aws'', ''gce'', ''azure'', ''docker'', ''oci'']"

text \<open>\<^verbatim>\<open>MatrixConfig.model_validate\<close>: pydantic's conversion, then the validators of the fields and of the model.\<close>

definition model_validate :: "((string \<times> yaml) list \<Rightarrow> matrix_config option) \<Rightarrow> (string \<times> yaml) list \<Rightarrow> config_error + matrix_config" where
  "model_validate parse raw = (case parse raw of
       None \<Rightarrow> Inl Rejected
     | Some config \<Rightarrow>
         (if list_ex (\<lambda>job. jc_backend job \<notin> set valid_backends \<or> \<not> validate_arch (jc_arch job)) (jobs config) then Inl Rejected
          else case reject_cross_arch_twins config of Inl _ \<Rightarrow> Inl Rejected | Inr c \<Rightarrow> Inr c))"

definition load_matrix_config :: "((string \<times> yaml) list \<Rightarrow> matrix_config option) \<Rightarrow> yaml \<Rightarrow> config_error + matrix_config" where
  "load_matrix_config parse doc = (case doc of
       YMap raw \<Rightarrow> (case map_of raw ''jobs'' of
           None \<Rightarrow> Inl NoJobsKey
         | Some (YList _) \<Rightarrow>
             (let raw1 = normalize_email raw in
              case validate_matrix_layout raw1 of Inl e \<Rightarrow> Inl e | Inr _ \<Rightarrow> model_validate parse raw1)
         | Some _ \<Rightarrow> Inl JobsNotAList)
     | _ \<Rightarrow> Inl NotAMapping)"

section \<open>What a loaded matrix satisfies\<close>

text \<open>The layout the documentation describes.\<close>

definition params_well_placed :: "yaml \<Rightarrow> bool" where
  "params_well_placed params \<longleftrightarrow>
     (\<exists>kvs. params = YMap kvs \<and> (\<forall>(k, v)\<in>set kvs. k \<notin> set job_level_keys \<and> is_scalar v))"

definition job_well_placed :: "yaml \<Rightarrow> bool" where
  "job_well_placed job \<longleftrightarrow>
     (\<exists>kvs. job = YMap kvs \<and> fst ` set kvs \<subseteq> set job_level_keys \<and>
        (\<forall>params. map_of kvs ''params'' = Some params \<longrightarrow> params_well_placed params \<and>
           (map_of kvs ''backend'' = Some (YScalar (JStr ''gce'')) \<longrightarrow> key_in ''region'' params = Inr False)))"

lemma params_block_ok: "validate_params_block place params = [] \<longleftrightarrow> params_well_placed params"
  by (cases params) (auto simp: validate_params_block_def params_well_placed_def validate_param_def split: if_splits)

lemma job_entry_ok: "validate_job_entry i job = Inr [] \<longleftrightarrow> job_well_placed job"
proof (cases job)
  case (YMap kvs)
  have u: "filter (\<lambda>k. k \<notin> set job_level_keys) (map fst kvs) = [] \<longleftrightarrow> fst ` set kvs \<subseteq> set job_level_keys"
    by (auto simp: filter_empty_conv)
  show ?thesis
    unfolding YMap validate_job_entry_def job_well_placed_def
    by (cases "map_of kvs ''params''"; cases "key_in ''region'' (the (map_of kvs ''params''))")
      (auto simp: Let_def u params_block_ok filter_empty_conv)
qed (auto simp: validate_job_entry_def job_well_placed_def)

lemma job_entries_ok: "validate_job_entries i js = Inr [] \<longleftrightarrow> list_all job_well_placed js"
proof (induction js arbitrary: i)
  case (Cons job js)
  show ?case
  proof (cases "validate_job_entry i job")
    case (Inl e)
    with job_entry_ok[of i job] show ?thesis by simp
  next
    case (Inr errors)
    with job_entry_ok[of i job] Cons[of "Suc i"] show ?thesis
      by (cases "validate_job_entries (Suc i) js") auto
  qed
qed simp

section \<open>Properties\<close>


definition sample_document :: yaml where
  "sample_document = YMap [(''jobs'', YList [YMap [(''job_name'', YScalar (JStr ''tier1/longevity'')), (''backend'', YScalar (JStr ''gce'')),
     (''params'', YMap [(''gce_datacenter'', YScalar (JStr ''us-east1''))])]]),
     (''email_recipients'', YScalar (JStr ''qa@scylladb.com, dev@scylladb.com''))]"


end
