(* ===== verification/Bool_Phrase.thy ===== *)
theory Bool_Phrase
  imports Regex
begin

text \<open>
  Logical phrases over flag names: the evaluator of \<^verbatim>\<open>sdcm/utils/ast_utils.py\<close> and the parser it is fed by.

  \<^verbatim>\<open>ast.parse(phrase, mode="eval")\<close> is modelled for the phrases made of names, constants, \<^verbatim>\<open>not\<close>, \<^verbatim>\<open>and\<close>,
  \<^verbatim>\<open>or\<close>, the unary operators and parentheses, on one line; any other phrase is refused, where the code raises
  at the parse or when the evaluation reaches the foreign node.  The parser spends one unit of fuel per
  call; \<open>parse_toks\<close> gives it six per token, which \<open>parse_printed\<close> shows to be enough.
\<close>

section \<open>Expressions\<close>

datatype bexp =
    BName string
  | BConst bool
  | BNonBool
  | BNot bexp
  | BUnary bexp
  | BAnd "bexp list"
  | BOr "bexp list"
  | BOther

datatype visit_error = NotImplemented | NonBooleanValue | NonBooleanExpression | SyntaxError

text \<open>\<^verbatim>\<open>BooleanEvaluator.visit\<close>; \<open>visit_all\<close> and \<open>visit_any\<close> are the generators under \<^verbatim>\<open>all\<close> and \<^verbatim>\<open>any\<close>, which stop at the
  first operand that decides.\<close>

fun visit :: "(string \<rightharpoonup> bool) \<Rightarrow> bexp \<Rightarrow> visit_error + bool"
  and visit_all :: "(string \<rightharpoonup> bool) \<Rightarrow> bexp list \<Rightarrow> visit_error + bool"
  and visit_any :: "(string \<rightharpoonup> bool) \<Rightarrow> bexp list \<Rightarrow> visit_error + bool" where
  "visit ctx (BName n) = Inr (case ctx n of Some b \<Rightarrow> b | None \<Rightarrow> False)"
| "visit ctx (BConst b) = Inr b"
| "visit ctx BNonBool = Inl NonBooleanValue"
| "visit ctx (BNot e) = (case visit ctx e of Inl x \<Rightarrow> Inl x | Inr b \<Rightarrow> Inr (\<not> b))"
| "visit ctx (BUnary e) = Inl NotImplemented"
| "visit ctx (BAnd es) = visit_all ctx es"
| "visit ctx (BOr es) = visit_any ctx es"
| "visit ctx BOther = Inl NonBooleanExpression"
| "visit_all ctx [] = Inr True"
| "visit_all ctx (e # es) = (case visit ctx e of Inl x \<Rightarrow> Inl x | Inr b \<Rightarrow> if b then visit_all ctx es else Inr False)"
| "visit_any ctx [] = Inr False"
| "visit_any ctx (e # es) = (case visit ctx e of Inl x \<Rightarrow> Inl x | Inr b \<Rightarrow> if b then Inr True else visit_any ctx es)"

section \<open>Tokens\<close>

datatype btok = TName string | TTrue | TFalse | TNonBool | TUnary | TNot | TAnd | TOr | TOpen | TClose

definition reserved_words :: "string list" where
  "reserved_words = [''as'', ''assert'', ''async'', ''await'', ''break'', ''class'', ''continue'', ''def'', ''del'', ''elif'', ''else'',
     ''except'', ''finally'', ''for'', ''from'', ''global'', ''if'', ''import'', ''in'', ''is'', ''lambda'', ''nonlocal'', ''pass'',
     ''raise'', ''return'', ''try'', ''while'', ''with'', ''yield'']"

definition is_word :: "char \<Rightarrow> bool" where
  "is_word c = (is_alnum c \<or> c = CHR ''_'')"

definition word_token :: "string \<Rightarrow> btok option" where
  "word_token w =
     (if w = ''and'' then Some TAnd else if w = ''or'' then Some TOr else if w = ''not'' then Some TNot
      else if w = ''True'' then Some TTrue else if w = ''False'' then Some TFalse else if w = ''None'' then Some TNonBool
      else if w \<in> set reserved_words then None
      else if is_dec_digit (hd w) then (if list_all is_dec_digit w then Some TNonBool else None)
      else Some (TName w))"

definition is_blank :: "char \<Rightarrow> bool" where
  "is_blank c = (c = CHR '' '' \<or> c = CHR 0x09)"

definition char_token :: "char \<Rightarrow> btok option" where
  "char_token c =
     (if c = CHR ''('' then Some TOpen else if c = CHR '')'' then Some TClose
      else if c \<in> {CHR ''-'', CHR ''+'', CHR ''~''} then Some TUnary else None)"

function lex :: "string \<Rightarrow> btok list option" where
  "lex [] = Some []"
| "lex (c # cs) =
     (if is_blank c then lex cs
      else case char_token c of
        Some t \<Rightarrow> map_option ((#) t) (lex cs)
      | None \<Rightarrow>
          (if is_word c then (case word_token (c # takeWhile is_word cs) of
              None \<Rightarrow> None
            | Some t \<Rightarrow> map_option ((#) t) (lex (dropWhile is_word cs)))
           else None))"
  by pat_completeness auto
termination
  by (relation "measure length") (auto simp: le_imp_less_Suc length_dropWhile_le)

section \<open>The grammar\<close>

text \<open>\<^verbatim>\<open>disjunction\<close>, \<^verbatim>\<open>conjunction\<close>, \<^verbatim>\<open>inversion\<close> and \<^verbatim>\<open>factor\<close> of the Python grammar: a chain of one operator is one node.\<close>

fun p_or :: "nat \<Rightarrow> btok list \<Rightarrow> (bexp \<times> btok list) option"
  and p_ors :: "nat \<Rightarrow> btok list \<Rightarrow> (bexp list \<times> btok list) option"
  and p_and :: "nat \<Rightarrow> btok list \<Rightarrow> (bexp \<times> btok list) option"
  and p_ands :: "nat \<Rightarrow> btok list \<Rightarrow> (bexp list \<times> btok list) option"
  and p_not :: "nat \<Rightarrow> btok list \<Rightarrow> (bexp \<times> btok list) option"
  and p_fac :: "nat \<Rightarrow> btok list \<Rightarrow> (bexp \<times> btok list) option" where
  "p_or 0 ts = None"
| "p_or (Suc n) ts = (case p_and n ts of
       None \<Rightarrow> None
     | Some (e, rest) \<Rightarrow> (case p_ors n rest of
         None \<Rightarrow> None
       | Some (es, rest') \<Rightarrow> Some (if es = [] then e else BOr (e # es), rest')))"
| "p_ors 0 ts = None"
| "p_ors (Suc n) ts = (case ts of
       TOr # us \<Rightarrow> (case p_and n us of
           None \<Rightarrow> None
         | Some (e, rest) \<Rightarrow> map_option (\<lambda>(es, rest'). (e # es, rest')) (p_ors n rest))
     | _ \<Rightarrow> Some ([], ts))"
| "p_and 0 ts = None"
| "p_and (Suc n) ts = (case p_not n ts of
       None \<Rightarrow> None
     | Some (e, rest) \<Rightarrow> (case p_ands n rest of
         None \<Rightarrow> None
       | Some (es, rest') \<Rightarrow> Some (if es = [] then e else BAnd (e # es), rest')))"
| "p_ands 0 ts = None"
| "p_ands (Suc n) ts = (case ts of
       TAnd # us \<Rightarrow> (case p_not n us of
           None \<Rightarrow> None
         | Some (e, rest) \<Rightarrow> map_option (\<lambda>(es, rest'). (e # es, rest')) (p_ands n rest))
     | _ \<Rightarrow> Some ([], ts))"
| "p_not 0 ts = None"
| "p_not (Suc n) ts = (case ts of
       TNot # us \<Rightarrow> map_option (\<lambda>(e, rest). (BNot e, rest)) (p_not n us)
     | _ \<Rightarrow> p_fac n ts)"
| "p_fac 0 ts = None"
| "p_fac (Suc n) ts = (case ts of
       TName x # us \<Rightarrow> Some (BName x, us)
     | TTrue # us \<Rightarrow> Some (BConst True, us)
     | TFalse # us \<Rightarrow> Some (BConst False, us)
     | TNonBool # us \<Rightarrow> Some (BNonBool, us)
     | TUnary # us \<Rightarrow> map_option (\<lambda>(e, rest). (BUnary e, rest)) (p_fac n us)
     | TOpen # us \<Rightarrow> (case p_or n us of
           Some (e, TClose # rest) \<Rightarrow> Some (e, rest)
         | _ \<Rightarrow> None)
     | _ \<Rightarrow> None)"

definition parse_toks :: "btok list \<Rightarrow> bexp option" where
  "parse_toks ts = (case p_or (6 * length ts + 6) ts of Some (e, []) \<Rightarrow> Some e | _ \<Rightarrow> None)"

text \<open>A leading blank is an indentation error.\<close>

definition parse :: "string \<Rightarrow> visit_error + bexp" where
  "parse s = (if s \<noteq> [] \<and> is_blank (hd s) then Inl SyntaxError
     else case lex s of
       None \<Rightarrow> Inl SyntaxError
     | Some ts \<Rightarrow> (case parse_toks ts of None \<Rightarrow> Inl SyntaxError | Some e \<Rightarrow> Inr e))"

section \<open>Printing\<close>

text \<open>The tokens of an expression where the grammar expects a disjunction (0), conjunction (1), inversion (2) or factor (3).\<close>

definition paren :: "bool \<Rightarrow> btok list \<Rightarrow> btok list" where
  "paren b ts = (if b then TOpen # ts @ [TClose] else ts)"

fun sep_by :: "btok \<Rightarrow> btok list list \<Rightarrow> btok list" where
  "sep_by t [] = []"
| "sep_by t (ts # tss) = ts @ concat (map ((#) t) tss)"

fun toks :: "nat \<Rightarrow> bexp \<Rightarrow> btok list" where
  "toks l (BName x) = [TName x]"
| "toks l (BConst b) = [if b then TTrue else TFalse]"
| "toks l BNonBool = [TNonBool]"
| "toks l BOther = []"
| "toks l (BUnary e) = TUnary # toks 3 e"
| "toks l (BNot e) = paren (l > 2) (TNot # toks 2 e)"
| "toks l (BAnd es) = paren (l > 1) (sep_by TAnd (map (toks 2) es))"
| "toks l (BOr es) = paren (l > 0) (sep_by TOr (map (toks 1) es))"

text \<open>The expressions the parser builds: chains have two operands at least.\<close>

fun phrase :: "bexp \<Rightarrow> bool" where
  "phrase BOther = False"
| "phrase (BUnary e) = phrase e"
| "phrase (BNot e) = phrase e"
| "phrase (BAnd es) = (2 \<le> length es \<and> list_all phrase es)"
| "phrase (BOr es) = (2 \<le> length es \<and> list_all phrase es)"
| "phrase _ = True"

definition reads_fac :: "bexp \<Rightarrow> bool" where
  "reads_fac e \<longleftrightarrow> (\<forall>n rest. 6 * length (toks 3 e) < n \<longrightarrow> p_fac n (toks 3 e @ rest) = Some (e, rest))"

definition reads_not :: "bexp \<Rightarrow> bool" where
  "reads_not e \<longleftrightarrow> (\<forall>n rest. 6 * length (toks 2 e) + 1 < n \<longrightarrow> p_not n (toks 2 e @ rest) = Some (e, rest))"

definition no_and :: "btok list \<Rightarrow> bool" where
  "no_and ts \<longleftrightarrow> (\<forall>us. ts \<noteq> TAnd # us)"

definition no_or :: "btok list \<Rightarrow> bool" where
  "no_or ts \<longleftrightarrow> (\<forall>us. ts \<noteq> TOr # us)"

definition reads_and :: "bexp \<Rightarrow> bool" where
  "reads_and e \<longleftrightarrow> (\<forall>n rest. no_and rest \<longrightarrow> 6 * length (toks 1 e) + 3 < n \<longrightarrow> p_and n (toks 1 e @ rest) = Some (e, rest))"

definition reads_or :: "bexp \<Rightarrow> bool" where
  "reads_or e \<longleftrightarrow> (\<forall>n rest. no_and rest \<longrightarrow> no_or rest \<longrightarrow> 6 * length (toks 0 e) + 5 < n \<longrightarrow> p_or n (toks 0 e @ rest) = Some (e, rest))"

lemma p_ands_stop: "no_and rest \<Longrightarrow> 0 < n \<Longrightarrow> p_ands n rest = Some ([], rest)"
  by (cases n) (auto simp: no_and_def split: list.splits btok.splits)

lemma p_ors_stop: "no_or rest \<Longrightarrow> 0 < n \<Longrightarrow> p_ors n rest = Some ([], rest)"
  by (cases n) (auto simp: no_or_def split: list.splits btok.splits)

lemma no_and_simps [simp]: "no_and []" "no_and (t # ts) \<longleftrightarrow> t \<noteq> TAnd"
  by (auto simp: no_and_def)

lemma no_or_simps [simp]: "no_or []" "no_or (t # ts) \<longleftrightarrow> t \<noteq> TOr"
  by (auto simp: no_or_def)

lemma reads_or_of_and:
  assumes "reads_and e" "toks 0 e = toks 1 e"
  shows "reads_or e"
  unfolding reads_or_def
proof (intro allI impI)
  fix n rest assume r: "no_and rest" "no_or rest" "6 * length (toks 0 e) + 5 < n"
  then obtain m where n: "n = Suc m" "6 * length (toks 1 e) + 3 < m" "0 < m" using assms(2) by (cases n) auto
  with assms r(1) have "p_and m (toks 1 e @ rest) = Some (e, rest)" by (simp add: reads_and_def)
  with p_ors_stop[OF r(2) n(3)] n(1) assms(2) show "p_or n (toks 0 e @ rest) = Some (e, rest)" by simp
qed

lemma reads_and_of_not:
  assumes "reads_not e" "toks 1 e = toks 2 e"
  shows "reads_and e"
  unfolding reads_and_def
proof (intro allI impI)
  fix n rest assume r: "no_and rest" "6 * length (toks 1 e) + 3 < n"
  then obtain m where n: "n = Suc m" "6 * length (toks 2 e) + 1 < m" "0 < m" using assms(2) by (cases n) auto
  with assms have "p_not m (toks 2 e @ rest) = Some (e, rest)" by (simp add: reads_not_def)
  with p_ands_stop[OF r(1) n(3)] n(1) assms(2) show "p_and n (toks 1 e @ rest) = Some (e, rest)" by simp
qed

lemma reads_not_of_fac:
  assumes "reads_fac e" "toks 2 e = toks 3 e" "toks 3 e = t # ts" "t \<noteq> TNot"
  shows "reads_not e"
  unfolding reads_not_def
proof (intro allI impI)
  fix n rest assume r: "6 * length (toks 2 e) + 1 < n"
  then obtain m where n: "n = Suc m" "6 * length (toks 3 e) < m" using assms(2) by (cases n) auto
  with assms(1) have "p_fac m (toks 3 e @ rest) = Some (e, rest)" by (simp add: reads_fac_def)
  with n(1) assms(2-4) show "p_not n (toks 2 e @ rest) = Some (e, rest)" by (auto split: btok.splits)
qed

lemma reads_fac_of_or:
  assumes "reads_or e" "toks 3 e = TOpen # toks 0 e @ [TClose]"
  shows "reads_fac e"
  unfolding reads_fac_def
proof (intro allI impI)
  fix n rest assume "6 * length (toks 3 e) < n"
  then obtain m where n: "n = Suc m" "6 * length (toks 0 e) + 5 < m" using assms(2) by (cases n) auto
  with assms(1) have "p_or m (toks 0 e @ TClose # rest) = Some (e, TClose # rest)" by (simp add: reads_or_def)
  with n(1) assms(2) show "p_fac n (toks 3 e @ rest) = Some (e, rest)" by simp
qed

lemma p_ands_chain:
  assumes "\<forall>x\<in>set es. reads_not x" "no_and rest" "6 * length (concat (map ((#) TAnd) (map (toks 2) es))) < n"
  shows "p_ands n (concat (map ((#) TAnd) (map (toks 2) es)) @ rest) = Some (es, rest)"
  using assms
proof (induction es arbitrary: n)
  case (Cons x es)
  then obtain m where n: "n = Suc m" "6 * length (toks 2 x) + 1 < m" "6 * length (concat (map ((#) TAnd) (map (toks 2) es))) < m"
    by (cases n) auto
  with Cons.prems(1) have "p_not m (toks 2 x @ concat (map ((#) TAnd) (map (toks 2) es)) @ rest) =
      Some (x, concat (map ((#) TAnd) (map (toks 2) es)) @ rest)" by (simp add: reads_not_def)
  with Cons.IH[of m] Cons.prems n show ?case by simp
qed (simp add: p_ands_stop)

lemma p_ors_chain:
  assumes "\<forall>x\<in>set es. reads_and x" "no_and rest" "no_or rest" "6 * length (concat (map ((#) TOr) (map (toks 1) es))) < n"
  shows "p_ors n (concat (map ((#) TOr) (map (toks 1) es)) @ rest) = Some (es, rest)"
  using assms
proof (induction es arbitrary: n)
  case (Cons x es)
  let ?rest = "concat (map ((#) TOr) (map (toks 1) es)) @ rest"
  from Cons.prems obtain m where n: "n = Suc m" "6 * length (toks 1 x) + 3 < m" "6 * length (concat (map ((#) TOr) (map (toks 1) es))) < m"
    by (cases n) auto
  have "no_and ?rest" using Cons.prems(2) by (cases es) auto
  with n Cons.prems(1) have "p_and m (toks 1 x @ ?rest) = Some (x, ?rest)" by (simp add: reads_and_def)
  with Cons.IH[of m] Cons.prems n show ?case by simp
qed (simp add: p_ors_stop)

lemma reads_and_chain:
  assumes "\<forall>x\<in>set (e # es). reads_not x" "es \<noteq> []"
  shows "reads_and (BAnd (e # es))"
  unfolding reads_and_def
proof (intro allI impI)
  let ?c = "concat (map ((#) TAnd) (map (toks 2) es))"
  fix n rest assume r: "no_and rest" "6 * length (toks 1 (BAnd (e # es))) + 3 < n"
  then obtain m where n: "n = Suc m" "6 * length (toks 2 e) + 1 < m" "6 * length ?c < m" by (cases n) (auto simp: paren_def)
  from assms(1) n(2) have "p_not m (toks 2 e @ ?c @ rest) = Some (e, ?c @ rest)" by (simp add: reads_not_def)
  with p_ands_chain[of es rest m] assms r(1) n show "p_and n (toks 1 (BAnd (e # es)) @ rest) = Some (BAnd (e # es), rest)"
    by (simp add: paren_def)
qed

lemma reads_or_chain:
  assumes "\<forall>x\<in>set (e # es). reads_and x" "es \<noteq> []"
  shows "reads_or (BOr (e # es))"
  unfolding reads_or_def
proof (intro allI impI)
  let ?c = "concat (map ((#) TOr) (map (toks 1) es))"
  fix n rest assume r: "no_and rest" "no_or rest" "6 * length (toks 0 (BOr (e # es))) + 5 < n"
  then obtain m where n: "n = Suc m" "6 * length (toks 1 e) + 3 < m" "6 * length ?c < m" by (cases n) (auto simp: paren_def)
  have "no_and (?c @ rest)" using r(1) by (cases es) auto
  with assms(1) n(2) have "p_and m (toks 1 e @ ?c @ rest) = Some (e, ?c @ rest)" by (simp add: reads_and_def)
  with p_ors_chain[of es rest m] assms r(1,2) n show "p_or n (toks 0 (BOr (e # es)) @ rest) = Some (BOr (e # es), rest)"
    by (simp add: paren_def)
qed

definition reads :: "bexp \<Rightarrow> bool" where
  "reads e \<longleftrightarrow> reads_fac e \<and> reads_not e \<and> reads_and e \<and> reads_or e"

lemma reads_of_fac:
  assumes "reads_fac e" "toks 0 e = toks 3 e" "toks 1 e = toks 3 e" "toks 2 e = toks 3 e" "toks 3 e \<noteq> []" "hd (toks 3 e) \<noteq> TNot"
  shows "reads e"
proof -
  from assms(5,6) reads_not_of_fac[OF assms(1,4)] have n: "reads_not e" by (metis list.collapse)
  with reads_and_of_not[of e] assms(3,4) have a: "reads_and e" by simp
  with reads_or_of_and[of e] assms(2,3) have "reads_or e" by simp
  with assms(1) n a show ?thesis by (simp add: reads_def)
qed

lemma reads_of_and:
  assumes "reads_and e" "toks 0 e = toks 1 e" "toks 2 e = toks 3 e" "toks 3 e = TOpen # toks 0 e @ [TClose]"
  shows "reads e"
proof -
  from reads_or_of_and[OF assms(1,2)] have o: "reads_or e" .
  from reads_fac_of_or[OF this assms(4)] have f: "reads_fac e" .
  from reads_not_of_fac[OF f assms(3,4)] o f assms(1) show ?thesis by (simp add: reads_def)
qed

lemma reads_of_or:
  assumes "reads_or e" "toks 1 e = toks 3 e" "toks 2 e = toks 3 e" "toks 3 e = TOpen # toks 0 e @ [TClose]"
  shows "reads e"
proof -
  from reads_fac_of_or[OF assms(1,4)] have f: "reads_fac e" .
  from reads_not_of_fac[OF f assms(3,4)] have n: "reads_not e" by simp
  with reads_and_of_not[of e] assms f show ?thesis by (simp add: reads_def)
qed

lemma reads_of_not:
  assumes "reads_not e" "toks 0 e = toks 2 e" "toks 1 e = toks 2 e" "toks 3 e = TOpen # toks 0 e @ [TClose]"
  shows "reads e"
proof -
  from reads_and_of_not[OF assms(1,3)] have a: "reads_and e" .
  with reads_or_of_and[of e] assms(2,3) have o: "reads_or e" by simp
  from reads_fac_of_or[OF o assms(4)] o a assms(1) show ?thesis by (simp add: reads_def)
qed

lemma reads_fac_atom:
  assumes "\<And>m rest. p_fac (Suc m) (toks 3 e @ rest) = Some (e, rest)"
  shows "reads_fac e"
  unfolding reads_fac_def using assms by (metis gr0_conv_Suc less_nat_zero_code neq0_conv)

lemma printed_reads: "phrase e \<Longrightarrow> reads e"
proof (induction e)
  case (BName x)
  show ?case by (rule reads_of_fac[OF reads_fac_atom]) simp_all
next
  case (BConst b)
  show ?case by (rule reads_of_fac[OF reads_fac_atom]) simp_all
next
  case BNonBool
  show ?case by (rule reads_of_fac[OF reads_fac_atom]) simp_all
next
  case (BUnary e)
  then have f: "reads_fac e" by (simp add: reads_def)
  have "p_fac n (toks 3 (BUnary e) @ rest) = Some (BUnary e, rest)" if "6 * length (toks 3 (BUnary e)) < n" for n rest
    using that f by (cases n) (auto simp: reads_fac_def)
  then have "reads_fac (BUnary e)" by (simp add: reads_fac_def)
  then show ?case by (rule reads_of_fac) simp_all
next
  case (BNot e)
  then have f: "reads_not e" by (simp add: reads_def)
  have "p_not n (toks 2 (BNot e) @ rest) = Some (BNot e, rest)" if "6 * length (toks 2 (BNot e)) + 1 < n" for n rest
    using that f by (cases n) (auto simp: reads_not_def paren_def)
  then have "reads_not (BNot e)" by (simp add: reads_not_def)
  then show ?case by (rule reads_of_not) (simp_all add: paren_def)
next
  case (BAnd es)
  then obtain e es' where es: "es = e # es'" "es' \<noteq> []" by (cases es; cases "tl es") auto
  with BAnd have "\<forall>x\<in>set (e # es'). reads_not x" by (auto simp: list_all_iff reads_def)
  from reads_and_chain[OF this es(2)] show ?case unfolding es(1) by (rule reads_of_and) (simp_all add: paren_def)
next
  case (BOr es)
  then obtain e es' where es: "es = e # es'" "es' \<noteq> []" by (cases es; cases "tl es") auto
  with BOr have "\<forall>x\<in>set (e # es'). reads_and x" by (auto simp: list_all_iff reads_def)
  from reads_or_chain[OF this es(2)] show ?case unfolding es(1) by (rule reads_of_or) (simp_all add: paren_def)
qed simp

lemma parse_printed:
  assumes "phrase e"
  shows "parse_toks (toks 0 e) = Some e"
proof -
  from printed_reads[OF assms] have "p_or (6 * length (toks 0 e) + 6) (toks 0 e @ []) = Some (e, [])"
    unfolding reads_def reads_or_def by (elim conjE) (simp del: append_Nil2)
  then show ?thesis by (simp add: parse_toks_def)
qed

section \<open>Meaning\<close>

text \<open>What a phrase of flags means, and that evaluation in the order of the code finds it.\<close>

fun holds :: "(string \<rightharpoonup> bool) \<Rightarrow> bexp \<Rightarrow> bool" where
  "holds ctx (BName n) = (ctx n = Some True)"
| "holds ctx (BConst b) = b"
| "holds ctx (BNot e) = (\<not> holds ctx e)"
| "holds ctx (BAnd es) = list_all (holds ctx) es"
| "holds ctx (BOr es) = list_ex (holds ctx) es"
| "holds ctx _ = False"

fun boolean :: "bexp \<Rightarrow> bool" where
  "boolean (BName n) = True"
| "boolean (BConst b) = True"
| "boolean (BNot e) = boolean e"
| "boolean (BAnd es) = list_all boolean es"
| "boolean (BOr es) = list_all boolean es"
| "boolean _ = False"

lemma visit_holds:
  "boolean e \<Longrightarrow> visit ctx e = Inr (holds ctx e)"
  "list_all boolean es \<Longrightarrow> visit_all ctx es = Inr (list_all (holds ctx) es)"
  "list_all boolean es \<Longrightarrow> visit_any ctx es = Inr (list_ex (holds ctx) es)"
  by (induction ctx e and ctx es and ctx es rule: visit_visit_all_visit_any.induct) (auto split: option.splits)

section \<open>Appending to a phrase\<close>

text \<open>The expression of \<open>phrase and k\<close>: the operand is taken by the last conjunction, not by the phrase.\<close>

fun conj_with :: "bexp \<Rightarrow> bexp \<Rightarrow> bexp" where
  "conj_with (BAnd es) k = BAnd (es @ [k])"
| "conj_with e k = BAnd [e, k]"

fun and_append :: "bexp \<Rightarrow> bexp \<Rightarrow> bexp" where
  "and_append (BOr es) k = BOr (butlast es @ [conj_with (last es) k])"
| "and_append e k = conj_with e k"

lemma sep_by_snoc: "tss \<noteq> [] \<Longrightarrow> sep_by t (tss @ [ts]) = sep_by t tss @ t # ts"
  by (cases tss) auto

lemma toks_conj_with: "phrase e \<Longrightarrow> toks 1 (conj_with e k) = toks 1 e @ TAnd # toks 2 k"
  by (cases "(e, k)" rule: conj_with.cases) (auto simp: paren_def sep_by_snoc simp flip: length_greater_0_conv)

lemma toks_and_append:
  assumes "phrase e"
  shows "toks 0 (and_append e k) = toks 0 e @ TAnd # toks 2 k"
proof (cases "\<exists>es. e = BOr es")
  case True
  then obtain es0 where es0: "e = BOr es0" by blast
  with assms obtain es l where e: "es0 = es @ [l]" by (cases es0 rule: rev_cases) auto
  with assms es0 have "es \<noteq> []" "phrase l" by auto
  with toks_conj_with[of l k] es0 e show ?thesis by (simp add: paren_def sep_by_snoc)
next
  case False
  then have "and_append e k = conj_with e k" by (cases e) auto
  moreover from False have "toks 0 e = toks 1 e" by (cases e) (auto simp: paren_def)
  moreover have "toks 0 (conj_with e k) = toks 1 (conj_with e k)" by (cases e) (auto simp: paren_def)
  ultimately show ?thesis using toks_conj_with[OF assms] by simp
qed

lemma phrase_and_append:
  assumes "phrase e" "phrase k"
  shows "phrase (and_append e k)"
proof -
  have c: "phrase (conj_with x k)" if "phrase x" for x
    using that assms(2) by (cases "(x, k)" rule: conj_with.cases) auto
  show ?thesis
  proof (cases "\<exists>es. e = BOr es")
    case True
    then obtain es0 where es0: "e = BOr es0" by blast
    with assms(1) obtain es l where "es0 = es @ [l]" by (cases es0 rule: rev_cases) auto
    with assms(1) es0 c[of l] show ?thesis by auto
  next
    case False
    then have "and_append e k = conj_with e k" by (cases e) auto
    with c[OF assms(1)] show ?thesis by simp
  qed
qed

text \<open>When the phrase is a disjunction only its last alternative is restricted.\<close>

definition restricted :: "bexp \<Rightarrow> (string \<rightharpoonup> bool) \<Rightarrow> bool \<Rightarrow> bool" where
  "restricted e ctx k \<longleftrightarrow> (case e of
       BOr es \<Rightarrow> list_ex (holds ctx) (butlast es) \<or> holds ctx (last es) \<and> k
     | _ \<Rightarrow> holds ctx e \<and> k)"

lemma boolean_conj_with: "boolean (conj_with e k) \<longleftrightarrow> boolean e \<and> boolean k"
  by (cases "(e, k)" rule: conj_with.cases) auto

lemma holds_conj_with: "boolean e \<Longrightarrow> holds ctx (conj_with e k) \<longleftrightarrow> holds ctx e \<and> holds ctx k"
  by (cases "(e, k)" rule: conj_with.cases) auto

lemma and_append_meaning:
  assumes "phrase e" "boolean e" "boolean k"
  shows "boolean (and_append e k)" "holds ctx (and_append e k) \<longleftrightarrow> restricted e ctx (holds ctx k)"
proof -
  have "boolean (and_append e k) \<and> (holds ctx (and_append e k) \<longleftrightarrow> restricted e ctx (holds ctx k))"
  proof (cases "\<exists>es. e = BOr es")
    case True
    then obtain es0 where es0: "e = BOr es0" by blast
    with assms(1) obtain es l where "es0 = es @ [l]" by (cases es0 rule: rev_cases) auto
    with assms es0 show ?thesis by (auto simp: boolean_conj_with holds_conj_with restricted_def)
  next
    case False
    then have "and_append e k = conj_with e k" by (cases e) auto
    with assms False show ?thesis by (cases e) (auto simp: boolean_conj_with holds_conj_with restricted_def)
  qed
  then show "boolean (and_append e k)" "holds ctx (and_append e k) \<longleftrightarrow> restricted e ctx (holds ctx k)" by auto
qed

section \<open>Texts\<close>

lemma lex_append:
  "\<lbrakk>lex s = Some ts; rest = [] \<or> \<not> is_word (hd rest)\<rbrakk> \<Longrightarrow> lex (s @ rest) = map_option ((@) ts) (lex rest)"
proof (induction s arbitrary: ts rule: lex.induct)
  case 1
  then show ?case by (simp add: option.map_ident)
next
  case (2 c cs)
  consider (blank) "is_blank c" | (char) t where "\<not> is_blank c" "char_token c = Some t"
    | (word) "\<not> is_blank c" "char_token c = None" "is_word c"
    using "2.prems"(1) by (cases "is_blank c"; cases "char_token c") (auto split: if_splits)
  then show ?case
  proof cases
    case blank
    with "2.IH"(1) "2.prems" show ?thesis by simp
  next
    case char
    with "2.prems"(1) obtain us where "lex cs = Some us" "ts = t # us" by auto
    with char "2.IH"(3)[OF char] "2.prems"(2) show ?thesis by (simp add: option.map_comp comp_def)
  next
    case word
    with "2.prems"(1) obtain t us where t: "word_token (c # takeWhile is_word cs) = Some t"
      "lex (dropWhile is_word cs) = Some us" "ts = t # us" by (auto split: option.splits)
    have tw: "takeWhile is_word (cs @ rest) = takeWhile is_word cs" "dropWhile is_word (cs @ rest) = dropWhile is_word cs @ rest"
      using "2.prems"(2) by (induction cs) (cases rest; auto)+
    from "2.IH"(2)[OF word t(1,2) "2.prems"(2)] word t tw show ?thesis by (simp add: option.map_comp comp_def)
  qed
qed

definition tok_text :: "btok \<Rightarrow> string" where
  "tok_text t = (case t of TName x \<Rightarrow> x | TTrue \<Rightarrow> ''True'' | TFalse \<Rightarrow> ''False'' | TNonBool \<Rightarrow> ''None'' | TUnary \<Rightarrow> ''-'' | TNot \<Rightarrow> ''not''
     | TAnd \<Rightarrow> ''and'' | TOr \<Rightarrow> ''or'' | TOpen \<Rightarrow> ''('' | TClose \<Rightarrow> '')'')"

fun text_of :: "btok list \<Rightarrow> string" where
  "text_of [] = []"
| "text_of [t] = tok_text t"
| "text_of (t # u # ts) = tok_text t @ '' '' @ text_of (u # ts)"

definition valid_name :: "string \<Rightarrow> bool" where
  "valid_name x \<longleftrightarrow> x \<noteq> [] \<and> list_all is_word x \<and> word_token x = Some (TName x)"

definition valid_tok :: "btok \<Rightarrow> bool" where
  "valid_tok t \<longleftrightarrow> (\<forall>x. t = TName x \<longrightarrow> valid_name x)"

lemma word_not_special:
  assumes "is_word c"
  shows "\<not> is_blank c" "char_token c = None"
proof -
  have "\<not> is_word x" if "x \<in> {CHR '' '', CHR 0x09, CHR ''('', CHR '')'', CHR ''-'', CHR ''+'', CHR ''~''}" for x
    using that by (elim insertE emptyE; hypsubst) code_simp+
  with assms show "\<not> is_blank c" "char_token c = None"
    unfolding is_blank_def char_token_def by (metis insertI1 insertI2)+
qed

lemma lex_word: "x \<noteq> [] \<Longrightarrow> list_all is_word x \<Longrightarrow> lex x = map_option (\<lambda>t. [t]) (word_token x)"
proof (cases x)
  case (Cons c cs)
  assume "list_all is_word x"
  with Cons have c: "is_word c" "takeWhile is_word cs = cs" "dropWhile is_word cs = []"
    by (auto simp: takeWhile_eq_all_conv dropWhile_eq_Nil_conv list_all_iff)
  from lex.simps(2)[of c cs, unfolded c(2,3)] word_not_special[OF c(1)] c(1) Cons show ?thesis
    by (cases "word_token (c # cs)") simp_all
qed simp

lemma lex_fixed: "lex ''True'' = Some [TTrue]" "lex ''False'' = Some [TFalse]" "lex ''None'' = Some [TNonBool]" "lex ''-'' = Some [TUnary]"
  "lex ''not'' = Some [TNot]" "lex ''and'' = Some [TAnd]" "lex ''or'' = Some [TOr]" "lex ''('' = Some [TOpen]" "lex '')'' = Some [TClose]"
  by code_simp+

declare lex.simps [simp del]

lemma lex_token: "valid_tok t \<Longrightarrow> lex (tok_text t) = Some [t]"
  by (cases t) (auto simp: tok_text_def valid_tok_def valid_name_def lex_word lex_fixed)

lemma lex_blank: "lex (CHR '' '' # s) = lex s"
  by (simp add: lex.simps is_blank_def)

lemma blank_not_word: "\<not> is_word (CHR '' '')"
  by code_simp

lemma lex_text_of: "list_all valid_tok ts \<Longrightarrow> lex (text_of ts) = Some ts"
proof (induction ts rule: text_of.induct)
  case (3 t u ts)
  then have "lex (tok_text t @ '' '' @ text_of (u # ts)) = map_option ((@) [t]) (lex ('' '' @ text_of (u # ts)))"
    by (intro lex_append) (simp_all add: lex_token blank_not_word)
  with 3 show ?case by (simp add: lex_blank)
qed (simp_all add: lex_token lex.simps)

definition show_phrase :: "bexp \<Rightarrow> string" where
  "show_phrase e = text_of (toks 0 e)"

fun names_valid :: "bexp \<Rightarrow> bool" where
  "names_valid (BName x) = valid_name x"
| "names_valid (BNot e) = names_valid e"
| "names_valid (BUnary e) = names_valid e"
| "names_valid (BAnd es) = list_all names_valid es"
| "names_valid (BOr es) = list_all names_valid es"
| "names_valid _ = True"

lemma valid_tok_simps [simp]: "valid_tok (TName x) \<longleftrightarrow> valid_name x" "valid_tok TTrue" "valid_tok TFalse" "valid_tok TNonBool"
  "valid_tok TUnary" "valid_tok TNot" "valid_tok TAnd" "valid_tok TOr" "valid_tok TOpen" "valid_tok TClose"
  by (auto simp: valid_tok_def)

lemma valid_toks: "names_valid e \<Longrightarrow> list_all valid_tok (toks l e)"
proof (induction e arbitrary: l)
  case (BAnd es)
  then have "\<forall>ts\<in>set (map (toks 2) es). list_all valid_tok ts" by (auto simp: list_all_iff)
  then show ?case by (cases es) (auto simp: paren_def list_all_iff)
next
  case (BOr es)
  then have "\<forall>ts\<in>set (map (toks 1) es). list_all valid_tok ts" by (auto simp: list_all_iff)
  then show ?case by (cases es) (auto simp: paren_def list_all_iff)
qed (auto simp: paren_def list_all_iff)

lemma tok_text_head: "valid_tok t \<Longrightarrow> tok_text t \<noteq> [] \<and> \<not> is_blank (hd (tok_text t))"
proof (cases t)
  case (TName x)
  assume "valid_tok t"
  with TName have "x \<noteq> []" "is_word (hd x)" by (auto simp: valid_name_def list_all_iff)
  with TName word_not_special show ?thesis by (simp add: tok_text_def)
qed (simp_all add: tok_text_def is_blank_def)

lemma text_of_head: "list_all valid_tok ts \<Longrightarrow> ts \<noteq> [] \<Longrightarrow> text_of ts \<noteq> [] \<and> \<not> is_blank (hd (text_of ts))"
  by (cases ts rule: text_of.cases) (auto simp: tok_text_head)

text \<open>A text that reads as the tokens of a phrase parses to it.\<close>

lemma parse_reads:
  assumes "phrase e" "lex s = Some (toks 0 e)" "s \<noteq> [] \<Longrightarrow> \<not> is_blank (hd s)"
  shows "parse s = Inr e"
  using assms parse_printed[OF assms(1)] by (auto simp: parse_def)

section \<open>Properties\<close>



end
