(* ===== verification/Nemesis_Selector.thy ===== *)
theory Nemesis_Selector
  imports Bool_Phrase
begin

text \<open>
  Selecting nemeses by a logical phrase: the registry of \<^verbatim>\<open>sdcm/nemesis/registry.py\<close> and the selectors that
  \<^verbatim>\<open>NemesisRunner\<close> (\<^verbatim>\<open>sdcm/nemesis/__init__.py\<close>) builds as texts.
\<close>

section \<open>The registry\<close>

text \<open>A nemesis class: its name, its flags, whether it is abstract, and its direct subclasses in definition order.\<close>

datatype nclass = NClass (cls_name: string) (cls_flags: "(string \<times> bool) list") (cls_abstract: bool) (cls_subs: "nclass list")

text \<open>The \<^verbatim>\<open>for\<close> loop of \<^verbatim>\<open>get_subclasses\<close> over a copy of \<open>tmp\<close>.\<close>

fun visit_level :: "nclass list \<Rightarrow> nclass list \<Rightarrow> nclass list \<Rightarrow> nclass list \<Rightarrow> nclass list \<times> nclass list" where
  "visit_level excluded [] tmp subclasses = (tmp, subclasses)"
| "visit_level excluded (c # cs) tmp subclasses =
     visit_level excluded cs (remove1 c tmp @ cls_subs c)
       (if c \<notin> set excluded \<and> \<not> cls_abstract c then subclasses @ [c] else subclasses)"

lemma visit_level_eq:
  "visit_level excluded cs (cs @ later) subclasses =
     (later @ concat (map cls_subs cs), subclasses @ filter (\<lambda>c. c \<notin> set excluded \<and> \<not> cls_abstract c) cs)"
  by (induction cs arbitrary: later subclasses) simp_all

lemma visit_level_all:
  "visit_level excluded cs cs subclasses =
     (concat (map cls_subs cs), subclasses @ filter (\<lambda>c. c \<notin> set excluded \<and> \<not> cls_abstract c) cs)"
  using visit_level_eq[of excluded cs "[]"] by simp

lemma subs_smaller: "size_list size (concat (map cls_subs cs)) + length cs \<le> size_list size cs"
proof (induction cs)
  case (Cons c cs)
  then show ?case by (cases c) simp
qed simp

lemma subs_decrease: "cs \<noteq> [] \<Longrightarrow> size_list size (concat (map cls_subs cs)) < size_list size cs"
  using subs_smaller[of cs] by (cases cs) auto

function classes_loop :: "nclass list \<Rightarrow> nclass list \<Rightarrow> nclass list \<Rightarrow> nclass list" where
  "classes_loop excluded tmp subclasses =
     (if tmp = [] then subclasses
      else case visit_level excluded tmp tmp subclasses of (tmp', subclasses') \<Rightarrow> classes_loop excluded tmp' subclasses')"
  by pat_completeness auto
termination
  by (relation "measure (\<lambda>(_, tmp, _). size_list size tmp)") (auto simp: visit_level_all subs_decrease)

declare classes_loop.simps [simp del]

definition get_subclasses :: "nclass \<Rightarrow> nclass list \<Rightarrow> nclass list" where
  "get_subclasses base excluded = classes_loop excluded (cls_subs base) []"

text \<open>The evaluation context of a class: its flags and its own name.\<close>

definition class_context :: "string list \<Rightarrow> nclass \<Rightarrow> string \<rightharpoonup> bool" where
  "class_context members c = (map_of (cls_flags c) |` set members)(cls_name c \<mapsto> True)"

fun select_classes :: "string list \<Rightarrow> bexp \<Rightarrow> nclass list \<Rightarrow> visit_error + nclass list" where
  "select_classes members e [] = Inr []"
| "select_classes members e (c # cs) = (case visit (class_context members c) e of
       Inl x \<Rightarrow> Inl x
     | Inr b \<Rightarrow> (case select_classes members e cs of Inl x \<Rightarrow> Inl x | Inr r \<Rightarrow> Inr (if b then c # r else r)))"

definition filter_subclasses :: "nclass \<Rightarrow> nclass list \<Rightarrow> string list \<Rightarrow> string option \<Rightarrow> visit_error + nclass list" where
  "filter_subclasses base excluded members logical_phrase =
     (case logical_phrase of
        None \<Rightarrow> Inr (get_subclasses base excluded)
      | Some s \<Rightarrow>
          (if s = [] then Inr (get_subclasses base excluded)
           else case parse s of Inl x \<Rightarrow> Inl x | Inr e \<Rightarrow> select_classes members e (get_subclasses base excluded)))"

definition gather_properties :: "nclass \<Rightarrow> nclass list \<Rightarrow> string list \<Rightarrow> (string \<times> (string \<rightharpoonup> bool)) list" where
  "gather_properties base excluded members =
     foldl (\<lambda>d c. AList.update (cls_name c) (map_of (cls_flags c) |` set members) d) [] (get_subclasses base excluded)"

section \<open>Selectors built as texts\<close>

text \<open>The phrase of \<^verbatim>\<open>build_disruptions_by_selector\<close>, and that of \<^verbatim>\<open>build_disruptions_by_name\<close>.\<close>

definition kubernetes_selector :: "bool \<Rightarrow> string \<Rightarrow> string" where
  "kubernetes_selector on_kubernetes s =
     (if on_kubernetes then (if s \<noteq> [] then s @ '' and kubernetes'' else ''kubernetes'') else s)"

fun join_or :: "string list \<Rightarrow> string" where
  "join_or [] = []"
| "join_or [s] = s"
| "join_or (s # t # ss) = s @ '' or '' @ join_or (t # ss)"

definition names_selector :: "string \<Rightarrow> string list \<Rightarrow> string" where
  "names_selector selector names =
     (if selector \<noteq> [] then selector @ '' and ('' @ join_or names @ '')'' else join_or names)"

section \<open>What is selected\<close>

inductive descendant :: "nclass \<Rightarrow> nclass \<Rightarrow> bool" where
  direct: "c \<in> set (cls_subs b) \<Longrightarrow> descendant b c"
| deeper: "c \<in> set (cls_subs b) \<Longrightarrow> descendant c d \<Longrightarrow> descendant b d"

inductive_cases descendantE: "descendant b d"

lemma descendant_level:
  "(\<exists>b\<in>set bs. descendant b c) \<longleftrightarrow> c \<in> set (concat (map cls_subs bs)) \<or> (\<exists>b\<in>set (concat (map cls_subs bs)). descendant b c)"
proof
  assume "\<exists>b\<in>set bs. descendant b c"
  then obtain b where b: "b \<in> set bs" "descendant b c" by blast
  from b(2) show "c \<in> set (concat (map cls_subs bs)) \<or> (\<exists>b\<in>set (concat (map cls_subs bs)). descendant b c)"
    by (cases rule: descendantE) (use b(1) in auto)
next
  assume "c \<in> set (concat (map cls_subs bs)) \<or> (\<exists>b\<in>set (concat (map cls_subs bs)). descendant b c)"
  then consider b where "b \<in> set bs" "c \<in> set (cls_subs b)" | b d where "b \<in> set bs" "d \<in> set (cls_subs b)" "descendant d c" by auto
  then show "\<exists>b\<in>set bs. descendant b c" by cases (blast intro: direct, blast intro: deeper)
qed

definition runnable_class :: "nclass list \<Rightarrow> nclass \<Rightarrow> bool" where
  "runnable_class excluded c \<longleftrightarrow> c \<notin> set excluded \<and> \<not> cls_abstract c"

lemma classes_loop_set:
  "set (classes_loop excluded tmp acc) =
     set acc \<union> {c. runnable_class excluded c \<and> (c \<in> set tmp \<or> (\<exists>b\<in>set tmp. descendant b c))}"
proof (induction excluded tmp acc rule: classes_loop.induct)
  case (1 excluded tmp acc)
  show ?case
  proof (cases "tmp = []")
    case True
    then show ?thesis by (simp add: classes_loop.simps)
  next
    case False
    let ?subs = "concat (map cls_subs tmp)"
    have "classes_loop excluded tmp acc = classes_loop excluded ?subs (acc @ filter (\<lambda>c. c \<notin> set excluded \<and> \<not> cls_abstract c) tmp)"
      using False by (simp add: classes_loop.simps[of excluded tmp] visit_level_all)
    moreover have "set (classes_loop excluded ?subs (acc @ filter (\<lambda>c. c \<notin> set excluded \<and> \<not> cls_abstract c) tmp)) =
        set acc \<union> set (filter (runnable_class excluded) tmp) \<union>
        {c. runnable_class excluded c \<and> (c \<in> set ?subs \<or> (\<exists>b\<in>set ?subs. descendant b c))}"
      using 1[OF False visit_level_all[symmetric]] by (simp add: runnable_class_def)
    ultimately show ?thesis unfolding descendant_level[of tmp] by auto
  qed
qed

lemma get_subclasses_set: "set (get_subclasses base excluded) = {c. runnable_class excluded c \<and> descendant base c}"
proof -
  have "descendant base c \<longleftrightarrow> c \<in> set (cls_subs base) \<or> (\<exists>b\<in>set (cls_subs base). descendant b c)" for c
    using descendant_level[of "[base]" c] by simp
  then show ?thesis by (auto simp: get_subclasses_def classes_loop_set)
qed

lemma select_classes_filter:
  "boolean e \<Longrightarrow> select_classes members e cs = Inr (filter (\<lambda>c. holds (class_context members c) e) cs)"
  by (induction cs) (simp_all add: visit_holds)

lemma filter_subclasses_parsed:
  assumes "parse s = Inr e" "boolean e" "s \<noteq> []"
  shows "filter_subclasses base excluded members (Some s) =
    Inr (filter (\<lambda>c. holds (class_context members c) e) (get_subclasses base excluded))"
  using assms by (simp add: filter_subclasses_def select_classes_filter)

section \<open>Appended selectors\<close>

lemma lex_and_kubernetes: "lex ('' and kubernetes'') = Some [TAnd, TName ''kubernetes'']"
  by code_simp

lemma parse_kubernetes_selector:
  assumes "phrase e" "lex s = Some (toks 0 e)" "s \<noteq> []" "\<not> is_blank (hd s)"
  shows "parse (kubernetes_selector True s) = Inr (and_append e (BName ''kubernetes''))"
proof (rule parse_reads)
  show "phrase (and_append e (BName ''kubernetes''))" using assms(1) by (simp add: phrase_and_append)
  have "lex (s @ '' and kubernetes'') = map_option ((@) (toks 0 e)) (lex '' and kubernetes'')"
    using assms(2) by (rule lex_append) (simp add: blank_not_word)
  then show "lex (kubernetes_selector True s) = Some (toks 0 (and_append e (BName ''kubernetes'')))"
    using assms(1,3) by (simp add: kubernetes_selector_def lex_and_kubernetes[simplified] toks_and_append)
  show "\<not> is_blank (hd (kubernetes_selector True s))" using assms(3,4) by (simp add: kubernetes_selector_def)
qed

lemma lex_join_or:
  assumes "names \<noteq> []" "list_all valid_name names"
  shows "lex (join_or names) = Some (sep_by TOr (map (\<lambda>x. [TName x]) names))"
  using assms
proof (induction names rule: join_or.induct)
  case (2 x)
  then show ?case using lex_token[of "TName x"] by (simp add: tok_text_def)
next
  case (3 x y names)
  have "lex (x @ '' or '' @ join_or (y # names)) = map_option ((@) [TName x]) (lex ('' or '' @ join_or (y # names)))"
    using 3 lex_token[of "TName x"] by (intro lex_append) (simp_all add: tok_text_def blank_not_word)
  moreover have "lex ('' or'' @ '' '' @ join_or (y # names)) = map_option ((@) [TOr]) (lex ('' '' @ join_or (y # names)))"
    by (rule lex_append) (simp_all add: lex_fixed lex_blank blank_not_word)
  ultimately show ?case using 3 by (simp add: lex_blank)
qed simp

lemma lex_names_tail:
  assumes "names \<noteq> []" "list_all valid_name names"
  shows "lex ('' and ('' @ join_or names @ '')'') = Some (TAnd # TOpen # sep_by TOr (map (\<lambda>x. [TName x]) names) @ [TClose])"
proof -
  have "lex (join_or names @ '')'') = map_option ((@) (sep_by TOr (map (\<lambda>x. [TName x]) names))) (lex '')'')"
    using lex_join_or[OF assms] by (rule lex_append) code_simp
  then have r: "lex (join_or names @ '')'') = Some (sep_by TOr (map (\<lambda>x. [TName x]) names) @ [TClose])" by (simp add: lex_fixed)
  have "lex (CHR ''('' # join_or names @ '')'') = map_option ((#) TOpen) (lex (join_or names @ '')''))"
    by (simp add: lex.simps(2) is_blank_def char_token_def)
  moreover have "lex ('' and'' @ '' ('' @ join_or names @ '')'') = map_option ((@) [TAnd]) (lex ('' ('' @ join_or names @ '')''))"
    by (rule lex_append) (simp_all add: lex_fixed lex_blank blank_not_word)
  ultimately show ?thesis using r by (simp add: lex_blank)
qed

lemma parse_names_selector:
  assumes "phrase e" "lex s = Some (toks 0 e)" "s \<noteq> []" "\<not> is_blank (hd s)" "2 \<le> length names" "list_all valid_name names"
  shows "parse (names_selector s names) = Inr (and_append e (BOr (map BName names)))"
proof (rule parse_reads)
  show "phrase (and_append e (BOr (map BName names)))" using assms(1,5) by (simp add: phrase_and_append list_all_iff)
  from assms(5) have ne: "names \<noteq> []" by auto
  have "lex (s @ '' and ('' @ join_or names @ '')'') = map_option ((@) (toks 0 e)) (lex ('' and ('' @ join_or names @ '')''))"
    using assms(2) by (rule lex_append) (simp add: blank_not_word)
  moreover have "toks 2 (BOr (map BName names)) = TOpen # sep_by TOr (map (\<lambda>x. [TName x]) names) @ [TClose]"
    by (simp add: paren_def comp_def)
  ultimately show "lex (names_selector s names) = Some (toks 0 (and_append e (BOr (map BName names))))"
    using assms(1,3) lex_names_tail[OF ne assms(6)] by (simp add: names_selector_def toks_and_append)
  show "\<not> is_blank (hd (names_selector s names))" using assms(3,4) by (simp add: names_selector_def)
qed

section \<open>Properties\<close>

text \<open>C16: a selector that reads as a phrase over flags and class names selects exactly the concrete, not excluded
  subclasses, at any depth, for which the phrase holds.\<close>

theorem selected_nemeses:
  assumes "phrase e" "boolean e" "lex s = Some (toks 0 e)" "s \<noteq> []" "\<not> is_blank (hd s)"
  shows "\<exists>cs. filter_subclasses base excluded members (Some s) = Inr cs \<and>
    set cs = {c. runnable_class excluded c \<and> descendant base c \<and> holds (class_context members c) e}"
  using filter_subclasses_parsed[OF parse_reads[OF assms(1,3)], of base excluded members] assms(2,4,5)
  by (auto simp: get_subclasses_set)

text \<open>C19: what the selectors composed as texts select.  On Kubernetes, and for a list of class names, the appended
  restriction applies to the whole selector unless it is a disjunction; then it applies to its last alternative only,
  and the classes of the other alternatives are selected without it.\<close>

theorem composed_selectors:
  assumes "phrase e" "boolean e" "lex s = Some (toks 0 e)" "s \<noteq> []" "\<not> is_blank (hd s)"
    and "2 \<le> length names" "list_all valid_name names"
  shows "(\<exists>cs. filter_subclasses base excluded members (Some (kubernetes_selector True s)) = Inr cs \<and>
       set cs = {c. runnable_class excluded c \<and> descendant base c \<and>
         restricted e (class_context members c) (class_context members c ''kubernetes'' = Some True)}) \<and>
    (\<exists>cs. filter_subclasses base excluded members (Some (names_selector s names)) = Inr cs \<and>
       set cs = {c. runnable_class excluded c \<and> descendant base c \<and>
         restricted e (class_context members c) (\<exists>x\<in>set names. class_context members c x = Some True)})"
proof (rule conjI)
  let ?k = "BName ''kubernetes''" and ?ns = "BOr (map BName names)"
  have b: "boolean ?k" "boolean ?ns" by (simp_all add: list_all_iff)
  note k = and_append_meaning[OF assms(1,2) b(1)] and n = and_append_meaning[OF assms(1,2) b(2)]
  have "kubernetes_selector True s \<noteq> []" "names_selector s names \<noteq> []"
    using assms(4) by (simp_all add: kubernetes_selector_def names_selector_def)
  note f = filter_subclasses_parsed[OF parse_kubernetes_selector[OF assms(1,3,4,5)] k(1) this(1), of base excluded members]
    filter_subclasses_parsed[OF parse_names_selector[OF assms(1,3,4,5,6,7)] n(1) this(2), of base excluded members]
  show "\<exists>cs. filter_subclasses base excluded members (Some (kubernetes_selector True s)) = Inr cs \<and>
       set cs = {c. runnable_class excluded c \<and> descendant base c \<and>
         restricted e (class_context members c) (class_context members c ''kubernetes'' = Some True)}"
    unfolding f(1) using k(2) by (auto simp: get_subclasses_set)
  show "\<exists>cs. filter_subclasses base excluded members (Some (names_selector s names)) = Inr cs \<and>
       set cs = {c. runnable_class excluded c \<and> descendant base c \<and>
         restricted e (class_context members c) (\<exists>x\<in>set names. class_context members c x = Some True)}"
    unfolding f(2) using n(2) by (auto simp: get_subclasses_set list_ex_iff)
qed

text \<open>Three nemeses under an abstract one.\<close>

definition sample_base :: nclass where
  "sample_base = NClass ''NemesisBaseClass'' [] True
     [NClass ''AddRemoveDc'' [(''topology_changes'', True), (''kubernetes'', False)] False [],
      NClass ''Reboots'' [] True
        [NClass ''SoftRebootNodeMonkey'' [(''disruptive'', True), (''kubernetes'', True)] False [],
         NClass ''HardRebootNodeMonkey'' [(''disruptive'', True), (''kubernetes'', False)] False []]]"

definition sample_members :: "string list" where
  "sample_members = [''topology_changes'', ''disruptive'', ''kubernetes'']"

abbreviation sample_phrase :: bexp where
  "sample_phrase \<equiv> BOr [BName ''topology_changes'', BName ''disruptive'']"

lemma sample_phrase_facts:
  "phrase sample_phrase" "boolean sample_phrase" "lex ''topology_changes or disruptive'' = Some (toks 0 sample_phrase)"
  "''topology_changes or disruptive'' \<noteq> []" "\<not> is_blank (hd ''topology_changes or disruptive'')"
  "2 \<le> length [''SoftRebootNodeMonkey'', ''HardRebootNodeMonkey'']" "list_all valid_name [''SoftRebootNodeMonkey'', ''HardRebootNodeMonkey'']"
  by code_simp+

theorem selected_nemeses_witness:
  "lex ''topology_changes or disruptive'' = Some (toks 0 sample_phrase) \<and>
   (\<exists>cs. filter_subclasses sample_base [] sample_members (Some ''topology_changes or disruptive'') = Inr cs \<and>
     set cs = {c. runnable_class [] c \<and> descendant sample_base c \<and> holds (class_context sample_members c) sample_phrase})"
  by (rule conjI[OF sample_phrase_facts(3) selected_nemeses[OF sample_phrase_facts(1-5)]])

theorem composed_selectors_witness:
  "lex ''topology_changes or disruptive'' = Some (toks 0 sample_phrase) \<and>
   (\<exists>cs. filter_subclasses sample_base [] sample_members (Some (kubernetes_selector True ''topology_changes or disruptive'')) = Inr cs \<and>
     set cs = {c. runnable_class [] c \<and> descendant sample_base c \<and>
       restricted sample_phrase (class_context sample_members c) (class_context sample_members c ''kubernetes'' = Some True)})"
  by (rule conjI[OF sample_phrase_facts(3) composed_selectors[OF sample_phrase_facts, THEN conjunct1]])

text \<open>So a run on Kubernetes can select a nemesis that does not support it, and a runner made for two reboots a change of the
  topology.\<close>

lemma composed_selectors_escape:
  "map cls_name (case filter_subclasses sample_base [] sample_members (Some (kubernetes_selector True ''topology_changes or disruptive'')) of
     Inr cs \<Rightarrow> cs) = [''AddRemoveDc'', ''SoftRebootNodeMonkey'']"
  "map cls_name (case filter_subclasses sample_base [] sample_members
     (Some (names_selector ''topology_changes or disruptive'' [''SoftRebootNodeMonkey'', ''HardRebootNodeMonkey''])) of Inr cs \<Rightarrow> cs) =
   [''AddRemoveDc'', ''SoftRebootNodeMonkey'', ''HardRebootNodeMonkey'']"
  by code_simp+

end
