(* ===== verification/Nemesis_Runner.thy ===== *)
theory Nemesis_Runner
  imports Complex_Main Nemesis_Selector Node_Allocator Sct_Params
begin

text \<open>
  The thread that runs nemeses (\<^verbatim>\<open>NemesisRunner\<close> of \<^verbatim>\<open>sdcm/nemesis/__init__.py\<close> and the runners of
  \<^verbatim>\<open>sdcm/nemesis/monkey/runners.py\<close>): the list of disruptions, their precheck, the execution of one of them with
  a node of the allocator, and the loop.

  The disruption itself, the health check, the context managers around a disruption, the clock and the
  termination event are parameters over a state \<open>'w\<close> of the world; the disruption also sees the allocator,
  which other threads share.  An exception is \<^verbatim>\<open>UnsupportedNemesis\<close> or \<^verbatim>\<open>MethodVersionNotFound\<close>,
  \<^verbatim>\<open>KillNemesis\<close>, or any other \<^verbatim>\<open>Exception\<close>.
\<close>

section \<open>State\<close>

datatype exn = Unsupported string | Kill | Failure string

record nemesis =
  nm_class :: string
  nm_pool :: "NEMESIS_TARGET_POOLS option"
  nm_instance :: nat

datatype nemesis_status = Succeeded | Failed | Skipped

record log_info =
  li_operation :: string
  li_start :: int
  li_end :: int
  li_duration :: int
  li_node :: node
  li_status :: nemesis_status
  li_error :: "string option"
  li_skip_reason :: "string option"

record stat =
  st_runs :: "log_info list"
  st_failures :: "log_info list"
  st_cnt :: nat

datatype runner_event =
    NoRunnable "(string \<times> string) list"
  | SkippedInARow "string option" nat
  | ThreadFailed string
  | PrecheckSkipped string string
  | PrecheckFailed string string

record 'w runner =
  rn_world :: 'w
  rn_alloc :: allocator
  rn_target :: "node option"
  rn_current :: "string option"
  rn_pool :: NEMESIS_TARGET_POOLS
  rn_list :: "nemesis list"
  rn_pos :: nat
  rn_skips :: "nat dict"
  rn_durations :: "int list"
  rn_errors :: "string list"
  rn_log :: "log_info list"
  rn_stats :: "stat dict"
  rn_last_skipped :: bool
  rn_interval :: rat
  rn_filter_seed :: bool
  rn_events :: "runner_event list"

record 'w env =
  ev_health :: "'w \<Rightarrow> exn option \<times> 'w"
  ev_uid :: "'w \<Rightarrow> string \<times> 'w"
  ev_draw :: "'w \<Rightarrow> nat"
  ev_enter :: "nemesis \<Rightarrow> node \<Rightarrow> 'w \<Rightarrow> exn option \<times> 'w"
  ev_disrupt :: "nemesis \<Rightarrow> string \<Rightarrow> node \<Rightarrow> allocator \<times> 'w \<Rightarrow> exn option \<times> (allocator \<times> 'w)"
  ev_leave :: "nemesis \<Rightarrow> 'w \<Rightarrow> exn option \<times> 'w"
  ev_critical :: "'w \<Rightarrow> bool"
  ev_now :: "'w \<Rightarrow> rat \<times> 'w"
  ev_stop :: "'w \<Rightarrow> bool"
  ev_wait :: "rat \<Rightarrow> 'w \<Rightarrow> 'w"
  ev_precheck :: "nemesis \<Rightarrow> 'w \<Rightarrow> (string + string option) \<times> 'w"

section \<open>Building the list of disruptions\<close>

text \<open>\<^verbatim>\<open>subclass(runner=self)\<close> may raise, which leaves the class out.\<close>

definition build_disruptions_by_selector ::
    "bool \<Rightarrow> nclass \<Rightarrow> string list \<Rightarrow> (nclass \<Rightarrow> nemesis option) \<Rightarrow> string \<Rightarrow> visit_error + nemesis list" where
  "build_disruptions_by_selector on_k8s base members instantiate selector =
     (case filter_subclasses base [] members (Some (kubernetes_selector on_k8s selector)) of
        Inl e \<Rightarrow> Inl e
      | Inr cs \<Rightarrow> Inr (List.map_filter instantiate cs))"

datatype build_error = UnknownNames "string list" | SelectorError visit_error | NoneLeft "string list" | NoNames
  | UnknownName string | BadWeight string | NoPositiveWeight

definition build_disruptions_by_name ::
    "bool \<Rightarrow> nclass \<Rightarrow> string list \<Rightarrow> (nclass \<Rightarrow> nemesis option) \<Rightarrow> string \<Rightarrow> string list \<Rightarrow> build_error + nemesis list" where
  "build_disruptions_by_name on_k8s base members instantiate selector names =
     (let unknown = filter (\<lambda>n. n \<notin> set (map cls_name (get_subclasses base []))) names
      in if unknown \<noteq> [] then Inl (UnknownNames (sort (remdups unknown)))
         else case build_disruptions_by_selector on_k8s base members instantiate (names_selector selector names) of
           Inl e \<Rightarrow> Inl (SelectorError e)
         | Inr filtered \<Rightarrow>
             (let by_name = foldl (\<lambda>d n. AList.update (nm_class n) n d) [] filtered
              in if by_name = [] then Inl (NoneLeft names) else Inr (map snd by_name)))"

text \<open>\<^verbatim>\<open>shuffle_list_of_disruptions\<close>: \<open>shuffle\<close> is the permutation of the seeded generator; a missing or zero factor is 1.\<close>

definition shuffle_list_of_disruptions :: "(nemesis list \<Rightarrow> nemesis list) \<Rightarrow> nat option \<Rightarrow> nat option \<Rightarrow> nemesis list \<Rightarrow> nemesis list" where
  "shuffle_list_of_disruptions shuffle factor param ds =
     (let k = (case factor of Some (Suc n) \<Rightarrow> Suc n | _ \<Rightarrow> (case param of Some (Suc n) \<Rightarrow> Suc n | _ \<Rightarrow> 1))
      in shuffle (concat (replicate k ds)))"

text \<open>\<^verbatim>\<open>FixedOrderMonkey.resolve_fixed_order\<close>: repeated names share one instance.\<close>

fun fixed_order_loop :: "nclass dict \<Rightarrow> (nclass \<Rightarrow> nemesis) \<Rightarrow> string list \<Rightarrow> nemesis dict \<Rightarrow> build_error + nemesis list" where
  "fixed_order_loop classes new [] instances = Inr []"
| "fixed_order_loop classes new (name # names) instances = (case map_of classes name of
       None \<Rightarrow> Inl (UnknownName name)
     | Some c \<Rightarrow>
         (let instances' = (if map_of instances name = None then AList.update name (new c) instances else instances)
          in case fixed_order_loop classes new names instances' of
               Inl e \<Rightarrow> Inl e
             | Inr r \<Rightarrow> Inr (the (map_of instances' name) # r)))"

definition resolve_fixed_order :: "nclass \<Rightarrow> (nclass \<Rightarrow> nemesis) \<Rightarrow> string list \<Rightarrow> build_error + nemesis list" where
  "resolve_fixed_order base new names =
     fixed_order_loop (foldl (\<lambda>d c. AList.update (cls_name c) c d) [] (get_subclasses base [])) new names []"

definition fixed_order_list :: "nclass \<Rightarrow> (nclass \<Rightarrow> nemesis) \<Rightarrow> string \<Rightarrow> build_error + nemesis list" where
  "fixed_order_list base new selector =
     (let names = split_items CHR '','' selector in if names = [] then Inl NoNames else resolve_fixed_order base new names)"

text \<open>\<^verbatim>\<open>CategoricalMonkey.get_disruption_distribution\<close>; a weight that is no number is \<^const>\<open>None\<close>.\<close>

fun listed_weights :: "nemesis dict \<Rightarrow> (string \<times> rat option) list \<Rightarrow> build_error + (nemesis \<times> rat) list" where
  "listed_weights all_methods [] = Inr []"
| "listed_weights all_methods ((name, weight) # ws) = (case map_of all_methods name of
       None \<Rightarrow> Inl (UnknownName name)
     | Some n \<Rightarrow> (case weight of
           None \<Rightarrow> Inl (BadWeight name)
         | Some x \<Rightarrow>
             (if x < 0 then Inl (BadWeight name)
              else case listed_weights all_methods ws of
                Inl e \<Rightarrow> Inl e
              | Inr r \<Rightarrow> Inr (if 0 < x then (n, x) # r else r))))"

definition get_disruption_distribution ::
    "nemesis list \<Rightarrow> (string \<times> rat option) list \<Rightarrow> rat \<Rightarrow> build_error + (nemesis \<times> rat) list" where
  "get_disruption_distribution ds distribution default_weight =
     (let all_methods = foldl (\<lambda>d n. AList.update (nm_class n) n d) [] ds
      in case listed_weights all_methods distribution of
           Inl e \<Rightarrow> Inl e
         | Inr listed \<Rightarrow>
             (let population = listed @ (if 0 < default_weight
                  then map (\<lambda>(_, n). (n, default_weight)) (filter (\<lambda>(name, _). name \<notin> set (map fst distribution)) all_methods) else [])
              in if population = [] then Inl NoPositiveWeight else Inr population))"

section \<open>Precheck\<close>

text \<open>The accumulators of the loop of \<^verbatim>\<open>precheck_nemesis\<close>: the runnable nemeses, the exclusions, the reason by class and the
  events.\<close>

record prechecked =
  pc_runnable :: "nemesis list"
  pc_excluded :: "(string \<times> string) list"
  pc_results :: "string option dict"
  pc_events :: "runner_event list"

definition precheck_step :: "'w env \<Rightarrow> nemesis \<Rightarrow> prechecked \<times> 'w \<Rightarrow> prechecked \<times> 'w" where
  "precheck_step env n pw = (case pw of (p, w) \<Rightarrow>
     (let name = nm_class n in
      case map_of (pc_results p) name of
        Some known \<Rightarrow> (if known = None then p\<lparr>pc_runnable := pc_runnable p @ [n]\<rparr> else p, w)
      | None \<Rightarrow>
          (case ev_precheck env n w of (answer, w1) \<Rightarrow>
            (let reason = (case answer of Inl msg \<Rightarrow> Some msg | Inr r \<Rightarrow> r);
                 p1 = p\<lparr>pc_results := AList.update name reason (pc_results p)\<rparr>
             in case reason of
                  None \<Rightarrow> (p1\<lparr>pc_runnable := pc_runnable p1 @ [n]\<rparr>, w1)
                | Some msg \<Rightarrow>
                    (p1\<lparr>pc_excluded := pc_excluded p1 @ [(name, msg)],
                        pc_events := pc_events p1 @ [if isl answer then PrecheckFailed name msg else PrecheckSkipped name msg]\<rparr>, w1)))))"

definition precheck_nemesis :: "'w env \<Rightarrow> 'w runner \<Rightarrow> (string \<times> string) list \<times> 'w runner" where
  "precheck_nemesis env st =
     (case fold (precheck_step env) (rn_list st) (\<lparr>pc_runnable = [], pc_excluded = [], pc_results = [], pc_events = []\<rparr>, rn_world st) of
        (p, w) \<Rightarrow> (pc_excluded p,
          st\<lparr>rn_list := pc_runnable p, rn_events := rn_events st @ pc_events p, rn_world := w\<rparr>))"

section \<open>Executing a nemesis\<close>

text \<open>\<^verbatim>\<open>self.current_disruption.rsplit("-", 1)[0]\<close>\<close>

definition base_disruption_name :: "string \<Rightarrow> string" where
  "base_disruption_name s =
     (if CHR ''-'' \<in> set s then rev (tl (dropWhile (\<lambda>c. c \<noteq> CHR ''-'') (rev s))) else s)"

definition disrupt_default_pool :: NEMESIS_TARGET_POOLS where
  "disrupt_default_pool = data_nodes"

definition target_request :: "'w runner \<Rightarrow> string \<Rightarrow> select_request" where
  "target_request st nm = \<lparr>sr_nemesis_name = nm, sr_pool_type = TargetPool (rn_pool st), sr_filter_seed = rn_filter_seed st,
     sr_is_seed = DefaultValue, sr_dc_idx = None, sr_rack = None, sr_only_last = False, sr_node_list = []\<rparr>"

text \<open>\<^verbatim>\<open>set_target_node\<close> with its default arguments; \<open>nm\<close> is the current disruption.\<close>

definition set_target_node :: "'w env \<Rightarrow> string \<Rightarrow> 'w runner \<Rightarrow> (alloc_error + node) \<times> 'w runner" where
  "set_target_node env nm st =
     (let a = (case rn_target st of Some n \<Rightarrow> unset_running_nemesis n nm (rn_alloc st) | None \<Rightarrow> rn_alloc st) in
      case select_target_node (ev_draw env (rn_world st)) id (target_request st nm) a of
        (Inl e, a1) \<Rightarrow> (Inl e, st\<lparr>rn_alloc := a1, rn_target := None\<rparr>)
      | (Inr n, a1) \<Rightarrow> (Inr n, st\<lparr>rn_alloc := a1, rn_target := Some n\<rparr>))"

definition update_stats :: "string \<Rightarrow> bool \<Rightarrow> log_info \<Rightarrow> stat dict \<Rightarrow> stat dict" where
  "update_stats name ok info stats =
     (let s = (case map_of stats name of Some s \<Rightarrow> s | None \<Rightarrow> \<lparr>st_runs = [], st_failures = [], st_cnt = 0\<rparr>);
          s1 = (if ok then s\<lparr>st_runs := st_runs s @ [info]\<rparr> else s\<lparr>st_failures := st_failures s @ [info]\<rparr>)
      in AList.update name (s1\<lparr>st_cnt := st_cnt s1 + 1\<rparr>) stats)"

text \<open>The event of a disruption after the handlers: its status with the error or the reason of a skip.\<close>

definition disruption_outcome :: "bool \<Rightarrow> exn option \<Rightarrow> nemesis_status \<times> string option \<times> string option" where
  "disruption_outcome critical result = (case result of
       None \<Rightarrow> (Succeeded, None, None)
     | Some (Unsupported reason) \<Rightarrow> (Skipped, None, Some reason)
     | Some Kill \<Rightarrow> (if critical then (Failed, Some ''Killed by tearDown - test fail'', None)
          else (Skipped, None, Some ''Killed by tearDown - test success''))
     | Some (Failure msg) \<Rightarrow> (Failed, Some msg, None))"

text \<open>The \<^verbatim>\<open>finally\<close> clause around \<^verbatim>\<open>nemesis.disrupt()\<close>.\<close>

definition record_disruption :: "'w env \<Rightarrow> string \<Rightarrow> node \<Rightarrow> rat \<Rightarrow> exn option \<Rightarrow> 'w runner \<Rightarrow> 'w runner" where
  "record_disruption env name n start_time result st =
     (case ev_now env (rn_world st) of (end_time, w1) \<Rightarrow>
       (case disruption_outcome (ev_critical env (rn_world st)) result of (status, err, reason) \<Rightarrow>
         (let elapsed = int_of_float (end_time - start_time);
              info = \<lparr>li_operation = name, li_start = int_of_float start_time, li_end = int_of_float end_time, li_duration = elapsed,
                li_node = n, li_status = status, li_error = err, li_skip_reason = reason\<rparr>
          in st\<lparr>rn_world := w1, rn_last_skipped := (status = Skipped),
               rn_durations := rn_durations st @ [elapsed], rn_log := rn_log st @ [info],
               rn_stats := update_stats name (status \<noteq> Failed) info (rn_stats st),
               rn_errors := (case result of Some (Failure msg) \<Rightarrow> rn_errors st @ [msg] | _ \<Rightarrow> rn_errors st)\<rparr>)))"

text \<open>The outer \<^verbatim>\<open>finally\<close> clause.\<close>

definition release_target :: "string \<Rightarrow> 'w runner \<Rightarrow> 'w runner" where
  "release_target nm st = st\<lparr>rn_pool := disrupt_default_pool,
     rn_alloc := unset_running_nemesis_from_all_nodes nm (rn_alloc st), rn_target := None, rn_current := None\<rparr>"

text \<open>The body of the \<^verbatim>\<open>with\<close> statement and its exit: the exception that leaves it, and the one kept in \<^verbatim>\<open>raise_error\<close>.\<close>

definition disrupt_within :: "'w env \<Rightarrow> nemesis \<Rightarrow> string \<Rightarrow> string \<Rightarrow> node \<Rightarrow> rat \<Rightarrow> 'w runner \<Rightarrow> (exn option \<times> exn option) \<times> 'w runner" where
  "disrupt_within env n nm name target start_time st =
     (case ev_enter env n target (rn_world st) of
        (Some e, w1) \<Rightarrow> ((Some e, None), st\<lparr>rn_world := w1\<rparr>)
      | (None, w1) \<Rightarrow>
          (case ev_disrupt env n nm target (rn_alloc st, w1) of (result, a2, w2) \<Rightarrow>
            (let st1 = record_disruption env name target start_time result (st\<lparr>rn_alloc := a2, rn_world := w2\<rparr>);
                 kept = (case result of Some (Failure _) \<Rightarrow> None | r \<Rightarrow> r)
             in case ev_leave env n (rn_world st1) of (out, w3) \<Rightarrow> ((out, kept), st1\<lparr>rn_world := w3\<rparr>))))"

definition alloc_message :: "alloc_error \<Rightarrow> string" where
  "alloc_message e = ''NemesisNodeAllocationError''"

definition count_skip :: "string \<Rightarrow> exn option \<Rightarrow> 'w runner \<Rightarrow> 'w runner" where
  "count_skip name kept st = (case kept of
       None \<Rightarrow> st\<lparr>rn_skips := []\<rparr>
     | Some (Unsupported _) \<Rightarrow>
         st\<lparr>rn_skips := AList.update name ((case map_of (rn_skips st) name of Some k \<Rightarrow> k | None \<Rightarrow> 0) + 1) (rn_skips st)\<rparr>
     | Some _ \<Rightarrow> st)"

definition execute_nemesis :: "'w env \<Rightarrow> nemesis \<Rightarrow> 'w runner \<Rightarrow> exn option \<times> 'w runner" where
  "execute_nemesis env n st =
     (case (if rn_last_skipped st then (None, rn_world st) else ev_health env (rn_world st)) of
        (Some e, w1) \<Rightarrow> (Some e, st\<lparr>rn_world := w1\<rparr>)
      | (None, w1) \<Rightarrow>
          (case ev_now env w1 of (start_time, w2) \<Rightarrow>
           (case ev_uid env w2 of (uid, w3) \<Rightarrow>
            (let nm = unique_disruption_name uid (nm_class n);
                 name = base_disruption_name nm;
                 st1 = st\<lparr>rn_world := w3, rn_current := Some nm,
                   rn_pool := (case nm_pool n of Some p \<Rightarrow> p | None \<Rightarrow> disrupt_default_pool)\<rparr>
             in case set_target_node env nm st1 of
                  (Inl e, st2) \<Rightarrow> (Some (Failure (alloc_message e)), release_target nm st2)
                | (Inr target, st2) \<Rightarrow>
                    (case disrupt_within env n nm name target start_time st2 of
                       ((Some e, _), st3) \<Rightarrow> (Some e, release_target nm st3)
                     | ((None, kept), st3) \<Rightarrow> (kept, count_skip name kept (release_target nm st3)))))))"

section \<open>The loop\<close>

text \<open>\<^verbatim>\<open>call_next_nemesis\<close>: \<^verbatim>\<open>itertools.cycle\<close> over the list, at position \<^const>\<open>rn_pos\<close>.\<close>

definition call_next_nemesis :: "'w env \<Rightarrow> 'w runner \<Rightarrow> exn option \<times> 'w runner" where
  "call_next_nemesis env st =
     (if rn_list st = [] then (Some (Failure ''no nemesis were selected''), st)
      else execute_nemesis env (rn_list st ! (rn_pos st mod length (rn_list st))) (st\<lparr>rn_pos := rn_pos st + 1\<rparr>))"

definition max_skip :: "nat dict \<Rightarrow> string option \<times> nat" where
  "max_skip skips = (case skips of
       [] \<Rightarrow> (None, 0)
     | kv # kvs \<Rightarrow> (case foldl (\<lambda>best x. if snd best < snd x then x else best) kv kvs of (k, v) \<Rightarrow> (Some k, v)))"

definition pause :: "'w env \<Rightarrow> rat \<Rightarrow> 'w runner \<Rightarrow> 'w runner" where
  "pause env t st = st\<lparr>rn_world := ev_wait env t (rn_world st)\<rparr>"

definition add_event :: "runner_event \<Rightarrow> 'w runner \<Rightarrow> 'w runner" where
  "add_event e st = st\<lparr>rn_events := rn_events st @ [e]\<rparr>"

text \<open>The \<^verbatim>\<open>while\<close> loop over the method \<open>call\<close> that runs the next nemesis; a negative count never ends it.\<close>

partial_function (option) run_loop :: "'w env \<Rightarrow> ('w runner \<Rightarrow> exn option \<times> 'w runner) \<Rightarrow> int \<Rightarrow> 'w runner \<Rightarrow> (exn option \<times> 'w runner) option" where
  "run_loop env call cycles st =
     (if ev_stop env (rn_world st) \<or> cycles = 0 then Some (None, st)
      else case call st of
        (None, st1) \<Rightarrow> run_loop env call (cycles - 1) (pause env (rn_interval st) st1)
      | (Some (Unsupported _), st1) \<Rightarrow>
          (case max_skip (rn_skips st1) of (name, k) \<Rightarrow>
            (if length (rn_list st1) = 1 \<and> 3 \<le> k
             then Some (None, pause env 0 (add_event (SkippedInARow name k) st1))
             else run_loop env call (cycles - 1) (pause env 0 st1)))
      | (Some Kill, st1) \<Rightarrow> Some (None, pause env (rn_interval st) st1)
      | (Some (Failure msg), st1) \<Rightarrow> Some (Some (Failure msg), pause env (rn_interval st) st1))"

text \<open>\<^verbatim>\<open>run\<close> under its decorator, which turns an exception into an event.  A given interval is in minutes.\<close>

definition run :: "'w env \<Rightarrow> ('w runner \<Rightarrow> exn option \<times> 'w runner) \<Rightarrow> rat option \<Rightarrow> int \<Rightarrow> 'w runner \<Rightarrow> 'w runner option" where
  "run env call interval cycles st =
     (let st0 = (case interval of Some i \<Rightarrow> if i \<noteq> 0 then st\<lparr>rn_interval := i * 60\<rparr> else st | None \<Rightarrow> st) in
      case precheck_nemesis env st0 of (excluded, st1) \<Rightarrow>
        (if excluded \<noteq> [] \<and> rn_list st1 = [] then Some (add_event (NoRunnable excluded) st1)
         else map_option (\<lambda>(e, st2). case e of Some (Failure msg) \<Rightarrow> add_event (ThreadFailed msg) st2 | _ \<Rightarrow> st2)
           (run_loop env call cycles st1)))"

section \<open>One execution\<close>

text \<open>The unique name a disruption executed in \<open>st\<close> is run under.\<close>

definition health :: "'w env \<Rightarrow> 'w runner \<Rightarrow> exn option \<times> 'w" where
  "health env st = (if rn_last_skipped st then (None, rn_world st) else ev_health env (rn_world st))"

definition execution_name :: "'w env \<Rightarrow> nemesis \<Rightarrow> 'w runner \<Rightarrow> string" where
  "execution_name env n st =
     unique_disruption_name (fst (ev_uid env (snd (ev_now env (snd (health env st)))))) (nm_class n)"

definition started_state :: "'w env \<Rightarrow> nemesis \<Rightarrow> 'w runner \<Rightarrow> 'w runner" where
  "started_state env n st = st\<lparr>rn_world := snd (ev_uid env (snd (ev_now env (snd (health env st))))),
     rn_current := Some (execution_name env n st), rn_pool := (case nm_pool n of Some p \<Rightarrow> p | None \<Rightarrow> disrupt_default_pool)\<rparr>"

lemma execute_cases [consumes 1, case_names Unhealthy NoNode Ran]:
  assumes "execute_nemesis env n st = (res, st')"
  obtains e w where "health env st = (Some e, w)" "res = Some e" "st' = st\<lparr>rn_world := w\<rparr>"
  | nm e st2 where "nm = execution_name env n st" "fst (health env st) = None"
      "set_target_node env nm (started_state env n st) = (Inl e, st2)" "\<exists>msg. res = Some (Failure msg)" "st' = release_target nm st2"
  | nm target st2 out kept st3 start_time where "nm = execution_name env n st" "fst (health env st) = None"
      "set_target_node env nm (started_state env n st) = (Inr target, st2)"
      "disrupt_within env n nm (base_disruption_name nm) target start_time st2 = ((out, kept), st3)"
      "res = (if out = None then kept else out)"
      "st' = (if out = None then count_skip (base_disruption_name nm) kept (release_target nm st3) else release_target nm st3)"
proof -
  obtain h w1 where h: "health env st = (h, w1)" by fastforce
  note ex = assms[unfolded execute_nemesis_def health_def[symmetric] h]
  show ?thesis
  proof (cases h)
    case (Some e)
    with ex have "res = Some e" "st' = st\<lparr>rn_world := w1\<rparr>" by simp_all
    with that(1)[of e w1] h Some show ?thesis by simp
  next
    case None
    obtain t w2 where t: "ev_now env w1 = (t, w2)" by fastforce
    obtain uid w3 where u: "ev_uid env w2 = (uid, w3)" by fastforce
    let ?nm = "execution_name env n st"
    have nm: "?nm = unique_disruption_name uid (nm_class n)" by (simp add: execution_name_def h t u)
    obtain r st2 where s: "set_target_node env ?nm (started_state env n st) = (r, st2)" by fastforce
    have s': "set_target_node env ?nm (st\<lparr>rn_world := w3, rn_current := Some ?nm,
        rn_pool := (case nm_pool n of Some p \<Rightarrow> p | None \<Rightarrow> disrupt_default_pool)\<rparr>) = (r, st2)"
      using s by (simp add: started_state_def h t u)
    note ex2 = ex[unfolded None prod.case option.case t u Let_def nm[symmetric] s']
    show ?thesis
    proof (cases r)
      case (Inl e)
      with ex2 have "\<exists>msg. res = Some (Failure msg)" "st' = release_target ?nm st2" by auto
      from that(2)[OF refl _ s[unfolded Inl] this] None h show ?thesis by simp
    next
      case (Inr target)
      obtain out kept st3 where d: "disrupt_within env n ?nm (base_disruption_name ?nm) target t st2 = ((out, kept), st3)"
        by (metis surj_pair)
      have o: "(case ((out, kept), st3) of ((Some e, _), st3) \<Rightarrow> (Some e, release_target ?nm st3)
        | ((None, kept), st3) \<Rightarrow> (kept, count_skip (base_disruption_name ?nm) kept (release_target ?nm st3))) = (res, st')"
        using ex2 unfolding Inr sum.case prod.case d .
      have r: "res = (if out = None then kept else out)" using o by (cases out) auto
      have q: "st' = (if out = None then count_skip (base_disruption_name ?nm) kept (release_target ?nm st3) else release_target ?nm st3)"
        using o by (cases out) auto
      from None h have "fst (health env st) = None" by simp
      from that(3)[OF refl this s[unfolded Inr] d r q] show ?thesis .
    qed
  qed
qed

text \<open>What the parts leave alone.\<close>

lemmas runner_defs = release_target_def count_skip_def pause_def add_event_def started_state_def

lemma record_disruption_keeps [simp]:
  "rn_alloc (record_disruption env name n t res st) = rn_alloc st" "rn_target (record_disruption env name n t res st) = rn_target st"
  "rn_current (record_disruption env name n t res st) = rn_current st" "rn_list (record_disruption env name n t res st) = rn_list st"
  "rn_pos (record_disruption env name n t res st) = rn_pos st" "rn_skips (record_disruption env name n t res st) = rn_skips st"
  by (simp_all add: record_disruption_def Let_def split: prod.splits)

lemma count_skip_keeps [simp]:
  "rn_alloc (count_skip name kept st) = rn_alloc st" "rn_target (count_skip name kept st) = rn_target st"
  "rn_current (count_skip name kept st) = rn_current st" "rn_list (count_skip name kept st) = rn_list st"
  "rn_pos (count_skip name kept st) = rn_pos st" "rn_log (count_skip name kept st) = rn_log st"
  "rn_stats (count_skip name kept st) = rn_stats st" "rn_durations (count_skip name kept st) = rn_durations st"
  by (simp_all add: count_skip_def split: option.splits exn.splits)

lemma release_target_simps [simp]:
  "rn_target (release_target nm st) = None" "rn_current (release_target nm st) = None" "rn_list (release_target nm st) = rn_list st"
  "rn_pos (release_target nm st) = rn_pos st" "rn_log (release_target nm st) = rn_log st" "rn_stats (release_target nm st) = rn_stats st"
  "rn_durations (release_target nm st) = rn_durations st" "rn_skips (release_target nm st) = rn_skips st"
  "rn_alloc (release_target nm st) = unset_running_nemesis_from_all_nodes nm (rn_alloc st)"
  by (simp_all add: release_target_def)

lemma started_state_simps [simp]:
  "rn_alloc (started_state env n st) = rn_alloc st" "rn_target (started_state env n st) = rn_target st"
  "rn_list (started_state env n st) = rn_list st" "rn_pos (started_state env n st) = rn_pos st" "rn_log (started_state env n st) = rn_log st"
  "rn_stats (started_state env n st) = rn_stats st" "rn_durations (started_state env n st) = rn_durations st"
  "rn_skips (started_state env n st) = rn_skips st"
  by (simp_all add: started_state_def)

lemma set_target_keeps:
  assumes "set_target_node env nm st = (r, st')"
  shows "rn_list st' = rn_list st" "rn_pos st' = rn_pos st" "rn_log st' = rn_log st" "rn_stats st' = rn_stats st"
    "rn_durations st' = rn_durations st" "rn_skips st' = rn_skips st"
  using assms by (auto simp: set_target_node_def Let_def split: prod.splits sum.splits)

lemma set_target_inv:
  assumes "set_target_node env nm st = (r, st')" "alloc_inv (rn_alloc st)"
  shows "alloc_inv (rn_alloc st')"
proof -
  let ?a = "case rn_target st of Some n \<Rightarrow> unset_running_nemesis n nm (rn_alloc st) | None \<Rightarrow> rn_alloc st"
  have "rn_alloc st' = snd (select_target_node (ev_draw env (rn_world st)) id (target_request st nm) ?a)"
    using assms(1) by (auto simp: set_target_node_def Let_def split: prod.splits sum.splits)
  moreover have "alloc_inv ?a" using assms(2) by (auto simp: alloc_inv_unset split: option.splits)
  ultimately show ?thesis by (simp add: alloc_inv_select)
qed

text \<open>A disruption touches the allocator, shared with other threads, by its operations only.\<close>

definition disrupts_by_operations :: "'w env \<Rightarrow> bool" where
  "disrupts_by_operations env \<longleftrightarrow>
     (\<forall>n nm t a w r a' w'. ev_disrupt env n nm t (a, w) = (r, a', w') \<longrightarrow> (\<exists>ops. alloc_run a ops a'))"

lemma disrupt_within_cases [consumes 1, case_names Entry Disrupted]:
  assumes "disrupt_within env n nm name target t st = ((out, kept), st')"
  obtains w where "out \<noteq> None" "st' = st\<lparr>rn_world := w\<rparr>"
  | result w1 a2 w2 w3 where "ev_disrupt env n nm target (rn_alloc st, w1) = (result, a2, w2)"
      "kept = (case result of Some (Failure _) \<Rightarrow> None | r \<Rightarrow> r)"
      "st' = (record_disruption env name target t result (st\<lparr>rn_alloc := a2, rn_world := w2\<rparr>))\<lparr>rn_world := w3\<rparr>"
proof -
  obtain e w1 where e: "ev_enter env n target (rn_world st) = (e, w1)" by fastforce
  show ?thesis
  proof (cases e)
    case (Some x)
    with assms e have "out \<noteq> None" "st' = st\<lparr>rn_world := w1\<rparr>" by (auto simp: disrupt_within_def)
    with that(1) show ?thesis by blast
  next
    case None
    obtain result a2 w2 where d: "ev_disrupt env n nm target (rn_alloc st, w1) = (result, a2, w2)" by (metis surj_pair)
    let ?st1 = "record_disruption env name target t result (st\<lparr>rn_alloc := a2, rn_world := w2\<rparr>)"
    obtain o' w3 where l: "ev_leave env n (rn_world ?st1) = (o', w3)" by fastforce
    from assms have "kept = (case result of Some (Failure _) \<Rightarrow> None | r \<Rightarrow> r)" "st' = ?st1\<lparr>rn_world := w3\<rparr>"
      by (auto simp: disrupt_within_def e None d l Let_def)
    with that(2)[OF d] show ?thesis by blast
  qed
qed

lemma disrupt_within_inv:
  assumes "disrupt_within env n nm name target t st = ((out, kept), st')" "disrupts_by_operations env" "alloc_inv (rn_alloc st)"
  shows "alloc_inv (rn_alloc st')"
  using assms(1)
proof (cases rule: disrupt_within_cases)
  case (Entry w)
  with assms(3) show ?thesis by simp
next
  case (Disrupted result w1 a2 w2 w3)
  from Disrupted(1) assms(2) obtain ops where "alloc_run (rn_alloc st) ops a2" unfolding disrupts_by_operations_def by blast
  from alloc_run_inv[OF this assms(3)] Disrupted(3) show ?thesis by simp
qed

lemma execute_inv:
  assumes "execute_nemesis env n st = (res, st')" "disrupts_by_operations env" "alloc_inv (rn_alloc st)"
  shows "alloc_inv (rn_alloc st') \<and>
    (fst (health env st) = None \<longrightarrow> rn_target st' = None \<and> rn_current st' = None \<and>
       (\<forall>m. owner (rn_alloc st') m \<noteq> Some (execution_name env n st)))"
  using assms(1)
proof (cases rule: execute_cases)
  case (Unhealthy e w)
  with assms(3) show ?thesis by simp
next
  case (NoNode nm e st2)
  have "alloc_inv (rn_alloc st2)" using set_target_inv[OF NoNode(3)] assms(3) by simp
  with NoNode(1,5) show ?thesis by (simp add: alloc_inv_unset_all owner_unset_all)
next
  case (Ran nm target st2 out kept st3 t)
  have "alloc_inv (rn_alloc st2)" using set_target_inv[OF Ran(3)] assms(3) by simp
  from disrupt_within_inv[OF Ran(4) assms(2) this] Ran(1,6) show ?thesis by (simp add: alloc_inv_unset_all owner_unset_all)
qed

section \<open>The statistics\<close>

text \<open>The statistics a log stands for.\<close>

definition summary :: "log_info list \<Rightarrow> string \<rightharpoonup> stat" where
  "summary entries name =
     (let mine = filter (\<lambda>i. li_operation i = name) entries
      in if mine = [] then None
         else Some \<lparr>st_runs = filter (\<lambda>i. li_status i \<noteq> Failed) mine, st_failures = filter (\<lambda>i. li_status i = Failed) mine,
           st_cnt = length mine\<rparr>)"

lemma update_stats_summary:
  assumes "map_of stats = summary entries" "li_operation info = name" "ok \<longleftrightarrow> li_status info \<noteq> Failed"
  shows "map_of (update_stats name ok info stats) = summary (entries @ [info])"
proof (rule ext)
  fix x
  let ?mine = "filter (\<lambda>i. li_operation i = name) entries"
  show "map_of (update_stats name ok info stats) x = summary (entries @ [info]) x"
  proof (cases "x = name")
    case False
    with assms(2) have "summary (entries @ [info]) x = summary entries x" by (simp add: summary_def)
    with False assms(1) show ?thesis by (simp add: update_stats_def Let_def)
  next
    case True
    with assms show ?thesis by (cases "?mine = []") (auto simp: update_stats_def Let_def summary_def)
  qed
qed

definition log_inv :: "'w runner \<Rightarrow> bool" where
  "log_inv st \<longleftrightarrow> map_of (rn_stats st) = summary (rn_log st) \<and> length (rn_durations st) = length (rn_log st) \<and>
     rn_durations st = map li_duration (rn_log st)"

lemma record_disruption_log:
  "\<exists>info. li_operation info = name \<and> rn_log (record_disruption env name n t res st) = rn_log st @ [info] \<and>
     rn_durations (record_disruption env name n t res st) = rn_durations st @ [li_duration info] \<and>
     rn_stats (record_disruption env name n t res st) = update_stats name (li_status info \<noteq> Failed) info (rn_stats st)"
proof -
  obtain e w1 where "ev_now env (rn_world st) = (e, w1)" by fastforce
  moreover obtain status err reason where "disruption_outcome (ev_critical env (rn_world st)) res = (status, err, reason)" by (metis surj_pair)
  ultimately show ?thesis by (simp add: record_disruption_def Let_def)
qed

text \<open>An execution appends to the log the entry of its disruption, or nothing when it does not get that far.\<close>

lemma execute_log:
  assumes "execute_nemesis env n st = (res, st')"
  shows "rn_list st' = rn_list st \<and> rn_pos st' = rn_pos st \<and>
    ((\<exists>info. li_operation info = base_disruption_name (execution_name env n st) \<and> rn_log st' = rn_log st @ [info] \<and>
        rn_durations st' = rn_durations st @ [li_duration info] \<and>
        rn_stats st' = update_stats (li_operation info) (li_status info \<noteq> Failed) info (rn_stats st)) \<or>
     rn_log st' = rn_log st \<and> rn_durations st' = rn_durations st \<and> rn_stats st' = rn_stats st)"
  using assms
proof (cases rule: execute_cases)
  case (NoNode nm e st2)
  with set_target_keeps[OF NoNode(3)] show ?thesis by simp
next
  case (Ran nm target st2 out kept st3 t)
  note k = set_target_keeps[OF Ran(3)]
  from Ran(4) show ?thesis
  proof (cases rule: disrupt_within_cases)
    case (Entry w)
    with Ran(6) k show ?thesis by simp
  next
    case (Disrupted result w1 a2 w2 w3)
    from record_disruption_log[of "base_disruption_name nm" env target t result "st2\<lparr>rn_alloc := a2, rn_world := w2\<rparr>"]
    obtain info where "li_operation info = base_disruption_name nm" "rn_log st3 = rn_log st2 @ [info]"
      "rn_durations st3 = rn_durations st2 @ [li_duration info]"
      "rn_stats st3 = update_stats (base_disruption_name nm) (li_status info \<noteq> Failed) info (rn_stats st2)"
      "rn_list st3 = rn_list st2" "rn_pos st3 = rn_pos st2"
      unfolding Disrupted(3) by auto
    with Ran(1,6) k show ?thesis by auto
  qed
qed simp

lemma execute_log_inv:
  assumes "execute_nemesis env n st = (res, st')" "log_inv st"
  shows "log_inv st'"
proof -
  from execute_log[OF assms(1)] consider
    info where "rn_log st' = rn_log st @ [info]" "rn_durations st' = rn_durations st @ [li_duration info]"
      "rn_stats st' = update_stats (li_operation info) (li_status info \<noteq> Failed) info (rn_stats st)"
    | "rn_log st' = rn_log st" "rn_durations st' = rn_durations st" "rn_stats st' = rn_stats st" by blast
  then show ?thesis
  proof cases
    case (1 info)
    with assms(2) update_stats_summary[of "rn_stats st" "rn_log st" info "li_operation info" "li_status info \<noteq> Failed"]
    show ?thesis by (simp add: log_inv_def)
  next
    case 2
    with assms(2) show ?thesis by (simp add: log_inv_def)
  qed
qed

section \<open>The loop and its order\<close>

lemma pause_keeps [simp]:
  "rn_list (pause env t st) = rn_list st" "rn_pos (pause env t st) = rn_pos st" "rn_log (pause env t st) = rn_log st"
  "rn_stats (pause env t st) = rn_stats st" "rn_durations (pause env t st) = rn_durations st" "rn_alloc (pause env t st) = rn_alloc st"
  "rn_skips (pause env t st) = rn_skips st"
  by (simp_all add: pause_def)

lemma add_event_keeps [simp]:
  "rn_list (add_event e st) = rn_list st" "rn_pos (add_event e st) = rn_pos st" "rn_log (add_event e st) = rn_log st"
  "rn_stats (add_event e st) = rn_stats st" "rn_durations (add_event e st) = rn_durations st" "rn_alloc (add_event e st) = rn_alloc st"
  "rn_skips (add_event e st) = rn_skips st"
  by (simp_all add: add_event_def)

text \<open>What a thread does between two calls leaves every invariant of these fields alone; so does the loop, if the call does.\<close>

locale thread_invariant =
  fixes call :: "'w runner \<Rightarrow> exn option \<times> 'w runner" and I :: "'w runner \<Rightarrow> bool"
  assumes call_keeps: "I st \<Longrightarrow> call st = (r, st') \<Longrightarrow> I st'"
    and pause_inv: "I st \<Longrightarrow> I (pause env t st)"
    and event_inv: "I st \<Longrightarrow> I (add_event e st)"
begin

lemma loop_keeps:
  assumes "run_loop env call cycles st = Some r" "I st"
  shows "I (snd r)"
proof -
  have "call' = call \<longrightarrow> I st \<longrightarrow> I (snd r)" if "run_loop env' call' cycles st = Some r" for env' call' cycles st r
    using that
  proof (rule run_loop.raw_induct[rotated, where P = "\<lambda>env' call' cycles st r. call' = call \<longrightarrow> I st \<longrightarrow> I (snd r)"])
    fix rl env' call' cycles st r
    assume IH: "\<And>env' call' cycles st r. rl env' call' cycles st = Some r \<Longrightarrow> call' = call \<longrightarrow> I st \<longrightarrow> I (snd r)"
      and eq: "(if ev_stop env' (rn_world st) \<or> cycles = 0 then Some (None, st)
        else case call' st of
          (None, st1) \<Rightarrow> rl env' call' (cycles - 1) (pause env' (rn_interval st) st1)
        | (Some (Unsupported _), st1) \<Rightarrow>
            (case max_skip (rn_skips st1) of (name, k) \<Rightarrow>
              (if length (rn_list st1) = 1 \<and> 3 \<le> k
               then Some (None, pause env' 0 (add_event (SkippedInARow name k) st1))
               else rl env' call' (cycles - 1) (pause env' 0 st1)))
        | (Some Kill, st1) \<Rightarrow> Some (None, pause env' (rn_interval st) st1)
        | (Some (Failure msg), st1) \<Rightarrow> Some (Some (Failure msg), pause env' (rn_interval st) st1)) = Some r"
    show "call' = call \<longrightarrow> I st \<longrightarrow> I (snd r)"
    proof (intro impI)
      assume c: "call' = call" and i: "I st"
      obtain res st1 where cs: "call st = (res, st1)" by fastforce
      note k = call_keeps[OF i cs]
      show "I (snd r)"
      proof (cases "ev_stop env' (rn_world st) \<or> cycles = 0")
        case True
        with eq i show ?thesis by auto
      next
        case False
        obtain name n where m: "max_skip (rn_skips st1) = (name, n)" by fastforce
        from False have f: "ev_stop env' (rn_world st) = False" "(cycles = 0) = False" by auto
        note eq' = eq[unfolded c cs f prod.case m]
        show ?thesis
        proof (cases res)
          case None
          with eq' IH[of env' call "cycles - 1" "pause env' (rn_interval st) st1" r] pause_inv[OF k] show ?thesis by simp
        next
          case (Some x)
          show ?thesis
          proof (cases x)
            case (Unsupported reason)
            with Some eq' IH[of env' call "cycles - 1" "pause env' 0 st1" r] pause_inv[OF k] pause_inv[OF event_inv[OF k]] show ?thesis
              by (auto split: if_splits)
          qed (use Some eq' pause_inv[OF k] in auto)
        qed
      qed
    qed
  qed
  with assms show ?thesis by blast
qed

end

lemma call_next_log_inv: "log_inv st \<Longrightarrow> call_next_nemesis env st = (r, st') \<Longrightarrow> log_inv st'"
proof -
  assume i: "log_inv st" and c: "call_next_nemesis env st = (r, st')"
  from i have "log_inv (st\<lparr>rn_pos := k\<rparr>)" for k by (simp add: log_inv_def)
  with i c show ?thesis by (auto simp: call_next_nemesis_def split: if_splits dest: execute_log_inv)
qed

interpretation stats_thread: thread_invariant "call_next_nemesis env" log_inv for env :: "'w env"
  by unfold_locales (erule (1) call_next_log_inv, simp_all add: log_inv_def)

text \<open>The label of a disruption: its unique name without the suffix.\<close>

definition class_label :: "string \<Rightarrow> string" where
  "class_label c = (if CHR ''_'' \<in> set c then concat (map capitalize (split_on CHR ''_'' (replace_str ''disrupt_'' [] c))) else c)"

definition uid_plain :: "'w env \<Rightarrow> bool" where
  "uid_plain env \<longleftrightarrow> (\<forall>w. CHR ''-'' \<notin> set (fst (ev_uid env w)))"

lemma unique_name_split: "unique_disruption_name uid c = class_label c @ CHR ''-'' # uid"
  by (simp add: unique_disruption_name_def class_label_def)

lemma base_of_unique:
  assumes "CHR ''-'' \<notin> set uid"
  shows "base_disruption_name (unique_disruption_name uid c) = class_label c"
proof -
  have "dropWhile (\<lambda>c. c \<noteq> CHR ''-'') (rev uid @ CHR ''-'' # xs) = CHR ''-'' # xs" for xs
    using assms by (subst dropWhile_append2) auto
  then show ?thesis by (simp add: base_disruption_name_def unique_name_split)
qed

text \<open>The disruptions at the positions of the cycle, by label.\<close>

definition cycle_labels :: "nemesis list \<Rightarrow> nat \<Rightarrow> string list" where
  "cycle_labels ds k = map (\<lambda>i. class_label (nm_class (ds ! (i mod length ds)))) [0..<k]"

definition order_inv :: "nemesis list \<Rightarrow> 'w runner \<Rightarrow> bool" where
  "order_inv ds st \<longleftrightarrow> rn_list st = ds \<and> subseq (map li_operation (rn_log st)) (cycle_labels ds (rn_pos st))"

lemma cycle_labels_Suc: "cycle_labels ds (Suc k) = cycle_labels ds k @ [class_label (nm_class (ds ! (k mod length ds)))]"
  by (simp add: cycle_labels_def)

lemma call_next_order:
  assumes "uid_plain env" "order_inv ds st" "call_next_nemesis env st = (r, st')"
  shows "order_inv ds st'"
proof (cases "rn_list st = []")
  case True
  with assms show ?thesis by (auto simp: call_next_nemesis_def)
next
  case False
  let ?n = "rn_list st ! (rn_pos st mod length (rn_list st))" and ?st = "st\<lparr>rn_pos := rn_pos st + 1\<rparr>"
  from False assms(3) have e: "execute_nemesis env ?n ?st = (r, st')" by (simp add: call_next_nemesis_def)
  have b: "base_disruption_name (execution_name env ?n ?st) = class_label (nm_class ?n)"
    using assms(1) by (simp add: execution_name_def base_of_unique uid_plain_def)
  let ?l = "[class_label (nm_class ?n)]" and ?c = "cycle_labels ds (rn_pos st)"
  from assms(2) have c: "cycle_labels ds (rn_pos st + 1) = ?c @ ?l" and s: "subseq (map li_operation (rn_log st)) ?c"
    by (simp_all add: order_inv_def cycle_labels_Suc)
  from execute_log[OF e] b have "rn_list st' = rn_list st" "rn_pos st' = rn_pos st + 1"
    "map li_operation (rn_log st') = map li_operation (rn_log st) @ ?l \<or> rn_log st' = rn_log st" by auto
  moreover have "subseq (map li_operation (rn_log st) @ ?l) (?c @ ?l)" using s by (rule list_emb_append_mono) simp
  moreover have "subseq (map li_operation (rn_log st)) (?c @ ?l)" using list_emb_append_mono[OF s list_emb_Nil[of "(=)" ?l]] by simp
  ultimately show ?thesis using assms(2) c by (auto simp: order_inv_def)
qed

lemma order_thread: "uid_plain env \<Longrightarrow> thread_invariant (call_next_nemesis env) (order_inv ds)"
  by unfold_locales (erule (2) call_next_order, simp_all add: order_inv_def)

text \<open>With a number of cycles the loop ends, having called that often at most.\<close>

lemma run_loop_step:
  "run_loop env call cycles st =
     (if ev_stop env (rn_world st) \<or> cycles = 0 then Some (None, st)
      else case call st of
        (None, st1) \<Rightarrow> run_loop env call (cycles - 1) (pause env (rn_interval st) st1)
      | (Some (Unsupported _), st1) \<Rightarrow>
          (case max_skip (rn_skips st1) of (name, k) \<Rightarrow>
            (if length (rn_list st1) = 1 \<and> 3 \<le> k
             then Some (None, pause env 0 (add_event (SkippedInARow name k) st1))
             else run_loop env call (cycles - 1) (pause env 0 st1)))
      | (Some Kill, st1) \<Rightarrow> Some (None, pause env (rn_interval st) st1)
      | (Some (Failure msg), st1) \<Rightarrow> Some (Some (Failure msg), pause env (rn_interval st) st1))"
  by (rule run_loop.simps)

lemma call_next_pos: "call_next_nemesis env st = (r, st') \<Longrightarrow> rn_pos st' \<le> rn_pos st + 1"
  using execute_log by (fastforce simp: call_next_nemesis_def split: if_splits)

lemma run_loop_bounded:
  "\<exists>e st'. run_loop env (call_next_nemesis env) (int k) st = Some (e, st') \<and> rn_pos st' \<le> rn_pos st + k"
proof (induction k arbitrary: st)
  case 0
  show ?case by (subst run_loop_step) simp
next
  case (Suc k)
  obtain r st1 where c: "call_next_nemesis env st = (r, st1)" by fastforce
  note p = call_next_pos[OF c]
  obtain name m where m: "max_skip (rn_skips st1) = (name, m)" by fastforce
  have go: "\<exists>e st'. run_loop env (call_next_nemesis env) (int (Suc k) - 1) (pause env t st1) = Some (e, st') \<and> rn_pos st' \<le> rn_pos st + Suc k" for t
    using Suc[of "pause env t st1"] p by fastforce
  show ?case
  proof (cases "ev_stop env (rn_world st)")
    case True
    then show ?thesis by (subst run_loop_step) simp
  next
    case False
    then have "ev_stop env (rn_world st) = False" "(int (Suc k) = 0) = False" by simp_all
    note step = run_loop_step[of env "call_next_nemesis env" "int (Suc k)" st, unfolded c this prod.case m]
    show ?thesis
    proof (cases r)
      case None
      with step go[of "rn_interval st"] show ?thesis by simp
    next
      case (Some x)
      show ?thesis by (cases x) (use step go[of 0] Some p in auto)
    qed
  qed
qed

section \<open>Precheck\<close>

definition precheck_inv :: "nemesis list \<Rightarrow> prechecked \<Rightarrow> bool" where
  "precheck_inv seen p \<longleftrightarrow> dom (map_of (pc_results p)) = nm_class ` set seen \<and> fst ` set (pc_excluded p) \<subseteq> nm_class ` set seen \<and>
     (\<forall>c r. map_of (pc_results p) c = Some r \<longrightarrow> (r = None \<longleftrightarrow> c \<notin> fst ` set (pc_excluded p))) \<and>
     distinct (map fst (pc_excluded p)) \<and> pc_runnable p = filter (\<lambda>n. nm_class n \<notin> fst ` set (pc_excluded p)) seen"

lemma precheck_step_inv:
  assumes "precheck_inv seen p" "precheck_step env n (p, w) = (p', w')"
  shows "precheck_inv (seen @ [n]) p'"
proof (cases "map_of (pc_results p) (nm_class n)")
  case (Some known)
  then have "nm_class n \<in> nm_class ` set seen" using assms(1) unfolding precheck_inv_def by blast
  then have seen: "nm_class ` set (seen @ [n]) = nm_class ` set seen" by (simp add: insert_absorb)
  have kn: "known = None \<longleftrightarrow> nm_class n \<notin> fst ` set (pc_excluded p)" using Some assms(1) unfolding precheck_inv_def by blast
  have "p' = (if known = None then p\<lparr>pc_runnable := pc_runnable p @ [n]\<rparr> else p)"
    using Some assms(2) by (simp add: precheck_step_def Let_def)
  with assms(1) kn show ?thesis unfolding precheck_inv_def seen by simp
next
  case None
  then have new: "nm_class n \<notin> nm_class ` set seen" using assms(1) unfolding precheck_inv_def by blast
  then have old: "nm_class n \<notin> fst ` set (pc_excluded p)" using assms(1) unfolding precheck_inv_def by blast
  obtain answer w1 where a: "ev_precheck env n w = (answer, w1)" by fastforce
  define reason where "reason = (case answer of Inl msg \<Rightarrow> Some msg | Inr r \<Rightarrow> r)"
  show ?thesis
  proof (cases reason)
    case None
    with \<open>map_of (pc_results p) (nm_class n) = None\<close> a assms(2)
    have "p' = p\<lparr>pc_results := AList.update (nm_class n) None (pc_results p), pc_runnable := pc_runnable p @ [n]\<rparr>"
      by (simp add: precheck_step_def Let_def reason_def)
    with assms(1) old show ?thesis by (auto simp: precheck_inv_def dom_if)
  next
    case (Some msg)
    with \<open>map_of (pc_results p) (nm_class n) = None\<close> a assms(2) have
      p': "pc_results p' = AList.update (nm_class n) (Some msg) (pc_results p)" "pc_excluded p' = pc_excluded p @ [(nm_class n, msg)]"
      "pc_runnable p' = pc_runnable p"
      by (auto simp: precheck_step_def Let_def reason_def)
    have "filter (\<lambda>x. nm_class x \<notin> insert (nm_class n) (fst ` set (pc_excluded p))) seen =
        filter (\<lambda>x. nm_class x \<notin> fst ` set (pc_excluded p)) seen"
      using new by (intro filter_cong) (metis image_eqI insert_iff)+
    with assms(1) old p' new show ?thesis unfolding precheck_inv_def by (auto simp: dom_if)
  qed
qed

lemma precheck_fold:
  "precheck_inv seen p \<Longrightarrow> precheck_inv (seen @ ds) (fst (fold (precheck_step env) ds (p, w)))"
proof (induction ds arbitrary: seen p w)
  case (Cons n ds)
  obtain p1 w1 where s: "precheck_step env n (p, w) = (p1, w1)" by fastforce
  from Cons.IH[OF precheck_step_inv[OF Cons.prems s], of w1] s show ?case by simp
qed simp

lemma precheck_result:
  assumes "precheck_nemesis env st = (excluded, st')"
  shows "distinct (map fst excluded) \<and> fst ` set excluded \<subseteq> nm_class ` set (rn_list st) \<and>
    rn_list st' = filter (\<lambda>n. nm_class n \<notin> fst ` set excluded) (rn_list st) \<and>
    rn_pos st' = rn_pos st \<and> rn_log st' = rn_log st \<and> rn_stats st' = rn_stats st \<and> rn_durations st' = rn_durations st"
proof -
  let ?p0 = "\<lparr>pc_runnable = [], pc_excluded = [], pc_results = [], pc_events = []\<rparr>"
  have "precheck_inv [] ?p0" by (simp add: precheck_inv_def)
  from precheck_fold[OF this, of "rn_list st" env "rn_world st"] assms show ?thesis
    by (auto simp: precheck_nemesis_def precheck_inv_def split: prod.splits)
qed

section \<open>Properties\<close>

text \<open>C5: whatever happens during it, a disruption that was started leaves no node behind: afterwards no node is reserved
  under its name, the runner has no target and no current disruption, and the allocator is consistent.  When the
  health check raises, the allocator has not been touched.\<close>

theorem execute_nemesis_releases:
  assumes "disrupts_by_operations env" "alloc_inv (rn_alloc st)" "execute_nemesis env n st = (res, st')"
  shows "alloc_inv (rn_alloc st') \<and>
    (fst (health env st) \<noteq> None \<and> rn_alloc st' = rn_alloc st \<or>
     rn_target st' = None \<and> rn_current st' = None \<and> (\<forall>m. owner (rn_alloc st') m \<noteq> Some (execution_name env n st)))"
proof (cases "fst (health env st)")
  case None
  with execute_inv[OF assms(3,1,2)] show ?thesis by blast
next
  case (Some e)
  from assms(3) have "rn_alloc st' = rn_alloc st" by (cases rule: execute_cases) (use Some in auto)
  with Some assms(2) show ?thesis by simp
qed


text \<open>C14: the statistics of a runner refine its operation log: when a run returns, the entry of every disruption holds exactly
  its successful and skipped runs, its failures and their number, in order, as the log has them, and the list of durations
  is that of the log.\<close>

theorem run_stats_refine_log:
  assumes "run env (call_next_nemesis env) interval cycles st = Some st'"
    and "map_of (rn_stats st) = summary (rn_log st)" "rn_durations st = map li_duration (rn_log st)"
  shows "map_of (rn_stats st') = summary (rn_log st') \<and> rn_durations st' = map li_duration (rn_log st')"
proof -
  define st0 where "st0 = (case interval of Some i \<Rightarrow> if i \<noteq> 0 then st\<lparr>rn_interval := i * 60\<rparr> else st | None \<Rightarrow> st)"
  obtain excluded st1 where p: "precheck_nemesis env st0 = (excluded, st1)" by fastforce
  have "rn_stats st0 = rn_stats st" "rn_log st0 = rn_log st" "rn_durations st0 = rn_durations st"
    by (auto simp: st0_def split: option.splits)
  with precheck_result[OF p] assms(2,3) have i1: "log_inv st1" by (simp add: log_inv_def)
  note run = assms(1)[unfolded run_def st0_def[symmetric] Let_def p prod.case]
  show ?thesis
  proof (cases "excluded \<noteq> [] \<and> rn_list st1 = []")
    case True
    with run i1 show ?thesis by (auto simp: log_inv_def)
  next
    case False
    with run obtain r where r: "run_loop env (call_next_nemesis env) cycles st1 = Some r"
      "st' = (case r of (e, st2) \<Rightarrow> case e of Some (Failure msg) \<Rightarrow> add_event (ThreadFailed msg) st2 | _ \<Rightarrow> st2)"
      by (auto split: if_splits)
    from stats_thread.loop_keeps[OF r(1) i1] r(2) show ?thesis
      by (cases r) (auto simp: log_inv_def split: option.splits exn.splits)
  qed
qed

text \<open>A thread of two nemeses, the second of which is not supported, on an idle cluster of two nodes; the world is a clock.\<close>

definition sample_env :: "rat env" where
  "sample_env = \<lparr>ev_health = (\<lambda>w. (None, w)), ev_uid = (\<lambda>w. (''0badcafe'', w)), ev_draw = (\<lambda>_. 0), ev_enter = (\<lambda>_ _ w. (None, w)),
     ev_disrupt = (\<lambda>n _ _ (a, w). (if nm_class n = ''SlaMonkey'' then Some (Unsupported ''no sla'') else None, a, w + 7)),
     ev_leave = (\<lambda>_ w. (None, w)), ev_critical = (\<lambda>_. False), ev_now = (\<lambda>w. (w, w)), ev_stop = (\<lambda>_. False),
     ev_wait = (\<lambda>t w. w + t), ev_precheck = (\<lambda>_ w. (Inr None, w))\<rparr>"

definition sample_nemesis :: "string \<Rightarrow> nemesis" where
  "sample_nemesis c = \<lparr>nm_class = c, nm_pool = None, nm_instance = 0\<rparr>"

definition sample_runner :: "rat runner" where
  "sample_runner = \<lparr>rn_world = 0, rn_alloc = init_allocator (\<lambda>_. example_node) [1, 2], rn_target = None, rn_current = None,
     rn_pool = data_nodes, rn_list = [sample_nemesis ''RepairMonkey'', sample_nemesis ''SlaMonkey''], rn_pos = 0, rn_skips = [],
     rn_durations = [], rn_errors = [], rn_log = [], rn_stats = [], rn_last_skipped = False, rn_interval = 60,
     rn_filter_seed = False, rn_events = []\<rparr>"

lemma sample_env_facts: "uid_plain sample_env" "disrupts_by_operations sample_env"
  by (auto simp: uid_plain_def disrupts_by_operations_def sample_env_def intro: alloc_run.run_done)

lemma sample_runner_facts: "rn_pos sample_runner = 0" "rn_log sample_runner = []"
  "map_of (rn_stats sample_runner) = summary (rn_log sample_runner)" "rn_durations sample_runner = map li_duration (rn_log sample_runner)"
  "alloc_inv (rn_alloc sample_runner)"
  by (auto simp: sample_runner_def summary_def alloc_inv_def init_allocator_def owner_def example_node_def)

theorem execute_nemesis_releases_witness:
  "disrupts_by_operations sample_env \<and> alloc_inv (rn_alloc sample_runner) \<and>
   alloc_inv (rn_alloc (snd (execute_nemesis sample_env (sample_nemesis ''RepairMonkey'') sample_runner)))"
proof -
  obtain res st' where e: "execute_nemesis sample_env (sample_nemesis ''RepairMonkey'') sample_runner = (res, st')" by fastforce
  from execute_nemesis_releases[OF sample_env_facts(2) sample_runner_facts(5) e] e show ?thesis
    using sample_env_facts(2) sample_runner_facts(5) by simp
qed


theorem run_stats_refine_log_witness:
  "\<exists>st'. run sample_env (call_next_nemesis sample_env) None 3 sample_runner = Some st' \<and> map_of (rn_stats st') = summary (rn_log st')"
proof -
  obtain excluded st1 where p: "precheck_nemesis sample_env sample_runner = (excluded, st1)" by fastforce
  from run_loop_bounded[of sample_env 3 st1] obtain e st2 where
    "run_loop sample_env (call_next_nemesis sample_env) 3 st1 = Some (e, st2)" by auto
  with p obtain st' where r: "run sample_env (call_next_nemesis sample_env) None 3 sample_runner = Some st'"
    by (cases "excluded \<noteq> [] \<and> rn_list st1 = []") (auto simp: run_def)
  from run_stats_refine_log[OF r sample_runner_facts(3,4)] r show ?thesis by blast
qed

end
