(* ===== verification/Event_Base.thy ===== *)
theory Event_Base
  imports Complex_Main Regex
begin

text \<open>
  The events of a test run, from \<^verbatim>\<open>sdcm/sct_events/base.py\<close> and \<^verbatim>\<open>filters.py\<close>: severities and their
  limits, the life of an event from its creation to its publication, log events, and the filters that
  suppress events or change their severity.

  An event is one record for all classes: the name of its class, the attributes the modelled code reads,
  and the text a class adds to the message of its base class.  \<open>now\<close> stands for a reading of
  \<^verbatim>\<open>time.time()\<close>, and compiled patterns are the regular expressions of \<open>Regex\<close>.
\<close>

section \<open>Severities\<close>

datatype severity = SUPPRESS | DEBUG | UNKNOWN | NORMAL | WARNING | ERROR | CRITICAL

fun severity_value :: "severity \<Rightarrow> int" where
  "severity_value SUPPRESS = -2"
| "severity_value DEBUG = -1"
| "severity_value UNKNOWN = 0"
| "severity_value NORMAL = 1"
| "severity_value WARNING = 2"
| "severity_value ERROR = 3"
| "severity_value CRITICAL = 4"

fun severity_name :: "severity \<Rightarrow> string" where
  "severity_name SUPPRESS = ''SUPPRESS''"
| "severity_name DEBUG = ''DEBUG''"
| "severity_name UNKNOWN = ''UNKNOWN''"
| "severity_name NORMAL = ''NORMAL''"
| "severity_name WARNING = ''WARNING''"
| "severity_name ERROR = ''ERROR''"
| "severity_name CRITICAL = ''CRITICAL''"

definition all_severities :: "severity list" where
  "all_severities = [SUPPRESS, DEBUG, UNKNOWN, NORMAL, WARNING, ERROR, CRITICAL]"

text \<open>\<^verbatim>\<open>Severity[name]\<close>, with None for the KeyError.\<close>

definition severity_of_name :: "string \<Rightarrow> severity option" where
  "severity_of_name n = List.find (\<lambda>s. severity_name s = n) all_severities"

lemma severity_value_inject [simp]: "severity_value s = severity_value t \<longleftrightarrow> s = t"
  by (cases s; cases t) simp_all

lemma severity_of_name [simp]: "severity_of_name (severity_name s) = Some s"
  by (cases s) (simp_all add: severity_of_name_def all_severities_def)

lemma severity_name_inject [simp]: "severity_name s = severity_name t \<longleftrightarrow> s = t"
  by (metis option.inject severity_of_name)

text \<open>Severities are ordered by their values, as the code compares them.\<close>

instantiation severity :: linorder
begin

definition less_eq_severity :: "severity \<Rightarrow> severity \<Rightarrow> bool" where
  "s \<le> t \<longleftrightarrow> severity_value s \<le> severity_value t"

definition less_severity :: "severity \<Rightarrow> severity \<Rightarrow> bool" where
  "s < t \<longleftrightarrow> severity_value s < severity_value t"

instance
  by standard (auto simp: less_eq_severity_def less_severity_def)

end

section \<open>Events\<close>

datatype event_period = Begin | End | Informational | Not_Defined

fun period_value :: "event_period \<Rightarrow> string" where
  "period_value Begin = ''begin''"
| "period_value End = ''end''"
| "period_value Informational = ''one-time''"
| "period_value Not_Defined = ''not-set''"

text \<open>A running nemesis, as an entry of \<^verbatim>\<open>subcontext\<close>: its event id and its name.\<close>

type_synonym subcontext = "(string \<times> string) list"

record sct_event =
  ev_class :: string
  ev_base :: string
  ev_type :: "string option"
  ev_subtype :: "string option"
  ev_severity :: severity
  ev_period :: event_period
  ev_id :: string
  event_timestamp :: rat
  source_timestamp :: "rat option"
  is_ready :: bool
  log_level :: nat
  ev_subcontext :: subcontext
  is_log :: bool
  ev_regex :: "string option"
  ev_line :: "string option"
  ev_line_number :: int
  ev_node :: "string option"
  ev_known_issue :: "string option"
  ev_build_id :: "string option"
  ev_backtrace :: "string option"
  ev_raw_backtrace :: "string option"
  ev_details :: string
  publish_to_grafana :: bool
  publish_to_argus :: bool
  save_to_files :: bool

definition LOG_LEVEL_MAPPING :: "(severity \<times> nat) list" where
  "LOG_LEVEL_MAPPING =
     [(WARNING, 10), (CRITICAL, 50), (ERROR, 40), (DEBUG, 10), (NORMAL, 20), (UNKNOWN, 30)]"

text \<open>\<^verbatim>\<open>SctEvent.__init__\<close> of a class with the given name, whose base, type and subtype come from the name.\<close>

definition new_event :: "string \<Rightarrow> severity \<Rightarrow> string \<Rightarrow> rat \<Rightarrow> sct_event" where
  "new_event cls sev eid now =
     (let parts = split_on CHR ''.'' cls in
      \<lparr>ev_class = cls, ev_base = hd parts,
       ev_type = (if length parts < 2 then None else Some (parts ! 1)),
       ev_subtype = (if length parts < 3 then None else Some (parts ! 2)),
       ev_severity = sev, ev_period = Not_Defined, ev_id = eid,
       event_timestamp = now, source_timestamp = None, is_ready = True,
       log_level = (case map_of LOG_LEVEL_MAPPING sev of Some l \<Rightarrow> l | None \<Rightarrow> 40),
       ev_subcontext = [], is_log = False, ev_regex = None, ev_line = None, ev_line_number = 0,
       ev_node = None, ev_known_issue = None, ev_build_id = None, ev_backtrace = None,
       ev_raw_backtrace = None, ev_details = [],
       publish_to_grafana = True, publish_to_argus = True, save_to_files = True\<rparr>)"

text \<open>The time of an event at its source if that is known (and not 0), else the time it was made.\<close>

definition ev_timestamp :: "sct_event \<Rightarrow> rat" where
  "ev_timestamp e = (case source_timestamp e of
     Some t \<Rightarrow> if t \<noteq> 0 then t else event_timestamp e | None \<Rightarrow> event_timestamp e)"

definition truthy :: "string option \<Rightarrow> bool" where
  "truthy s \<longleftrightarrow> s \<noteq> None \<and> s \<noteq> Some []"

definition or_empty :: "string option \<Rightarrow> string" where
  "or_empty s = (case s of Some x \<Rightarrow> x | None \<Rightarrow> [])"

subsection \<open>The text of an event\<close>

definition during_nemesis :: "sct_event \<Rightarrow> string" where
  "during_nemesis e = join '','' (map snd (ev_subcontext e))"

definition base_msgfmt :: "sct_event \<Rightarrow> string" where
  "base_msgfmt e =
     ''('' @ ev_base e @ '' Severity.'' @ severity_name (ev_severity e) @ '') period_type='' @
     period_value (ev_period e) @ '' event_id='' @ ev_id e @
     (if during_nemesis e \<noteq> [] then '' during_nemesis='' @ during_nemesis e else [])"

definition newline :: string where
  "newline = [CHR 0x0A]"

definition log_msgfmt :: "sct_event \<Rightarrow> string" where
  "log_msgfmt e =
     base_msgfmt e @ '':'' @
     (case ev_type e of Some t \<Rightarrow> '' type='' @ t | None \<Rightarrow> []) @
     (case ev_regex e of Some r \<Rightarrow> '' regex='' @ r | None \<Rightarrow> []) @
     '' line_number='' @ show_int (ev_line_number e) @
     (case ev_node e of Some n \<Rightarrow> '' node='' @ n | None \<Rightarrow> []) @
     (if truthy (ev_known_issue e) then '' known_issue='' @ or_empty (ev_known_issue e) else []) @
     (if truthy (ev_build_id e) then '' build_id='' @ or_empty (ev_build_id e) else []) @
     (case ev_line e of Some l \<Rightarrow> newline @ l | None \<Rightarrow> []) @
     (if truthy (ev_backtrace e) then newline @ or_empty (ev_backtrace e)
      else if truthy (ev_raw_backtrace e) then newline @ or_empty (ev_raw_backtrace e) else [])"

definition str_event :: "sct_event \<Rightarrow> string" where
  "str_event e = (if is_log e then log_msgfmt e else base_msgfmt e @ ev_details e)"

lemma str_event_paren: "\<exists>s. str_event e = CHR ''('' # s"
  by (simp add: str_event_def log_msgfmt_def base_msgfmt_def)

section \<open>Severity limits\<close>

text \<open>
  \<^verbatim>\<open>fnmatch.translate\<close>: a star is any text, a question mark any character, and a bracket expression a
  class of characters with ranges, negated by an exclamation mark.  A bracket that is not closed is a
  plain character.
\<close>

fun class_items :: "string \<Rightarrow> char \<Rightarrow> bool" where
  "class_items (a # CHR ''-'' # b # s) x =
     ((of_char a :: nat) \<le> of_char x \<and> (of_char x :: nat) \<le> of_char b \<or> class_items s x)"
| "class_items (a # s) x = (x = a \<or> class_items s x)"
| "class_items [] x = False"

text \<open>The end of a bracket expression: the first closing bracket after its first character.\<close>

definition bracket_body :: "string \<Rightarrow> (string \<times> string) option" where
  "bracket_body s =
     (let neg = (case s of c # _ \<Rightarrow> c = CHR ''!'' | [] \<Rightarrow> False);
          pre = take (if neg then 1 else 0) s; s1 = drop (if neg then 1 else 0) s;
          pre2 = (case s1 of c # _ \<Rightarrow> if c = CHR '']'' then [c] else [] | [] \<Rightarrow> []);
          s2 = drop (length pre2) s1;
          body = takeWhile (\<lambda>c. c \<noteq> CHR '']'') s2; rest = dropWhile (\<lambda>c. c \<noteq> CHR '']'') s2
      in if rest = [] then None else Some (pre @ pre2 @ body, tl rest))"

definition bracket_class :: "string \<Rightarrow> char \<Rightarrow> bool" where
  "bracket_class b x = (case b of
     c # r \<Rightarrow> if c = CHR ''!'' then \<not> class_items r x else class_items b x | [] \<Rightarrow> False)"

lemma bracket_body_shorter: "bracket_body s = Some (b, r) \<Longrightarrow> length r < length s"
proof -
  assume *: "bracket_body s = Some (b, r)"
  obtain k t where t: "t = drop k s" "dropWhile (\<lambda>c. c \<noteq> CHR '']'') t \<noteq> []"
      "r = tl (dropWhile (\<lambda>c. c \<noteq> CHR '']'') t)"
    using * by (auto simp: bracket_body_def Let_def drop_drop split: if_splits)
  have "length r < length (dropWhile (\<lambda>c. c \<noteq> CHR '']'') t)" using t(2,3) by (cases "dropWhile (\<lambda>c. c \<noteq> CHR '']'') t") auto
  also have "\<dots> \<le> length t" by (rule length_dropWhile_le)
  also have "\<dots> \<le> length s" using t(1) by simp
  finally show ?thesis .
qed

function fnmatch_rexp :: "string \<Rightarrow> rexp" where
  "fnmatch_rexp [] = Eps"
| "fnmatch_rexp (c # s) =
     (if c = CHR ''*'' then Then (Many (Class (\<lambda>_. True))) (fnmatch_rexp s)
      else if c = CHR ''?'' then Then (Class (\<lambda>_. True)) (fnmatch_rexp s)
      else if c = CHR ''['' then
        (case bracket_body s of
           None \<Rightarrow> Then (Class (\<lambda>x. x = c)) (fnmatch_rexp s)
         | Some (b, r) \<Rightarrow> Then (Class (bracket_class b)) (fnmatch_rexp r))
      else Then (Class (\<lambda>x. x = c)) (fnmatch_rexp s))"
  by pat_completeness auto
termination
  by (relation "measure length") (auto dest: bracket_body_shorter)

definition fnmatch :: "string \<Rightarrow> string \<Rightarrow> bool" where
  "fnmatch name pat = accepts (fnmatch_rexp pat) name"

text \<open>The event classes known so far (with whether they are abstract), the configured limits and the rules.\<close>

record types_registry =
  known_types :: "(string \<times> bool) list"
  max_severities :: "(string \<times> severity) list"
  limit_rules :: "(string \<times> severity) list"

datatype event_error = TypeError string | ValueError string | KeyError string | IndexError

text \<open>\<^verbatim>\<open>SctEvent.__init_subclass__\<close> with \<^verbatim>\<open>SctEventTypesRegistry.__setitem__\<close>.\<close>

definition register_type :: "string \<Rightarrow> bool \<Rightarrow> types_registry \<Rightarrow> event_error + types_registry" where
  "register_type name abstract reg =
     (if name \<in> fst ` set (known_types reg) then Inl (TypeError name)
      else if \<not> abstract \<and> name \<notin> fst ` set (max_severities reg) then Inl (ValueError name)
      else Inr (reg\<lparr>known_types := AList.update name abstract (known_types reg)\<rparr>))"

text \<open>\<^verbatim>\<open>SctEvent.__new__\<close>: only classes that are not abstract have instances.\<close>

definition instantiable :: "types_registry \<Rightarrow> string \<Rightarrow> bool" where
  "instantiable reg name \<longleftrightarrow> map_of (known_types reg) name = Some False"

definition add_rule :: "string \<Rightarrow> types_registry \<Rightarrow> types_registry" where
  "add_rule rule reg =
     (if rule = [] \<or> CHR ''='' \<notin> set rule then reg
      else case severity_of_name (strip (tl (dropWhile (\<lambda>c. c \<noteq> CHR ''='') rule))) of
        None \<Rightarrow> reg
      | Some sev \<Rightarrow>
          reg\<lparr>limit_rules := (strip (takeWhile (\<lambda>c. c \<noteq> CHR ''='') rule), sev) # limit_rules reg\<rparr>)"

definition add_severity_limit_rules :: "string list \<Rightarrow> types_registry \<Rightarrow> types_registry" where
  "add_severity_limit_rules rules reg = fold add_rule rules reg"

definition max_severity_of :: "types_registry \<Rightarrow> string list \<Rightarrow> string \<Rightarrow> severity option" where
  "max_severity_of reg keys name =
     (case List.find (\<lambda>(pat, _). list_ex (\<lambda>k. fnmatch k pat) keys) (limit_rules reg) of
        Some (_, sev) \<Rightarrow> Some sev
      | None \<Rightarrow> map_of (max_severities reg) name)"

definition show_opt :: "string option \<Rightarrow> string" where
  "show_opt s = (case s of Some x \<Rightarrow> x | None \<Rightarrow> ''None'')"

definition severity_keys :: "sct_event \<Rightarrow> string list" where
  "severity_keys e =
     [ev_base e, ev_base e @ ''.'' @ show_opt (ev_type e),
      ev_base e @ ''.'' @ show_opt (ev_type e) @ ''.'' @ show_opt (ev_subtype e)]"

definition max_severity :: "types_registry \<Rightarrow> sct_event \<Rightarrow> severity option" where
  "max_severity reg e = max_severity_of reg (severity_keys e) (ev_class e)"

definition critical_events :: "types_registry \<Rightarrow> string list" where
  "critical_events reg =
     filter (\<lambda>n. max_severity_of reg [n] n = Some CRITICAL) (map fst (max_severities reg))"

text \<open>Registered classes all have a limit, and so has every event that can exist.\<close>

definition registry_ok :: "types_registry \<Rightarrow> bool" where
  "registry_ok reg \<longleftrightarrow> (\<forall>n. instantiable reg n \<longrightarrow> n \<in> fst ` set (max_severities reg))"

lemma register_type_ok: "registry_ok reg \<Longrightarrow> register_type n a reg = Inr reg' \<Longrightarrow> registry_ok reg'"
  by (force simp: registry_ok_def register_type_def instantiable_def split: if_splits)

lemma add_rule_ok: "registry_ok reg \<Longrightarrow> registry_ok (add_rule r reg)"
  by (auto simp: registry_ok_def add_rule_def instantiable_def split: option.splits)

lemma add_rules_ok: "registry_ok reg \<Longrightarrow> registry_ok (add_severity_limit_rules rs reg)"
  unfolding add_severity_limit_rules_def by (induction rs arbitrary: reg) (simp_all add: add_rule_ok)

lemma max_severity_total:
  "registry_ok reg \<Longrightarrow> instantiable reg (ev_class e) \<Longrightarrow> \<exists>s. max_severity reg e = Some s"
  by (cases "map_of (max_severities reg) (ev_class e)")
    (auto simp: max_severity_def max_severity_of_def registry_ok_def map_of_eq_None_iff split: option.split)

section \<open>Publishing\<close>

text \<open>
  The queue of the main device.  Pickling drops the attributes that start with an underscore, so the copy of
  an event that is sent (or cloned) is not ready to be published.
\<close>

type_synonym queue = "sct_event list"

definition clone :: "sct_event \<Rightarrow> sct_event" where
  "clone e = e\<lparr>is_ready := False\<rparr>"

definition publish :: "sct_event \<Rightarrow> queue \<Rightarrow> sct_event \<times> queue" where
  "publish e q = (if is_ready e then (e\<lparr>is_ready := False\<rparr>, q @ [clone e]) else (e, q))"

datatype device_state = No_Device | Alive | Dead

text \<open>
  \<^verbatim>\<open>publish_or_dump\<close>, with the texts written by the file logger and by the default logger.
\<close>

definition publish_or_dump ::
  "device_state \<Rightarrow> bool \<Rightarrow> sct_event \<Rightarrow> queue \<Rightarrow> sct_event \<times> queue \<times> sct_event list \<times> string list" where
  "publish_or_dump dev has_logger e q =
     (if \<not> is_ready e then (e, q, [], [])
      else case dev of
        Alive \<Rightarrow> (let (e', q') = publish e q in (e'\<lparr>is_ready := False\<rparr>, q', [], []))
      | Dead \<Rightarrow> (e\<lparr>is_ready := False\<rparr>, q, [e], [])
      | No_Device \<Rightarrow> (e\<lparr>is_ready := False\<rparr>, q, [], if has_logger then [str_event e] else []))"

definition dont_publish :: "sct_event \<Rightarrow> sct_event" where
  "dont_publish e = e\<lparr>is_ready := False\<rparr>"

definition ready_to_publish :: "sct_event \<Rightarrow> sct_event" where
  "ready_to_publish e = e\<lparr>is_ready := True\<rparr>"

text \<open>Publishing twice sends an event once.\<close>

lemma publish_once: "publish e q = (e', q') \<Longrightarrow> publish e' q' = (e', q')"
  by (auto simp: publish_def split: if_splits)

lemma publish_queue: "snd (publish e q) = q @ (if is_ready e then [clone e] else [])"
  by (simp add: publish_def)

section \<open>The nemeses running during an event\<close>

text \<open>\<open>running\<close> is the answer of \<^verbatim>\<open>find_running_disruption_events\<close>.\<close>

definition add_subcontext :: "subcontext \<Rightarrow> sct_event \<Rightarrow> sct_event" where
  "add_subcontext running e =
     (if ev_severity e < ERROR \<or> ev_base e = ''DisruptionEvent'' \<or> running = [] then e
      else e\<lparr>ev_subcontext :=
             foldl (\<lambda>acc n. append_new n acc) (if length running = 1 then [] else ev_subcontext e) running\<rparr>)"

definition new_informational :: "subcontext \<Rightarrow> string \<Rightarrow> severity \<Rightarrow> string \<Rightarrow> rat \<Rightarrow> sct_event" where
  "new_informational running cls sev eid now =
     add_subcontext running ((new_event cls sev eid now)\<lparr>ev_period := Informational\<rparr>)"

text \<open>
  An error that has no subcontext yet gets exactly the running nemeses; one that has gets, unless exactly one
  is running, the earlier ones as well.
\<close>

lemma add_subcontext_running:
  assumes "ERROR \<le> ev_severity e" "ev_base e \<noteq> ''DisruptionEvent''"
  shows "set (ev_subcontext (add_subcontext running e)) =
     set running \<union> (if length running = 1 then {} else set (ev_subcontext e))"
  using assms by (auto simp: add_subcontext_def)

lemma add_subcontext_keeps [simp]:
  "ev_severity (add_subcontext running e) = ev_severity e"
  "ev_class (add_subcontext running e) = ev_class e"
  "ev_base (add_subcontext running e) = ev_base e"
  "is_ready (add_subcontext running e) = is_ready e"
  "ev_id (add_subcontext running e) = ev_id e"
  "ev_line (add_subcontext running e) = ev_line e"
  "ev_type (add_subcontext running e) = ev_type e"
  by (simp_all add: add_subcontext_def)

section \<open>Log events\<close>

text \<open>\<^verbatim>\<open>s.count(p)\<close> for a non-empty \<open>p\<close>: the occurrences that do not overlap.\<close>

function count_str :: "string \<Rightarrow> string \<Rightarrow> nat" where
  "count_str p [] = 0"
| "count_str p (c # s) =
     (if p \<noteq> [] \<and> startswith (c # s) p then Suc (count_str p (drop (length p - 1) s)) else count_str p s)"
  by pat_completeness auto
termination by (relation "measure (\<lambda>(_, s). length s)") auto

text \<open>
  The check of \<^verbatim>\<open>LogEvent.__init__\<close> that a pattern has fewer than two \<^verbatim>\<open>.*\<close>, as it is written: the
  receiver and the argument of \<^verbatim>\<open>count\<close> are exchanged.
\<close>

definition regex_check :: "string \<Rightarrow> bool" where
  "regex_check regex = (regex = [] \<or> count_str regex ''.*'' < 2)"

definition new_log_event :: "string \<Rightarrow> severity \<Rightarrow> string \<Rightarrow> string \<Rightarrow> rat \<Rightarrow> sct_event option" where
  "new_log_event cls sev regex eid now =
     (if \<not> regex_check regex then None
      else Some ((new_event cls sev eid now)\<lparr>ev_period := Informational, is_log := True,
                   ev_regex := Some regex, ev_subcontext := [], is_ready := False\<rparr>))"

text \<open>\<open>parse_time\<close> is \<^verbatim>\<open>dateutil\<close>'s parser followed by \<^verbatim>\<open>timestamp()\<close>, None when it raises a ValueError.\<close>

definition event_time :: "string list \<Rightarrow> string" where
  "event_time ws = (if CHR ''T'' \<in> set (hd ws) then hd ws else join '' '' (take 2 ws))"

definition log_add_info ::
  "(string \<Rightarrow> rat option) \<Rightarrow> subcontext \<Rightarrow> rat \<Rightarrow> string \<Rightarrow> string \<Rightarrow> int \<Rightarrow> sct_event \<Rightarrow> event_error + sct_event" where
  "log_add_info parse_time running now nod line n e =
     (if split_ws line = [] then Inl IndexError
      else let e1 = (case parse_time (event_time (split_ws line)) of
                       Some t \<Rightarrow> e\<lparr>source_timestamp := Some t\<rparr> | None \<Rightarrow> e);
               e2 = e1\<lparr>event_timestamp := now, ev_node := Some nod, ev_line := Some line, ev_line_number := n\<rparr>
           in Inr ((add_subcontext running e2)\<lparr>is_ready := True\<rparr>))"

text \<open>The number before the first \<^verbatim>\<open> ms\<close> that follows digits.\<close>

function first_milli :: "string \<Rightarrow> nat option" where
  "first_milli [] = None"
| "first_milli (c # s) =
     (if is_dec_digit c
      then (let ds = c # takeWhile is_dec_digit s; r = dropWhile is_dec_digit s in
            if startswith r '' ms'' then Some (foldl (\<lambda>a d. 10 * a + (of_char d - 48)) 0 ds)
            else first_milli r)
      else first_milli s)"
  by pat_completeness auto
termination
  by (relation "measure length") (auto simp: length_dropWhile_le less_Suc_eq_le)

definition TOLERABLE_REACTOR_STALL :: nat where
  "TOLERABLE_REACTOR_STALL = 500"

text \<open>Stalls of half a second and more are errors.\<close>

definition stall_severity :: "string \<Rightarrow> sct_event \<Rightarrow> sct_event" where
  "stall_severity line e =
     (case first_milli line of
        Some ms \<Rightarrow> if TOLERABLE_REACTOR_STALL \<le> ms then e\<lparr>ev_severity := ERROR\<rparr> else e
      | None \<Rightarrow> e)"

definition add_info ::
  "(string \<Rightarrow> rat option) \<Rightarrow> subcontext \<Rightarrow> rat \<Rightarrow> string \<Rightarrow> string \<Rightarrow> int \<Rightarrow> sct_event \<Rightarrow> event_error + sct_event" where
  "add_info parse_time running now nod line n e =
     log_add_info parse_time running now nod line n
       (if ev_class e = ''DatabaseLogEvent.REACTOR_STALLED'' then stall_severity line e else e)"

text \<open>A compiled pattern, and \<^verbatim>\<open>search\<close> and \<^verbatim>\<open>match\<close> with it.\<close>

definition anything :: rexp where
  "anything = Many (Class (\<lambda>_. True))"

definition re_match :: "rexp \<Rightarrow> string \<Rightarrow> bool" where
  "re_match r s = accepts (Then r anything) s"

definition re_search :: "rexp \<Rightarrow> string \<Rightarrow> bool" where
  "re_search r s = accepts (Then anything (Then r anything)) s"

type_synonym patterns = "(rexp \<times> sct_event) list"

definition find_log_event :: "patterns \<Rightarrow> string \<Rightarrow> sct_event option" where
  "find_log_event pats line =
     (case List.find (\<lambda>(p, _). re_search p line) pats of Some (_, e) \<Rightarrow> Some e | None \<Rightarrow> None)"

definition publish_log_line_event ::
  "(string \<Rightarrow> rat option) \<Rightarrow> subcontext \<Rightarrow> rat \<Rightarrow> patterns \<Rightarrow> string \<Rightarrow> string \<Rightarrow> int \<Rightarrow>
   string option \<Rightarrow> bool \<Rightarrow> queue \<Rightarrow> event_error + bool \<times> queue" where
  "publish_log_line_event parse_time running now pats line nod n eid stop_test q =
     (case find_log_event pats line of
        None \<Rightarrow> Inr (False, q)
      | Some prototype \<Rightarrow>
          let e = clone prototype;
              e = (if truthy eid then e\<lparr>ev_id := or_empty eid\<rparr> else e);
              e = (if ev_severity e = CRITICAL \<and> \<not> stop_test then e\<lparr>ev_severity := ERROR\<rparr> else e)
          in case add_info parse_time running now nod line n e of
               Inl err \<Rightarrow> Inl err
             | Inr e' \<Rightarrow> Inr (True, snd (publish e' q)))"

lemma re_match_iff: "re_match r s \<longleftrightarrow> (\<exists>u v. s = u @ v \<and> in_lang r u)"
  by (simp add: re_match_def accepts_iff lang_Then anything_def many_class list_all_iff)

lemma re_search_iff: "re_search r s \<longleftrightarrow> (\<exists>u v w. s = u @ v @ w \<and> in_lang r v)"
  by (simp add: re_search_def accepts_iff lang_Then anything_def many_class list_all_iff) blast

lemma re_match_search: "re_match r s \<Longrightarrow> re_search r s"
  unfolding re_match_iff re_search_iff by (metis append_Nil)

section \<open>Filters\<close>

text \<open>
  The pattern of a filter, compiled when it is first used: compiling may fail.  A filter without a pattern, or
  with an empty one, has None.
\<close>

datatype pattern = Compiles rexp | Broken

datatype filter_kind =
    DbEventsFilter (filter_type: "string option") (filter_line: "pattern option") (filter_node: "string option")
  | EventsFilter (event_class: "string option") (filter_regex: "pattern option")
  | EventsSeverityChangerFilter (event_class: "string option") (filter_regex: "pattern option")
      (new_severity: severity)

record sct_filter =
  uuid :: string
  kind :: filter_kind
  extra_time_to_expiration :: "int option"
  expire_time :: "rat option"
  clear_filter :: bool

definition new_filter :: "string \<Rightarrow> filter_kind \<Rightarrow> int option \<Rightarrow> sct_filter" where
  "new_filter u k extra =
     \<lparr>uuid = u, kind = k, extra_time_to_expiration = extra, expire_time = None, clear_filter = False\<rparr>"

text \<open>\<^verbatim>\<open>__init__\<close> of \<^verbatim>\<open>EventsFilter\<close>: a class or a pattern is needed; the name gets a dot for the prefix match.\<close>

definition make_EventsFilter ::
  "string \<Rightarrow> string option \<Rightarrow> pattern option \<Rightarrow> int option \<Rightarrow> sct_filter option" where
  "make_EventsFilter u cls rx extra =
     (if cls = None \<and> rx = None then None
      else Some (new_filter u (EventsFilter (map_option (\<lambda>c. c @ ''.'') cls) rx) extra))"

definition make_EventsSeverityChangerFilter ::
  "string \<Rightarrow> severity \<Rightarrow> string option \<Rightarrow> pattern option \<Rightarrow> int option \<Rightarrow> sct_filter option" where
  "make_EventsSeverityChangerFilter u sev cls rx extra =
     (if cls = None \<and> rx = None then None
      else Some (new_filter u (EventsSeverityChangerFilter (map_option (\<lambda>c. c @ ''.'') cls) rx sev) extra))"

definition make_DbEventsFilter ::
  "string \<Rightarrow> sct_event \<Rightarrow> pattern option \<Rightarrow> string option \<Rightarrow> int option \<Rightarrow> sct_filter" where
  "make_DbEventsFilter u db_event line nod extra =
     new_filter u (DbEventsFilter (ev_type db_event) line (if truthy nod then nod else None)) extra"

text \<open>
  \<^verbatim>\<open>cancel_filter\<close>: the filter expires now, or after its extra time, and is sent again.  The two clock
  readings are those of the subclass and of \<^verbatim>\<open>BaseFilter\<close>.
\<close>

definition cancel_filter :: "rat \<Rightarrow> rat \<Rightarrow> sct_filter \<Rightarrow> sct_filter" where
  "cancel_filter now1 now2 f =
     (let f1 = (case extra_time_to_expiration f of
                  Some x \<Rightarrow> if x \<noteq> 0 then f\<lparr>expire_time := Some (now1 + of_int x)\<rparr> else f | None \<Rightarrow> f);
          f2 = (if expire_time f1 = None then f1\<lparr>expire_time := Some now2\<rparr> else f1)
      in f2\<lparr>clear_filter := True\<rparr>)"

definition FILTER_EVENT_DECAY_TIME :: rat where
  "FILTER_EVENT_DECAY_TIME = 600"

definition is_deceased :: "rat \<Rightarrow> sct_filter \<Rightarrow> bool" where
  "is_deceased now f = (case expire_time f of
     Some t \<Rightarrow> t \<noteq> 0 \<and> t + FILTER_EVENT_DECAY_TIME \<le> now | None \<Rightarrow> False)"

text \<open>The filter has expired by the time of the event.\<close>

definition expired_for :: "sct_filter \<Rightarrow> sct_event \<Rightarrow> bool" where
  "expired_for f e = (case expire_time f of
     Some t \<Rightarrow> t \<noteq> 0 \<and> ev_timestamp e \<noteq> 0 \<and> t < ev_timestamp e | None \<Rightarrow> False)"

definition pattern_holds :: "(rexp \<Rightarrow> string \<Rightarrow> bool) \<Rightarrow> pattern option \<Rightarrow> string \<Rightarrow> event_error + bool" where
  "pattern_holds how p s = (case p of
     None \<Rightarrow> Inr True | Some Broken \<Rightarrow> Inl (ValueError ''Compilation of the regexp failed'')
   | Some (Compiles r) \<Rightarrow> Inr (how r s))"

definition eval_db_filter ::
  "string option \<Rightarrow> pattern option \<Rightarrow> string option \<Rightarrow> sct_event \<Rightarrow> event_error + bool" where
  "eval_db_filter ft line nod e =
     (case pattern_holds re_search line (or_empty (ev_line e)) of
        Inl err \<Rightarrow> Inl err
      | Inr found \<Rightarrow> Inr (truthy ft \<and> ft = ev_type e \<and> found \<and>
          (truthy nod \<longrightarrow> or_empty nod \<in> set (split_ws (or_empty (ev_node e))))))"

definition eval_class_filter :: "string option \<Rightarrow> pattern option \<Rightarrow> sct_event \<Rightarrow> event_error + bool" where
  "eval_class_filter cls rx e =
     (case pattern_holds re_match rx (str_event e) of
        Inl err \<Rightarrow> Inl err
      | Inr found \<Rightarrow> Inr ((truthy cls \<longrightarrow> startswith (ev_class e @ ''.'') (or_empty cls)) \<and> found))"

text \<open>\<^verbatim>\<open>eval_filter\<close>: whether the event is suppressed, and the event, whose severity may change.\<close>

definition eval_filter :: "sct_filter \<Rightarrow> sct_event \<Rightarrow> event_error + sct_event \<times> bool" where
  "eval_filter f e = (case kind f of
     DbEventsFilter ft line nod \<Rightarrow>
       if \<not> is_log e \<or> expired_for f e then Inr (e, False)
       else map_sum id (Pair e) (eval_db_filter ft line nod e)
   | EventsFilter cls rx \<Rightarrow>
       if expired_for f e then Inr (e, False) else map_sum id (Pair e) (eval_class_filter cls rx e)
   | EventsSeverityChangerFilter cls rx sev \<Rightarrow>
       if expired_for f e then Inr (e, False)
       else map_sum id (\<lambda>b. (if b then e\<lparr>ev_severity := sev\<rparr> else e, False)) (eval_class_filter cls rx e))"

text \<open>\<^verbatim>\<open>any(f.eval_filter(obj) for f in filters)\<close>, which stops at the first filter that suppresses the event.\<close>

fun any_filter :: "sct_filter list \<Rightarrow> sct_event \<Rightarrow> event_error + sct_event \<times> bool" where
  "any_filter [] e = Inr (e, False)"
| "any_filter (f # fs) e = (case eval_filter f e of
     Inl err \<Rightarrow> Inl err
   | Inr (e', b) \<Rightarrow> if b then Inr (e', True) else any_filter fs e')"

text \<open>A filter that has expired for an event leaves it alone, wherever it stands among the filters.\<close>

lemma eval_expired: "expired_for f e \<Longrightarrow> eval_filter f e = Inr (e, False)"
  by (simp add: eval_filter_def split: filter_kind.split)

text \<open>Filters change nothing but the severity.\<close>

lemma eval_filter_event: "eval_filter f e = Inr (e', b) \<Longrightarrow> \<exists>s. e' = e\<lparr>ev_severity := s\<rparr>"
  by (auto simp: eval_filter_def map_sum_def split: filter_kind.splits if_splits sum.splits
      intro: exI[of _ "ev_severity e"])

lemma ev_timestamp_severity [simp]: "ev_timestamp (e\<lparr>ev_severity := s\<rparr>) = ev_timestamp e"
  by (simp add: ev_timestamp_def split: option.split)

lemma expired_for_severity [simp]: "expired_for f (e\<lparr>ev_severity := s\<rparr>) = expired_for f e"
  by (simp only: expired_for_def ev_timestamp_severity)

lemma any_filter_event: "any_filter fs e = Inr (e', b) \<Longrightarrow> \<exists>s. e' = e\<lparr>ev_severity := s\<rparr>"
proof (induction fs arbitrary: e)
  case Nil
  then show ?case by (auto intro: exI[of _ "ev_severity e"])
next
  case (Cons f fs)
  then show ?case
    by (fastforce split: sum.splits prod.splits if_splits dest!: eval_filter_event)
qed

lemma any_filter_drop_expired:
  "(\<And>kf. kf \<in> set fs \<Longrightarrow> \<not> P kf \<Longrightarrow> expired_for (snd kf) e) \<Longrightarrow>
   any_filter (map snd (filter P fs)) e = any_filter (map snd fs) e"
proof (induction fs arbitrary: e)
  case (Cons kf fs)
  show ?case
  proof (cases "P kf")
    case True
    have "any_filter (map snd (filter P fs)) (e\<lparr>ev_severity := s\<rparr>) = any_filter (map snd fs) (e\<lparr>ev_severity := s\<rparr>)" for s
      by (rule Cons.IH) (simp add: Cons.prems)
    with True show ?thesis
      by (auto split: sum.split prod.split dest!: eval_filter_event)
  next
    case False
    with Cons.prems[of kf] Cons.IH[of e] Cons.prems show ?thesis by (simp add: eval_expired)
  qed
qed simp

section \<open>What the parts promise\<close>

text \<open>The rule a text states, if it is well-formed.\<close>

definition parse_rule :: "string \<Rightarrow> (string \<times> severity) option" where
  "parse_rule rule =
     (if CHR ''='' \<notin> set rule then None
      else map_option (Pair (strip (takeWhile (\<lambda>c. c \<noteq> CHR ''='') rule)))
             (severity_of_name (strip (tl (dropWhile (\<lambda>c. c \<noteq> CHR ''='') rule)))))"

lemma add_rule_parse:
  "add_rule r reg = (case parse_rule r of Some x \<Rightarrow> reg\<lparr>limit_rules := x # limit_rules reg\<rparr> | None \<Rightarrow> reg)"
  by (auto simp: add_rule_def parse_rule_def split: option.split)

lemma add_rules_limits:
  "limit_rules (add_severity_limit_rules rs reg) = rev (List.map_filter parse_rule rs) @ limit_rules reg"
  unfolding add_severity_limit_rules_def
  by (induction rs arbitrary: reg) (simp_all add: add_rule_parse map_filter_simps split: option.split)

lemma add_rules_severities:
  "max_severities (add_severity_limit_rules rs reg) = max_severities reg"
  unfolding add_severity_limit_rules_def
  by (induction rs arbitrary: reg) (simp_all add: add_rule_parse split: option.split)

lemma find_rev:
  "List.find P (rev xs) = (case filter P xs of [] \<Rightarrow> None | y # ys \<Rightarrow> Some (last (y # ys)))"
proof -
  have app: "List.find P (us @ vs) = (case List.find P us of None \<Rightarrow> List.find P vs | x \<Rightarrow> x)" for us vs
    by (induction us) auto
  show ?thesis by (induction xs) (auto simp: app split: list.splits option.splits)
qed

definition rule_applies :: "sct_event \<Rightarrow> string \<times> severity \<Rightarrow> bool" where
  "rule_applies e r = list_ex (\<lambda>k. fnmatch k (fst r)) (severity_keys e)"

text \<open>
  The last well-formed rule that applies to an event decides its limit, malformed rules have no effect, and
  without one the configured limit of its class holds.
\<close>

theorem limit_last_rule_wins:
  assumes "limit_rules reg = []"
  shows "max_severity (add_severity_limit_rules rs reg) e =
    (case filter (rule_applies e) (List.map_filter parse_rule rs) of
       [] \<Rightarrow> map_of (max_severities reg) (ev_class e) | r # rest \<Rightarrow> Some (snd (last (r # rest))))"
proof -
  have "(\<lambda>(pat, _). list_ex (\<lambda>k. fnmatch k pat) (severity_keys e)) = rule_applies e"
    by (auto simp: rule_applies_def)
  with assms show ?thesis
    by (auto simp: max_severity_def max_severity_of_def add_rules_limits add_rules_severities find_rev
        case_prod_beta split: list.split option.split)
qed

text \<open>The check of a log event's pattern accepts every pattern.\<close>

lemma regex_check_accepts_all: "regex_check r"
proof -
  have "r = [] \<or> count_str r ''.*'' < 2"
    by (cases r; cases "tl r") (auto simp: startswith_prefix)
  then show ?thesis by (auto simp: regex_check_def)
qed

text \<open>
  A class filter sees the whole text of an event from its first character, which is always a parenthesis.
  So a pattern none of whose words starts with one never matches, and the filter never has an effect.
\<close>

lemma pattern_not_from_start:
  assumes "\<And>s. in_lang r s \<Longrightarrow> s \<noteq> [] \<and> hd s \<noteq> CHR ''(''"
  shows "\<not> re_match r (str_event e)"
proof
  assume "re_match r (str_event e)"
  then obtain u v where "str_event e = u @ v" "in_lang r u" by (auto simp: re_match_iff)
  moreover obtain s where "str_event e = CHR ''('' # s" using str_event_paren by blast
  ultimately show False using assms[of u] by (cases u) auto
qed

lemma changer_inert:
  assumes "kind f = EventsSeverityChangerFilter cls (Some (Compiles r)) sev"
    "\<And>s. in_lang r s \<Longrightarrow> s \<noteq> [] \<and> hd s \<noteq> CHR ''(''"
  shows "eval_filter f e = Inr (e, False)"
  using pattern_not_from_start[where r = r and e = e] assms
  by (simp add: eval_filter_def eval_class_filter_def pattern_holds_def)

end
