(* ===== verification/Event_Device.thy ===== *)
theory Event_Device
  imports Event_Base "HOL-Library.Word"
begin

text \<open>
  How events reach their consumers: \<^verbatim>\<open>EventsDevice.outbound_events\<close> of \<^verbatim>\<open>sdcm/sct_events/events_device.py\<close>,
  which every consumer process runs over the stream of published objects, and the filters a run starts with
  (\<^verbatim>\<open>enable_default_filters\<close> and \<^verbatim>\<open>enable_teardown_filters\<close> of \<^verbatim>\<open>setup.py\<close>).

  The stream is a list of objects, each with the clock readings taken while it is handled: the two readings of
  \<^verbatim>\<open>perf_counter\<close>, and for every filter the reading of \<^verbatim>\<open>time.time()\<close> at which the collection examines it.
  The main theorem shows that collecting old filters is invisible: each event is judged by all the filters
  announced before it.
\<close>

section \<open>The stream\<close>

record tick =
  perf_check :: rat
  perf_reset :: rat
  wall_at :: "string \<Rightarrow> rat"

datatype inbound = Filter sct_filter | System sct_event | Event sct_event

type_synonym stream = "(tick \<times> inbound) list"

definition FILTERS_GC_PERIOD :: rat where
  "FILTERS_GC_PERIOD = 60"

type_synonym filters = "(string \<times> sct_filter) list"

record device =
  dev_filters :: filters
  filters_gc_next_hit :: rat

definition true_time :: "rat option \<Rightarrow> bool" where
  "true_time t \<longleftrightarrow> t \<noteq> None \<and> t \<noteq> Some 0"

text \<open>The collection of filters that expired ten minutes ago.\<close>

definition run_gc :: "tick \<Rightarrow> device \<Rightarrow> device" where
  "run_gc t d =
     (if filters_gc_next_hit d < perf_check t
      then \<lparr>dev_filters = filter (\<lambda>(k, f). \<not> is_deceased (wall_at t k) f) (dev_filters d),
            filters_gc_next_hit = perf_reset t + FILTERS_GC_PERIOD\<rparr>
      else d)"

text \<open>A filter in the stream is added, expired or deleted.\<close>

definition note_filter :: "sct_filter \<Rightarrow> filters \<Rightarrow> filters" where
  "note_filter f fs =
     (if clear_filter f \<and> \<not> true_time (expire_time f) then AList.delete (uuid f) fs
      else if clear_filter f \<and> uuid f \<in> fst ` set fs
      then map (\<lambda>(k, g). (k, if k = uuid f then g\<lparr>expire_time := expire_time f\<rparr> else g)) fs
      else AList.update (uuid f) f fs)"

definition limit_severity :: "types_registry \<Rightarrow> sct_event \<Rightarrow> event_error + sct_event" where
  "limit_severity reg e = (case max_severity reg e of
     None \<Rightarrow> Inl (KeyError (ev_class e))
   | Some m \<Rightarrow> Inr (if m < ev_severity e then e\<lparr>ev_severity := m\<rparr> else e))"

definition action_line :: "sct_event \<Rightarrow> string" where
  "action_line e =
     ev_base e @ (if truthy (ev_type e) then ''.'' @ or_empty (ev_type e) else []) @
     (if truthy (ev_subtype e) then ''.'' @ or_empty (ev_subtype e) else []) @ '' '' @
     severity_name (ev_severity e) @ '' Event (id='' @ ev_id e @ '') on node: '' @ show_opt (ev_node e)"

text \<open>What becomes of one event: the event to yield, if any.\<close>

definition judge :: "types_registry \<Rightarrow> sct_filter list \<Rightarrow> sct_event \<Rightarrow> event_error + sct_event list" where
  "judge reg fs e = (case any_filter fs e of
     Inl err \<Rightarrow> Inl err
   | Inr (e', True) \<Rightarrow> Inr []
   | Inr (e', False) \<Rightarrow> map_sum id (\<lambda>e2. [e2]) (limit_severity reg e'))"

definition action_lines :: "sct_event list \<Rightarrow> string list" where
  "action_lines es = map action_line (filter (\<lambda>e. WARNING < ev_severity e) es)"

text \<open>
  What a consumer sees: the pairs yielded, the lines of the action log, the value of the counter (32 bits wide),
  and the exception that ended the generator, if one did.
\<close>

record outcome =
  yielded :: "(string \<times> sct_event) list"
  actions :: "string list"
  events_counter :: "32 word"
  failure :: "event_error option"

fun outbound_from :: "types_registry \<Rightarrow> nat \<Rightarrow> device \<Rightarrow> stream \<Rightarrow> outcome" where
  "outbound_from reg n d [] = \<lparr>yielded = [], actions = [], events_counter = of_nat n, failure = None\<rparr>"
| "outbound_from reg n d ((t, obj) # rest) =
     (let d1 = run_gc t d in
      case obj of
        Filter f \<Rightarrow> outbound_from reg (Suc n) (d1\<lparr>dev_filters := note_filter f (dev_filters d1)\<rparr>) rest
      | System e \<Rightarrow> outbound_from reg (Suc n) d1 rest
      | Event e \<Rightarrow>
          (case judge reg (map snd (dev_filters d1)) e of
             Inl err \<Rightarrow> \<lparr>yielded = [], actions = [], events_counter = of_nat (Suc n), failure = Some err\<rparr>
           | Inr es \<Rightarrow>
               let r = outbound_from reg (Suc n) d1 rest in
               r\<lparr>yielded := map (\<lambda>e. (ev_base e, e)) es @ yielded r, actions := action_lines es @ actions r\<rparr>))"

definition outbound_events :: "types_registry \<Rightarrow> rat \<Rightarrow> stream \<Rightarrow> outcome" where
  "outbound_events reg start s =
     outbound_from reg 0 \<lparr>dev_filters = [], filters_gc_next_hit = start + FILTERS_GC_PERIOD\<rparr> s"

section \<open>Collection of filters is invisible\<close>

definition stream_filters :: "stream \<Rightarrow> sct_filter list" where
  "stream_filters s = List.map_filter (\<lambda>(t, obj). case obj of Filter f \<Rightarrow> Some f | _ \<Rightarrow> None) s"

definition stream_events :: "stream \<Rightarrow> sct_event list" where
  "stream_events s = List.map_filter (\<lambda>(t, obj). case obj of Event e \<Rightarrow> Some e | _ \<Rightarrow> None) s"

lemma stream_filters_simps [simp]:
  "stream_filters [] = []"
  "stream_filters ((t, Filter f) # s) = f # stream_filters s"
  "stream_filters ((t, System e) # s) = stream_filters s"
  "stream_filters ((t, Event e) # s) = stream_filters s"
  by (simp_all add: stream_filters_def map_filter_simps)

lemma stream_events_simps [simp]:
  "stream_events [] = []"
  "stream_events ((t, Filter f) # s) = stream_events s"
  "stream_events ((t, System e) # s) = stream_events s"
  "stream_events ((t, Event e) # s) = e # stream_events s"
  by (simp_all add: stream_events_def map_filter_simps)

text \<open>
  Events arrive less than ten minutes late: the time of an event is later than every earlier clock reading less
  the decay time.
\<close>

fun timely :: "stream \<Rightarrow> bool" where
  "timely [] = True"
| "timely ((t, obj) # s) \<longleftrightarrow>
     (\<forall>e\<in>set (stream_events ((t, obj) # s)).
        ev_timestamp e \<noteq> 0 \<and> (\<forall>k. wall_at t k < ev_timestamp e + FILTER_EVENT_DECAY_TIME)) \<and> timely s"

text \<open>A filter is not sent again after it was cancelled.\<close>

fun cancelled_once :: "stream \<Rightarrow> bool" where
  "cancelled_once [] = True"
| "cancelled_once ((t, obj) # s) \<longleftrightarrow>
     (case obj of Filter f \<Rightarrow> true_time (expire_time f) \<longrightarrow> uuid f \<notin> uuid ` set (stream_filters s) | _ \<Rightarrow> True) \<and>
     cancelled_once s"

text \<open>The specification: all the filters announced so far, and each event judged by them.\<close>

fun announced :: "filters \<Rightarrow> stream \<Rightarrow> filters" where
  "announced fs [] = fs"
| "announced fs ((t, obj) # s) = announced (case obj of Filter f \<Rightarrow> note_filter f fs | _ \<Rightarrow> fs) s"

fun judged :: "types_registry \<Rightarrow> filters \<Rightarrow> stream \<Rightarrow> (event_error + sct_event list) list" where
  "judged reg fs [] = []"
| "judged reg fs ((t, obj) # s) =
     (case obj of
        Filter f \<Rightarrow> judged reg (note_filter f fs) s
      | System e \<Rightarrow> judged reg fs s
      | Event e \<Rightarrow> judge reg (map snd fs) e # judged reg fs s)"

fun until_failure :: "(event_error + sct_event list) list \<Rightarrow> sct_event list \<times> event_error option" where
  "until_failure [] = ([], None)"
| "until_failure (Inl err # vs) = ([], Some err)"
| "until_failure (Inr es # vs) = (let (r, f) = until_failure vs in (es @ r, f))"

text \<open>
  The simulation.  \<open>dead\<close> are the filters collected so far: they stay expired for every event to come and are
  not sent again.
\<close>

definition kept :: "string set \<Rightarrow> filters \<Rightarrow> filters" where
  "kept dead fs = filter (\<lambda>kf. fst kf \<notin> dead) fs"

definition forgotten :: "string set \<Rightarrow> stream \<Rightarrow> filters \<Rightarrow> bool" where
  "forgotten dead s fs \<longleftrightarrow> dead \<inter> uuid ` set (stream_filters s) = {} \<and>
     (\<forall>kf\<in>set fs. fst kf \<in> dead \<longrightarrow> (\<forall>e\<in>set (stream_events s). expired_for (snd kf) e))"

definition settled :: "stream \<Rightarrow> filters \<Rightarrow> bool" where
  "settled s fs \<longleftrightarrow> distinct (map fst fs) \<and>
     (\<forall>kf\<in>set fs. true_time (expire_time (snd kf)) \<longrightarrow> fst kf \<notin> uuid ` set (stream_filters s))"

lemma set_update_cases: "kf \<in> set (AList.update k v al) \<Longrightarrow> kf \<in> set al \<or> kf = (k, v)"
  by (induction al) (auto split: if_splits)

lemma kept_update: "k \<notin> dead \<Longrightarrow> kept dead (AList.update k v fs) = AList.update k v (kept dead fs)"
  unfolding kept_def by (induction fs) auto

lemma note_filter_distinct: "distinct (map fst fs) \<Longrightarrow> distinct (map fst (note_filter f fs))"
  by (simp add: note_filter_def comp_def case_prod_beta)

lemma set_note_filter:
  "kf \<in> set (note_filter f fs) \<Longrightarrow> kf \<in> set fs \<or> fst kf = uuid f \<and> expire_time (snd kf) = expire_time f"
  by (auto simp: note_filter_def AList.delete_eq dest!: set_update_cases split: if_splits)

lemma kept_note_filter: "uuid f \<notin> dead \<Longrightarrow> kept dead (note_filter f fs) = note_filter f (kept dead fs)"
proof -
  assume *: "uuid f \<notin> dead"
  then have "uuid f \<in> fst ` set (kept dead fs) \<longleftrightarrow> uuid f \<in> fst ` set fs" by (auto simp: kept_def)
  moreover have "kept dead (map (\<lambda>(k, g). (k, h k g)) fs) = map (\<lambda>(k, g). (k, h k g)) (kept dead fs)" for h
    unfolding kept_def by (induction fs) auto
  moreover have "kept dead (AList.delete (uuid f) fs) = AList.delete (uuid f) (kept dead fs)"
    by (simp add: kept_def AList.delete_eq conj_commute cong: filter_cong)
  ultimately show ?thesis using * by (simp add: note_filter_def kept_update)
qed

lemma settled_note:
  "settled ((t, Filter f) # s) fs \<Longrightarrow> cancelled_once ((t, Filter f) # s) \<Longrightarrow> settled s (note_filter f fs)"
  unfolding settled_def
  by (auto simp: note_filter_distinct image_iff dest!: set_note_filter)

lemma forgotten_note:
  "forgotten dead ((t, Filter f) # s) fs \<Longrightarrow> forgotten dead s (note_filter f fs)"
  unfolding forgotten_def by (auto dest!: set_note_filter)

lemma deceased_expired:
  assumes "is_deceased (wall_at t k) f" "timely ((t, obj) # s)" "e \<in> set (stream_events ((t, obj) # s))"
  shows "expired_for f e"
proof -
  obtain x where x: "expire_time f = Some x" "x \<noteq> 0" "x + FILTER_EVENT_DECAY_TIME \<le> wall_at t k"
    using assms(1) by (auto simp: is_deceased_def split: option.splits)
  have "ev_timestamp e \<noteq> 0" "wall_at t k < ev_timestamp e + FILTER_EVENT_DECAY_TIME"
    using assms(2,3) by auto
  with x show ?thesis by (auto simp: expired_for_def)
qed

lemma deceased_true_time: "is_deceased w f \<Longrightarrow> true_time (expire_time f)"
  by (auto simp: is_deceased_def true_time_def split: option.splits)

text \<open>A collection forgets only filters that have no further effect.\<close>

lemma gc_forgets:
  assumes "timely ((t, obj) # s)" "forgotten dead ((t, obj) # s) fs" "settled ((t, obj) # s) fs"
    "dev_filters d = kept dead fs"
  obtains dead' where "dev_filters (run_gc t d) = kept dead' fs" "forgotten dead' ((t, obj) # s) fs"
proof (cases "filters_gc_next_hit d < perf_check t")
  case True
  define gone where "gone = {k. \<exists>f. (k, f) \<in> set fs \<and> is_deceased (wall_at t k) f}"
  have same: "g = f" if "(k, f) \<in> set fs" "(k, g) \<in> set fs" for k f g
    using that assms(3) by (auto simp: settled_def dest: eq_key_imp_eq_value)
  have "dev_filters (run_gc t d) = kept (dead \<union> gone) fs"
    using True assms(4)
    by (auto simp: run_gc_def kept_def gone_def intro!: filter_cong dest: same)
  moreover have "forgotten (dead \<union> gone) ((t, obj) # s) fs"
  proof -
    have "expired_for (snd kf) e"
      if a: "kf \<in> set fs" "fst kf \<in> dead \<union> gone" "e \<in> set (stream_events ((t, obj) # s))" for kf e
    proof (cases "fst kf \<in> dead")
      case False
      then obtain f where f: "(fst kf, f) \<in> set fs" "is_deceased (wall_at t (fst kf)) f"
        using a(2) unfolding gone_def by blast
      from same[OF f(1), of "snd kf"] a(1) have "snd kf = f" by simp
      with deceased_expired[OF f(2) assms(1) a(3)] show ?thesis by simp
    qed (use assms(2) a in \<open>auto simp: forgotten_def\<close>)
    moreover have "gone \<inter> uuid ` set (stream_filters ((t, obj) # s)) = {}"
      using assms(3) unfolding gone_def settled_def by (fastforce dest: deceased_true_time)
    ultimately show ?thesis using assms(2) unfolding forgotten_def by (simp add: Int_Un_distrib2)
  qed
  ultimately show ?thesis by (rule that)
next
  case False
  with assms show ?thesis by (intro that[of dead]) (simp_all add: run_gc_def)
qed

lemma judge_kept:
  assumes "forgotten dead ((t, Event e) # s) fs"
  shows "judge reg (map snd (kept dead fs)) e = judge reg (map snd fs) e"
proof -
  have "any_filter (map snd (kept dead fs)) e = any_filter (map snd fs) e"
    unfolding kept_def by (rule any_filter_drop_expired) (use assms in \<open>auto simp: forgotten_def\<close>)
  then show ?thesis by (simp add: judge_def)
qed

lemma forgotten_tail: "forgotten dead ((t, obj) # s) fs \<Longrightarrow> forgotten dead s fs"
  by (cases obj) (auto simp: forgotten_def)

lemma settled_tail: "settled ((t, obj) # s) fs \<Longrightarrow> settled s fs"
  by (cases obj) (auto simp: settled_def)

lemma outbound_sim:
  assumes "timely s" "cancelled_once s" "forgotten dead s fs" "settled s fs" "dev_filters d = kept dead fs"
  shows "map snd (yielded (outbound_from reg n d s)) = fst (until_failure (judged reg fs s)) \<and>
    failure (outbound_from reg n d s) = snd (until_failure (judged reg fs s))"
  using assms
proof (induction s arbitrary: n d dead fs)
  case (Cons p s)
  obtain t obj where p: "p = (t, obj)" by fastforce
  note prems = Cons.prems[unfolded p]
  obtain dead' where d1: "dev_filters (run_gc t d) = kept dead' fs" "forgotten dead' ((t, obj) # s) fs"
    using gc_forgets[OF prems(1,3,4,5)] by blast
  have s: "timely s" "cancelled_once s" using prems(1,2) by simp_all
  note tails = forgotten_tail[OF d1(2)] settled_tail[OF prems(4)]
  show ?case
  proof (cases obj)
    case (Filter f)
    have "uuid f \<notin> dead'" using d1(2) by (simp add: Filter forgotten_def)
    then have k: "note_filter f (dev_filters (run_gc t d)) = kept dead' (note_filter f fs)"
      by (simp add: d1(1) kept_note_filter)
    have "forgotten dead' s (note_filter f fs)" "settled s (note_filter f fs)"
      using forgotten_note settled_note d1(2) prems(2,4) by (auto simp: Filter)
    from Cons.IH[OF s this] show ?thesis by (simp add: p Filter Let_def k)
  next
    case (System e)
    from Cons.IH[OF s tails d1(1)] show ?thesis by (simp add: p System Let_def)
  next
    case (Event e)
    have "judge reg (map snd (dev_filters (run_gc t d))) e = judge reg (map snd fs) e"
      using judge_kept d1 by (simp add: Event)
    with Cons.IH[OF s tails d1(1)] show ?thesis
      by (auto simp: p Event Let_def comp_def case_prod_beta split: sum.split)
  qed
qed simp

section \<open>Which events are delivered\<close>

text \<open>
  What a filter with a pattern that compiles says of an event: whether it applies to it, and whether it
  suppresses it or gives it another severity.
\<close>

definition pattern_ok :: "(rexp \<Rightarrow> string \<Rightarrow> bool) \<Rightarrow> pattern option \<Rightarrow> string \<Rightarrow> bool" where
  "pattern_ok how p s = (case p of Some (Compiles r) \<Rightarrow> how r s | _ \<Rightarrow> True)"

definition applies :: "sct_filter \<Rightarrow> sct_event \<Rightarrow> bool" where
  "applies f e \<longleftrightarrow> \<not> expired_for f e \<and> (case kind f of
     DbEventsFilter ft line nod \<Rightarrow>
       is_log e \<and> truthy ft \<and> ft = ev_type e \<and> pattern_ok re_search line (or_empty (ev_line e)) \<and>
       (truthy nod \<longrightarrow> or_empty nod \<in> set (split_ws (or_empty (ev_node e))))
   | EventsFilter cls rx \<Rightarrow>
       (truthy cls \<longrightarrow> startswith (ev_class e @ ''.'') (or_empty cls)) \<and> pattern_ok re_match rx (str_event e)
   | EventsSeverityChangerFilter cls rx sev \<Rightarrow>
       (truthy cls \<longrightarrow> startswith (ev_class e @ ''.'') (or_empty cls)) \<and> pattern_ok re_match rx (str_event e))"

definition suppresses :: "sct_filter \<Rightarrow> sct_event \<Rightarrow> bool" where
  "suppresses f e \<longleftrightarrow> (case kind f of EventsSeverityChangerFilter _ _ _ \<Rightarrow> False | _ \<Rightarrow> applies f e)"

definition recolour :: "sct_filter \<Rightarrow> sct_event \<Rightarrow> sct_event" where
  "recolour f e = (case kind f of
     EventsSeverityChangerFilter _ _ sev \<Rightarrow> if applies f e then e\<lparr>ev_severity := sev\<rparr> else e | _ \<Rightarrow> e)"

definition compiled :: "sct_filter \<Rightarrow> bool" where
  "compiled f \<longleftrightarrow> (case kind f of DbEventsFilter _ p _ \<Rightarrow> p \<noteq> Some Broken
     | EventsFilter _ p \<Rightarrow> p \<noteq> Some Broken | EventsSeverityChangerFilter _ p _ \<Rightarrow> p \<noteq> Some Broken)"

lemma pattern_holds_ok: "p \<noteq> Some Broken \<Longrightarrow> pattern_holds how p s = Inr (pattern_ok how p s)"
  by (auto simp: pattern_holds_def pattern_ok_def split: option.split pattern.split)

lemma eval_compiled: "compiled f \<Longrightarrow> eval_filter f e = Inr (recolour f e, suppresses f e)"
  by (auto simp: compiled_def eval_filter_def recolour_def suppresses_def applies_def eval_db_filter_def
      eval_class_filter_def pattern_holds_ok split: filter_kind.splits)

text \<open>The filters are asked in the order they were announced, each about the severity the earlier ones left.\<close>

fun suppressed :: "sct_filter list \<Rightarrow> sct_event \<Rightarrow> bool" where
  "suppressed [] e = False"
| "suppressed (f # fs) e = (suppresses f e \<or> suppressed fs (recolour f e))"

definition recoloured :: "sct_filter list \<Rightarrow> sct_event \<Rightarrow> sct_event" where
  "recoloured fs e = fold recolour fs e"

lemma any_filter_compiled:
  "\<forall>f\<in>set fs. compiled f \<Longrightarrow>
   if suppressed fs e then \<exists>e'. any_filter fs e = Inr (e', True) else any_filter fs e = Inr (recoloured fs e, False)"
  by (induction fs arbitrary: e) (auto simp: eval_compiled recoloured_def split: if_splits)

definition capped :: "types_registry \<Rightarrow> sct_event \<Rightarrow> sct_event" where
  "capped reg e = (case max_severity reg e of
     Some m \<Rightarrow> e\<lparr>ev_severity := min m (ev_severity e)\<rparr> | None \<Rightarrow> e)"

definition delivered :: "types_registry \<Rightarrow> sct_filter list \<Rightarrow> inbound \<Rightarrow> sct_event list" where
  "delivered reg fs obj = (case obj of
     Event e \<Rightarrow> if suppressed fs e then [] else [capped reg (recoloured fs e)] | _ \<Rightarrow> [])"

lemma max_severity_recolour [simp]: "max_severity reg (e\<lparr>ev_severity := s\<rparr>) = max_severity reg e"
  by (simp add: max_severity_def severity_keys_def)

lemma recoloured_event: "\<exists>s. recoloured fs e = e\<lparr>ev_severity := s\<rparr>"
proof -
  have "\<exists>s. fold recolour fs e' = e\<lparr>ev_severity := s\<rparr>" if "e' = e\<lparr>ev_severity := v\<rparr>" for e' v
    using that by (induction fs arbitrary: e' v) (auto simp: recolour_def split: filter_kind.split)
  from this[of e "ev_severity e"] show ?thesis by (simp add: recoloured_def)
qed

lemma judge_delivered:
  assumes "\<forall>f\<in>set fs. compiled f" "registry_ok reg" "instantiable reg (ev_class e)"
  shows "judge reg fs e = Inr (delivered reg fs (Event e))"
proof -
  obtain s where s: "recoloured fs e = e\<lparr>ev_severity := s\<rparr>" using recoloured_event by blast
  obtain m where m: "max_severity reg e = Some m" using max_severity_total assms(2,3) by blast
  have "limit_severity reg (recoloured fs e) = Inr (capped reg (recoloured fs e))"
    by (simp add: s limit_severity_def capped_def m min_def not_less)
  then show ?thesis
    using any_filter_compiled[OF assms(1), of e] by (auto simp: judge_def delivered_def split: if_splits)
qed

lemma announced_compiled:
  "\<forall>f\<in>snd ` set fs. compiled f \<Longrightarrow> \<forall>f\<in>set (stream_filters s). compiled f \<Longrightarrow>
   \<forall>f\<in>snd ` set (announced fs s). compiled f"
proof (induction s arbitrary: fs)
  case (Cons p s)
  obtain t obj where p: "p = (t, obj)" by fastforce
  have "compiled (g\<lparr>expire_time := x\<rparr>) = compiled g" for g x by (simp add: compiled_def)
  then have "\<forall>f\<in>snd ` set (note_filter f fs). compiled f" if "compiled f" for f
    using that Cons.prems(1)
    by (auto simp: note_filter_def AList.delete_eq dest!: set_update_cases split: if_splits)
  with Cons show ?case by (cases obj) (auto simp: p)
qed simp

definition deliveries :: "types_registry \<Rightarrow> filters \<Rightarrow> stream \<Rightarrow> sct_event list" where
  "deliveries reg fs s =
     concat (map (\<lambda>i. delivered reg (map snd (announced fs (take i s))) (snd (s ! i))) [0..<length s])"

lemma deliveries_Cons:
  "deliveries reg fs ((t, obj) # s) =
     delivered reg (map snd fs) obj @ deliveries reg (case obj of Filter f \<Rightarrow> note_filter f fs | _ \<Rightarrow> fs) s"
proof -
  have "[0..<length ((t, obj) # s)] = 0 # map Suc [0..<length s]" by (simp add: map_Suc_upt upt_conv_Cons del: upt_Suc)
  then show ?thesis by (simp add: deliveries_def comp_def del: upt_Suc)
qed

lemma judged_deliveries:
  assumes "registry_ok reg" "\<forall>e\<in>set (stream_events s). instantiable reg (ev_class e)"
    "\<forall>f\<in>snd ` set fs. compiled f" "\<forall>f\<in>set (stream_filters s). compiled f"
  shows "until_failure (judged reg fs s) = (deliveries reg fs s, None)"
  using assms
proof (induction s arbitrary: fs)
  case Nil
  then show ?case by (simp add: deliveries_def)
next
  case (Cons p s)
  obtain t obj where p: "p = (t, obj)" by fastforce
  show ?case
  proof (cases obj)
    case (Filter f)
    have "\<forall>f\<in>snd ` set (note_filter f fs). compiled f"
      using announced_compiled[of fs "[(t, Filter f)]"] Cons.prems by (simp add: p Filter)
    with Cons show ?thesis by (simp add: p Filter deliveries_Cons delivered_def)
  next
    case (System e)
    with Cons show ?thesis by (simp add: p deliveries_Cons delivered_def)
  next
    case (Event e)
    have "judge reg (map snd fs) e = Inr (delivered reg (map snd fs) (Event e))"
      using Cons.prems by (intro judge_delivered) (auto simp: p Event)
    with Cons show ?thesis by (simp add: p Event deliveries_Cons)
  qed
qed

lemma yielded_base: "list_all (\<lambda>(b, e). b = ev_base e) (yielded (outbound_from reg n d s))"
proof (induction s arbitrary: n d)
  case (Cons p s)
  obtain t obj where "p = (t, obj)" by fastforce
  with Cons show ?case by (auto simp: Let_def list.pred_map comp_def list.pred_True split: inbound.split sum.split)
qed simp

lemma outbound_events_deliveries:
  assumes "timely s" "cancelled_once s" "registry_ok reg"
    "\<forall>e\<in>set (stream_events s). instantiable reg (ev_class e)" "\<forall>f\<in>set (stream_filters s). compiled f"
  shows "failure (outbound_events reg start s) = None \<and>
    yielded (outbound_events reg start s) = map (\<lambda>e. (ev_base e, e)) (deliveries reg [] s)"
proof -
  define d where "d = \<lparr>dev_filters = ([] :: filters), filters_gc_next_hit = start + FILTERS_GC_PERIOD\<rparr>"
  have "dev_filters d = kept {} []" by (simp add: d_def kept_def)
  from outbound_sim[OF assms(1,2) _ _ this, of reg 0]
  have sim: "map snd (yielded (outbound_from reg 0 d s)) = fst (until_failure (judged reg [] s))"
      "failure (outbound_from reg 0 d s) = snd (until_failure (judged reg [] s))"
    by (simp_all add: forgotten_def settled_def)
  have j: "until_failure (judged reg [] s) = (deliveries reg [] s, None)"
    using assms(3-5) by (intro judged_deliveries) simp_all
  have base: "ps = map (\<lambda>e. (ev_base e, e)) (map snd ps)" if "list_all (\<lambda>(b, e). b = ev_base e) ps"
    for ps :: "(string \<times> sct_event) list"
    using that by (induction ps) auto
  from sim j base[OF yielded_base, of reg 0 d s]
  show ?thesis by (simp_all add: outbound_events_def d_def)
qed

lemma deliveries_limit:
  assumes "registry_ok reg" "\<forall>e\<in>set (stream_events s). instantiable reg (ev_class e)" "e \<in> set (deliveries reg fs s)"
  shows "\<exists>m. max_severity reg e = Some m \<and> ev_severity e \<le> m"
  using assms(2,3)
proof (induction s arbitrary: fs)
  case (Cons p s)
  obtain t obj where p: "p = (t, obj)" by fastforce
  consider e0 gs where "obj = Event e0" "e = capped reg (recoloured gs e0)"
    | "e \<in> set (deliveries reg (case obj of Filter f \<Rightarrow> note_filter f fs | _ \<Rightarrow> fs) s)"
    using Cons.prems(2) by (auto simp: p deliveries_Cons delivered_def split: inbound.splits if_splits)
  then show ?case
  proof cases
    case 1
    obtain v where v: "recoloured gs e0 = e0\<lparr>ev_severity := v\<rparr>" using recoloured_event by blast
    obtain m where "max_severity reg e0 = Some m"
      using max_severity_total[OF assms(1)] Cons.prems(1) by (auto simp: p 1(1))
    then show ?thesis by (simp add: 1(2) v capped_def)
  next
    case 2
    moreover have "\<forall>e\<in>set (stream_events s). instantiable reg (ev_class e)"
      using Cons.prems(1) by (cases obj) (auto simp: p)
    ultimately show ?thesis by (intro Cons.IH)
  qed
qed (simp add: deliveries_def)

text \<open>C3: Every event is judged by all the filters announced before it, although old filters are collected.
  For a stream in which events arrive less than ten minutes late and no filter is sent again after its
  cancellation, with filters whose patterns compile and events of registered classes, the generator does not
  fail; it yields, in order and with the name of its base class, exactly each event that no announced and
  unexpired filter suppresses, with the severity the severity changers gave it, cut to the limit of its class.\<close>

theorem outbound_events_exact:
  assumes "timely s" "cancelled_once s" "registry_ok reg"
    "\<forall>e\<in>set (stream_events s). instantiable reg (ev_class e)" "\<forall>f\<in>set (stream_filters s). compiled f"
  shows "failure (outbound_events reg start s) = None \<and>
    yielded (outbound_events reg start s) = map (\<lambda>e. (ev_base e, e)) (deliveries reg [] s)"
  using assms by (rule outbound_events_deliveries)

definition demo_tick :: "rat \<Rightarrow> tick" where
  "demo_tick now = \<lparr>perf_check = now, perf_reset = now, wall_at = (\<lambda>_. now)\<rparr>"

definition demo_registry :: types_registry where
  "demo_registry = \<lparr>known_types = [(''SctEvent'', True), (''SpotTerminationEvent'', False)],
     max_severities = [(''SpotTerminationEvent'', ERROR)], limit_rules = []\<rparr>"

definition demo_filter :: sct_filter where
  "demo_filter = new_filter ''f1'' (EventsFilter (Some ''SpotTerminationEvent.'') None) None"

definition demo_event :: "rat \<Rightarrow> sct_event" where
  "demo_event now = new_event ''SpotTerminationEvent'' CRITICAL ''e1'' now"

text \<open>A filter for 100 seconds; an event during it, one that arrives 50 seconds late, and one after the filter
  was collected.\<close>

definition demo_stream :: stream where
  "demo_stream =
     [(demo_tick 1000, Filter demo_filter), (demo_tick 1010, Event (demo_event 1010)),
      (demo_tick 1100, Filter (cancel_filter 1100 1100 demo_filter)),
      (demo_tick 1145, Event (demo_event 1095)), (demo_tick 1900, Event (demo_event 1900))]"

theorem outbound_events_exact_witness:
  "failure (outbound_events demo_registry 0 demo_stream) = None \<and>
   yielded (outbound_events demo_registry 0 demo_stream) =
     [(''SpotTerminationEvent'', (demo_event 1900)\<lparr>ev_severity := ERROR\<rparr>)]"
proof -
  have "timely demo_stream" "cancelled_once demo_stream" "registry_ok demo_registry"
    "\<forall>e\<in>set (stream_events demo_stream). instantiable demo_registry (ev_class e)"
    "\<forall>f\<in>set (stream_filters demo_stream). compiled f"
    by (simp_all add: demo_stream_def demo_tick_def demo_event_def demo_filter_def demo_registry_def
        ev_timestamp_def FILTER_EVENT_DECAY_TIME_def new_event_def new_filter_def cancel_filter_def Let_def
        true_time_def registry_ok_def instantiable_def compiled_def)
  note outbound_events_exact[OF this, of 0]
  moreover have "map (\<lambda>e. (ev_base e, e)) (deliveries demo_registry [] demo_stream) =
      [(''SpotTerminationEvent'', (demo_event 1900)\<lparr>ev_severity := ERROR\<rparr>)]"
    by code_simp
  ultimately show ?thesis by simp
qed

text \<open>
  A class filter whose pattern does not compile is announced like any other, and the first event that reaches
  it ends the generator, and with it the consumer.
\<close>

lemma broken_filter_fails:
  assumes "kind f = EventsFilter cls (Some Broken)" "\<not> expired_for f e"
    "\<forall>g\<in>set fs. compiled g" "\<not> suppressed fs e"
  shows "\<exists>err. judge reg (fs @ f # gs) e = Inl err"
proof -
  have split: "any_filter (fs @ hs) e = any_filter hs (recoloured fs e)" for hs
    using assms(3,4) by (induction fs arbitrary: e) (auto simp: eval_compiled recoloured_def)
  obtain s where "recoloured fs e = e\<lparr>ev_severity := s\<rparr>" using recoloured_event by blast
  with assms(1,2) have "\<exists>err. eval_filter f (recoloured fs e) = Inl err"
    by (simp add: eval_filter_def eval_class_filter_def pattern_holds_def)
  then show ?thesis by (auto simp: judge_def split)
qed

section \<open>The filters of every run\<close>

text \<open>
  The configuration that \<^verbatim>\<open>enable_default_filters\<close> reads, with the answers of \<^verbatim>\<open>SkipPerIssues\<close> for lists of
  issues.  \<open>u\<close> gives the n-th filter its identifier.
\<close>

record filter_conf =
  skip_per_issues :: "string list \<Rightarrow> bool"
  conf_backend :: string
  conf_cloud_manager :: bool
  conf_new_repo :: bool
  conf_new_version :: bool

definition any_char :: rexp where
  "any_char = Class (\<lambda>_. True)"

definition warn_on :: "string \<Rightarrow> rexp \<Rightarrow> int option \<Rightarrow> string \<Rightarrow> sct_filter" where
  "warn_on cls r extra u = new_filter u (EventsSeverityChangerFilter (Some (cls @ ''.'')) (Some (Compiles r)) WARNING) extra"

definition ignore_db :: "string \<Rightarrow> rexp \<Rightarrow> string \<Rightarrow> sct_filter" where
  "ignore_db typ r u = new_filter u (DbEventsFilter (Some typ) (Some (Compiles r)) None) (Some 0)"

definition is_word_char :: "char \<Rightarrow> bool" where
  "is_word_char c \<longleftrightarrow> is_alnum c \<or> c = CHR ''_''"

text \<open>The parentheses of this pattern are a group, and it has no leading wildcard.\<close>

definition ldap_pattern :: rexp where
  "ldap_pattern = lit ''ldap_connection - Seastar read failed: std::system_error error system:104, read: Connection reset by peer''"

definition paren_or_colon :: rexp where
  "paren_or_colon = Or (lit '' ('') (lit '': '')"

definition raft_barrier_pattern :: rexp where
  "raft_barrier_pattern = seq [anything,
     lit ''raft_topology - topology change coordinator fiber got error std::runtime_error'', paren_or_colon,
     lit ''raft topology: exec_global_command(barrier'', opt (lit ''_and_drain''),
     lit '') failed with seastar::rpc::closed_error'', paren_or_colon, anything, lit ''connection is closed'']"

definition rpc_abort_pattern :: rexp where
  "rpc_abort_pattern = seq [opt (Then anything (Class (\<lambda>c. \<not> is_word_char c))), lit ''rpc'',
     Class (\<lambda>c. \<not> is_word_char c), anything, lit ''aborting on shard '', digits]"

definition default_filters :: "filter_conf \<Rightarrow> (string \<Rightarrow> sct_filter) list" where
  "default_filters c =
     (if skip_per_issues c [''scylladb/scylla-enterprise#1272''] then
        [warn_on ''DatabaseLogEvent.DATABASE_ERROR'' (seq [anything, lit ''workload prioritization - update_service_levels_from_distributed_data: an error occurred while retrieving configuration'']) None]
      else []) @
     (if skip_per_issues c [''scylladb/scylla-enterprise#2710''] then
        [warn_on ''DatabaseLogEvent.DATABASE_ERROR'' ldap_pattern None] else []) @
     (if startswith (conf_backend c) ''k8s'' then
        [warn_on ''DatabaseLogEvent.RUNTIME_ERROR'' (seq [anything, lit ''sidecar/controller'', any_char, lit ''go'',
           anything, lit ''std::runtime_error (Operation decommission is in progress, try again)'']) None] else []) @
     (if skip_per_issues c [''scylladb/scylladb#16206'', ''scylladb/scylladb#16259'', ''scylladb/scylladb#15598''] then
        [warn_on ''DatabaseLogEvent'' (seq [anything, lit ''view - Error applying view update'', anything]) None] else []) @
     (if skip_per_issues c [''scylladb/scylla-enterprise#3148''] then
        [warn_on ''CassandraStressLogEvent.ConsistencyError'' (seq [anything, lit ''Authentication error on host'',
           anything, lit ''Cannot achieve consistency level for cl ONE'']) None] else []) @
     (if conf_cloud_manager c \<and> skip_per_issues c [''scylladb/siren#13281''] then
        [warn_on ''DatabaseLogEvent.DATABASE_ERROR'' (seq [anything, lit ''Startup failed'', anything]) None] else []) @
     (if conf_backend c = ''gce'' then
        [warn_on ''DatabaseLogEvent'' (seq [anything, lit ''init - Startup failed:'', anything,
           lit ''Cannot assign requested address'']) None,
         warn_on ''DatabaseLogEvent'' (seq [anything, lit ''init - Could not start Prometheus API server'', anything,
           lit ''Cannot assign requested address'']) None] else []) @
     (if conf_new_repo c \<or> conf_new_version c then
        [warn_on ''DatabaseLogEvent.DATABASE_ERROR'' (seq [anything, lit ''audit - Unexpected exception when writing login'',
           anything, lit ''Cannot achieve consistency level for cl ONE'']) None] else []) @
     [warn_on ''DatabaseLogEvent'' (seq [anything, lit ''audit - Unexpected exception when writing'', anything,
        lit ''unavailable_exception'', anything]) None,
      ignore_db ''BACKTRACE'' (lit ''Rate-limit: supressed''),
      ignore_db ''BACKTRACE'' (lit ''Rate-limit: suppressed''),
      ignore_db ''WARNING'' (lit ''abort_requested_exception''),
      warn_on ''DatabaseLogEvent.ABORTING_ON_SHARD'' rpc_abort_pattern None,
      ignore_db ''RUNTIME_ERROR'' raft_barrier_pattern]"

definition enable_default_filters :: "(nat \<Rightarrow> string) \<Rightarrow> filter_conf \<Rightarrow> sct_filter list" where
  "enable_default_filters u c = map (\<lambda>i. (default_filters c ! i) (u i)) [0..<length (default_filters c)]"

definition enable_teardown_filters :: "(nat \<Rightarrow> string) \<Rightarrow> sct_filter list" where
  "enable_teardown_filters u =
     [warn_on ''CassandraStressEvent'' (seq [anything, lit ''Error response from daemon: No such container'', anything])
        (Some 60) (u 0),
      warn_on ''DatabaseLogEvent'' (seq [anything,
        lit ''raft_topology - topology change coordinator fiber got error std::runtime_error'', anything,
        lit ''connection is closed'']) (Some 60) (u 1)]"

lemma warn_on_compiled [simp]: "compiled (warn_on cls r extra u)"
  by (simp add: compiled_def warn_on_def new_filter_def)

lemma ignore_db_compiled [simp]: "compiled (ignore_db typ r u)"
  by (simp add: compiled_def ignore_db_def new_filter_def)

lemma default_filters_compiled: "\<forall>f\<in>set (enable_default_filters u c). compiled f"
proof -
  have "list_all (\<lambda>g. \<forall>u. compiled (g u)) (default_filters c)" by (simp add: default_filters_def)
  then show ?thesis by (auto simp: enable_default_filters_def list_all_length)
qed

text \<open>
  The default filter for LDAP connection resets has no effect on any event: its pattern has no leading
  wildcard, while the text of an event always starts with a parenthesis.
\<close>

lemma ldap_filter_inert: "eval_filter (warn_on cls ldap_pattern extra u) e = Inr (e, False)"
proof (rule changer_inert)
  show "kind (warn_on cls ldap_pattern extra u) =
      EventsSeverityChangerFilter (Some (cls @ ''.'')) (Some (Compiles ldap_pattern)) WARNING"
    by (simp add: warn_on_def new_filter_def)
  show "in_lang ldap_pattern s \<Longrightarrow> s \<noteq> [] \<and> hd s \<noteq> CHR ''(''" for s by (auto simp: ldap_pattern_def)
qed

end
