(* ===== verification/Continuous_Events.thy ===== *)
theory Continuous_Events
  imports Event_Device "HOL-Library.Multiset"
begin

text \<open>
  Events with a beginning and an end (\<^verbatim>\<open>sdcm/sct_events/continuous_event.py\<close>), the disruption events of the
  nemeses (\<^verbatim>\<open>nemesis.py\<close>), and the continuous events read from database logs (\<^verbatim>\<open>database.py\<close>).

  The registry of running events holds references to objects that change while they are registered, so the
  state has a heap of events and the buckets hold addresses.  \<open>hashf\<close> is Python's hash of the tuple that
  identifies an event.
\<close>

section \<open>State\<close>

record continuous_event = sct_event +
  ce_key :: "string list"
  ce_errors :: "string list"
  publish_event :: bool
  begin_timestamp :: "rat option"
  end_timestamp :: "rat option"
  is_skipped :: bool
  skip_reason :: string
  ce_duration :: "int option"
  nemesis_name :: string
  full_traceback :: string

record ce_state =
  ce_heap :: "nat \<Rightarrow> continuous_event"
  ce_buckets :: "(int \<times> nat list) list"
  ce_queue :: queue

definition new_continuous ::
  "string \<Rightarrow> severity \<Rightarrow> string \<Rightarrow> rat \<Rightarrow> bool \<Rightarrow> string list \<Rightarrow> string list \<Rightarrow> continuous_event" where
  "new_continuous cls sev eid now pub errs key =
     sct_event.extend ((new_event cls sev eid now)\<lparr>is_ready := pub\<rparr>)
       \<lparr>ce_key = cls # key, ce_errors = errs, publish_event = pub, begin_timestamp = None, end_timestamp = None,
        is_skipped = False, skip_reason = [], ce_duration = None, nemesis_name = [], full_traceback = []\<rparr>"

definition new_disruption :: "string \<Rightarrow> string \<Rightarrow> severity \<Rightarrow> bool \<Rightarrow> string \<Rightarrow> rat \<Rightarrow> continuous_event" where
  "new_disruption name nod sev pub eid now =
     (new_continuous ''DisruptionEvent'' sev eid now pub [] [eid])\<lparr>nemesis_name := name, ev_node := Some nod\<rparr>"

section \<open>The registry\<close>

definition bucket :: "(int \<times> nat list) list \<Rightarrow> int \<Rightarrow> nat list" where
  "bucket bs h = (case map_of bs h of Some b \<Rightarrow> b | None \<Rightarrow> [])"

definition continuous_hash :: "(string list \<Rightarrow> int) \<Rightarrow> ce_state \<Rightarrow> nat \<Rightarrow> int" where
  "continuous_hash hashf st r = hashf (ce_key (ce_heap st r))"

definition add_event :: "(string list \<Rightarrow> int) \<Rightarrow> nat \<Rightarrow> ce_state \<Rightarrow> ce_state" where
  "add_event hashf r st =
     (let h = continuous_hash hashf st r in
      st\<lparr>ce_buckets := AList.update h (bucket (ce_buckets st) h @ [r]) (ce_buckets st)\<rparr>)"

text \<open>Equality of events: the same object, or the same class and the same state without private attributes.\<close>

definition getstate :: "continuous_event \<Rightarrow> continuous_event" where
  "getstate e = e\<lparr>is_ready := False, ce_duration := None\<rparr>"

definition same_event :: "ce_state \<Rightarrow> nat \<Rightarrow> nat \<Rightarrow> bool" where
  "same_event st r q \<longleftrightarrow> q = r \<or> getstate (ce_heap st q) = getstate (ce_heap st r)"

fun remove_first :: "('a \<Rightarrow> bool) \<Rightarrow> 'a list \<Rightarrow> 'a list" where
  "remove_first P [] = []"
| "remove_first P (x # xs) = (if P x then xs else x # remove_first P xs)"

definition del_event :: "(string list \<Rightarrow> int) \<Rightarrow> nat \<Rightarrow> ce_state \<Rightarrow> ce_state" where
  "del_event hashf r st =
     (let h = continuous_hash hashf st r; b = bucket (ce_buckets st) h in
      if list_ex (same_event st r) b
      then st\<lparr>ce_buckets := AList.update h (remove_first (same_event st r) b) (ce_buckets st)\<rparr>
      else st)"

definition cleanup_registry :: "ce_state \<Rightarrow> ce_state" where
  "cleanup_registry st = st\<lparr>ce_buckets := []\<rparr>"

definition continuous_events :: "ce_state \<Rightarrow> nat list" where
  "continuous_events st = concat (map snd (ce_buckets st))"

definition find_continuous_events_by_hash :: "ce_state \<Rightarrow> int \<Rightarrow> nat list" where
  "find_continuous_events_by_hash st h = bucket (ce_buckets st) h"

definition find_running_disruption_events :: "ce_state \<Rightarrow> nat list" where
  "find_running_disruption_events st =
     map hd (filter (\<lambda>b. b \<noteq> [] \<and> ev_base (ce_heap st (hd b)) = ''DisruptionEvent'') (map snd (ce_buckets st)))"

definition running_nemeses :: "ce_state \<Rightarrow> subcontext" where
  "running_nemeses st =
     map (\<lambda>r. (ev_id (ce_heap st r), nemesis_name (ce_heap st r))) (find_running_disruption_events st)"

section \<open>The life of an event\<close>

definition upd_event :: "(continuous_event \<Rightarrow> continuous_event) \<Rightarrow> nat \<Rightarrow> ce_state \<Rightarrow> ce_state" where
  "upd_event g r st = st\<lparr>ce_heap := (ce_heap st)(r := g (ce_heap st r))\<rparr>"

definition ce_add_subcontext :: "nat \<Rightarrow> ce_state \<Rightarrow> ce_state" where
  "ce_add_subcontext r st =
     upd_event (\<lambda>e. e\<lparr>ev_subcontext := ev_subcontext (add_subcontext (running_nemeses st) (sct_event.truncate e))\<rparr>) r st"

definition ce_publish :: "nat \<Rightarrow> ce_state \<Rightarrow> ce_state" where
  "ce_publish r st =
     (let (e', q) = publish (sct_event.truncate (ce_heap st r)) (ce_queue st) in
      upd_event (\<lambda>e. e\<lparr>is_ready := is_ready e'\<rparr>) r (st\<lparr>ce_queue := q\<rparr>))"

definition publish_when :: "bool \<Rightarrow> nat \<Rightarrow> ce_state \<Rightarrow> ce_state" where
  "publish_when pub r st =
     (if pub \<and> publish_event (ce_heap st r) then ce_publish r (upd_event (\<lambda>e. e\<lparr>is_ready := True\<rparr>) r st) else st)"

definition begin_event :: "(string list \<Rightarrow> int) \<Rightarrow> rat \<Rightarrow> bool \<Rightarrow> nat \<Rightarrow> ce_state \<Rightarrow> ce_state" where
  "begin_event hashf now pub r st =
     (let st1 = upd_event (\<lambda>e. e\<lparr>begin_timestamp := Some now, event_timestamp := now, ev_period := Begin\<rparr>) r st;
          st2 = add_event hashf r st1;
          st3 = ce_add_subcontext r st2
      in publish_when pub r st3)"

definition end_event :: "(string list \<Rightarrow> int) \<Rightarrow> rat \<Rightarrow> bool \<Rightarrow> nat \<Rightarrow> ce_state \<Rightarrow> ce_state" where
  "end_event hashf now pub r st =
     (let st1 = upd_event (\<lambda>e. e\<lparr>end_timestamp := Some now, event_timestamp := now, ev_period := End\<rparr>) r st;
          st2 = del_event hashf r st1;
          st3 = ce_add_subcontext r (upd_event (\<lambda>e. e\<lparr>ev_subcontext := []\<rparr>) r st2)
      in publish_when pub r st3)"

definition event_error :: "rat \<Rightarrow> nat \<Rightarrow> ce_state \<Rightarrow> ce_state" where
  "event_error now r st =
     publish_when True r
       (upd_event (\<lambda>e. e\<lparr>event_timestamp := now, ev_period := Informational, ce_duration := None\<rparr>) r st)"

definition skip :: "string \<Rightarrow> nat \<Rightarrow> ce_state \<Rightarrow> ce_state" where
  "skip reason r st = upd_event (\<lambda>e. e\<lparr>is_skipped := True, skip_reason := reason\<rparr>) r st"

definition add_error :: "string list \<Rightarrow> nat \<Rightarrow> ce_state \<Rightarrow> ce_state" where
  "add_error errs r st = upd_event (\<lambda>e. e\<lparr>ce_errors := ce_errors e @ errs\<rparr>) r st"

definition add_simple_error :: "string \<Rightarrow> string \<Rightarrow> nat \<Rightarrow> ce_state \<Rightarrow> ce_state" where
  "add_simple_error err tb r st =
     upd_event (\<lambda>e. e\<lparr>full_traceback := tb, ev_severity := ERROR\<rparr>) r (add_error [err] r st)"

text \<open>\<^verbatim>\<open>__exit__\<close>: the traceback, when the body of the with statement raised an \<^verbatim>\<open>Exception\<close>.\<close>

definition note_exception :: "string \<Rightarrow> continuous_event \<Rightarrow> continuous_event" where
  "note_exception tb e =
     (if is_skipped e then e\<lparr>ev_severity := NORMAL\<rparr>
      else e\<lparr>ev_severity := (if ev_severity e \<le> ERROR then ERROR else ev_severity e), ce_errors := ce_errors e @ [tb]\<rparr>)"

definition exit_event :: "(string list \<Rightarrow> int) \<Rightarrow> rat \<Rightarrow> string option \<Rightarrow> nat \<Rightarrow> ce_state \<Rightarrow> ce_state" where
  "exit_event hashf now exc r st =
     end_event hashf now True r (case exc of Some tb \<Rightarrow> upd_event (note_exception tb) r st | None \<Rightarrow> st)"

text \<open>\<^verbatim>\<open>duration\<close>, which keeps the first value it finds.\<close>

definition duration_of :: "continuous_event \<Rightarrow> int option" where
  "duration_of e = (case ce_duration e of
     Some d \<Rightarrow> Some d
   | None \<Rightarrow> (case (begin_timestamp e, end_timestamp e) of
       (Some b, Some x) \<Rightarrow> Some (if b \<le> x then \<lfloor>x - b\<rfloor> else \<lceil>x - b\<rceil>) | _ \<Rightarrow> None))"

text \<open>\<open>delta\<close> is \<^verbatim>\<open>relativedelta(seconds=...)\<close>: days, hours, minutes and seconds.\<close>

definition duration_formatted :: "(int \<Rightarrow> int \<times> int \<times> int \<times> int) \<Rightarrow> continuous_event \<Rightarrow> string" where
  "duration_formatted delta e = (case duration_of e of
     None \<Rightarrow> []
   | Some n \<Rightarrow> (case delta n of (d, h, m, s) \<Rightarrow>
       (if d \<noteq> 0 then show_int d @ ''d'' else []) @
       (if d \<noteq> 0 \<or> h \<noteq> 0 then show_int h @ ''h'' else []) @
       (if (h \<noteq> 0 \<or> d \<noteq> 0) \<or> h = 0 \<and> 0 < m then show_int m @ ''m'' else []) @
       show_int s @ ''s''))"

datatype argus_status = FAILED | SKIPPED | SUCCEEDED

definition nemesis_status :: "continuous_event \<Rightarrow> argus_status" where
  "nemesis_status e = (if ev_severity e = ERROR then FAILED else if is_skipped e then SKIPPED else SUCCEEDED)"

section \<open>What the registry promises\<close>

text \<open>
  The contract of the registry as the events use it: between registering and removing an event, exactly the
  events registered and not yet removed are running.
\<close>

locale event_registry =
  fixes inv :: "'s \<Rightarrow> bool" and running :: "'s \<Rightarrow> nat multiset" and address :: "'a \<Rightarrow> nat"
    and enter leave :: "'a \<Rightarrow> 's \<Rightarrow> 's"
  assumes enter_inv: "inv s \<Longrightarrow> inv (enter a s)"
    and enter_running: "inv s \<Longrightarrow> running (enter a s) = add_mset (address a) (running s)"
    and leave_inv: "inv s \<Longrightarrow> inv (leave a s)"
    and leave_running: "inv s \<Longrightarrow> running (leave a s) = running s - {#address a#}"
begin

lemma steps_running:
  assumes "inv s" and "\<And>a. in_op (Inl a) = enter a" "\<And>a. in_op (Inr a) = leave a"
    and "\<And>a m. cnt (Inl a) m = add_mset (address a) m" "\<And>a m. cnt (Inr a) m = m - {#address a#}"
  shows "inv (fold in_op ops s) \<and> running (fold in_op ops s) = fold cnt ops (running s)"
  using assms(1)
proof (induction ops arbitrary: s)
  case (Cons x ops)
  then show ?case
    by (cases x) (simp_all add: assms(2-) enter_inv enter_running leave_inv leave_running)
qed simp

end

text \<open>Distinct objects have distinct identifiers, and every address is in the bucket of its hash.\<close>

definition ids_unique :: "ce_state \<Rightarrow> bool" where
  "ids_unique st \<longleftrightarrow> inj (\<lambda>r. ev_id (ce_heap st r))"

definition registry_inv :: "(string list \<Rightarrow> int) \<Rightarrow> ce_state \<Rightarrow> bool" where
  "registry_inv hashf st \<longleftrightarrow> ids_unique st \<and> distinct (map fst (ce_buckets st)) \<and>
     (\<forall>(h, b)\<in>set (ce_buckets st). \<forall>r\<in>set b. continuous_hash hashf st r = h)"

definition running_events :: "ce_state \<Rightarrow> nat multiset" where
  "running_events st = mset (continuous_events st)"

text \<open>Two states with the same buckets and the same immutable attributes of the events.\<close>

definition similar :: "ce_state \<Rightarrow> ce_state \<Rightarrow> bool" where
  "similar st st' \<longleftrightarrow> ce_buckets st' = ce_buckets st \<and>
     (\<forall>r. ev_id (ce_heap st' r) = ev_id (ce_heap st r) \<and> ce_key (ce_heap st' r) = ce_key (ce_heap st r) \<and>
          ev_base (ce_heap st' r) = ev_base (ce_heap st r) \<and> nemesis_name (ce_heap st' r) = nemesis_name (ce_heap st r))"

lemma similar_refl [simp]: "similar st st"
  by (simp add: similar_def)

lemma similar_trans: "similar a b \<Longrightarrow> similar b c \<Longrightarrow> similar a c"
  by (simp add: similar_def)

lemma similar_upd:
  "\<lbrakk>\<And>e. ev_id (g e) = ev_id e; \<And>e. ce_key (g e) = ce_key e; \<And>e. ev_base (g e) = ev_base e;
    \<And>e. nemesis_name (g e) = nemesis_name e\<rbrakk> \<Longrightarrow> similar st (upd_event g r st)"
  by (simp add: similar_def upd_event_def)

lemma similar_subcontext: "similar st (ce_add_subcontext r st)"
  unfolding ce_add_subcontext_def by (rule similar_upd) simp_all

lemma similar_publish: "similar st (publish_when pub r st)"
proof -
  have "similar st' (ce_publish r st')" for st'
    by (simp add: ce_publish_def Let_def case_prod_beta upd_event_def similar_def)
  moreover have "similar st (upd_event (\<lambda>e. e\<lparr>is_ready := True\<rparr>) r st)" by (rule similar_upd) simp_all
  ultimately show ?thesis unfolding publish_when_def by (auto intro: similar_trans)
qed

lemma similar_inv: "similar st st' \<Longrightarrow> registry_inv hashf st' = registry_inv hashf st"
  by (simp add: registry_inv_def ids_unique_def continuous_hash_def similar_def)

lemma similar_running: "similar st st' \<Longrightarrow> running_events st' = running_events st"
  by (simp add: running_events_def continuous_events_def similar_def)

text \<open>With distinct identifiers, equality of events is identity.\<close>

lemma same_event_iff: "ids_unique st \<Longrightarrow> same_event st r q \<longleftrightarrow> q = r"
proof
  assume *: "ids_unique st" "same_event st r q"
  have "ev_id (ce_heap st q) = ev_id (ce_heap st r)"
    using *(2) by (auto simp: same_event_def getstate_def dest: arg_cong[of _ _ ev_id])
  with *(1) show "q = r" by (auto simp: ids_unique_def dest: injD)
qed (simp add: same_event_def)

lemma remove_first_mset: "mset (remove_first (\<lambda>q. q = r) b) = mset b - {#r#}"
  by (induction b) auto

lemma update_bucket_mset:
  "distinct (map fst bs) \<Longrightarrow> mset (concat (map snd (AList.update h b bs))) + mset (bucket bs h) = mset b + mset (concat (map snd bs))"
proof (induction bs)
  case (Cons p bs)
  obtain k c where p: "p = (k, c)" by fastforce
  have "bucket (p # bs) h = (if h = k then c else bucket bs h)" by (simp add: bucket_def p)
  moreover have "bucket bs k = []" using Cons.prems by (simp add: bucket_def p map_of_eq_None_iff[THEN iffD2])
  ultimately show ?case using Cons by (auto simp: p ac_simps)
qed (simp add: bucket_def)

lemma set_bucket: "(h, b) \<in> set (AList.update k c bs) \<Longrightarrow> (h, b) \<in> set bs \<or> h = k \<and> b = c"
  using set_update_cases[of "(h, b)" k c bs] by simp

lemma bucket_hash: "registry_inv hashf st \<Longrightarrow> r \<in> set (bucket (ce_buckets st) h) \<Longrightarrow> continuous_hash hashf st r = h"
  by (auto simp: registry_inv_def bucket_def split: option.splits dest!: map_of_SomeD)

lemma upd_bucket_inv:
  assumes "registry_inv hashf st" "\<And>q. q \<in> set b \<Longrightarrow> continuous_hash hashf st q = h"
  shows "registry_inv hashf (st\<lparr>ce_buckets := AList.update h b (ce_buckets st)\<rparr>)"
  using assms by (auto simp: registry_inv_def ids_unique_def continuous_hash_def dest!: set_bucket)

lemma add_event_registry:
  assumes "registry_inv hashf st"
  shows "registry_inv hashf (add_event hashf r st)"
    "running_events (add_event hashf r st) = add_mset r (running_events st)"
proof -
  show "registry_inv hashf (add_event hashf r st)"
    unfolding add_event_def Let_def
    by (rule upd_bucket_inv[OF assms]) (use bucket_hash[OF assms] in auto)
  show "running_events (add_event hashf r st) = add_mset r (running_events st)"
    using update_bucket_mset[of "ce_buckets st" "continuous_hash hashf st r"
        "bucket (ce_buckets st) (continuous_hash hashf st r) @ [r]"] assms
    by (simp add: running_events_def continuous_events_def add_event_def Let_def registry_inv_def)
qed

lemma remove_first_subset: "set (remove_first P b) \<subseteq> set b"
  by (induction b) auto

lemma del_event_registry:
  assumes "registry_inv hashf st"
  shows "registry_inv hashf (del_event hashf r st)"
    "running_events (del_event hashf r st) = running_events st - {#r#}"
proof -
  have same: "same_event st r = (\<lambda>q. q = r)"
    using assms by (auto simp: registry_inv_def same_event_iff)
  define h where "h = continuous_hash hashf st r"
  define b where "b = bucket (ce_buckets st) h"
  have del: "del_event hashf r st = (if r \<in> set b
      then st\<lparr>ce_buckets := AList.update h (remove_first (\<lambda>q. q = r) b) (ce_buckets st)\<rparr> else st)"
    by (simp add: del_event_def Let_def h_def b_def same list_ex_iff)
  show "registry_inv hashf (del_event hashf r st)"
  proof -
    have "continuous_hash hashf st q = h" if "q \<in> set (remove_first (\<lambda>q. q = r) b)" for q
      using that remove_first_subset[of _ b] bucket_hash[OF assms] by (auto simp: b_def)
    from upd_bucket_inv[OF assms this] show ?thesis by (simp add: del assms)
  qed
  show "running_events (del_event hashf r st) = running_events st - {#r#}"
  proof (cases "r \<in> set b")
    case True
    have "mset (remove_first (\<lambda>q. q = r) b) = mset b - {#r#}" by (rule remove_first_mset)
    with True update_bucket_mset[of "ce_buckets st" h "remove_first (\<lambda>q. q = r) b"] assms
    have "running_events (del_event hashf r st) + mset b = mset b - {#r#} + running_events st"
      by (simp add: running_events_def continuous_events_def del b_def registry_inv_def)
    with True show ?thesis
      by (metis add.commute add_diff_cancel_left' add_mset_add_single insert_DiffM2 set_mset_mset
          union_mset_add_mset_left union_mset_add_mset_right)
  next
    case False
    have "r \<notin># running_events st"
    proof
      assume "r \<in># running_events st"
      then obtain k c where kc: "(k, c) \<in> set (ce_buckets st)" "r \<in> set c"
        by (auto simp: running_events_def continuous_events_def)
      with assms have "k = h" "map_of (ce_buckets st) k = Some c"
        by (auto simp: registry_inv_def h_def)
      with kc(2) False show False by (simp add: b_def bucket_def)
    qed
    with False show ?thesis by (simp add: del diff_single_trivial)
  qed
qed

text \<open>Beginning and ending an event register and remove it, whatever else they do.\<close>

definition begin_call :: "(string list \<Rightarrow> int) \<Rightarrow> rat \<times> bool \<times> nat \<Rightarrow> ce_state \<Rightarrow> ce_state" where
  "begin_call hashf a st = (case a of (now, pub, r) \<Rightarrow> begin_event hashf now pub r st)"

definition end_call :: "(string list \<Rightarrow> int) \<Rightarrow> rat \<times> bool \<times> nat \<Rightarrow> ce_state \<Rightarrow> ce_state" where
  "end_call hashf a st = (case a of (now, pub, r) \<Rightarrow> end_event hashf now pub r st)"

interpretation ce: event_registry "registry_inv hashf" running_events "\<lambda>a. snd (snd a)"
    "begin_call hashf" "end_call hashf"
  for hashf
proof
  fix st and a :: "rat \<times> bool \<times> nat"
  assume inv: "registry_inv hashf st"
  obtain now pub r where a: "a = (now, pub, r)" by (cases a)
  define st1 where "st1 = upd_event (\<lambda>e. e\<lparr>begin_timestamp := Some now, event_timestamp := now, ev_period := Begin\<rparr>) r st"
  have s1: "similar st st1" unfolding st1_def by (rule similar_upd) simp_all
  have s2: "similar (add_event hashf r st1) (begin_call hashf a st)"
    unfolding a begin_call_def begin_event_def Let_def st1_def
    by (auto intro: similar_trans[OF similar_subcontext similar_publish])
  show "registry_inv hashf (begin_call hashf a st)"
    "running_events (begin_call hashf a st) = add_mset (snd (snd a)) (running_events st)"
    using add_event_registry[of hashf st1 r] inv
    by (simp_all add: similar_inv[OF s1] similar_inv[OF s2[unfolded a]] similar_running[OF s1] similar_running[OF s2[unfolded a]] a)
  define st2 where "st2 = upd_event (\<lambda>e. e\<lparr>end_timestamp := Some now, event_timestamp := now, ev_period := End\<rparr>) r st"
  have s3: "similar st st2" unfolding st2_def by (rule similar_upd) simp_all
  have "similar st' (upd_event (\<lambda>e. e\<lparr>ev_subcontext := []\<rparr>) r st')" for st' by (rule similar_upd) simp_all
  then have s4: "similar (del_event hashf r st2) (end_call hashf a st)"
    unfolding a end_call_def end_event_def Let_def st2_def
    by (auto intro: similar_trans[OF similar_trans[OF _ similar_subcontext] similar_publish])
  show "registry_inv hashf (end_call hashf a st)"
    "running_events (end_call hashf a st) = running_events st - {#snd (snd a)#}"
    using del_event_registry[of hashf st2 r] inv
    by (simp_all add: similar_inv[OF s3] similar_inv[OF s4[unfolded a]] similar_running[OF s3] similar_running[OF s4[unfolded a]] a)
qed

definition ce_step :: "(string list \<Rightarrow> int) \<Rightarrow> (rat \<times> bool \<times> nat) + (rat \<times> bool \<times> nat) \<Rightarrow> ce_state \<Rightarrow> ce_state" where
  "ce_step hashf x = (case x of Inl a \<Rightarrow> begin_call hashf a | Inr a \<Rightarrow> end_call hashf a)"

definition open_count :: "(rat \<times> bool \<times> nat) + (rat \<times> bool \<times> nat) \<Rightarrow> nat multiset \<Rightarrow> nat multiset" where
  "open_count x m = (case x of Inl a \<Rightarrow> add_mset (snd (snd a)) m | Inr a \<Rightarrow> m - {#snd (snd a)#})"

lemma run_registry:
  assumes "ids_unique st" "ce_buckets st = []"
  shows "registry_inv hashf (fold (ce_step hashf) ops st) \<and>
    running_events (fold (ce_step hashf) ops st) = fold open_count ops {#}"
proof -
  have "registry_inv hashf st" "running_events st = {#}"
    using assms by (simp_all add: registry_inv_def running_events_def continuous_events_def)
  with ce.steps_running[of hashf st "ce_step hashf" open_count ops] show ?thesis
    by (simp add: ce_step_def open_count_def)
qed

text \<open>No two events share a hash.\<close>

definition hashes_apart :: "(string list \<Rightarrow> int) \<Rightarrow> ce_state \<Rightarrow> bool" where
  "hashes_apart hashf st \<longleftrightarrow> inj (\<lambda>r. continuous_hash hashf st r)"

lemma running_disruptions_exact:
  assumes "registry_inv hashf st" "hashes_apart hashf st"
  shows "set (find_running_disruption_events st) =
    {r \<in> set_mset (running_events st). ev_base (ce_heap st r) = ''DisruptionEvent''}"
proof -
  have one: "r = hd b" if "(h, b) \<in> set (ce_buckets st)" "r \<in> set b" for h b r
  proof -
    have "\<forall>q\<in>set b. continuous_hash hashf st q = h" using assms(1) that(1) by (auto simp: registry_inv_def)
    moreover have "hd b \<in> set b" using that(2) by (cases b) auto
    ultimately have "continuous_hash hashf st r = continuous_hash hashf st (hd b)" using that(2) by simp
    with assms(2) show ?thesis by (auto simp: hashes_apart_def dest: injD)
  qed
  show ?thesis
  proof (intro set_eqI iffI)
    fix r assume "r \<in> set (find_running_disruption_events st)"
    then obtain h b where "(h, b) \<in> set (ce_buckets st)" "b \<noteq> []" "hd b = r"
        "ev_base (ce_heap st (hd b)) = ''DisruptionEvent''"
      by (auto simp: find_running_disruption_events_def)
    then show "r \<in> {r \<in> set_mset (running_events st). ev_base (ce_heap st r) = ''DisruptionEvent''}"
      by (auto simp: running_events_def continuous_events_def intro!: bexI[of _ "(h, b)"])
  next
    fix r assume "r \<in> {r \<in> set_mset (running_events st). ev_base (ce_heap st r) = ''DisruptionEvent''}"
    then obtain h b where b: "(h, b) \<in> set (ce_buckets st)" "r \<in> set b" "ev_base (ce_heap st r) = ''DisruptionEvent''"
      by (auto simp: running_events_def continuous_events_def)
    with one[OF b(1,2)] have "b \<in> set (filter (\<lambda>b. b \<noteq> [] \<and> ev_base (ce_heap st (hd b)) = ''DisruptionEvent'')
        (map snd (ce_buckets st)))" "hd b = r"
      by (auto intro: rev_image_eqI)
    from imageI[OF this(1), of hd] this(2) show "r \<in> set (find_running_disruption_events st)"
      unfolding find_running_disruption_events_def by (simp only: set_map)
  qed
qed

text \<open>Identity, key, class and name of an event never change.\<close>

definition same_objects :: "ce_state \<Rightarrow> ce_state \<Rightarrow> bool" where
  "same_objects st st' \<longleftrightarrow> (\<forall>r.
     ev_id (ce_heap st' r) = ev_id (ce_heap st r) \<and> ce_key (ce_heap st' r) = ce_key (ce_heap st r) \<and>
     ev_base (ce_heap st' r) = ev_base (ce_heap st r) \<and> nemesis_name (ce_heap st' r) = nemesis_name (ce_heap st r))"

lemma similar_objects: "similar st st' \<Longrightarrow> same_objects st st'"
  by (simp add: similar_def same_objects_def)

lemma same_objects_trans: "same_objects a b \<Longrightarrow> same_objects b c \<Longrightarrow> same_objects a c"
  by (simp add: same_objects_def)

lemma registry_objects: "same_objects st (add_event hashf r st)" "same_objects st (del_event hashf r st)"
  by (simp_all add: same_objects_def add_event_def del_event_def Let_def)

lemma ce_step_objects: "same_objects st (ce_step hashf x st)"
proof -
  have upd: "same_objects st' (upd_event (\<lambda>e. e\<lparr>begin_timestamp := Some now, event_timestamp := now, ev_period := Begin\<rparr>) r st')"
    "same_objects st' (upd_event (\<lambda>e. e\<lparr>end_timestamp := Some now, event_timestamp := now, ev_period := End\<rparr>) r st')"
    "same_objects st' (upd_event (\<lambda>e. e\<lparr>ev_subcontext := []\<rparr>) r st')" for st' now r
    by (simp_all add: same_objects_def upd_event_def)
  have "same_objects st (begin_event hashf now pub r st)" for now pub r
    unfolding begin_event_def Let_def
    by (rule same_objects_trans[OF upd(1) same_objects_trans[OF registry_objects(1)
        same_objects_trans[OF similar_objects[OF similar_subcontext] similar_objects[OF similar_publish]]]])
  moreover have "same_objects st (end_event hashf now pub r st)" for now pub r
    unfolding end_event_def Let_def
    by (rule same_objects_trans[OF upd(2) same_objects_trans[OF registry_objects(2) same_objects_trans[OF upd(3)
        same_objects_trans[OF similar_objects[OF similar_subcontext] similar_objects[OF similar_publish]]]]])
  ultimately show ?thesis by (simp add: ce_step_def begin_call_def end_call_def split: sum.split prod.split)
qed

lemma ce_steps_objects: "same_objects st (fold (ce_step hashf) ops st)"
proof (induction ops arbitrary: st)
  case Nil
  then show ?case by (simp add: same_objects_def)
next
  case (Cons x ops)
  from same_objects_trans[OF ce_step_objects this[of "ce_step hashf x st"]] show ?case by simp
qed

definition empty_registry :: "ce_state \<Rightarrow> bool" where
  "empty_registry st \<longleftrightarrow> ids_unique st \<and> ce_buckets st = []"

text \<open>C8: Through every interleaving of beginnings and ends of events, the registry holds exactly the events that
  have begun more often than they have ended since, and an error that occurs at any point names exactly the
  nemeses running at that point, when no two events share a hash.\<close>

theorem errors_name_running_nemeses:
  assumes "empty_registry st" "hashes_apart hashf st" "ERROR \<le> sev" "hd (split_on CHR ''.'' cls) \<noteq> ''DisruptionEvent''"
  shows "running_events (fold (ce_step hashf) ops st) = fold open_count ops {#} \<and>
    set (ev_subcontext (new_informational (running_nemeses (fold (ce_step hashf) ops st)) cls sev eid now)) =
      {(ev_id (ce_heap st r), nemesis_name (ce_heap st r)) | r.
        r \<in># fold open_count ops {#} \<and> ev_base (ce_heap st r) = ''DisruptionEvent''}"
proof -
  define st' where "st' = fold (ce_step hashf) ops st"
  have run: "registry_inv hashf st'" "running_events st' = fold open_count ops {#}"
    using run_registry[of st hashf ops] assms(1) by (auto simp: st'_def empty_registry_def)
  have obj: "same_objects st st'" unfolding st'_def by (rule ce_steps_objects)
  then have apart: "hashes_apart hashf st'"
    using assms(2) by (simp add: hashes_apart_def continuous_hash_def same_objects_def)
  define e where "e = (new_event cls sev eid now)\<lparr>ev_period := Informational\<rparr>"
  have e: "ERROR \<le> ev_severity e" "ev_base e \<noteq> ''DisruptionEvent''" "ev_subcontext e = []"
    using assms(3,4) by (simp_all add: e_def new_event_def Let_def)
  have "set (ev_subcontext (new_informational (running_nemeses st') cls sev eid now)) = set (running_nemeses st')"
    using add_subcontext_running[OF e(1,2), of "running_nemeses st'"] e(3)
    by (simp add: new_informational_def e_def[symmetric])
  also have "\<dots> = {(ev_id (ce_heap st r), nemesis_name (ce_heap st r)) | r.
      r \<in># running_events st' \<and> ev_base (ce_heap st r) = ''DisruptionEvent''}"
    using running_disruptions_exact[OF run(1) apart] obj by (auto simp: running_nemeses_def same_objects_def)
  finally show ?thesis using run(2) by (simp add: st'_def)
qed

definition demo_ce :: ce_state where
  "demo_ce = \<lparr>ce_heap = (\<lambda>r. new_disruption ''Decommission'' ''node-1'' NORMAL True (show_nat r) 0),
     ce_buckets = [], ce_queue = []\<rparr>"

definition demo_hash :: "string list \<Rightarrow> int" where
  "demo_hash k = int (foldl (\<lambda>a c. 10 * a + (of_char c - 48)) 0 (last k))"

theorem errors_name_running_nemeses_witness:
  "set (ev_subcontext (new_informational (running_nemeses
      (fold (ce_step demo_hash) [Inl (1, True, 4), Inl (2, True, 7), Inr (3, True, 4)] demo_ce)) ''CoreDumpEvent'' ERROR ''x'' 5)) =
    {(show_nat 7, ''Decommission'')}"
proof -
  have f: "ev_id (ce_heap demo_ce r) = show_nat r" "nemesis_name (ce_heap demo_ce r) = ''Decommission''"
    "ev_base (ce_heap demo_ce r) = ''DisruptionEvent''" "continuous_hash demo_hash demo_ce r = int r" for r
    using read_show_nat[of r]
    by (simp_all add: demo_ce_def new_disruption_def new_continuous_def new_event_def sct_event.defs Let_def
        continuous_hash_def demo_hash_def)
  have "empty_registry demo_ce" "hashes_apart demo_hash demo_ce"
    by (simp_all add: empty_registry_def ids_unique_def hashes_apart_def inj_def f) (simp add: demo_ce_def)
  from errors_name_running_nemeses[OF this, of ERROR "''CoreDumpEvent''"
      "[Inl (1, True, 4), Inl (2, True, 7), Inr (3, True, 4)]" "''x''" 5]
  show ?thesis by (simp add: f open_count_def)
qed

section \<open>The end of a with statement\<close>

lemma publish_when_queue:
  "publish_event (ce_heap st r) \<Longrightarrow>
   ce_queue (publish_when True r st) = ce_queue st @ [clone (sct_event.truncate (ce_heap st r))]"
  by (simp add: publish_when_def ce_publish_def upd_event_def publish_def clone_def sct_event.defs)

text \<open>
  Leaving a continuous event publishes it once, as an end, with the severity of the failure: an exception makes
  it an error at least, unless the event was skipped.
\<close>

theorem exit_event_publishes:
  assumes "publish_event (ce_heap st r)"
  shows "\<exists>e. ce_queue (exit_event hashf now exc r st) = ce_queue st @ [e] \<and> ev_period e = End \<and>
    ev_id e = ev_id (ce_heap st r) \<and>
    ev_severity e = (case exc of None \<Rightarrow> ev_severity (ce_heap st r)
      | Some tb \<Rightarrow> if is_skipped (ce_heap st r) then NORMAL else max ERROR (ev_severity (ce_heap st r)))"
proof -
  define st0 where "st0 = (case exc of Some tb \<Rightarrow> upd_event (note_exception tb) r st | None \<Rightarrow> st)"
  define st3 where "st3 = ce_add_subcontext r (upd_event (\<lambda>e. e\<lparr>ev_subcontext := []\<rparr>) r (del_event hashf r
    (upd_event (\<lambda>e. e\<lparr>end_timestamp := Some now, event_timestamp := now, ev_period := End\<rparr>) r st0)))"
  have st3: "ce_queue st3 = ce_queue st0" "publish_event (ce_heap st3 r) = publish_event (ce_heap st0 r)"
    "ev_period (ce_heap st3 r) = End" "ev_severity (ce_heap st3 r) = ev_severity (ce_heap st0 r)"
    "ev_id (ce_heap st3 r) = ev_id (ce_heap st0 r)"
    by (simp_all add: st3_def ce_add_subcontext_def upd_event_def del_event_def Let_def)
  have st0: "ce_queue st0 = ce_queue st" "publish_event (ce_heap st0 r)" "ev_id (ce_heap st0 r) = ev_id (ce_heap st r)"
    "ev_severity (ce_heap st0 r) = (case exc of None \<Rightarrow> ev_severity (ce_heap st r)
      | Some tb \<Rightarrow> if is_skipped (ce_heap st r) then NORMAL else max ERROR (ev_severity (ce_heap st r)))"
    using assms by (auto simp: st0_def upd_event_def note_exception_def max_def not_le split: option.split)
  have "ce_queue (exit_event hashf now exc r st) = ce_queue st3 @ [clone (sct_event.truncate (ce_heap st3 r))]"
    using publish_when_queue[of st3 r] st3(2) st0(2) by (simp add: exit_event_def end_event_def Let_def st3_def st0_def)
  with st3 st0 show ?thesis by (simp add: clone_def sct_event.defs)
qed

section \<open>Continuous events in database logs\<close>

text \<open>
  \<^verbatim>\<open>_add_event\<close> and \<^verbatim>\<open>_end_event\<close> of \<^verbatim>\<open>get_pattern_to_event_to_func_mapping\<close>: a line that matches the first
  pattern of a class begins an event at a new address, a line that matches the second ends the latest running
  event of the same class, node and shard.
\<close>

definition db_key :: "string \<Rightarrow> string option \<Rightarrow> string list" where
  "db_key nod shard = [nod, show_opt shard]"

definition db_add_event ::
  "(string list \<Rightarrow> int) \<Rightarrow> rat \<Rightarrow> string \<Rightarrow> string \<Rightarrow> string option \<Rightarrow> string \<Rightarrow> nat \<Rightarrow> ce_state \<Rightarrow> ce_state" where
  "db_add_event hashf now cls nod shard eid r st =
     begin_event hashf now True r
       (upd_event (\<lambda>_. (new_continuous cls NORMAL eid now True [] (db_key nod shard))\<lparr>ev_node := Some nod\<rparr>) r st)"

definition db_end_event ::
  "(string list \<Rightarrow> int) \<Rightarrow> rat \<Rightarrow> string \<Rightarrow> string \<Rightarrow> string option \<Rightarrow> string \<Rightarrow> ce_state \<Rightarrow> ce_state" where
  "db_end_event hashf now cls nod shard eid st =
     (case find_continuous_events_by_hash st (hashf (cls # db_key nod shard)) of
        [] \<Rightarrow> st\<lparr>ce_queue := snd (publish (new_event ''TestFrameworkEvent'' DEBUG eid now) (ce_queue st))\<rparr>
      | b \<Rightarrow> end_event hashf now True (last b) st)"

definition SCYLLA_DATABASE_CONTINUOUS_EVENTS :: "(string \<times> rexp \<times> rexp) list" where
  "SCYLLA_DATABASE_CONTINUOUS_EVENTS =
     [(''ScyllaServerStatusEvent'', lit ''Starting Scylla Server'',
         Or (lit ''Stopping Scylla Server'') (lit ''Failed to start Scylla Server'')),
      (''BootstrapEvent'', lit ''Starting to bootstrap'', lit ''Bootstrap succeeded''),
      (''JMXServiceEvent'', lit ''Starting the JMX server'', lit ''Stopped Scylla JMX''),
      (''ScyllaSysconfigSetupEvent'', lit ''Move current config files before running scylla_sysconfig setup'',
         lit ''Finished running scylla_sysconfig_setup'')]"

text \<open>The patterns in order, each with its class and whether it begins an event.\<close>

definition event_mapping :: "(rexp \<times> string \<times> bool) list" where
  "event_mapping = concat (map (\<lambda>(c, b, x). [(b, c, True), (x, c, False)]) SCYLLA_DATABASE_CONTINUOUS_EVENTS)"

lemma set_bucket_update [simp]: "bucket (AList.update h b bs) k = (if k = h then b else bucket bs k)"
  by (simp add: bucket_def)

lemma begin_event_bucket:
  "bucket (ce_buckets (begin_event hashf now pub r st)) h =
     bucket (ce_buckets st) h @ (if continuous_hash hashf st r = h then [r] else [])"
proof -
  define st1 where "st1 = upd_event (\<lambda>e. e\<lparr>begin_timestamp := Some now, event_timestamp := now, ev_period := Begin\<rparr>) r st"
  have s1: "similar st st1" unfolding st1_def by (rule similar_upd) simp_all
  have "similar (add_event hashf r st1) (begin_event hashf now pub r st)"
    unfolding begin_event_def Let_def st1_def by (rule similar_trans[OF similar_subcontext similar_publish])
  with s1 show ?thesis
    by (auto simp: similar_def add_event_def Let_def continuous_hash_def)
qed

text \<open>An event that begins and ends in a log leaves the running events as they were.\<close>

theorem db_event_bracket:
  assumes "registry_inv hashf st" "\<forall>q. ev_id (ce_heap st q) \<noteq> eid" "r \<notin># running_events st"
  shows "running_events (db_end_event hashf now2 cls nod shard eid2 (db_add_event hashf now cls nod shard eid r st)) =
    running_events st"
proof -
  define e where "e = (new_continuous cls NORMAL eid now True [] (db_key nod shard))\<lparr>ev_node := Some nod\<rparr>"
  define st1 where "st1 = upd_event (\<lambda>_. e) r st"
  have e: "ev_id e = eid" "ce_key e = cls # db_key nod shard"
    by (simp_all add: e_def new_continuous_def new_event_def Let_def sct_event.defs)
  have "registry_inv hashf st1"
    using assms e(1)
    by (auto simp: registry_inv_def ids_unique_def st1_def upd_event_def continuous_hash_def inj_def
        running_events_def continuous_events_def)
  moreover have "running_events st1 = running_events st"
    by (simp add: st1_def upd_event_def running_events_def continuous_events_def)
  moreover define st2 where "st2 = db_add_event hashf now cls nod shard eid r st"
  have "st2 = begin_call hashf (now, True, r) st1" by (simp add: st2_def db_add_event_def begin_call_def st1_def e_def)
  ultimately have st2: "registry_inv hashf st2" "running_events st2 = add_mset r (running_events st)"
    by (simp_all add: ce.enter_inv ce.enter_running)
  have "continuous_hash hashf st1 r = hashf (cls # db_key nod shard)"
    by (simp add: continuous_hash_def st1_def upd_event_def e(2))
  then have "last (find_continuous_events_by_hash st2 (hashf (cls # db_key nod shard))) = r"
    "find_continuous_events_by_hash st2 (hashf (cls # db_key nod shard)) \<noteq> []"
    using begin_event_bucket[of hashf now True r st1]
    by (simp_all add: find_continuous_events_by_hash_def st2_def db_add_event_def st1_def e_def)
  then have "db_end_event hashf now2 cls nod shard eid2 st2 = end_call hashf (now2, True, r) st2"
    by (cases "find_continuous_events_by_hash st2 (hashf (cls # db_key nod shard))")
      (auto simp: db_end_event_def end_call_def)
  with st2 show ?thesis by (simp add: ce.leave_running st2_def)
qed

end
