(* ===== verification/Db_Log_Reader.thy ===== *)
theory Db_Log_Reader
  imports Continuous_Events
begin

text \<open>
  The reader of database logs, \<^verbatim>\<open>sdcm/db_log_reader.py\<close>: it follows a growing log file, makes an event of every
  line that matches a pattern, attaches backtraces to the events before them, and publishes the events or hands
  them over for decoding.

  The file is its text; \<open>json_object\<close> says whether \<^verbatim>\<open>json.loads\<close> reads a non-empty value from a line.
\<close>

section \<open>The reader\<close>

definition LOG_LINE_MAX_PROCESSING_SIZE :: nat where
  "LOG_LINE_MAX_PROCESSING_SIZE = 1024 * 5"

record log_reader =
  node_name :: string
  event_patterns :: patterns
  has_decoding_queue :: bool
  log_lines :: bool
  backtrace_stall_decoding :: bool
  disable_regex_compiled :: "rexp option"
  backtrace_decoding_disable_regex :: "rexp option"
  last_line_no :: int
  last_log_position :: nat
  skipped_end_line :: nat
  reader_build_id :: "string option"

text \<open>\<^verbatim>\<open>__init__\<close>: the compiled pattern goes to an attribute that is not the one that is read later.\<close>

definition new_reader :: "string \<Rightarrow> patterns \<Rightarrow> bool \<Rightarrow> bool \<Rightarrow> bool \<Rightarrow> rexp option \<Rightarrow> log_reader" where
  "new_reader nod pats queue lines stalls disable =
     \<lparr>node_name = nod, event_patterns = pats, has_decoding_queue = queue, log_lines = lines,
      backtrace_stall_decoding = stalls, disable_regex_compiled = None,
      backtrace_decoding_disable_regex = disable, last_line_no = -1, last_log_position = 0,
      skipped_end_line = 0, reader_build_id = None\<rparr>"

definition should_skip_decoding :: "log_reader \<Rightarrow> sct_event \<Rightarrow> bool" where
  "should_skip_decoding rd e \<longleftrightarrow>
     (\<not> backtrace_stall_decoding rd \<and> ev_type e = Some ''REACTOR_STALLED'') \<or>
     (case disable_regex_compiled rd of Some r \<Rightarrow> re_match r (or_empty (ev_type e)) | None \<Rightarrow> False)"

section \<open>Following the file\<close>

text \<open>The lines of a text, with their line feeds.\<close>

fun file_lines :: "string \<Rightarrow> string list" where
  "file_lines [] = []"
| "file_lines (c # s) =
     (if c = CHR 0x0A then [c] # file_lines s
      else case file_lines s of l # ls \<Rightarrow> (c # l) # ls | [] \<Rightarrow> [[c]])"

text \<open>
  The lines the loop processes, with their numbers, and how many unfinished lines it has skipped in a row.
\<close>

fun scan_lines :: "int \<Rightarrow> nat \<Rightarrow> string list \<Rightarrow> (int \<times> string) list \<times> nat" where
  "scan_lines n k [] = ([], k)"
| "scan_lines n k (l # ls) =
     (let line = take LOG_LINE_MAX_PROCESSING_SIZE l in
      if last line = CHR 0x0A \<or> 20 < k
      then (case scan_lines (n + 1) 0 ls of (r, k') \<Rightarrow> ((n, line) # r, k'))
      else scan_lines (n + 1) (Suc k) ls)"

definition read_new_lines :: "string \<Rightarrow> log_reader \<Rightarrow> (int \<times> string) list \<times> log_reader" where
  "read_new_lines content rd =
     (let ls = file_lines (drop (last_log_position rd) content);
          (found, k) = scan_lines (last_line_no rd + 1) (skipped_end_line rd) ls;
          index = (if ls = [] then 0 else last_line_no rd + int (length ls));
          rd1 = rd\<lparr>skipped_end_line := k\<rparr>
      in (found, if index \<noteq> 0 then rd1\<lparr>last_line_no := index, last_log_position := length content\<rparr> else rd1))"

section \<open>One line\<close>

definition lower_contains :: "string \<Rightarrow> string \<Rightarrow> bool" where
  "lower_contains p s = contains p (lower s)"

text \<open>The text after the first separator, up to the next one.\<close>

fun until_separator :: "string \<Rightarrow> string" where
  "until_separator [] = []"
| "until_separator (c # s) =
     (if startswith (lower (c # s)) ''backtrace:'' \<or> startswith (lower (c # s)) ''report: at'' then []
      else c # until_separator s)"

fun after_separator :: "string \<Rightarrow> string" where
  "after_separator [] = []"
| "after_separator (c # s) =
     (if startswith (lower (c # s)) ''backtrace:'' \<or> startswith (lower (c # s)) ''report: at''
      then until_separator (drop 9 s) else after_separator s)"

definition one_line_backtrace :: "string \<Rightarrow> string list" where
  "one_line_backtrace line =
     (if (lower_contains ''backtrace:'' line \<or> lower_contains ''report: at'' line) \<and> contains ''0x'' line
      then filter (\<lambda>w. startswith w ''0x'' \<or> contains ''scylladb/lib'' w) (split_ws (after_separator line))
      else [])"

definition is_one_line :: "string \<Rightarrow> bool" where
  "is_one_line line \<longleftrightarrow> (lower_contains ''backtrace:'' line \<or> lower_contains ''report: at'' line) \<and> contains ''0x'' line"

definition chomp :: "string \<Rightarrow> string" where
  "chomp s = (if s \<noteq> [] \<and> last s = CHR 0x0A then butlast s else s)"

text \<open>\<^verbatim>\<open>BACKTRACE_RE\<close>: a library address or a plain address at the end of the line.\<close>

definition address_end :: "string \<Rightarrow> bool" where
  "address_end s \<longleftrightarrow> startswith (lower s) ''0x'' \<and> list_all (\<lambda>c. is_hex (to_lower c)) (drop 2 s)"

fun plus_address :: "string \<Rightarrow> bool" where
  "plus_address [] = False"
| "plus_address (c # s) = (c = CHR ''+'' \<and> address_end s \<or> c \<noteq> CHR 0x0A \<and> plus_address s)"

fun backtrace_match :: "string \<Rightarrow> string option" where
  "backtrace_match [] = None"
| "backtrace_match (c # s) =
     (if startswith (lower (c # s)) ''/lib'' \<and> plus_address (drop 3 s) \<or> address_end (c # s)
      then Some (strip (c # s)) else backtrace_match s)"

text \<open>\<^verbatim>\<open>BUILD_ID_REGEX\<close>: the text between the words, as short as possible.\<close>

fun until_starting :: "string \<Rightarrow> string option" where
  "until_starting [] = None"
| "until_starting (c # s) =
     (if is_space c \<and> startswith s ''starting'' \<and> drop 8 s \<noteq> [] \<and> is_space (hd (drop 8 s)) \<and>
         startswith (drop 9 s) ''...'' then Some []
      else if c = CHR 0x0A then None else map_option (Cons c) (until_starting s))"

fun find_build_id :: "string \<Rightarrow> string option" where
  "find_build_id [] = None"
| "find_build_id (c # s) =
     (if startswith (c # s) ''build-id'' \<and> drop 7 s \<noteq> [] \<and> is_space (hd (drop 7 s)) \<and> until_starting (drop 8 s) \<noteq> None
      then until_starting (drop 8 s) else find_build_id s)"

text \<open>
  The entries found so far, in reverse: an event and the lines of its backtrace.  \<open>calls\<close> are the beginnings and
  ends of continuous events.
\<close>

type_synonym entry = "sct_event \<times> string list"

record line_state =
  entries :: "entry list"
  ls_build_id :: "string option"
  calls :: "(string \<times> bool) list"

definition set_backtrace :: "(string list \<Rightarrow> string list) \<Rightarrow> entry list \<Rightarrow> entry list" where
  "set_backtrace g es = (case es of (e, b) # r \<Rightarrow> (e, g b) # r | [] \<Rightarrow> [])"

definition continuous_call :: "string \<Rightarrow> (string \<times> bool) list" where
  "continuous_call line = (case List.find (\<lambda>(p, _). re_search p line) event_mapping of
     Some (_, c) \<Rightarrow> [c] | None \<Rightarrow> [])"

text \<open>What a line says apart from events: the build, one more address of a backtrace, a continuous event.\<close>

definition note_line :: "string \<Rightarrow> line_state \<Rightarrow> line_state" where
  "note_line line st =
     (let st1 = (case find_build_id line of Some b \<Rightarrow> st\<lparr>ls_build_id := Some b\<rparr> | None \<Rightarrow> st);
          st2 = (if is_one_line line then st1
                 else case backtrace_match (chomp line) of
                   Some b \<Rightarrow> st1\<lparr>entries := set_backtrace (\<lambda>bs. bs @ [b]) (entries st1)\<rparr> | None \<Rightarrow> st1)
      in st2\<lparr>calls := calls st2 @ continuous_call line\<rparr>)"

definition attach_one_line :: "string \<Rightarrow> line_state \<Rightarrow> line_state" where
  "attach_one_line line st =
     (if one_line_backtrace line \<noteq> []
      then st\<lparr>entries := set_backtrace (\<lambda>_. one_line_backtrace line) (entries st)\<rparr> else st)"

definition process_line ::
  "(string \<Rightarrow> bool) \<Rightarrow> (string \<Rightarrow> rat option) \<Rightarrow> subcontext \<Rightarrow> (int \<Rightarrow> rat) \<Rightarrow> log_reader \<Rightarrow> int \<times> string \<Rightarrow>
   line_state \<Rightarrow> line_state" where
  "process_line json_object parse_time running clock rd item st =
     (let n = fst item; raw = snd item; line = (if log_lines rd then strip raw else raw) in
      if hd raw = CHR ''{'' \<and> json_object raw then st
      else case find_log_event (event_patterns rd) line of
        None \<Rightarrow> attach_one_line line (note_line line st)
      | Some proto \<Rightarrow>
          if ev_severity proto = SUPPRESS then note_line line st
          else (case add_info parse_time running (clock n) (node_name rd) line n (clone proto) of
                  Inl err \<Rightarrow> note_line line st
                | Inr e \<Rightarrow>
                    let st1 = note_line line st in attach_one_line line (st1\<lparr>entries := (e, []) # entries st1\<rparr>)))"

section \<open>Attaching backtraces\<close>

definition raw_text :: "string list \<Rightarrow> string" where
  "raw_text b = join newline b"

definition set_raw :: "entry \<Rightarrow> entry" where
  "set_raw x = ((fst x)\<lparr>ev_raw_backtrace := Some (raw_text (snd x))\<rparr>, snd x)"

definition belongs_to :: "entry \<Rightarrow> entry \<Rightarrow> bool" where
  "belongs_to x prev \<longleftrightarrow>
     ev_line_number (fst x) \<le> ev_line_number (fst prev) + 20 \<and>
     ev_type (fst prev) \<noteq> Some ''BACKTRACE'' \<and> ev_type (fst x) = Some ''BACKTRACE''"

text \<open>
  One pass of \<^verbatim>\<open>filter_backtraces\<close>: a backtrace right after an event of another kind is moved to that event and
  dropped.
\<close>

fun filter_backtraces :: "entry list \<Rightarrow> entry list" where
  "filter_backtraces (p # x # xs) =
     (if belongs_to x p
      then ((fst p)\<lparr>ev_raw_backtrace := Some (raw_text (snd x))\<rparr>, snd p) # filter_backtraces xs
      else p # filter_backtraces (x # xs))"
| "filter_backtraces [p] = [p]"
| "filter_backtraces [] = []"

definition attach_backtraces :: "entry list \<Rightarrow> entry list" where
  "attach_backtraces es =
     (filter_backtraces ^^ length (filter (\<lambda>x. snd x \<noteq> []) es)) (map set_raw es)"

text \<open>An event that goes to the decoder, with the node and the build it belongs to.\<close>

type_synonym decode_request = "string \<times> string option \<times> sct_event"

definition goes_to_decoder :: "log_reader \<Rightarrow> sct_event \<Rightarrow> bool" where
  "goes_to_decoder rd e \<longleftrightarrow> has_decoding_queue rd \<and> truthy (ev_raw_backtrace e) \<and> \<not> should_skip_decoding rd e"

definition process_lines ::
  "(string \<Rightarrow> bool) \<Rightarrow> (string \<Rightarrow> rat option) \<Rightarrow> subcontext \<Rightarrow> (int \<Rightarrow> rat) \<Rightarrow> log_reader \<Rightarrow> (int \<times> string) list \<Rightarrow>
   line_state" where
  "process_lines json_object parse_time running clock rd found =
     fold (process_line json_object parse_time running clock rd) found
       \<lparr>entries = [], ls_build_id = reader_build_id rd, calls = []\<rparr>"

definition read_and_publish_events ::
  "(string \<Rightarrow> bool) \<Rightarrow> (string \<Rightarrow> rat option) \<Rightarrow> subcontext \<Rightarrow> (int \<Rightarrow> rat) \<Rightarrow> string option \<Rightarrow> log_reader \<Rightarrow>
   log_reader \<times> queue \<times> decode_request list \<times> (string \<times> bool) list" where
  "read_and_publish_events json_object parse_time running clock content rd =
     (case content of
        None \<Rightarrow> (rd, [], [], [])
      | Some text \<Rightarrow>
          let (found, rd1) = read_new_lines text rd;
              st = process_lines json_object parse_time running clock rd1 found;
              es = map fst (attach_backtraces (rev (entries st)));
              rd2 = rd1\<lparr>reader_build_id := ls_build_id st\<rparr>
          in (rd2, concat (map (\<lambda>e. snd (publish e [])) (filter (\<lambda>e. \<not> goes_to_decoder rd2 e) es)),
              map (\<lambda>e. (node_name rd2, reader_build_id rd2, e)) (filter (goes_to_decoder rd2) es), calls st))"

section \<open>Every line once\<close>

lemma file_lines_concat: "concat (file_lines s) = s"
proof (induction s)
  case (Cons c s)
  then show ?case by (cases "file_lines s") auto
qed simp

lemma file_lines_append:
  "s = [] \<or> last s = CHR 0x0A \<Longrightarrow> file_lines (s @ t) = file_lines s @ file_lines t"
proof (induction s)
  case (Cons c s)
  show ?case
  proof (cases "s = []")
    case False
    with Cons obtain l ls where "file_lines s = l # ls" by (cases s) (auto split: list.splits if_splits)
    with Cons False show ?thesis by auto
  next
    case True
    with Cons.prems show ?thesis by simp
  qed
qed simp

lemma file_lines_nonempty: "list_all (\<lambda>l. l \<noteq> []) (file_lines s)"
  by (induction s) (auto split: list.splits)

lemma file_lines_last:
  "s = [] \<or> last s = CHR 0x0A \<Longrightarrow> list_all (\<lambda>l. last l = CHR 0x0A) (file_lines s)"
proof (induction s)
  case (Cons c s)
  show ?case
  proof (cases "s = []")
    case False
    have "list_all (\<lambda>l. l \<noteq> []) (file_lines s)" by (rule file_lines_nonempty)
    moreover have "file_lines s \<noteq> []" using False by (cases s) (auto split: list.split)
    ultimately show ?thesis using Cons False by (auto split: list.split)
  next
    case True
    with Cons.prems show ?thesis by simp
  qed
qed simp

text \<open>A text of finished lines that are not too long.\<close>

definition whole_lines :: "string \<Rightarrow> bool" where
  "whole_lines s \<longleftrightarrow> (s = [] \<or> last s = CHR 0x0A) \<and>
     list_all (\<lambda>l. length l \<le> LOG_LINE_MAX_PROCESSING_SIZE) (file_lines s)"

definition numbered :: "int \<Rightarrow> string list \<Rightarrow> (int \<times> string) list" where
  "numbered n ls = map (\<lambda>i. (n + int i, ls ! i)) [0..<length ls]"

lemma numbered_Cons: "numbered n (l # ls) = (n, l) # numbered (n + 1) ls"
proof -
  have "[0..<length (l # ls)] = 0 # map Suc [0..<length ls]" by (simp add: map_Suc_upt upt_conv_Cons del: upt_Suc)
  then show ?thesis by (simp add: numbered_def comp_def ac_simps del: upt_Suc)
qed

lemma numbered_append: "numbered n (ks @ ls) = numbered n ks @ numbered (n + int (length ks)) ls"
  by (induction ks arbitrary: n) (simp_all add: numbered_Cons numbered_def[of _ "[]"] ac_simps)

lemma scan_whole:
  "list_all (\<lambda>l. last l = CHR 0x0A \<and> length l \<le> LOG_LINE_MAX_PROCESSING_SIZE) ls \<Longrightarrow>
   scan_lines n 0 ls = (numbered n ls, 0)"
  by (induction ls arbitrary: n) (simp_all add: numbered_Cons numbered_def[of _ "[]"])

text \<open>Reads of a growing file, one after the other: the lines each of them processes.\<close>

fun follow :: "string \<Rightarrow> string list \<Rightarrow> log_reader \<Rightarrow> (int \<times> string) list" where
  "follow old [] rd = []"
| "follow old (c # cs) rd =
     (case read_new_lines (old @ c) rd of (found, rd') \<Rightarrow> found @ follow (old @ c) cs rd')"

lemma read_whole:
  assumes "whole_lines c" "last_log_position rd = length old" "skipped_end_line rd = 0"
    "c = [] \<or> last_line_no rd + int (length (file_lines c)) \<noteq> 0"
  shows "read_new_lines (old @ c) rd = (numbered (last_line_no rd + 1) (file_lines c),
    rd\<lparr>last_line_no := last_line_no rd + int (length (file_lines c)), last_log_position := length (old @ c)\<rparr>)"
proof -
  have "list_all (\<lambda>l. last l = CHR 0x0A \<and> length l \<le> LOG_LINE_MAX_PROCESSING_SIZE) (file_lines c)"
    using assms(1) file_lines_last[of c] by (simp add: whole_lines_def list_all_iff)
  note scan = scan_whole[OF this, of "last_line_no rd + 1"]
  have ne: "file_lines c = [] \<longleftrightarrow> c = []" using file_lines_concat[of c] by (cases c) auto
  show ?thesis
    using assms(2-4) scan by (auto simp: read_new_lines_def Let_def ne)
qed

text \<open>C21: When the log grows by whole lines of at most 5120 characters and the first read finds at least two lines,
  the reader processes every line of the file exactly once, in order and under its number.\<close>

theorem log_lines_read_once:
  assumes "list_all whole_lines (c # cs)" "2 \<le> length (file_lines c)"
  shows "follow [] (c # cs) (new_reader nod pats queue lines stalls disable) =
    numbered 0 (file_lines (concat (c # cs)))"
proof -
  have rest: "follow old cs rd = numbered (last_line_no rd + 1) (file_lines (concat cs))"
    if "list_all whole_lines cs" "last_log_position rd = length old" "skipped_end_line rd = 0" "0 < last_line_no rd"
    for old cs rd
    using that
  proof (induction cs arbitrary: old rd)
    case (Cons c cs)
    have "c = [] \<or> last c = CHR 0x0A" using Cons.prems(1) by (simp add: whole_lines_def)
    then have "file_lines (c @ concat cs) = file_lines c @ file_lines (concat cs)" by (rule file_lines_append)
    moreover have "read_new_lines (old @ c) rd = (numbered (last_line_no rd + 1) (file_lines c),
        rd\<lparr>last_line_no := last_line_no rd + int (length (file_lines c)), last_log_position := length (old @ c)\<rparr>)"
      using Cons.prems by (intro read_whole) simp_all
    ultimately show ?case using Cons.IH[of "rd\<lparr>last_line_no := last_line_no rd + int (length (file_lines c)),
        last_log_position := length (old @ c)\<rparr>" "old @ c"] Cons.prems
      by (simp add: numbered_append ac_simps)
  qed (simp add: numbered_def)
  define rd where "rd = new_reader nod pats queue lines stalls disable"
  have rd: "last_line_no rd = -1" "last_log_position rd = 0" "skipped_end_line rd = 0"
    by (simp_all add: rd_def new_reader_def)
  have "read_new_lines ([] @ c) rd = (numbered 0 (file_lines c),
      rd\<lparr>last_line_no := int (length (file_lines c)) - 1, last_log_position := length c\<rparr>)"
    using read_whole[of c rd "[]"] assms rd by simp
  moreover have "c = [] \<or> last c = CHR 0x0A" using assms(1) by (simp add: whole_lines_def)
  then have "file_lines (c @ concat cs) = file_lines c @ file_lines (concat cs)" by (rule file_lines_append)
  ultimately show ?thesis
    using rest[of cs "rd\<lparr>last_line_no := int (length (file_lines c)) - 1, last_log_position := length c\<rparr>" c] assms rd
    by (simp add: numbered_append rd_def)
qed

theorem log_lines_read_once_witness:
  "follow [] [''a'' @ newline @ ''b'' @ newline, [], ''c'' @ newline] (new_reader ''n'' [] True True True None) =
     [(0, ''a'' @ newline), (1, ''b'' @ newline), (2, ''c'' @ newline)]"
proof -
  have "list_all whole_lines [''a'' @ newline @ ''b'' @ newline, [], ''c'' @ newline]"
    "2 \<le> length (file_lines (''a'' @ newline @ ''b'' @ newline))"
    by (simp_all add: whole_lines_def newline_def LOG_LINE_MAX_PROCESSING_SIZE_def)
  from log_lines_read_once[OF this, of "''n''" "[]" True True True None] show ?thesis
    by (simp add: newline_def numbered_def)
qed

text \<open>
  A line that is not finished when it is read is lost: the position moves past its first part, and the rest is
  read as a line of its own.
\<close>

lemma half_line_lost:
  "follow [] [''a'' @ newline @ ''b'' @ newline @ ''ERR'', ''OR x'' @ newline] (new_reader n [] True True True None) =
     [(0, ''a'' @ newline), (1, ''b'' @ newline), (3, ''OR x'' @ newline)]"
  by (simp add: newline_def new_reader_def read_new_lines_def LOG_LINE_MAX_PROCESSING_SIZE_def)

text \<open>A file with one line at the first read is read again from its start.\<close>

lemma single_line_read_twice:
  "follow [] [''a'' @ newline, ''b'' @ newline] (new_reader n [] True True True None) =
     [(0, ''a'' @ newline), (0, ''a'' @ newline), (1, ''b'' @ newline)]"
  by (simp add: newline_def new_reader_def read_new_lines_def LOG_LINE_MAX_PROCESSING_SIZE_def)

text \<open>
  The pattern that disables the decoding of backtraces has no effect: events are skipped only for being
  reactor stalls.
\<close>

lemma disable_regex_ignored:
  "should_skip_decoding (new_reader nod pats queue lines stalls (Some r)) e \<longleftrightarrow>
     \<not> stalls \<and> ev_type e = Some ''REACTOR_STALLED''"
  by (simp add: should_skip_decoding_def new_reader_def)

section \<open>No event is lost\<close>

definition is_backtrace :: "sct_event \<Rightarrow> bool" where
  "is_backtrace e \<longleftrightarrow> ev_type e = Some ''BACKTRACE''"

text \<open>An event apart from its backtrace.\<close>

definition bare :: "sct_event \<Rightarrow> sct_event" where
  "bare e = (clone e)\<lparr>ev_raw_backtrace := None\<rparr>"

definition bare_others :: "sct_event list \<Rightarrow> sct_event list" where
  "bare_others es = map bare (filter (\<lambda>e. \<not> is_backtrace e) es)"

lemma filter_backtraces_keeps: "bare_others (map fst (filter_backtraces es)) = bare_others (map fst es)"
  by (induction es rule: filter_backtraces.induct)
    (auto simp: bare_others_def bare_def clone_def is_backtrace_def belongs_to_def)

lemma filter_backtraces_ready:
  "list_all (\<lambda>x. is_ready (fst x)) es \<Longrightarrow> list_all (\<lambda>x. is_ready (fst x)) (filter_backtraces es)"
  by (induction es rule: filter_backtraces.induct) auto

lemma attach_keeps:
  "bare_others (map fst (attach_backtraces es)) = bare_others (map fst es)"
  "list_all (\<lambda>x. is_ready (fst x)) es \<Longrightarrow> list_all (\<lambda>x. is_ready (fst x)) (attach_backtraces es)"
proof -
  have pass: "bare_others (map fst ((filter_backtraces ^^ n) es)) = bare_others (map fst es)" for n es
    by (induction n) (simp_all add: filter_backtraces_keeps)
  have "bare_others (map fst (map set_raw es)) = bare_others (map fst es)"
    by (induction es) (auto simp: bare_others_def set_raw_def bare_def clone_def is_backtrace_def)
  then show "bare_others (map fst (attach_backtraces es)) = bare_others (map fst es)"
    by (simp add: attach_backtraces_def pass del: map_map)
  assume "list_all (\<lambda>x. is_ready (fst x)) es"
  then have "list_all (\<lambda>x. is_ready (fst x)) (map set_raw es)" by (simp add: list.pred_map comp_def set_raw_def)
  then have "list_all (\<lambda>x. is_ready (fst x)) ((filter_backtraces ^^ n) (map set_raw es))" for n
    by (induction n) (simp_all add: filter_backtraces_ready)
  then show "list_all (\<lambda>x. is_ready (fst x)) (attach_backtraces es)" by (simp add: attach_backtraces_def)
qed

lemma set_backtrace_ready:
  "list_all (\<lambda>x. is_ready (fst x)) (set_backtrace g es) = list_all (\<lambda>x. is_ready (fst x)) es"
  by (simp add: set_backtrace_def split: list.split)

lemma add_info_ready: "add_info parse_time running now nod line n e = Inr e' \<Longrightarrow> is_ready e'"
  by (auto simp: add_info_def log_add_info_def Let_def split: if_splits)

lemma note_line_ready:
  "list_all (\<lambda>x. is_ready (fst x)) (entries (note_line line st)) = list_all (\<lambda>x. is_ready (fst x)) (entries st)"
  by (simp add: note_line_def Let_def set_backtrace_ready split: option.split)

lemma attach_one_line_ready:
  "list_all (\<lambda>x. is_ready (fst x)) (entries (attach_one_line line st)) = list_all (\<lambda>x. is_ready (fst x)) (entries st)"
  by (simp add: attach_one_line_def set_backtrace_ready)

lemma process_line_ready:
  "list_all (\<lambda>x. is_ready (fst x)) (entries st) \<Longrightarrow>
   list_all (\<lambda>x. is_ready (fst x)) (entries (process_line j pt run clock rd item st))"
  by (auto simp: process_line_def Let_def attach_one_line_ready note_line_ready add_info_ready
      split: option.split sum.split)

lemma process_lines_ready:
  "list_all (\<lambda>x. is_ready (fst x)) (entries (process_lines j pt run clock rd found))"
proof -
  have "list_all (\<lambda>x. is_ready (fst x)) (entries st) \<Longrightarrow>
      list_all (\<lambda>x. is_ready (fst x)) (entries (fold (process_line j pt run clock rd) found st))" for st
    by (induction found arbitrary: st) (simp_all add: process_line_ready)
  then show ?thesis by (simp add: process_lines_def)
qed


end
