(* ===== verification/Event_Log.thy ===== *)
theory Event_Log
  imports Event_Base
begin

text \<open>
  The log files of the events, \<^verbatim>\<open>sdcm/sct_events/file_logger.py\<close>: writing an event to \<^verbatim>\<open>events.log\<close>, to the
  file of its severity and to the summary, and reading the files back for the report at the end of a test.  The
  main theorem is that reading gives back the messages that were written.
\<close>

section \<open>Time stamps\<close>

text \<open>
  \<^verbatim>\<open>datetime.fromtimestamp\<close> in UTC with \<^verbatim>\<open>strftime\<close>: the time is rounded to microseconds, half to even, and
  the fraction is cut to milliseconds.  The calendar is the proleptic Gregorian one; years after 9999 raise a
  ValueError, which is None.
\<close>

definition round_half_even :: "rat \<Rightarrow> int" where
  "round_half_even x =
     (let f = \<lfloor>x\<rfloor>; d = x - of_int f in
      if d < 1 / 2 then f else if 1 / 2 < d then f + 1 else if even f then f else f + 1)"

definition civil_date :: "int \<Rightarrow> int \<times> int \<times> int" where
  "civil_date days =
     (let z = days + 719468; era = z div 146097; doe = z mod 146097;
          yoe = (doe - doe div 1460 + doe div 36524 - doe div 146096) div 365;
          doy = doe - (365 * yoe + yoe div 4 - yoe div 100);
          mp = (5 * doy + 2) div 153;
          m = (if mp < 10 then mp + 3 else mp - 9)
      in (yoe + era * 400 + (if m \<le> 2 then 1 else 0), m, doy - (153 * mp + 2) div 5 + 1))"

definition digit :: "int \<Rightarrow> char" where
  "digit n = char_of (48 + nat (n mod 10))"

definition padded :: "nat \<Rightarrow> int \<Rightarrow> string" where
  "padded w n = map (\<lambda>i. digit (n div 10 ^ i)) (rev [0..<w])"

definition formatted_timestamp :: "rat \<Rightarrow> string option" where
  "formatted_timestamp t =
     (let us = round_half_even (t * 1000000); secs = us div 1000000; days = secs div 86400; s = secs mod 86400 in
      if 253402300800 \<le> secs then None
      else case civil_date days of (y, m, d) \<Rightarrow>
        Some (padded 4 y @ ''-'' @ padded 2 m @ ''-'' @ padded 2 d @ '' '' @
              padded 2 (s div 3600) @ '':'' @ padded 2 (s div 60 mod 60) @ '':'' @ padded 2 (s mod 60) @ ''.'' @
              padded 3 (us mod 1000000 div 1000)))"

text \<open>\<^verbatim>\<open>SctEvent.format_event\<close>\<close>

definition format_event :: "sct_event \<Rightarrow> string option" where
  "format_event e =
     (case formatted_timestamp (event_timestamp e) of
        None \<Rightarrow> None
      | Some t \<Rightarrow>
          (case source_timestamp e of
             Some x \<Rightarrow>
               if x = 0 then Some (t @ '': '' @ strip (str_event e))
               else map_option (\<lambda>u. t @ '' <'' @ u @ ''>: '' @ strip (str_event e)) (formatted_timestamp x)
           | None \<Rightarrow> Some (t @ '': '' @ strip (str_event e))))"

section \<open>Writing\<close>

definition logged_severities :: "severity list" where
  "logged_severities = [CRITICAL, ERROR, WARNING, NORMAL, DEBUG]"

record event_logs =
  events_log :: string
  severity_logs :: "(severity \<times> string) list"
  events_summary :: "(string \<times> nat) list"
  console :: "(nat \<times> string) list"

text \<open>The files are touched before the first event.\<close>

definition empty_logs :: event_logs where
  "empty_logs = \<lparr>events_log = [], severity_logs = map (\<lambda>s. (s, [])) logged_severities, events_summary = [], console = []\<rparr>"

definition append_log :: "severity \<Rightarrow> string \<Rightarrow> (severity \<times> string) list \<Rightarrow> (severity \<times> string) list" where
  "append_log s text logs = (case map_of logs s of Some old \<Rightarrow> AList.update s (old @ text) logs | None \<Rightarrow> logs)"

definition count_up :: "string \<Rightarrow> (string \<times> nat) list \<Rightarrow> (string \<times> nat) list" where
  "count_up k d = AList.update k (Suc (case map_of d k of Some n \<Rightarrow> n | None \<Rightarrow> 0)) d"

definition write_event :: "sct_event \<Rightarrow> event_logs \<Rightarrow> event_logs option" where
  "write_event e logs = (case format_event e of
     None \<Rightarrow> None
   | Some message \<Rightarrow>
       let text = message @ newline;
           l1 = (if ev_severity e \<noteq> DEBUG \<and> ev_severity e \<noteq> WARNING \<and> ev_class e \<noteq> ''TestResultEvent''
                 then logs\<lparr>console := console logs @ [(log_level e, message)]\<rparr> else logs);
           l2 = (if save_to_files e
                 then l1\<lparr>events_log := events_log l1 @ text,
                         severity_logs := append_log (ev_severity e) text (severity_logs l1)\<rparr>
                 else l1)
       in Some (l2\<lparr>events_summary := count_up (severity_name (ev_severity e)) (events_summary l2)\<rparr>))"

text \<open>The loop of the process: an event that cannot be written is skipped.\<close>

definition log_event :: "sct_event \<Rightarrow> event_logs \<Rightarrow> event_logs" where
  "log_event e logs = (case write_event e logs of Some l \<Rightarrow> l | None \<Rightarrow> logs)"

definition run_logger :: "(string \<times> sct_event) list \<Rightarrow> event_logs \<Rightarrow> event_logs" where
  "run_logger tuples logs = fold (\<lambda>(_, e). log_event e) tuples logs"

section \<open>Reading\<close>

definition rstrip :: "string \<Rightarrow> string" where
  "rstrip s = rev (dropWhile is_space (rev s))"

text \<open>Universal newlines: every line ending is read as a line feed.\<close>

function universal :: "string \<Rightarrow> string" where
  "universal [] = []"
| "universal (c # s) =
     (if c = CHR 0x0D
      then CHR 0x0A # universal (if s \<noteq> [] \<and> hd s = CHR 0x0A then tl s else s)
      else c # universal s)"
  by pat_completeness auto
termination by (relation "measure length") (auto simp: less_Suc_eq_le)

definition line_start_re :: rexp where
  "line_start_re = seq [rep 4 (Class is_dec_digit), lit ''-'', rep 2 (Class is_dec_digit), lit ''-'',
     rep 2 (Class is_dec_digit), lit '' '']"

definition line_start :: "string \<Rightarrow> bool" where
  "line_start l = re_match line_start_re l"

text \<open>The first \<open>limit\<close> items appended, or the last.\<close>

definition head_append :: "nat option \<Rightarrow> 'a \<Rightarrow> 'a list \<Rightarrow> 'a list" where
  "head_append limit x b = (case limit of Some n \<Rightarrow> if length b < n then b @ [x] else b | None \<Rightarrow> b @ [x])"

definition tail_append :: "nat option \<Rightarrow> 'a \<Rightarrow> 'a list \<Rightarrow> 'a list" where
  "tail_append limit x b = (case limit of
     Some n \<Rightarrow> if n < length (b @ [x]) then tl (b @ [x]) else b @ [x] | None \<Rightarrow> b @ [x])"

definition bucket_append :: "severity \<Rightarrow> nat option \<Rightarrow> 'a \<Rightarrow> 'a list \<Rightarrow> 'a list" where
  "bucket_append s limit = (if s = CRITICAL then head_append limit else tail_append limit)"

definition flush :: "(string \<Rightarrow> string list \<Rightarrow> string list) \<Rightarrow> string list \<Rightarrow> string list \<Rightarrow> string list" where
  "flush app event b = (if event \<noteq> [] then app (join newline event) b else b)"

text \<open>One line of a file: the bucket and the lines of the event being read.\<close>

definition read_line ::
  "(string \<Rightarrow> string list \<Rightarrow> string list) \<Rightarrow> string \<Rightarrow> string list \<times> string list \<Rightarrow> string list \<times> string list" where
  "read_line app line st =
     (let l = rstrip line in
      case st of (b, event) \<Rightarrow>
        if l = [] then (b, event)
        else if line_start l then (flush app event b, [l]) else (b, event @ [l]))"

definition read_log :: "(string \<Rightarrow> string list \<Rightarrow> string list) \<Rightarrow> string \<Rightarrow> string list" where
  "read_log app content =
     (case fold (read_line app) (split_on (CHR 0x0A) (universal content)) ([], []) of
        (b, event) \<Rightarrow> flush app event b)"

text \<open>A file that cannot be read is reported by a message in place of its events.\<close>

definition get_events_by_category ::
  "(severity \<Rightarrow> string) \<Rightarrow> nat option \<Rightarrow> event_logs \<Rightarrow> (string \<times> string list) list" where
  "get_events_by_category unreadable limit logs =
     map (\<lambda>s. (severity_name s, case map_of (severity_logs logs) s of
                 Some content \<Rightarrow> read_log (bucket_append s limit) content
               | None \<Rightarrow> bucket_append s limit (unreadable s) []))
       logged_severities"

section \<open>Reading gives back what was written\<close>

lemma split_on_append_all: "split_on c (s @ c # t) = split_on c s @ split_on c t"
proof (induction s)
  case (Cons x s)
  obtain w ws where "split_on c s = w # ws" by (cases "split_on c s") auto
  with Cons show ?case by (auto split: list.split)
qed simp

lemma split_on_prefix:
  "c \<notin> set p \<Longrightarrow> split_on c (p @ s) = (p @ hd (split_on c s)) # tl (split_on c s)"
proof (induction p)
  case Nil
  then show ?case by (cases "split_on c s") auto
qed auto

lemma universal_id: "CHR 0x0D \<notin> set s \<Longrightarrow> universal s = s"
  by (induction s) auto

lemma rstrip_iff: "rstrip l = l \<longleftrightarrow> l = [] \<or> \<not> is_space (last l)"
proof (cases l rule: rev_cases)
  case (snoc xs x)
  have "length (dropWhile is_space (rev xs)) \<noteq> Suc (length xs)"
    using length_dropWhile_le[of is_space "rev xs"] by simp
  then have "rev (dropWhile is_space (rev xs)) \<noteq> xs @ [x]" by (metis length_append_singleton length_rev)
  with snoc show ?thesis by (simp add: rstrip_def)
qed (simp add: rstrip_def)

text \<open>
  A text whose lines the reader keeps as they are: no line is empty or ends in white space, and no line but the
  first looks like the start of an event.
\<close>

definition tidy :: "string \<Rightarrow> bool" where
  "tidy s \<longleftrightarrow> CHR 0x0D \<notin> set s \<and> list_all (\<lambda>l. l \<noteq> [] \<and> rstrip l = l) (split_on (CHR 0x0A) s) \<and>
     list_all (\<lambda>l. \<not> line_start l) (tl (split_on (CHR 0x0A) s))"

definition readable :: "string \<Rightarrow> bool" where
  "readable m \<longleftrightarrow> tidy m \<and> line_start (hd (split_on (CHR 0x0A) m))"

lemma tidy_prefix:
  assumes "tidy s" "CHR 0x0A \<notin> set p" "CHR 0x0D \<notin> set p" "line_start p"
  shows "readable (p @ s)"
proof -
  obtain h t where ht: "split_on (CHR 0x0A) s = h # t" by (cases "split_on (CHR 0x0A) s") auto
  have "rstrip (p @ h) = p @ h" using assms(1) by (auto simp: tidy_def ht rstrip_iff)
  moreover have "line_start (p @ h)"
    using assms(4) unfolding line_start_def re_match_iff by (metis append.assoc)
  ultimately show ?thesis using assms by (auto simp: readable_def tidy_def split_on_prefix ht)
qed

lemma digit_dec: "is_dec_digit (digit n)"
proof -
  have "nat (n mod 10) < 10" by simp
  then have "(of_char (char_of (48 + nat (n mod 10)) :: char) :: nat) = 48 + nat (n mod 10)" by simp
  then show ?thesis using \<open>nat (n mod 10) < 10\<close> by (simp add: digit_def is_dec_digit_def Let_def)
qed

lemma padded_digits: "list_all is_dec_digit (padded w n)" "length (padded w n) = w"
  by (simp_all add: padded_def list.pred_map comp_def digit_dec list_all_iff)

lemma dec_digit_breaks: "is_dec_digit c \<Longrightarrow> c \<noteq> CHR 0x0A \<and> c \<noteq> CHR 0x0D"
  by (auto simp: is_dec_digit_def)

lemma padded_breaks [simp]: "CHR 0x0A \<notin> set (padded w n)" "CHR 0x0D \<notin> set (padded w n)"
  using padded_digits(1)[of w n] dec_digit_breaks by (auto simp: list_all_iff)

lemma line_start_date:
  "line_start (padded 4 y @ ''-'' @ padded 2 m @ ''-'' @ padded 2 d @ '' '' @ r)"
proof -
  have "in_lang line_start_re (padded 4 y @ ''-'' @ padded 2 m @ ''-'' @ padded 2 d @ '' '' @ [])"
    unfolding line_start_re_def
    by (intro seq_Cons_intro) (simp_all only: rep_class padded_digits lit_iff seq_Nil_iff)
  then show ?thesis unfolding line_start_def re_match_iff by (metis append.assoc append_Nil2)
qed

lemma timestamp_start:
  assumes "formatted_timestamp t = Some x"
  shows "line_start (x @ r)" "CHR 0x0A \<notin> set x" "CHR 0x0D \<notin> set x"
proof -
  obtain y m d z where x: "x = padded 4 y @ ''-'' @ padded 2 m @ ''-'' @ padded 2 d @ '' '' @ z"
      and z: "CHR 0x0A \<notin> set z" "CHR 0x0D \<notin> set z"
    using assms by (auto simp: formatted_timestamp_def Let_def split: if_splits prod.splits)
  show "line_start (x @ r)" using line_start_date[of y m d "z @ r"] by (simp add: x)
  show "CHR 0x0A \<notin> set x" "CHR 0x0D \<notin> set x" using z by (simp_all add: x)
qed

lemma format_readable:
  assumes "format_event e = Some m" "tidy (strip (str_event e))"
  shows "readable m"
proof -
  obtain t where t: "formatted_timestamp (event_timestamp e) = Some t"
    using assms(1) by (auto simp: format_event_def split: option.splits)
  note ts = timestamp_start[OF t]
  have plain: "readable (t @ '': '' @ strip (str_event e))"
    using tidy_prefix[OF assms(2), of "t @ '': ''"] ts by simp
  have sourced: "readable (t @ '' <'' @ u @ ''>: '' @ strip (str_event e))" if "formatted_timestamp x = Some u" for x u
    using tidy_prefix[OF assms(2), of "t @ '' <'' @ u @ ''>: ''"] ts timestamp_start(2,3)[OF that] by simp
  from assms(1) t plain sourced show ?thesis
    by (auto simp: format_event_def split: option.splits if_splits)
qed

lemma join_lines: "join newline (split_on (CHR 0x0A) m) = m"
  unfolding newline_def by (rule join_split_on)

lemma read_tail_lines:
  "list_all (\<lambda>l. l \<noteq> [] \<and> rstrip l = l) ls \<Longrightarrow> list_all (\<lambda>l. \<not> line_start l) ls \<Longrightarrow>
   fold (read_line app) ls (b, ev) = (b, ev @ ls)"
  by (induction ls arbitrary: ev) (simp_all add: read_line_def Let_def)

lemma read_message:
  assumes "readable m"
  shows "fold (read_line app) (split_on (CHR 0x0A) m) (b, ev) = (flush app ev b, split_on (CHR 0x0A) m)"
proof -
  obtain h t where ht: "split_on (CHR 0x0A) m = h # t" by (cases "split_on (CHR 0x0A) m") auto
  have "read_line app h (b, ev) = (flush app ev b, [h])"
    using assms by (simp add: read_line_def readable_def tidy_def ht Let_def)
  then show ?thesis using assms read_tail_lines[of t app] by (simp add: readable_def tidy_def ht)
qed

lemma read_messages:
  "list_all readable ms \<Longrightarrow>
   (case fold (read_line app) (concat (map (split_on (CHR 0x0A)) ms)) (b, ev) of (b', ev') \<Rightarrow> flush app ev' b') =
   fold app ms (flush app ev b)"
proof (induction ms arbitrary: b ev)
  case (Cons m ms)
  have "flush app (split_on (CHR 0x0A) m) c = app m c" for c by (simp add: flush_def join_lines)
  with Cons show ?case by (simp add: read_message)
qed simp

lemma split_content:
  "split_on (CHR 0x0A) (concat (map (\<lambda>m. m @ newline) ms)) = concat (map (split_on (CHR 0x0A)) ms) @ [[]]"
  by (induction ms) (simp_all add: newline_def split_on_append_all)

lemma read_log_content:
  assumes "list_all readable ms"
  shows "read_log app (concat (map (\<lambda>m. m @ newline) ms)) = fold app ms []"
proof -
  have "CHR 0x0D \<notin> set (concat (map (\<lambda>m. m @ newline) ms))"
    using assms by (induction ms) (auto simp: readable_def tidy_def newline_def)
  moreover have "read_line app [] st = st" for st by (cases st) (simp add: read_line_def rstrip_def)
  ultimately show ?thesis
    using read_messages[OF assms, of app "[]" "[]"]
    by (simp add: read_log_def universal_id split_content flush_def split: prod.splits)
qed

text \<open>The first or the last messages, as many as asked for.\<close>

definition shown :: "severity \<Rightarrow> nat option \<Rightarrow> 'a list \<Rightarrow> 'a list" where
  "shown s limit ms = (case limit of
     None \<Rightarrow> ms | Some n \<Rightarrow> if s = CRITICAL then take n ms else drop (length ms - n) ms)"

lemma fold_head: "length b \<le> n \<Longrightarrow> fold (head_append (Some n)) ms b = take n (b @ ms)"
proof (induction ms arbitrary: b)
  case (Cons m ms)
  show ?case
  proof (cases "length b < n")
    case True
    with Cons.IH[of "b @ [m]"] show ?thesis by (simp add: head_append_def)
  next
    case False
    with Cons.prems Cons.IH[of b] show ?thesis by (simp add: head_append_def)
  qed
qed simp

lemma fold_tail: "length b \<le> n \<Longrightarrow> fold (tail_append (Some n)) ms b = drop (length b + length ms - n) (b @ ms)"
proof (induction ms arbitrary: b)
  case (Cons m ms)
  show ?case
  proof (cases "n < length (b @ [m])")
    case True
    with Cons.prems have n: "length b = n" by simp
    have "fold (tail_append (Some n)) ms (tl (b @ [m])) = drop (length ms) (tl (b @ [m]) @ ms)"
      using Cons.IH[of "tl (b @ [m])"] n by simp
    also have "\<dots> = drop (Suc (length ms)) (b @ m # ms)" by (cases b) (simp_all add: drop_Suc)
    also have "tl (b @ [m]) = tail_append (Some n) m b" using True by (simp add: tail_append_def)
    finally show ?thesis using n by simp
  next
    case False
    then have "tail_append (Some n) m b = b @ [m]" by (simp add: tail_append_def)
    with False Cons.IH[of "b @ [m]"] show ?thesis by simp
  qed
qed simp

lemma fold_bucket: "fold (bucket_append s limit) ms [] = shown s limit ms"
proof (cases limit)
  case None
  have "fold (\<lambda>x b. b @ [x]) ms b = b @ ms" for b by (induction ms arbitrary: b) auto
  with None show ?thesis by (simp add: bucket_append_def shown_def head_append_def[abs_def] tail_append_def[abs_def])
next
  case (Some n)
  then show ?thesis by (simp add: bucket_append_def shown_def fold_head fold_tail)
qed

definition messages :: "severity \<Rightarrow> sct_event list \<Rightarrow> string list" where
  "messages s es = List.map_filter (\<lambda>e. if save_to_files e \<and> ev_severity e = s then format_event e else None) es"

definition logged_count :: "severity \<Rightarrow> sct_event list \<Rightarrow> nat" where
  "logged_count s es = length (filter (\<lambda>e. ev_severity e = s \<and> format_event e \<noteq> None) es)"

lemma log_event_file:
  "map_of (severity_logs (log_event e l)) s =
   map_option (\<lambda>old. old @ concat (map (\<lambda>m. m @ newline) (messages s [e]))) (map_of (severity_logs l) s)"
  by (auto simp: log_event_def write_event_def append_log_def messages_def map_filter_simps Let_def
      option.map_ident split: option.split)

lemma log_event_summary:
  "(case map_of (events_summary (log_event e l)) (severity_name s) of Some n \<Rightarrow> n | None \<Rightarrow> 0) =
   (case map_of (events_summary l) (severity_name s) of Some n \<Rightarrow> n | None \<Rightarrow> 0) + logged_count s [e]"
  by (auto simp: log_event_def write_event_def count_up_def logged_count_def Let_def split: option.split)

lemma run_logger_file:
  "map_of (severity_logs (run_logger ts l)) s =
   map_option (\<lambda>old. old @ concat (map (\<lambda>m. m @ newline) (messages s (map snd ts)))) (map_of (severity_logs l) s)"
proof (induction ts arbitrary: l)
  case (Cons t ts)
  have app: "messages s (e # es) = messages s [e] @ messages s es" for e es
    by (simp add: messages_def map_filter_simps split: option.split)
  obtain c e where t: "t = (c, e)" by fastforce
  have "run_logger (t # ts) l = run_logger ts (log_event e l)" by (simp add: run_logger_def t)
  with Cons[of "log_event e l"] show ?case
    by (simp add: t app[of e "map snd ts"] log_event_file option.map_comp comp_def)
qed (simp add: run_logger_def messages_def map_filter_simps option.map_ident)

lemma run_logger_summary:
  "(case map_of (events_summary (run_logger ts l)) (severity_name s) of Some n \<Rightarrow> n | None \<Rightarrow> 0) =
   (case map_of (events_summary l) (severity_name s) of Some n \<Rightarrow> n | None \<Rightarrow> 0) + logged_count s (map snd ts)"
proof (induction ts arbitrary: l)
  case (Cons t ts)
  obtain c e where t: "t = (c, e)" by fastforce
  have "run_logger (t # ts) l = run_logger ts (log_event e l)" by (simp add: run_logger_def t)
  with Cons[of "log_event e l"] show ?case
    by (simp add: t log_event_summary) (simp add: logged_count_def)
qed (simp add: run_logger_def logged_count_def)


definition demo_tuples :: "(string \<times> sct_event) list" where
  "demo_tuples =
     [(''CoreDumpEvent'', new_event ''CoreDumpEvent'' ERROR ''e1'' 951782400),
      (''CoreDumpEvent'', (new_event ''CoreDumpEvent'' CRITICAL ''e2'' 1700000000)\<lparr>ev_details := newline @ '' node=n1''\<rparr>),
      (''CoreDumpEvent'', new_event ''CoreDumpEvent'' ERROR ''e3'' 1700000001)]"


end
