(* ===== verification/Event_Consumers.thy ===== *)
theory Event_Consumers
  imports Event_Base
begin

text \<open>
  The processes that consume the delivered events: the analyzer that kills the test, the handler that collects
  data on schema disagreements, the counter of events, and the aggregators of the Grafana and Argus pipelines
  (\<^verbatim>\<open>events_analyzer.py\<close>, \<^verbatim>\<open>event_handler.py\<close>, \<^verbatim>\<open>handlers/schema_disagreement.py\<close>, \<^verbatim>\<open>event_counter.py\<close>,
  \<^verbatim>\<open>grafana.py\<close> and \<^verbatim>\<open>argus.py\<close> under \<^verbatim>\<open>sdcm/sct_events\<close>).
\<close>

section \<open>The analyzer\<close>

definition LOADERS_EVENTS :: "string list" where
  "LOADERS_EVENTS = [''CassandraStressEvent'', ''ScyllaBenchEvent'', ''YcsbStressEvent'', ''NdbenchStressEvent'',
     ''CDCReaderStressEvent'']"

definition is_benign_migration :: "string \<Rightarrow> sct_event \<Rightarrow> bool" where
  "is_benign_migration cls e \<longleftrightarrow>
     cls = ''GceInstanceEvent'' \<and> ev_type e = Some ''migrateOnHostMaintenance'' \<and>
     contains ''loader'' (show_opt (ev_node e))"

text \<open>Whether the analyzer was told to stop, whether the test was killed, and the reasons given to it.\<close>

record analyzer =
  an_stopped :: bool
  kill_test_has_run :: bool
  kills :: "string list"

definition kill_test :: "bool \<Rightarrow> string \<Rightarrow> analyzer \<Rightarrow> analyzer" where
  "kill_test tester reason a =
     (let a1 = a\<lparr>an_stopped := True\<rparr> in
      if tester \<and> \<not> kill_test_has_run a1
      then a1\<lparr>kill_test_has_run := True, kills := kills a1 @ [reason]\<rparr> else a1)"

definition analyze :: "bool \<Rightarrow> string \<Rightarrow> sct_event \<Rightarrow> analyzer \<Rightarrow> analyzer" where
  "analyze tester cls e a =
     (if cls = ''TestResultEvent'' \<or> ev_severity e \<noteq> CRITICAL then a
      else if is_benign_migration cls e then a
      else if cls \<in> set LOADERS_EVENTS then kill_test tester (''Stress command failed: '' @ str_event e) a
      else kill_test tester (''Got critical event: '' @ str_event e) a)"

text \<open>The events with whether a test was registered when they were handled.\<close>

fun run_analyzer :: "(bool \<times> string \<times> sct_event) list \<Rightarrow> analyzer \<Rightarrow> analyzer" where
  "run_analyzer [] a = a"
| "run_analyzer ((tester, cls, e) # es) a =
     (if an_stopped a then a else run_analyzer es (analyze tester cls e a))"

definition new_analyzer :: analyzer where
  "new_analyzer = \<lparr>an_stopped = False, kill_test_has_run = False, kills = []\<rparr>"

definition fatal :: "string \<Rightarrow> sct_event \<Rightarrow> bool" where
  "fatal cls e \<longleftrightarrow> ev_severity e = CRITICAL \<and> cls \<noteq> ''TestResultEvent'' \<and> \<not> is_benign_migration cls e"

definition kill_reason :: "string \<Rightarrow> sct_event \<Rightarrow> string" where
  "kill_reason cls e =
     (if cls \<in> set LOADERS_EVENTS then ''Stress command failed: '' else ''Got critical event: '') @ str_event e"

text \<open>
  The analyzer kills the test exactly on the first fatal event: a critical event that is neither the result of the
  test nor the live migration of a loader.  It stops there, so the test is killed at most once, and not at all if
  no test is registered at that moment, whatever comes later.
\<close>

lemma run_analyzer_first_fatal:
  "kills (run_analyzer es new_analyzer) =
     (case List.find (\<lambda>(t, cls, e). fatal cls e) es of
        Some (True, cls, e) \<Rightarrow> [kill_reason cls e] | _ \<Rightarrow> []) \<and>
   an_stopped (run_analyzer es new_analyzer) = list_ex (\<lambda>(t, cls, e). fatal cls e) es"
proof (induction es)
  case (Cons p es)
  obtain t cls e where p: "p = (t, cls, e)" by (cases p)
  have stop: "run_analyzer es a = a" if "an_stopped a" for a
    using that by (cases es) auto
  show ?case
  proof (cases "fatal cls e")
    case True
    have "an_stopped (kill_test t r new_analyzer)" for r by (simp add: kill_test_def Let_def)
    moreover have "analyze t cls e new_analyzer = kill_test t (kill_reason cls e) new_analyzer"
      using True by (auto simp: analyze_def fatal_def kill_reason_def)
    ultimately show ?thesis using True
      by (simp add: p stop new_analyzer_def kill_test_def Let_def split: bool.split)
  next
    case False
    then have "analyze t cls e new_analyzer = new_analyzer" by (auto simp: analyze_def fatal_def)
    with Cons False show ?thesis by (simp add: p new_analyzer_def)
  qed
qed (simp add: new_analyzer_def)

section \<open>The schema disagreement handler\<close>

text \<open>
  The time of the last upload, and the reports published.  A handler that is called without a test sets the time
  before it fails on the missing test; the log line announces that the event is skipped.
\<close>

record handler =
  sstables_uploaded_time :: rat
  reports :: nat

definition handle :: "rat \<Rightarrow> rat \<Rightarrow> bool \<Rightarrow> handler \<Rightarrow> handler" where
  "handle now1 now2 tester h =
     (if sstables_uploaded_time h < now1 - 3600
      then h\<lparr>sstables_uploaded_time := now2, reports := reports h + (if tester then 1 else 0)\<rparr>
      else h)"

definition full_class_name :: "string \<Rightarrow> sct_event \<Rightarrow> string" where
  "full_class_name cls e = (if truthy (ev_type e) then cls @ ''.'' @ or_empty (ev_type e) else cls)"

definition run_handler :: "rat \<Rightarrow> rat \<Rightarrow> bool \<Rightarrow> string \<Rightarrow> sct_event \<Rightarrow> handler \<Rightarrow> handler" where
  "run_handler now1 now2 tester cls e h =
     (if full_class_name cls e = ''CassandraStressLogEvent.SchemaDisagreement'' then handle now1 now2 tester h else h)"

text \<open>An event that arrives before the test is registered blocks the reports of the following hour.\<close>

lemma unregistered_blocks_hour:
  assumes "sstables_uploaded_time h < now1 - 3600" "now3 \<le> now2 + 3600"
  shows "handle now3 now4 True (handle now1 now2 False h) = h\<lparr>sstables_uploaded_time := now2\<rparr>"
  using assms by (simp add: handle_def)

section \<open>The Grafana aggregator\<close>

definition GRAFANA_TIME_WINDOW :: rat where
  "GRAFANA_TIME_WINDOW = 90"

definition GRAFANA_MAX_DUPLICATES :: nat where
  "GRAFANA_MAX_DUPLICATES = 5"

record aggregator =
  window_counters :: "(string list \<times> nat) list"
  window_end :: rat

definition seen :: "aggregator \<Rightarrow> string list \<Rightarrow> nat" where
  "seen g k = (case map_of (window_counters g) k of Some n \<Rightarrow> n | None \<Rightarrow> 0)"

definition open_window :: "rat \<Rightarrow> aggregator \<Rightarrow> aggregator" where
  "open_window now g =
     (let diff = now - window_end g in
      if 0 < diff
      then \<lparr>window_counters = [], window_end = window_end g + of_int (\<lfloor>diff / GRAFANA_TIME_WINDOW\<rfloor> + 1) * GRAFANA_TIME_WINDOW\<rparr>
      else g)"

text \<open>One annotation with the given tags: whether it is posted.\<close>

definition aggregate :: "rat \<Rightarrow> string list \<Rightarrow> aggregator \<Rightarrow> aggregator \<times> bool" where
  "aggregate now k g =
     (let g1 = open_window now g;
          g2 = g1\<lparr>window_counters := AList.update k (Suc (seen g1 k)) (window_counters g1)\<rparr>
      in (g2, seen g2 k \<le> GRAFANA_MAX_DUPLICATES))"

text \<open>The annotations in order, each with the end of the window it fell into and whether it was posted.\<close>

fun run_aggregator :: "(rat \<times> string list) list \<Rightarrow> aggregator \<Rightarrow> (rat \<times> string list \<times> bool) list" where
  "run_aggregator [] g = []"
| "run_aggregator ((now, k) # ks) g =
     (case aggregate now k g of (g', posted) \<Rightarrow> (window_end g', k, posted) # run_aggregator ks g')"

definition posted_in :: "rat \<Rightarrow> string list \<Rightarrow> (rat \<times> string list \<times> bool) list \<Rightarrow> nat" where
  "posted_in w k r = length (filter (\<lambda>x. x = (w, k, True)) r)"

definition arrived_in :: "rat \<Rightarrow> string list \<Rightarrow> (rat \<times> string list \<times> bool) list \<Rightarrow> nat" where
  "arrived_in w k r = length (filter (\<lambda>x. fst x = w \<and> fst (snd x) = k) r)"

text \<open>A window ends after the annotation that opens it, and within one window length.\<close>

lemma open_window_bounds:
  "now \<le> window_end (open_window now g)"
  "window_end g < now \<Longrightarrow> window_end (open_window now g) \<le> now + GRAFANA_TIME_WINDOW"
proof -
  define q where "q = (now - window_end g) / GRAFANA_TIME_WINDOW"
  have q: "now - window_end g = q * GRAFANA_TIME_WINDOW" by (simp add: q_def GRAFANA_TIME_WINDOW_def)
  have "of_int \<lfloor>q\<rfloor> \<le> q" "q < of_int \<lfloor>q\<rfloor> + 1" by linarith+
  then have f: "of_int \<lfloor>q\<rfloor> * 90 \<le> now - window_end g" "now - window_end g < of_int \<lfloor>q\<rfloor> * 90 + 90"
    unfolding q GRAFANA_TIME_WINDOW_def by linarith+
  then show "now \<le> window_end (open_window now g)"
    "window_end g < now \<Longrightarrow> window_end (open_window now g) \<le> now + GRAFANA_TIME_WINDOW"
    by (auto simp: open_window_def Let_def q_def GRAFANA_TIME_WINDOW_def algebra_simps)
qed

lemma open_window_grows: "window_end g \<le> window_end (open_window now g)"
  using open_window_bounds(1)[of now g] by (auto simp: open_window_def Let_def)

lemma open_window_new: "window_end (open_window now g) = window_end g \<Longrightarrow> open_window now g = g"
  using open_window_bounds(1)[of now g] by (auto simp: open_window_def Let_def split: if_splits)

lemma aggregate_state:
  assumes "aggregate now k g = (g', b)"
  shows "window_end g' = window_end (open_window now g)"
    "seen g' j = (if window_end g' = window_end g then seen g j else 0) + (if j = k then 1 else 0)"
    "b \<longleftrightarrow> seen g' k \<le> GRAFANA_MAX_DUPLICATES"
proof -
  have "seen (open_window now g) j = (if window_end (open_window now g) = window_end g then seen g j else 0)" for j
  proof (cases "window_end g < now")
    case True
    then have "window_end (open_window now g) \<noteq> window_end g" using open_window_bounds(1)[of now g] by simp
    moreover have "window_counters (open_window now g) = []" using True by (simp add: open_window_def Let_def)
    ultimately show ?thesis by (simp add: seen_def)
  qed (simp add: open_window_def)
  with assms show "window_end g' = window_end (open_window now g)"
    "seen g' j = (if window_end g' = window_end g then seen g j else 0) + (if j = k then 1 else 0)"
    "b \<longleftrightarrow> seen g' k \<le> GRAFANA_MAX_DUPLICATES"
    by (auto simp: aggregate_def Let_def seen_def)
qed

lemma no_earlier_window: "w < window_end g \<Longrightarrow> arrived_in w k (run_aggregator ks g) = 0 \<and> posted_in w k (run_aggregator ks g) = 0"
proof (induction ks arbitrary: g)
  case (Cons p ks)
  obtain now j where p: "p = (now, j)" by fastforce
  obtain g' b where a: "aggregate now j g = (g', b)" by fastforce
  have "w < window_end g'"
    using Cons.prems aggregate_state(1)[OF a] open_window_grows[of g now] by simp
  with Cons.IH[of g'] show ?case by (auto simp: p a arrived_in_def posted_in_def)
qed (simp add: arrived_in_def posted_in_def)

lemma window_counts:
  "posted_in w k (run_aggregator ks g) + min GRAFANA_MAX_DUPLICATES (if w = window_end g then seen g k else 0) =
   min GRAFANA_MAX_DUPLICATES (arrived_in w k (run_aggregator ks g) + (if w = window_end g then seen g k else 0))"
proof (induction ks arbitrary: g)
  case (Cons p ks)
  obtain now j where p: "p = (now, j)" by fastforce
  obtain g' b where a: "aggregate now j g = (g', b)" by fastforce
  note st = aggregate_state[OF a]
  have grows: "window_end g \<le> window_end g'" using st(1) open_window_grows[of g now] by simp
  have step: "posted_in w k (run_aggregator (p # ks) g) =
      posted_in w k (run_aggregator ks g') + (if w = window_end g' \<and> k = j \<and> b then 1 else 0)"
    "arrived_in w k (run_aggregator (p # ks) g) =
      arrived_in w k (run_aggregator ks g') + (if w = window_end g' \<and> k = j then 1 else 0)"
    by (auto simp: p a posted_in_def arrived_in_def)
  show ?case
  proof (cases "w = window_end g \<and> w \<noteq> window_end g'")
    case True
    with grows no_earlier_window[of w g' k ks] show ?thesis unfolding step by auto
  next
    case False
    with Cons.IH[of g'] st(2)[of k] st(2)[of j] st(3) show ?thesis unfolding step
      by (auto simp: min_def split: if_splits)
  qed
qed (simp add: posted_in_def arrived_in_def)


section \<open>The Argus aggregator\<close>

definition ARGUS_TIME_WINDOW :: rat where
  "ARGUS_TIME_WINDOW = 90"

text \<open>The key of an event: run, severity, class and aggregation id.\<close>

type_synonym argus_key = "string option \<times> string \<times> string \<times> string"

type_synonym argus_seen = "(argus_key \<times> rat) list"

definition argus_aggregate :: "rat \<Rightarrow> rat \<Rightarrow> argus_key \<Rightarrow> argus_seen \<Rightarrow> argus_seen \<times> bool" where
  "argus_aggregate now1 now2 k d =
     (if ARGUS_TIME_WINDOW < now1 - (case map_of d k of Some t \<Rightarrow> t | None \<Rightarrow> 0)
      then (AList.update k now2 d, True) else (d, False))"

fun run_argus :: "(rat \<times> rat \<times> argus_key) list \<Rightarrow> argus_seen \<Rightarrow> (rat \<times> argus_key \<times> bool) list" where
  "run_argus [] d = []"
| "run_argus ((now1, now2, k) # es) d =
     (case argus_aggregate now1 now2 k d of (d', posted) \<Rightarrow> (now1, k, posted) # run_argus es d')"

text \<open>
  The counter of a key that was not seen yet is taken to be 0, and the clock counts from an arbitrary moment: the
  first event of a key is dropped while the clock shows no more than the window length.
\<close>

lemma argus_first_event_dropped: "now1 \<le> 90 \<Longrightarrow> map_of d k = None \<Longrightarrow> argus_aggregate now1 now2 k d = (d, False)"
  by (simp add: argus_aggregate_def ARGUS_TIME_WINDOW_def)

lemma argus_first_event_posted: "90 < now1 \<Longrightarrow> map_of d k = None \<Longrightarrow> snd (argus_aggregate now1 now2 k d)"
  by (simp add: argus_aggregate_def ARGUS_TIME_WINDOW_def)

lemma argus_spacing:
  assumes "map_of d k = Some t" "snd (argus_aggregate now1 now2 k d)"
  shows "t + 90 < now1"
  using assms by (auto simp: argus_aggregate_def ARGUS_TIME_WINDOW_def split: if_splits)

section \<open>The event counter\<close>

definition STALL_INTERVALS :: "nat list" where
  "STALL_INTERVALS = [10, 20, 30, 50, 100, 200, 1000, 2000]"

definition get_interval :: "nat \<Rightarrow> nat" where
  "get_interval ms = (if ms = 0 then 0 else case List.find (\<lambda>b. ms < b) STALL_INTERVALS of Some b \<Rightarrow> b | None \<Rightarrow> ms)"

text \<open>\<^verbatim>\<open>REACTOR_MS_REGEX.search\<close>: the number in the first match.\<close>

definition stall_here :: "string \<Rightarrow> nat option" where
  "stall_here s =
     (let r = drop 19 s; ds = takeWhile is_dec_digit (tl r); q = dropWhile is_dec_digit (tl r) in
      if startswith s ''Reactor stalled for'' \<and> r \<noteq> [] \<and> is_space (hd r) \<and> ds \<noteq> [] \<and>
         q \<noteq> [] \<and> is_space (hd q) \<and> startswith (tl q) ''ms''
      then Some (foldl (\<lambda>a d. 10 * a + (of_char d - 48)) 0 ds) else None)"

fun stall_ms :: "string \<Rightarrow> nat option" where
  "stall_ms [] = None"
| "stall_ms (c # s) = (case stall_here (c # s) of Some n \<Rightarrow> Some n | None \<Rightarrow> stall_ms s)"

text \<open>The counter of a class, and for reactor stalls the number of stalls in every interval.\<close>

type_synonym event_stat = "nat \<times> (nat \<times> nat) list"

record counter_data =
  event_types :: "string list"
  stats :: "(string \<times> event_stat) list"

type_synonym counters = "(string \<times> counter_data) list"

definition stalled_class :: string where
  "stalled_class = ''DatabaseLogEvent.REACTOR_STALLED''"

definition bump :: "nat \<Rightarrow> (nat \<times> nat) list \<Rightarrow> (nat \<times> nat) list" where
  "bump i h = AList.update i (Suc (case map_of h i of Some n \<Rightarrow> n | None \<Rightarrow> 0)) h"

text \<open>\<^verbatim>\<open>update_stat\<close> of the handler of a class; None when the event has no node or no line to read.\<close>

definition update_stat :: "sct_event \<Rightarrow> event_stat \<Rightarrow> event_stat option" where
  "update_stat e st =
     (if ev_class e \<noteq> stalled_class then Some (Suc (fst st), snd st)
      else case (ev_node e, ev_line e) of
        (Some _, Some l) \<Rightarrow>
          Some (Suc (fst st), bump (get_interval (case stall_ms l of Some m \<Rightarrow> m | None \<Rightarrow> 0)) (snd st))
      | _ \<Rightarrow> None)"

definition stat_of :: "counter_data \<Rightarrow> string \<Rightarrow> event_stat" where
  "stat_of d c = (case map_of (stats d) c of Some s \<Rightarrow> s | None \<Rightarrow> (0, []))"

text \<open>One event for all the counters; a failure leaves the remaining counters alone.\<close>

fun count_event :: "sct_event \<Rightarrow> counters \<Rightarrow> counters" where
  "count_event e [] = []"
| "count_event e ((cid, d) # cs) =
     (if ev_class e \<in> set (event_types d)
      then (case update_stat e (stat_of d (ev_class e)) of
              Some st \<Rightarrow> (cid, d\<lparr>stats := AList.update (ev_class e) st (stats d)\<rparr>) # count_event e cs
            | None \<Rightarrow> (cid, d\<lparr>stats := AList.update (ev_class e) (stat_of d (ev_class e)) (stats d)\<rparr>) # cs)
      else (cid, d) # count_event e cs)"

definition run_counter :: "(string \<times> sct_event) list \<Rightarrow> counters \<Rightarrow> counters" where
  "run_counter tuples cs = fold (\<lambda>(_, e) cs. if cs = [] then cs else count_event e cs) tuples cs"

definition add_counter :: "string \<Rightarrow> counter_data \<Rightarrow> counters \<Rightarrow> counters" where
  "add_counter cid d cs = AList.update cid d cs"

definition get_counter :: "string \<Rightarrow> counters \<Rightarrow> counter_data option" where
  "get_counter cid cs = map_of cs cid"

definition remove_counter :: "string \<Rightarrow> counters \<Rightarrow> counters" where
  "remove_counter cid cs = AList.delete cid cs"

text \<open>\<^verbatim>\<open>EventCounterContextManager\<close>\<close>

definition start_event_counter :: "string \<Rightarrow> string list \<Rightarrow> counters \<Rightarrow> counters" where
  "start_event_counter cid types cs = add_counter cid \<lparr>event_types = types, stats = []\<rparr> cs"

definition stop_event_counter ::
  "string \<Rightarrow> counters \<times> (string \<times> event_stat) list \<Rightarrow> counters \<times> (string \<times> event_stat) list" where
  "stop_event_counter cid st =
     (case get_counter cid (fst st) of
        Some d \<Rightarrow> (remove_counter cid (fst st), stats d) | None \<Rightarrow> st)"

definition get_stats :: "string \<Rightarrow> counters \<Rightarrow> (string \<times> event_stat) list \<Rightarrow> (string \<times> event_stat) list" where
  "get_stats cid cs old = (case get_counter cid cs of Some d \<Rightarrow> stats d | None \<Rightarrow> old)"

definition countable_event :: "sct_event \<Rightarrow> bool" where
  "countable_event e \<longleftrightarrow> ev_class e = stalled_class \<longrightarrow> ev_node e \<noteq> None \<and> ev_line e \<noteq> None"

definition counted :: "sct_event \<Rightarrow> counter_data \<Rightarrow> counter_data" where
  "counted e d = (if ev_class e \<in> set (event_types d)
     then d\<lparr>stats := AList.update (ev_class e) (the (update_stat e (stat_of d (ev_class e)))) (stats d)\<rparr> else d)"

lemma update_stat_countable: "countable_event e \<Longrightarrow> \<exists>st'. update_stat e st = Some st'"
  by (auto simp: countable_event_def update_stat_def)

lemma count_event_map: "countable_event e \<Longrightarrow> count_event e cs = map (\<lambda>(cid, d). (cid, counted e d)) cs"
proof (induction cs)
  case (Cons p cs)
  obtain cid d where "p = (cid, d)" by fastforce
  moreover obtain st' where "update_stat e (stat_of d (ev_class e)) = Some st'"
    using update_stat_countable Cons.prems by blast
  ultimately show ?case using Cons by (simp add: counted_def)
qed simp

lemma run_counter_map:
  "list_all (\<lambda>(_, e). countable_event e) ts \<Longrightarrow>
   map_of (run_counter ts cs) cid = map_option (fold (\<lambda>(_, e). counted e) ts) (map_of cs cid)"
proof (induction ts arbitrary: cs)
  case Nil
  then show ?case by (simp add: run_counter_def option.map_ident)
next
  case (Cons t ts)
  obtain c e where t: "t = (c, e)" by fastforce
  define cs' where "cs' = map (\<lambda>(cid, d). (cid, counted e d)) cs"
  have "run_counter (t # ts) cs = run_counter ts cs'"
    using Cons.prems by (simp add: run_counter_def t cs'_def count_event_map)
  moreover have "map_of cs' cid = map_option (counted e) (map_of cs cid)"
    unfolding cs'_def by (simp add: map_of_map)
  ultimately show ?case using Cons by (simp add: t option.map_comp comp_def)
qed

lemma bump_sum: "distinct (map fst h) \<Longrightarrow> sum_list (map snd (bump i h)) = Suc (sum_list (map snd h))"
proof -
  assume d: "distinct (map fst h)"
  have "sum_list (map snd (AList.update i m h)) + (case map_of h i of Some n \<Rightarrow> n | None \<Rightarrow> 0) =
      m + sum_list (map snd h)" for m
    using d by (induction h) (auto simp: map_of_eq_None_iff[THEN iffD2] split: option.split)
  from this[of "Suc (case map_of h i of Some n \<Rightarrow> n | None \<Rightarrow> 0)"] show ?thesis by (simp add: bump_def)
qed

text \<open>The counter of a class counts its events, and its histogram adds up to the counter.\<close>

definition counts :: "sct_event list \<Rightarrow> counter_data \<Rightarrow> bool" where
  "counts es d \<longleftrightarrow> (\<forall>c. fst (stat_of d c) =
       (if c \<in> set (event_types d) then length (filter (\<lambda>e. ev_class e = c) es) else 0)) \<and>
     distinct (map fst (snd (stat_of d stalled_class))) \<and>
     sum_list (map snd (snd (stat_of d stalled_class))) = fst (stat_of d stalled_class)"

lemma counted_counts:
  assumes "counts es d" "countable_event e"
  shows "counts (es @ [e]) (counted e d)"
proof (cases "ev_class e \<in> set (event_types d)")
  case True
  have st: "stat_of (counted e d) c = (if c = ev_class e then the (update_stat e (stat_of d c)) else stat_of d c)" for c
    using True by (simp add: counted_def stat_of_def)
  have types: "event_types (counted e d) = event_types d" by (simp add: counted_def)
  have fst: "fst (the (update_stat e s)) = Suc (fst s)" for s
    using assms(2) by (auto simp: update_stat_def countable_event_def)
  have hist: "\<exists>i. snd (the (update_stat e s)) = bump i (snd s)" if "ev_class e = stalled_class" for s
    using assms(2) that by (auto simp: update_stat_def countable_event_def)
  have "distinct (map fst (bump i h))" if "distinct (map fst h)" for i h
    using that by (simp add: bump_def)
  with assms(1) True show ?thesis
    using hist[of "stat_of d stalled_class"] by (auto simp: counts_def st types fst bump_sum)
next
  case False
  with assms show ?thesis by (auto simp: counts_def counted_def)
qed

text \<open>C35: Between its start and its stop a counter counts every delivered event of its classes exactly once,
  whatever other counters run, and the intervals of the reactor stalls add up to their number.\<close>

theorem event_counter_exact:
  assumes "list_all (\<lambda>(_, e). countable_event e) tuples"
  shows "\<exists>d. get_counter cid (run_counter tuples (start_event_counter cid types cs)) = Some d \<and>
    event_types d = types \<and> counts (map snd tuples) d"
proof -
  define d0 where "d0 = \<lparr>event_types = types, stats = []\<rparr>"
  have "counts (map snd (us @ ts)) (fold (\<lambda>(_, e). counted e) ts d) \<and>
      event_types (fold (\<lambda>(_, e). counted e) ts d) = event_types d"
    if "counts (map snd us) d" "list_all (\<lambda>(_, e). countable_event e) ts" for us ts d
    using that
  proof (induction ts arbitrary: us d)
    case (Cons t ts)
    obtain c e where t: "t = (c, e)" by fastforce
    have "counts (map snd (us @ [t])) (counted e d)" using counted_counts[of "map snd us" d e] Cons.prems by (simp add: t)
    from Cons.IH[OF this] Cons.prems show ?case by (simp add: t counted_def)
  qed simp
  from this[of "[]" d0 tuples] assms
  have "counts (map snd tuples) (fold (\<lambda>(_, e). counted e) tuples d0)"
    "event_types (fold (\<lambda>(_, e). counted e) tuples d0) = types"
    by (auto simp: counts_def d0_def stat_of_def)
  then show ?thesis
    using run_counter_map[OF assms, of "start_event_counter cid types cs" cid]
    by (simp add: get_counter_def start_event_counter_def add_counter_def d0_def)
qed

definition demo_stall :: "string \<Rightarrow> sct_event" where
  "demo_stall l = (new_event stalled_class DEBUG ''s'' 1)\<lparr>ev_node := Some ''n1'', ev_line := Some l\<rparr>"

theorem event_counter_exact_witness:
  "\<exists>d. get_counter ''c''
     (run_counter [(''DatabaseLogEvent'', demo_stall ''Reactor stalled for 33 ms''),
        (''DatabaseLogEvent'', demo_stall ''Reactor stalled for 2500 ms'')]
       (start_event_counter ''c'' [stalled_class] [])) = Some d \<and> fst (stat_of d stalled_class) = 2"
proof -
  let ?ts = "[(''DatabaseLogEvent'', demo_stall ''Reactor stalled for 33 ms''),
    (''DatabaseLogEvent'', demo_stall ''Reactor stalled for 2500 ms'')]"
  have "list_all (\<lambda>(_, e). countable_event e) ?ts" by (simp add: countable_event_def demo_stall_def)
  from event_counter_exact[OF this, of "''c''" "[stalled_class]" "[]"] obtain d where
    "get_counter ''c'' (run_counter ?ts (start_event_counter ''c'' [stalled_class] [])) = Some d"
    "event_types d = [stalled_class]" "counts (map snd ?ts) d" by blast
  moreover from this(2,3) have "fst (stat_of d stalled_class) = 2"
    by (simp add: counts_def demo_stall_def new_event_def Let_def)
  ultimately show ?thesis by blast
qed

end
