(* ===== verification/Spec2Isabelle.thy ===== *)
theory Spec2Isabelle
  imports Node_Allocator Replication Gce_Fallback Aws_Dc_Fallback Trigger_Matrix Trigger_Config Nemesis_Runner
    Db_Log_Reader Event_Log Event_Consumers
begin

text \<open>
  A verification library for the decision logic of scylla-cluster-tests (SCT), the framework that
  provisions ScyllaDB clusters, runs workloads and disruptions (nemeses) against them and triggers
  the test jobs of a release.

  \<^bold>\<open>The program and its parts.\<close>  A matrix of jobs is loaded, the Scylla version of every job is resolved
  to published images, and the jobs are triggered in Jenkins and awaited
  (\<^verbatim>\<open>sdcm/utils/trigger_matrix\<close>).  A job provisions its cluster: zones that offer the instance types are
  resolved, ranked by spot scores, and on capacity errors the cluster moves to other zones and regions
  (\<^verbatim>\<open>sdcm/provision\<close>).  During the test, runner threads pick nemeses from a registry by a selector,
  reserve a target node in a shared allocator and execute the disruption (\<^verbatim>\<open>sdcm/nemesis\<close>); some change the
  replication of keyspaces for the time of an operation (\<^verbatim>\<open>sdcm/utils/replication_strategy_utils.py\<close>).
  Whatever happens is published as events (\<^verbatim>\<open>sdcm/sct_events\<close>), many of them read from database logs
  (\<^verbatim>\<open>sdcm/db_log_reader.py\<close>); filters suppress or tone down the expected ones, and the rest is logged, counted,
  reported, and ends the test when it is critical.

  \<^bold>\<open>Conventions.\<close>  Source functions are HOL functions of the same name (a leading underscore dropped).
  An object is a record passed and returned; an exception is \<^const>\<open>Inl\<close> and carries what handlers inspect;
  a \<^verbatim>\<open>dict\<close> is an association list in insertion order, text a list of characters, a float a rational.
  Cloud services, Jenkins, the clock and random draws are arguments; a set the source iterates over is given
  with the order of that iteration.  Log messages are left out.

  \<^bold>\<open>Shared theories.\<close>  \<open>Sct_Prelude\<close>: association lists, splitting and joining of text, ordered sets as lists.
  \<open>Sct_Params\<close>: configuration values, their Python truth, and the gates of
  \<^verbatim>\<open>sdcm/provision/common/fallback.py\<close>.

  \<^bold>\<open>Nemesis.\<close>
  \<^item> \<open>Node_Allocator\<close> (\<^verbatim>\<open>nemesis/utils/node_allocator.py\<close>): the table of reservations under its lock, every
    operation as a step of a transition relation.  The invariant ties the table to the \<^verbatim>\<open>running_nemesis\<close>
    attribute of the nodes; reservations are exclusive under every interleaving, selection is exact, and the
    context managers reserve and release in pairs.
  \<^item> \<open>Bool_Phrase\<close>, \<open>Nemesis_Selector\<close> (\<^verbatim>\<open>utils/ast_utils.py\<close>, \<^verbatim>\<open>nemesis/registry.py\<close>): the parser and evaluator of
    selector phrases and the walk over the class hierarchy; a selector picks exactly the classes it
    describes.  The parser's fuel is six per token, which \<open>phrase_roundtrip\<close> shows to be enough.
  \<^item> \<open>Nemesis_Runner\<close> (\<^verbatim>\<open>nemesis/__init__.py\<close>, \<^verbatim>\<open>nemesis/monkey/runners.py\<close>): building, prechecking and cycling
    through the list of nemeses, and one execution with all its handlers.  An execution never leaves a node
    reserved; a bounded run ends and respects the cyclic order; the statistics are an abstraction of the
    operation log.

  \<^bold>\<open>Replication and retrying.\<close>
  \<^item> \<open>Replication\<close> (\<^verbatim>\<open>utils/replication_strategy_utils.py\<close>): parsing and printing of strategies, and the setters
    that change them temporarily; what they changed is restored on every path.
  \<^item> \<open>Retrying\<close> (\<^verbatim>\<open>utils/decorators.py\<close>, \<^verbatim>\<open>wait.py\<close>): the retry decorator and the polling loops.  Loops without a
    bound are \<^verbatim>\<open>partial_function\<close>s whose termination is proved from a clock that advances.

  \<^bold>\<open>Provisioning.\<close>
  \<^item> \<open>Spot_Score\<close>, \<open>Az_Resolver\<close> (\<^verbatim>\<open>provision/aws/spot_placement_score.py\<close>, \<^verbatim>\<open>az_resolver.py\<close>): ranking by score,
    resolution of zones, candidates for zone, datacenter and region fallback, the capacity probe.
  \<^item> \<open>Region_Fallback\<close> (\<^verbatim>\<open>provision/common/region_fallback.py\<close>): the two relocation loops over an interface of
    callables.  The locales \<open>region_backend\<close> and \<open>dc_backend\<close> state what a backend promises; inside them the
    loops are shown to end, to restore the placement on errors and to keep it valid otherwise.
  \<^item> \<open>Gce_Zones\<close>, \<open>Gce_Fallback\<close> (\<^verbatim>\<open>provision/gce\<close>): zones and candidates on GCE, classification of its errors, and
    the GCE backend, an interpretation of both locales.
  \<^item> \<open>Aws_Provisioner\<close>, \<open>Aws_Cluster\<close> (\<^verbatim>\<open>provision/aws/provisioner.py\<close>, \<^verbatim>\<open>provision/common/provision_plan.py\<close>,
    \<^verbatim>\<open>sct_provision/aws/cluster.py\<close>): launching a batch of instances on-demand or by spot requests, and the batches
    of a cluster.  A batch gives at most what was asked for, batches name every node once, and a successful
    provision is complete; for the DB cluster the exact condition under which its batches match is proved.
  \<^item> \<open>Capacity_Reservation\<close> (\<^verbatim>\<open>provision/aws/capacity_reservation.py\<close>, \<^verbatim>\<open>dedicated_host.py\<close>): reservations and hosts; no
    reservation is left behind unrecorded.
  \<^item> \<open>Aws_Relocation\<close>, \<open>Aws_Layout\<close> (\<^verbatim>\<open>provision/aws/region_fallback.py\<close>, \<^verbatim>\<open>sct_provision/aws/layout.py\<close>): moving a
    cluster or one of its datacenters to another region, and the loops that do so on capacity errors.  A run in one
    region restores its settings on errors.
  \<^item> \<open>Aws_Dc_Fallback\<close>: the loop over failing datacenters ends and restores or keeps a valid placement; a successful
    run has every DB node of every datacenter in the region the datacenter ended up in.

  \<^bold>\<open>Trigger matrix.\<close>
  \<^item> \<open>Regex\<close>, \<open>Trigger_Versions\<close> (\<^verbatim>\<open>versions.py\<close>): a matcher for the patterns in use, and branches,
    version tags, labels and job folders.
  \<^item> \<open>Trigger_Models\<close>, \<open>Trigger_Config\<close> (\<^verbatim>\<open>models.py\<close>, \<^verbatim>\<open>filters.py\<close>, \<^verbatim>\<open>parameters.py\<close>, \<^verbatim>\<open>config.py\<close>): jobs, selection, merging of parameters,
    and validation of a loaded matrix.
  \<^item> \<open>Trigger_Resolution\<close> (\<^verbatim>\<open>backends.py\<close>, \<^verbatim>\<open>images.py\<close>, \<^verbatim>\<open>resolution.py\<close>): targets, published images and the two strategies.
  \<^item> \<open>Jenkins_Client\<close>, \<open>Trigger_Matrix\<close> (\<^verbatim>\<open>jenkins_client.py\<close>, \<^verbatim>\<open>groovy.py\<close>, \<^verbatim>\<open>matrix.py\<close>, \<^verbatim>\<open>reporting.py\<close>): requests, literals of the
    follow-up script, waiting for builds, and the run as a whole.

  \<^bold>\<open>Events.\<close>
  \<^item> \<open>Event_Base\<close> (\<^verbatim>\<open>base.py\<close>, \<^verbatim>\<open>filters.py\<close>): severities and their limits, publication, log events, filters.
  \<^item> \<open>Event_Device\<close> (\<^verbatim>\<open>events_device.py\<close>, \<^verbatim>\<open>setup.py\<close>): the stream every consumer reads.  Collecting old filters is
    invisible: each event is judged by all the filters announced before it.
  \<^item> \<open>Continuous_Events\<close> (\<^verbatim>\<open>continuous_event.py\<close>, \<^verbatim>\<open>nemesis.py\<close>, \<^verbatim>\<open>database.py\<close>): the registry of running events; the
    contract of the registry is the locale \<open>event_registry\<close>.
  \<^item> \<open>Event_Log\<close> (\<^verbatim>\<open>file_logger.py\<close>), \<open>Event_Consumers\<close> (\<^verbatim>\<open>events_analyzer.py\<close>, \<^verbatim>\<open>event_counter.py\<close>, \<^verbatim>\<open>grafana.py\<close>,
    \<^verbatim>\<open>argus.py\<close>, \<^verbatim>\<open>event_handler.py\<close>): log files that read back what was written, and exact accounts of kills,
    counters and posted annotations.
  \<^item> \<open>Db_Log_Reader\<close> (\<^verbatim>\<open>db_log_reader.py\<close>): following a growing log and attaching backtraces.
  The processes run one after the other over lists; the transport between them (sockets, queues, pickling) is the
  list.  Readings of clocks come with the items of the lists.

  \<^bold>\<open>Not modelled.\<close>  Code that drives live machines or services and whose content is the sequence of remote
  commands: the cluster classes (\<^verbatim>\<open>cluster.py\<close>, \<^verbatim>\<open>cluster_aws.py\<close>, \<^verbatim>\<open>cluster_k8s\<close> and the other backends), the
  disruptions, the stress threads and loaders, the test classes (\<^verbatim>\<open>tester.py\<close> and the tests at the top level),
  log collection and monitoring, the start and stop of the event processes; tables of CQL statements (\<^verbatim>\<open>fill_db_data.py\<close>); and command line wiring
  (\<^verbatim>\<open>sct.py\<close>).  The configuration model (\<^verbatim>\<open>sct_config\<close>) is seen through the parameters the modelled code reads.
\<close>

section \<open>From a published event to the end of the test\<close>

lemma find_delivered:
  "(case List.find (\<lambda>(t, cls, e). P cls e) (map (\<lambda>(c, e). (True, c, e)) ps) of
      Some (True, cls, e) \<Rightarrow> [g cls e] | _ \<Rightarrow> []) \<noteq> [] \<longleftrightarrow> list_ex (\<lambda>(c, e). P c e) ps"
  by (induction ps) auto



end
